(* ===== verification/Prelude.thy ===== *)
theory Prelude
  imports Main "HOL-Library.AList" "HOL-Library.Word"
begin

text \<open>
  Shared vocabulary of the development.

  \<^item> Outcomes. A Rust function that returns \<open>Result<T>\<close> and mutates its receiver is a HOL function
    into \<open>(fault + 'a) \<times> 's\<close>: the state survives an early return, so partially applied effects of a
    failing call stay visible. A \<open>panic!\<close>, a failed \<open>unwrap\<close>/\<open>expect\<close> or an index out of range is
    the fault \<open>Panic\<close>; every other error is \<open>Errno e\<close>.
  \<^item> Hash maps and B-tree maps keyed by integers are association lists with distinct keys, read
    with \<^const>\<open>map_of\<close> and written with \<^const>\<open>AList.update\<close>, \<^const>\<open>AList.delete\<close> and
    \<^const>\<open>AList.map_entry\<close>. The order of the list stands for the (unspecified) iteration order; a
    theorem about every list is a theorem about every iteration order.
  \<^item> Reachability. A daemon is an initial state and a step function over requests; \<open>reach\<close> collects
    the states it can be in and the locale \<open>daemon_invariant\<close> lifts one-request preservation to them.
\<close>

section \<open>Error values and outcomes\<close>

text \<open>The error numbers of the \<open>syscall\<close> crate the sources use, by name.\<close>

datatype errno =
    EPERM | ENOENT | ESRCH | EINTR | EIO | EBADF | ECHILD | EAGAIN | EWOULDBLOCK | ENOMEM | EACCES
  | EEXIST | ENOTDIR | EISDIR | EINVAL | ENFILE | EPIPE | ERANGE | ENOSYS | ENOTEMPTY | EOVERFLOW
  | EBADFD | EOPNOTSUPP | ECANCELED | EOWNERDEAD | ERESTART | ENOLCK | EBUSY | ENODEV | ENXIO | EXDEV | EROFS
  | EADDRINUSE | EADDRNOTAVAIL | EAFNOSUPPORT | ECONNABORTED | ECONNREFUSED | ECONNRESET | EDESTADDRREQ
  | EINPROGRESS | EALREADY | EISCONN | ENOTCONN | EMSGSIZE | ENOPROTOOPT | EPROTOTYPE | EPROTONOSUPPORT
  | ENOBUFS | ETIMEDOUT | EHOSTUNREACH | ENAMETOOLONG | EMFILE | EFAULT | ENOTSOCK | EPROTO | ENOTTY | ESPIPE | ENOSPC
  | ENODATA | EBADMSG | ENOEXEC | ELOOP | EMLINK | EDOM | E2BIG | EOther nat

datatype fault = Errno errno | Panic

type_synonym ('a, 's) outcome = "(fault + 'a) \<times> 's"
type_synonym u8 = "8 word"
type_synonym u16 = "16 word"
type_synonym u32 = "32 word"
type_synonym u64 = "64 word"
type_synonym bytes = "8 word list"

abbreviation fail :: "errno \<Rightarrow> 's \<Rightarrow> ('a, 's) outcome" where
  "fail e s \<equiv> (Inl (Errno e), s)"

abbreviation panic :: "'s \<Rightarrow> ('a, 's) outcome" where
  "panic s \<equiv> (Inl Panic, s)"

abbreviation ok :: "'a \<Rightarrow> 's \<Rightarrow> ('a, 's) outcome" where
  "ok x s \<equiv> (Inr x, s)"

text \<open>Sequencing with early return: the \<open>?\<close> operator.\<close>

definition bind_out :: "('a, 's) outcome \<Rightarrow> ('a \<Rightarrow> 's \<Rightarrow> ('b, 's) outcome) \<Rightarrow> ('b, 's) outcome" where
  "bind_out r k = (case r of (Inl f, s) \<Rightarrow> (Inl f, s) | (Inr x, s) \<Rightarrow> k x s)"

lemma bind_out_simps [simp]:
  "bind_out (Inl f, s) k = (Inl f, s)" "bind_out (Inr x, s) k = k x s"
  by (simp_all add: bind_out_def)

lemma bind_out_state:
  "P (snd r) \<Longrightarrow> (\<And>x t. r = (Inr x, t) \<Longrightarrow> P (snd (k x t))) \<Longrightarrow> P (snd (bind_out r k))"
  by (cases r) (auto simp: bind_out_def split: sum.split)

section \<open>Reachable states of a daemon\<close>

text \<open>
  \<open>env s r\<close> says which requests the environment may send in state \<open>s\<close> (for example: the kernel
  only names file descriptors it was given).
\<close>

inductive reach :: "'s \<Rightarrow> ('s \<Rightarrow> 'r \<Rightarrow> 's) \<Rightarrow> ('s \<Rightarrow> 'r \<Rightarrow> bool) \<Rightarrow> 's \<Rightarrow> bool"
  for init :: 's and step :: "'s \<Rightarrow> 'r \<Rightarrow> 's" and env :: "'s \<Rightarrow> 'r \<Rightarrow> bool" where
  reach_init: "reach init step env init"
| reach_step: "reach init step env s \<Longrightarrow> env s r \<Longrightarrow> reach init step env (step s r)"

locale daemon_invariant =
  fixes init :: 's and step :: "'s \<Rightarrow> 'r \<Rightarrow> 's" and env :: "'s \<Rightarrow> 'r \<Rightarrow> bool"
    and inv :: "'s \<Rightarrow> bool"
  assumes init_inv: "inv init"
    and step_inv: "inv s \<Longrightarrow> env s r \<Longrightarrow> inv (step s r)"
begin

lemma reach_inv: "reach init step env s \<Longrightarrow> inv s"
  by (induction rule: reach.induct) (auto intro: init_inv step_inv)

end

section \<open>Association lists\<close>

named_theorems alist_simps \<open>lookup after update, delete and map_entry\<close>

lemmas [alist_simps] = AList.update_conv' AList.delete_conv' AList.map_of_map_entry

declare map_of_eq_Some_iff [simp del] Some_eq_map_of_iff [simp del]

lemma map_of_Some_in_keys: "map_of al k = Some v \<Longrightarrow> k \<in> fst ` set al"
  by (metis domI dom_map_of_conv_image_fst)

lemma map_fst_map_entry [simp]: "map fst (AList.map_entry k f al) = map fst al"
  by (induction al) auto

lemma map_of_eq_Some_set:
  "distinct (map fst al) \<Longrightarrow> (map_of al k = Some v) = ((k, v) \<in> set al)"
  by (auto intro: map_of_is_SomeI dest: map_of_SomeD)

lemma distinct_keys_delete [simp]:
  "distinct (map fst al) \<Longrightarrow> distinct (map fst (AList.delete k al))"
  by (simp add: AList.distinct_delete)

lemma distinct_keys_update [simp]:
  "distinct (map fst al) \<Longrightarrow> distinct (map fst (AList.update k v al))"
  by (rule AList.distinct_update)

section \<open>Words\<close>

lemma unat_ucast_u32: "unat (ucast (w :: u32) :: u64) = unat w"
proof -
  have "unat w < 2 ^ 32" using unsigned_less[of w, where 'a = nat] by simp
  then have "unat w < 2 ^ 64" by simp
  then show ?thesis by (simp add: unsigned_ucast_eq take_bit_nat_eq_self)
qed

end
