(* ===== verification/Procmgr_State.thy ===== *)
theory Procmgr_State
  imports Prelude
begin

text \<open>
  The data of the process manager (\<^verbatim>\<open>bootstrap/src/procmgr.rs\<close>): processes, threads, process groups,
  handles, pending requests and the wait-status map of a process.

  \<^item> \<open>Rc<RefCell<Process>>\<close> lives only in \<open>ProcScheme::processes\<close>, and process identifiers come from a
    counter that never goes back, so a \<open>Weak<RefCell<Process>>\<close> is the process identifier and
    \<open>upgrade\<close> is the lookup in \<open>processes\<close>.
  \<^item> \<open>Rc<RefCell<Thread>>\<close> lives only in \<open>Process::threads\<close>. File descriptor numbers may be reused, so
    a \<open>Weak<RefCell<Thread>>\<close> is a thread identity \<open>tid\<close> of its own, drawn from the counter
    \<open>next_tid\<close>, and \<open>upgrade\<close> finds the thread that has it.
  \<^item> Calls into the kernel and into the crates \<open>syscall\<close>, \<open>libredox\<close>, \<open>slab\<close> and \<open>plain\<close> are the fields of the
    record \<open>ext\<close>, an argument of every operation that makes them: the answers the code gets while it
    handles one request. \<open>hash_iter\<close> is the iteration order of a temporary hash map. What the code asks of the kernel is appended to \<open>klog\<close>.
\<close>

section \<open>Processes and threads\<close>

type_synonym pid = nat
type_synonym tid = nat

datatype virtual_id = KernelId nat | InternalId nat

datatype process_status =
    PossiblyRunnable
  | Stopped nat
  | Exiting "u8 option" u8
  | Exited "u8 option" u8

datatype waitpid_status =
    Continued
  | WStopped u8
  | Terminated "u8 option" u8

record waitpid_key =
  wk_pid :: "pid option"
  wk_pgid :: "pid option"

type_synonym waitpid_map = "(waitpid_key \<times> pid \<times> waitpid_status) list"

record sender_info =
  si_pid :: u32
  si_ruid :: u32

text \<open>
  \<open>SigProcControl\<close> and \<open>Sigcontrol\<close> are pages shared with the process. The manager touches the pending
  word, the sender array and, through \<open>signal_will_ign\<close> and \<open>signal_will_stop\<close>, the actions.
\<close>

record sig_proc_control =
  pending :: u64
  pc_sender_infos :: "nat \<Rightarrow> sender_info"
  pc_actions :: "u64 list"

record sigcontrol =
  tc_word :: "nat \<Rightarrow> u64"
  tc_sender_infos :: "nat \<Rightarrow> sender_info"

record thread =
  t_tid :: tid
  t_fd :: nat
  status_hndl :: nat
  t_pid :: pid
  sig_ctrl :: "sigcontrol option"

record process =
  p_threads :: "thread list"
  p_pid :: pid
  p_ppid :: pid
  p_pgid :: pid
  p_sid :: pid
  p_name :: bytes
  p_prio :: u32
  p_ruid :: u32
  p_euid :: u32
  p_suid :: u32
  p_rgid :: u32
  p_egid :: u32
  p_sgid :: u32
  p_status :: process_status
  p_disabled_setpgid :: bool
  p_awaiting_threads_term :: "virtual_id list"
  p_waitpid :: waitpid_map
  p_waitpid_waiting :: "virtual_id list"
  p_sig_pctl :: "sig_proc_control option"
  p_rtqs :: "bytes list list"

section \<open>Handles, pending requests and the scheme\<close>

datatype handle =
    HInit
  | HProc pid
  | HThread tid
  | HPs bytes
  | HProcCredsCapability
  | HSchemeRoot

datatype waitpid_target =
    SingleProc pid
  | ProcGroup pid
  | AnyChild
  | AnyGroupMember

record wait_flags =
  wnohang :: bool
  wuntraced :: bool
  wcontinued :: bool

text \<open>
  A call request that is answered later keeps its tag and, for \<open>waitpid\<close>, whether its payload can be
  read as an \<open>i32\<close> (\<open>plain::from_mut_bytes\<close>).
\<close>

record op_call =
  op_tag :: nat
  op_status_slot :: bool

datatype pending_state =
    AwaitingStatusChange pid waitpid_target wait_flags op_call
  | AwaitingThreadsTermination pid "nat option"
  | Placeholder

record response =
  r_tag :: nat
  r_result :: "errno + nat"
  r_status :: "u32 option"
  r_data :: bytes

text \<open>\<open>ContextVerb\<close> values written to a thread's status handle; \<open>VRaw\<close> is a plain word.\<close>

datatype verb = VStop | VUnstop | VInterrupt | VForceKill | VRaw u64

record proc_meta =
  m_pid :: u32
  m_pgid :: u32
  m_ppid :: u32
  m_ruid :: u32
  m_euid :: u32
  m_suid :: u32
  m_rgid :: u32
  m_egid :: u32
  m_sgid :: u32
  m_ens :: u32
  m_rns :: u32

text \<open>\<open>Poll\<close> of the standard library.\<close>

datatype 'a poll = Ready 'a | Pending

text \<open>\<open>ContextStatus\<close> as the event loop reads it from a thread's status handle.\<close>

datatype context_status = CtxDead | CtxForceKilled | CtxUnhandledExcp | CtxOther

record proc_scheme_attrs =
  at_pid :: u32
  at_euid :: u32
  at_egid :: u32
  at_prio :: u32
  at_debug_name :: bytes

datatype kcall =
    StatusWrite nat verb
  | AttrsWrite nat proc_scheme_attrs
  | Subscribe nat
  | Unsubscribe nat

record proc_scheme =
  processes :: "(pid \<times> process) list"
  groups :: "(pid \<times> pid list) list"
  sessions :: "pid list"
  handles :: "(nat \<times> handle) list"
  thread_lookup :: "(nat \<times> tid) list"
  next_internal_id :: nat
  init_claimed :: bool
  next_id :: pid
  next_tid :: tid
  states :: "(virtual_id \<times> pending_state) list"
  awoken :: "virtual_id list"
  klog :: "kcall list"

definition INIT_PID :: pid where
  "INIT_PID = 1"

definition NAME_CAPAC :: nat where
  "NAME_CAPAC = 32"

section \<open>Code outside the repository\<close>

datatype proc_call =
    CExit | CWaitpid | CWaitpgid | CSetpgid | CGetsid | CGetppid | CSetsid | CSetResugid | CKill | CSigq
  | CSyncSigPctl | CSigdeq | CRename | CDisableSetpgid | CGetProcCredentials | CSetrens
  | CSetProcPriority | CGetProcPriority

datatype thread_call = CSyncSigTctl | CSignalThread

datatype proc_kill_target =
    KSingleProc pid
  | KAll
  | KProcGroup pid
  | KThisGroup

record ext =
  SIGHUP :: nat
  SIGKILL :: nat
  SIGCHLD :: nat
  SIGCONT :: nat
  SIGSTOP :: nat
  SIGTSTP :: nat
  SIGTTIN :: nat
  SIGTTOU :: nat
  sig_bit :: "nat \<Rightarrow> u64"
  signal_will_ign :: "sig_proc_control \<Rightarrow> nat \<Rightarrow> bool \<Rightarrow> bool"
  signal_will_stop :: "sig_proc_control \<Rightarrow> nat \<Rightarrow> bool"
  hash_iter :: "pid list \<Rightarrow> pid list"
  read_status :: "nat \<Rightarrow> context_status option"
  slab_vacant :: "(nat \<times> handle) list \<Rightarrow> nat"
  obtain_fd :: "errno + nat"
  new_context :: "errno + nat"
  dup_status :: "nat \<Rightarrow> errno + nat"
  dup_attrs :: "nat \<Rightarrow> errno + nat"
  dup_sighandler :: "nat \<Rightarrow> errno + nat"
  dup_raw :: "nat \<Rightarrow> bytes \<Rightarrow> errno + nat"
  subscribe_ok :: "nat \<Rightarrow> bool"
  write_status :: "nat \<Rightarrow> verb \<Rightarrow> errno option"
  write_attrs :: "nat \<Rightarrow> proc_scheme_attrs \<Rightarrow> errno option"
  map_tctl :: "nat \<Rightarrow> errno + sigcontrol"
  map_pctl :: "nat \<Rightarrow> errno + sig_proc_control"
  proc_call_of_raw :: "u64 \<Rightarrow> proc_call option"
  thread_call_of_raw :: "u64 \<Rightarrow> thread_call option"
  kill_target_of_raw :: "u64 \<Rightarrow> proc_kill_target"
  wait_flags_of_bits :: "u64 \<Rightarrow> wait_flags option"
  rt_sig_info_size :: nat
  rt_sig_info_aligned :: bool
  proc_meta_bytes :: "proc_meta \<Rightarrow> bytes"
  proc_meta_size :: nat
  MODE_FILE :: u16
  O_ACCMODE :: u64
  O_RDONLY :: u64

end
