(* ===== verification/BTree_Map.thy ===== *)
theory BTree_Map
  imports Prelude
begin

text \<open>
  \<open>BTreeMap\<close> of the standard library.

  \<^item> A map is its in-order list of entries. Search compares the key with the entries from the front:
    \<open>Greater\<close> goes on, \<open>Equal\<close> is a hit and \<open>Less\<close> ends the search. That is what the standard library
    does in a leaf, which holds up to 11 entries; for comparisons that agree with the order of the
    entries it is what it does in a tree of any size. \<open>insert\<close> on a hit keeps the stored key and replaces
    the value. \<open>append\<close> merges the two sorted sequences, the entry of the second winning where the keys
    are equal.
  \<^item> The locale \<open>btree_order\<close> states what a client must know of the comparison: on the keys that are
    stored it is the comparison of a rank, and the keys that are looked up compare by the same rank.
    Inside it the map operations are shown to be those of a finite map over ranks.
  \<^item> For keys of a linear order, such as \<open>usize\<close>, the locale is interpreted with the key as its rank, and
    the operations are written \<open>bm_get\<close>, \<open>bm_insert\<close>, \<open>bm_remove\<close> and \<open>bm_modify\<close> (\<open>get_mut\<close>).
\<close>

section \<open>Definitions\<close>

datatype ordering = Less | Equal | Greater

definition lin_cmp :: "'a::linorder \<Rightarrow> 'a \<Rightarrow> ordering" where
  "lin_cmp a b = (if a < b then Less else if a = b then Equal else Greater)"

fun bt_get :: "('k \<Rightarrow> 'k \<Rightarrow> ordering) \<Rightarrow> 'k \<Rightarrow> ('k \<times> 'v) list \<Rightarrow> ('k \<times> 'v) option" where
  "bt_get c k [] = None"
| "bt_get c k ((k', v) # m) =
     (case c k k' of Greater \<Rightarrow> bt_get c k m | Equal \<Rightarrow> Some (k', v) | Less \<Rightarrow> None)"

fun bt_insert :: "('k \<Rightarrow> 'k \<Rightarrow> ordering) \<Rightarrow> 'k \<Rightarrow> 'v \<Rightarrow> ('k \<times> 'v) list \<Rightarrow> ('k \<times> 'v) list" where
  "bt_insert c k v [] = [(k, v)]"
| "bt_insert c k v ((k', v') # m) =
     (case c k k' of
        Greater \<Rightarrow> (k', v') # bt_insert c k v m
      | Equal \<Rightarrow> (k', v) # m
      | Less \<Rightarrow> (k, v) # (k', v') # m)"

fun bt_remove :: "('k \<Rightarrow> 'k \<Rightarrow> ordering) \<Rightarrow> 'k \<Rightarrow> ('k \<times> 'v) list \<Rightarrow> ('k \<times> 'v) list" where
  "bt_remove c k [] = []"
| "bt_remove c k ((k', v') # m) =
     (case c k k' of
        Greater \<Rightarrow> (k', v') # bt_remove c k m
      | Equal \<Rightarrow> m
      | Less \<Rightarrow> (k', v') # m)"

fun bt_append :: "('k \<Rightarrow> 'k \<Rightarrow> ordering) \<Rightarrow> ('k \<times> 'v) list \<Rightarrow> ('k \<times> 'v) list \<Rightarrow> ('k \<times> 'v) list" where
  "bt_append c [] b = b"
| "bt_append c a [] = a"
| "bt_append c ((k, v) # a) ((k', v') # b) =
     (case c k k' of
        Less \<Rightarrow> (k, v) # bt_append c a ((k', v') # b)
      | Equal \<Rightarrow> (k', v') # bt_append c a b
      | Greater \<Rightarrow> (k', v') # bt_append c ((k, v) # a) b)"

definition bt_first :: "('k \<times> 'v) list \<Rightarrow> ('k \<times> 'v) option" where
  "bt_first m = (case m of [] \<Rightarrow> None | e # _ \<Rightarrow> Some e)"

section \<open>Search trees over a ranked order\<close>

locale btree_order =
  fixes c :: "'k \<Rightarrow> 'k \<Rightarrow> ordering" and rank :: "'k \<Rightarrow> 'r::linorder"
    and stored :: "'k \<Rightarrow> bool" and probe :: "'k \<Rightarrow> bool"
  assumes cmp_rank: "probe k \<Longrightarrow> stored k' \<Longrightarrow> c k k' = lin_cmp (rank k) (rank k')"
    and stored_probe: "stored k \<Longrightarrow> probe k"
begin

abbreviation ranks :: "('k \<times> 'v) list \<Rightarrow> 'r list" where
  "ranks m \<equiv> map (\<lambda>e. rank (fst e)) m"

definition bt_ok :: "('k \<times> 'v) list \<Rightarrow> bool" where
  "bt_ok m \<longleftrightarrow> (\<forall>e\<in>set m. stored (fst e)) \<and> sorted_wrt (<) (ranks m)"

definition bt_map :: "('k \<times> 'v) list \<Rightarrow> 'r \<Rightarrow> 'v option" where
  "bt_map m = map_of (map (\<lambda>e. (rank (fst e), snd e)) m)"

lemma bt_map_Cons: "bt_map ((k, v) # m) = (bt_map m)(rank k \<mapsto> v)"
  by (simp add: bt_map_def)

lemma bt_ok_Cons:
  "bt_ok ((k, v) # m) \<longleftrightarrow> stored k \<and> (\<forall>e\<in>set m. rank k < rank (fst e)) \<and> bt_ok m"
  by (auto simp: bt_ok_def)

lemma bt_map_None: "\<forall>e\<in>set m. r < rank (fst e) \<Longrightarrow> bt_map m r = None"
  by (force simp: bt_map_def map_of_eq_None_iff)

lemma bt_get_correct:
  "bt_ok m \<Longrightarrow> probe k \<Longrightarrow> map_option snd (bt_get c k m) = bt_map m (rank k)"
proof (induction m)
  case (Cons e m)
  obtain k' v where e: "e = (k', v)" by (cases e)
  have "rank k < rank k' \<Longrightarrow> bt_map m (rank k) = None"
    using Cons.prems by (intro bt_map_None) (force simp: e bt_ok_Cons)
  with Cons show ?case
    by (auto simp: e bt_ok_Cons bt_map_Cons cmp_rank lin_cmp_def)
qed (simp add: bt_map_def)

lemma bt_get_key: "bt_ok m \<Longrightarrow> probe k \<Longrightarrow> bt_get c k m = Some (k', v) \<Longrightarrow> rank k' = rank k"
proof (induction m)
  case (Cons e m)
  then show ?case
    by (cases e) (auto simp: bt_ok_Cons cmp_rank lin_cmp_def split: if_splits)
qed simp

lemma bt_insert_keys: "e \<in> set (bt_insert c k v m) \<Longrightarrow> fst e = k \<or> fst e \<in> fst ` set m"
  by (induction m) (auto split: ordering.splits)

lemma bt_insert_ok: "stored k \<Longrightarrow> bt_ok m \<Longrightarrow> bt_ok (bt_insert c k v m)"
proof (induction m)
  case Nil
  then show ?case by (simp add: bt_ok_def)
next
  case (Cons e m)
  obtain k' v' where e: "e = (k', v')" by (cases e)
  have "rank k' < rank k \<Longrightarrow> \<forall>x\<in>set (bt_insert c k v m). rank k' < rank (fst x)"
    using Cons.prems by (fastforce simp: e bt_ok_Cons dest: bt_insert_keys)
  with Cons stored_probe[of k] show ?case
    by (force simp: e bt_ok_Cons cmp_rank lin_cmp_def)
qed

lemma bt_insert_map: "stored k \<Longrightarrow> bt_ok m \<Longrightarrow> bt_map (bt_insert c k v m) = (bt_map m)(rank k \<mapsto> v)"
proof (induction m)
  case Nil
  then show ?case by (simp add: bt_map_def fun_eq_iff)
next
  case (Cons e m)
  then show ?case
    using stored_probe[of k]
    by (cases e) (auto simp: bt_ok_Cons bt_map_Cons cmp_rank lin_cmp_def fun_eq_iff)
qed

lemma bt_remove_ok: "probe k \<Longrightarrow> bt_ok m \<Longrightarrow> bt_ok (bt_remove c k m) \<and> set (bt_remove c k m) \<subseteq> set m"
proof (induction m)
  case (Cons e m)
  then show ?case
    by (cases e) (auto simp: bt_ok_Cons cmp_rank lin_cmp_def)
qed (simp add: bt_ok_def)

lemma bt_remove_map: "probe k \<Longrightarrow> bt_ok m \<Longrightarrow> bt_map (bt_remove c k m) = (bt_map m)(rank k := None)"
proof (induction m)
  case Nil
  then show ?case by (simp add: bt_map_def fun_eq_iff)
next
  case (Cons e m)
  obtain k' v where e: "e = (k', v)" by (cases e)
  have "rank k \<le> rank k' \<Longrightarrow> bt_map m (rank k) = None"
    using Cons.prems by (intro bt_map_None) (force simp: e bt_ok_Cons)
  with Cons show ?case
    by (auto simp: e bt_ok_Cons bt_map_Cons cmp_rank lin_cmp_def fun_eq_iff)
qed

lemma bt_append_keys: "set (bt_append c a b) \<subseteq> set a \<union> set b"
  by (induction c a b rule: bt_append.induct) (auto split: ordering.splits)

lemma bt_append_bound:
  "\<forall>e\<in>set a. r < rank (fst e) \<Longrightarrow> \<forall>e\<in>set b. r < rank (fst e) \<Longrightarrow>
   \<forall>e\<in>set (bt_append c a b). r < rank (fst e)"
  using bt_append_keys[of a b] by blast

lemma bt_append_ok: "bt_ok a \<Longrightarrow> bt_ok b \<Longrightarrow> bt_ok (bt_append c a b)"
proof (induction c' \<equiv> c a b rule: bt_append.induct)
  case (3 k v a k' v' b)
  have cmp: "c k k' = lin_cmp (rank k) (rank k')"
    using "3.prems" stored_probe by (auto simp: bt_ok_Cons intro: cmp_rank)
  consider (lt) "rank k < rank k'" | (eq) "rank k = rank k'" | (gt) "rank k' < rank k" by (rule linorder_cases)
  then show ?case
  proof cases
    case lt
    with "3.prems" have "\<forall>e\<in>set (bt_append c a ((k', v') # b)). rank k < rank (fst e)"
      by (intro bt_append_bound) (force simp: bt_ok_Cons)+
    with lt 3 cmp show ?thesis by (simp add: bt_ok_Cons lin_cmp_def)
  next
    case eq
    with "3.prems" have "\<forall>e\<in>set (bt_append c a b). rank k' < rank (fst e)"
      by (intro bt_append_bound) (force simp: bt_ok_Cons)+
    with eq 3 cmp show ?thesis by (simp add: bt_ok_Cons lin_cmp_def)
  next
    case gt
    with "3.prems" have "\<forall>e\<in>set (bt_append c ((k, v) # a) b). rank k' < rank (fst e)"
      by (intro bt_append_bound) (force simp: bt_ok_Cons)+
    with gt 3 cmp show ?thesis by (simp add: bt_ok_Cons lin_cmp_def)
  qed
qed auto

lemma bt_append_map: "bt_ok a \<Longrightarrow> bt_ok b \<Longrightarrow> bt_map (bt_append c a b) = bt_map a ++ bt_map b"
proof (induction c' \<equiv> c a b rule: bt_append.induct)
  case (1 b)
  then show ?case by (simp add: bt_map_def)
next
  case (2 v va)
  then show ?case by (simp add: bt_map_def)
next
  case (3 k v a k' v' b)
  have cmp: "c k k' = lin_cmp (rank k) (rank k')"
    using "3.prems" stored_probe by (auto simp: bt_ok_Cons intro: cmp_rank)
  have b: "rank k < rank k' \<Longrightarrow> bt_map b (rank k) = None"
    using "3.prems" by (intro bt_map_None) (force simp: bt_ok_Cons)
  consider "rank k < rank k'" | "rank k = rank k'" | "rank k' < rank k" by (rule linorder_cases)
  then show ?case
    using b 3 cmp by cases (auto simp: bt_ok_Cons bt_map_Cons lin_cmp_def map_add_def fun_eq_iff split: option.splits)
qed

end

section \<open>Any comparison\<close>

lemma bt_get_in: "bt_get c k m = Some e \<Longrightarrow> e \<in> set m"
  by (induction m) (auto split: ordering.splits)

lemma bt_remove_subset: "set (bt_remove c k m) \<subseteq> set m"
  by (induction m) (auto split: ordering.splits)

lemma bt_remove_sorted: "sorted_wrt P (map f m) \<Longrightarrow> sorted_wrt P (map f (bt_remove c k m))"
proof (induction m)
  case (Cons e m)
  then show ?case
    using bt_remove_subset[of c k m] by (cases e) (auto split: ordering.splits)
qed simp

section \<open>Keys of a linear order\<close>

interpretation lin: btree_order lin_cmp "\<lambda>k. k" "\<lambda>_. True" "\<lambda>_. True"
  by unfold_locales simp_all

definition bm_get :: "'k::linorder \<Rightarrow> ('k \<times> 'v) list \<Rightarrow> 'v option" where
  "bm_get k m = map_option snd (bt_get lin_cmp k m)"

definition bm_insert :: "'k::linorder \<Rightarrow> 'v \<Rightarrow> ('k \<times> 'v) list \<Rightarrow> ('k \<times> 'v) list" where
  "bm_insert k v m = bt_insert lin_cmp k v m"

definition bm_remove :: "'k::linorder \<Rightarrow> ('k \<times> 'v) list \<Rightarrow> ('k \<times> 'v) list" where
  "bm_remove k m = bt_remove lin_cmp k m"

definition bm_modify :: "'k::linorder \<Rightarrow> ('v \<Rightarrow> 'v) \<Rightarrow> ('k \<times> 'v) list \<Rightarrow> ('k \<times> 'v) list" where
  "bm_modify k f m = AList.map_entry k f m"

definition bm_ok :: "('k::linorder \<times> 'v) list \<Rightarrow> bool" where
  "bm_ok m \<longleftrightarrow> sorted_wrt (<) (map fst m)"

lemma bm_ok_bt_ok: "bm_ok m \<longleftrightarrow> lin.bt_ok m"
  by (simp add: bm_ok_def lin.bt_ok_def)

lemma lin_bt_map: "lin.bt_map m = map_of m"
  by (simp add: lin.bt_map_def)

named_theorems bm_simps \<open>lookup in a map over a linear order\<close>

lemma bm_get_map [bm_simps]: "bm_ok m \<Longrightarrow> bm_get k m = map_of m k"
  using lin.bt_get_correct[where k = k and m = m] by (simp add: bm_get_def bm_ok_bt_ok lin_bt_map)

lemma bm_insert_map [bm_simps]: "bm_ok m \<Longrightarrow> map_of (bm_insert k v m) = (map_of m)(k \<mapsto> v)"
  using lin.bt_insert_map[where k = k and m = m and v = v] by (simp add: bm_insert_def bm_ok_bt_ok lin_bt_map)

lemma bm_remove_map [bm_simps]: "bm_ok m \<Longrightarrow> map_of (bm_remove k m) = (map_of m)(k := None)"
  using lin.bt_remove_map[where k = k and m = m] by (simp add: bm_remove_def bm_ok_bt_ok lin_bt_map)

lemma bm_modify_map [bm_simps]: "map_of (bm_modify k f m) = (map_of m)(k := map_option f (map_of m k))"
  by (simp add: bm_modify_def AList.map_of_map_entry split: option.split)

lemma bm_ok_ops [simp]:
  "bm_ok []" "bm_ok [e]" "bm_ok m \<Longrightarrow> bm_ok (bm_insert k v m)" "bm_ok m \<Longrightarrow> bm_ok (bm_remove k m)"
  "bm_ok (bm_modify k f m) = bm_ok m"
  using lin.bt_insert_ok[where k = k and m = m and v = v] lin.bt_remove_ok[where k = k and m = m]
  by (simp_all add: bm_insert_def bm_remove_def flip: bm_ok_bt_ok) (simp_all add: bm_ok_def bm_modify_def)

lemma bm_insert_same: "bm_ok m \<Longrightarrow> map_of m k = Some v \<Longrightarrow> bm_insert k v m = m"
proof (induction m)
  case (Cons e m)
  obtain k' v' where e: "e = (k', v')" by (cases e)
  have "k < k' \<Longrightarrow> map_of m k = None"
    using Cons.prems(1) by (auto simp: e bm_ok_def map_of_eq_None_iff dest: less_trans)
  with Cons show ?case
    by (auto simp: e bm_ok_def bm_insert_def lin_cmp_def split: if_splits)
qed simp

end
