(* ===== verification/Waitpid_Map.thy ===== *)
theory Waitpid_Map
  imports Procmgr_State BTree_Map
begin

text \<open>
  The map from wait keys to status changes that every process keeps (\<open>Process::waitpid\<close>), with the
  hand-written order of \<open>WaitpidKey\<close>.

  The comparison of two keys that carry a process identifier is the comparison of these, and on such
  keys the map is a finite map over process identifiers (interpretation \<open>wk\<close> of \<open>btree_order\<close>). It is not
  for keys that carry a group only.
\<close>

section \<open>Definitions\<close>

definition waitpid_key_cmp :: "waitpid_key \<Rightarrow> waitpid_key \<Rightarrow> ordering" where
  "waitpid_key_cmp self other =
     (case (wk_pid self, wk_pid other) of
        (Some s_pid, Some o_pid) \<Rightarrow> lin_cmp s_pid o_pid
      | _ \<Rightarrow>
         (case (wk_pgid self, wk_pgid other) of
            (Some s_pgid, Some o_pgid) \<Rightarrow> lin_cmp s_pgid o_pgid
          | _ \<Rightarrow>
             (if wk_pid self \<noteq> None then Greater
              else if wk_pid other \<noteq> None then Less
              else if wk_pgid self \<noteq> None then Greater
              else if wk_pgid other \<noteq> None then Less
              else Equal)))"

definition waitpid_key_eq :: "waitpid_key \<Rightarrow> waitpid_key \<Rightarrow> bool" where
  "waitpid_key_eq self other \<longleftrightarrow> waitpid_key_cmp self other = Equal"

abbreviation key_of_pid :: "pid \<Rightarrow> waitpid_key" where
  "key_of_pid p \<equiv> \<lparr>wk_pid = Some p, wk_pgid = None\<rparr>"

abbreviation key_of_pgid :: "pid \<Rightarrow> waitpid_key" where
  "key_of_pgid g \<equiv> \<lparr>wk_pid = None, wk_pgid = Some g\<rparr>"

abbreviation stored_key :: "pid \<Rightarrow> pid \<Rightarrow> waitpid_key" where
  "stored_key p g \<equiv> \<lparr>wk_pid = Some p, wk_pgid = Some g\<rparr>"

text \<open>
  What the manager keeps true of every wait map: each entry has a key with both parts, the process
  of the key is the process of the value, and the entries are in increasing order of process.
\<close>

definition wm_key_ok :: "waitpid_key \<times> pid \<times> waitpid_status \<Rightarrow> bool" where
  "wm_key_ok e \<longleftrightarrow> wk_pid (fst e) = Some (fst (snd e)) \<and> wk_pgid (fst e) \<noteq> None"

definition wm_ok :: "waitpid_map \<Rightarrow> bool" where
  "wm_ok m \<longleftrightarrow> list_all wm_key_ok m \<and> sorted_wrt (<) (map (\<lambda>e. fst (snd e)) m)"

text \<open>The abstract content of a wait map: the status recorded for a process.\<close>

definition wm_status :: "waitpid_map \<Rightarrow> pid \<Rightarrow> waitpid_status option" where
  "wm_status m = map_of (map snd m)"

text \<open>Keys as they are stored, keys that name a process, and the rank both compare by.\<close>

definition wk_full :: "waitpid_key \<Rightarrow> bool" where
  "wk_full k \<longleftrightarrow> wk_pid k \<noteq> None \<and> wk_pgid k \<noteq> None"

definition wk_has_pid :: "waitpid_key \<Rightarrow> bool" where
  "wk_has_pid k \<longleftrightarrow> wk_pid k \<noteq> None"

definition wk_rank :: "waitpid_key \<Rightarrow> pid" where
  "wk_rank k = (case wk_pid k of Some p \<Rightarrow> p | None \<Rightarrow> 0)"

interpretation wk: btree_order waitpid_key_cmp wk_rank wk_full wk_has_pid
  by unfold_locales (auto simp: waitpid_key_cmp_def wk_rank_def wk_full_def wk_has_pid_def)

section \<open>The wait map of a process\<close>

lemma wm_ok_Nil [simp]: "wm_ok []"
  by (simp add: wm_ok_def)

lemma wm_key_okD:
  "wm_key_ok e \<Longrightarrow> wk_full (fst e) \<and> wk_rank (fst e) = fst (snd e)"
  by (auto simp: wm_key_ok_def wk_full_def wk_rank_def)

lemma wm_ranks: "list_all wm_key_ok m \<Longrightarrow> map (\<lambda>e. wk_rank (fst e)) m = map (\<lambda>e. fst (snd e)) m"
  by (auto simp: list_all_iff dest: wm_key_okD)

lemma wm_ok_bt_ok: "wm_ok m \<Longrightarrow> wk.bt_ok m"
  by (auto simp: wm_ok_def wk.bt_ok_def wm_ranks list_all_iff dest: wm_key_okD)

lemma bt_ok_wm_ok: "wk.bt_ok m \<Longrightarrow> list_all wm_key_ok m \<Longrightarrow> wm_ok m"
  by (simp add: wm_ok_def wk.bt_ok_def wm_ranks)

lemma wm_status_bt_map: "wm_ok m \<Longrightarrow> wk.bt_map m p = map_option (Pair p) (wm_status m p)"
  by (induction m) (auto simp: wm_status_def wk.bt_map_def wm_ok_def dest: wm_key_okD)

lemma wm_status_eq: "wm_ok m \<Longrightarrow> wm_status m p = map_option snd (wk.bt_map m p)"
  by (cases "wm_status m p") (simp_all add: wm_status_bt_map)

lemma wm_remove_ok: "wm_ok m \<Longrightarrow> wm_ok (bt_remove c k m)"
  using bt_remove_subset[of c k m] by (auto simp: wm_ok_def list_all_iff bt_remove_sorted)

lemma wm_insert_ok: "wm_ok m \<Longrightarrow> wm_ok (bt_insert waitpid_key_cmp (stored_key p g) (p, st) m)"
proof (rule bt_ok_wm_ok)
  assume m: "wm_ok m"
  then show "wk.bt_ok (bt_insert waitpid_key_cmp (stored_key p g) (p, st) m)"
    by (intro wk.bt_insert_ok wm_ok_bt_ok) (simp_all add: wk_full_def)
  from m have "list_all wm_key_ok m" by (simp add: wm_ok_def)
  then show "list_all wm_key_ok (bt_insert waitpid_key_cmp (stored_key p g) (p, st) m)"
    by (induction m) (auto simp: wm_key_ok_def waitpid_key_cmp_def lin_cmp_def split: ordering.splits if_splits)
qed

lemma wm_insert_status:
  "wm_ok m \<Longrightarrow> wm_status (bt_insert waitpid_key_cmp (stored_key p g) (p, st) m) = (wm_status m)(p \<mapsto> st)"
  by (auto simp: fun_eq_iff wm_status_eq wm_insert_ok wm_ok_bt_ok wk.bt_insert_map wk_full_def wk_rank_def)

lemma wm_remove_status:
  "wm_ok m \<Longrightarrow> wk_pid k = Some p \<Longrightarrow> wm_status (bt_remove waitpid_key_cmp k m) = (wm_status m)(p := None)"
  by (auto simp: fun_eq_iff wm_status_eq wm_remove_ok wm_ok_bt_ok wk.bt_remove_map wk_has_pid_def wk_rank_def)

lemma wm_append_ok: "wm_ok a \<Longrightarrow> wm_ok b \<Longrightarrow> wm_ok (bt_append waitpid_key_cmp a b)"
  using wk.bt_append_keys[of a b] wk.bt_append_ok[OF wm_ok_bt_ok wm_ok_bt_ok, of a b]
  by (intro bt_ok_wm_ok) (auto simp: wm_ok_def list_all_iff)

lemma wm_append_status:
  "wm_ok a \<Longrightarrow> wm_ok b \<Longrightarrow> wm_status (bt_append waitpid_key_cmp a b) = wm_status a ++ wm_status b"
  by (auto simp: fun_eq_iff wm_status_eq wm_append_ok wm_ok_bt_ok wk.bt_append_map map_add_def
      split: option.splits)

lemma wm_get_pid:
  assumes "wm_ok m" and "wk_pid k = Some p"
  shows "map_option snd (bt_get waitpid_key_cmp k m) = map_option (Pair p) (wm_status m p)"
  using wk.bt_get_correct[OF wm_ok_bt_ok[OF assms(1)], of k] assms
  by (simp add: wm_status_bt_map wk_has_pid_def wk_rank_def)

lemmas wm_simps = wm_insert_ok wm_insert_status wm_remove_ok wm_remove_status wm_append_ok
  wm_append_status

end
