(* ===== verification/Procmgr_Inv.thy ===== *)
theory Procmgr_Inv
  imports Waitpid_Map
begin

text \<open>
  Access to the process table, and the well-formedness invariant of the process manager with the
  frame rules every operation's preservation proof rests on.
\<close>

section \<open>Definitions\<close>

definition proc_of :: "proc_scheme \<Rightarrow> pid \<Rightarrow> process option" where
  "proc_of s p = map_of (processes s) p"

definition group_of :: "proc_scheme \<Rightarrow> pid \<Rightarrow> pid list option" where
  "group_of s g = map_of (groups s) g"

text \<open>Mutation through \<open>RefCell::borrow_mut\<close> of an existing process.\<close>

definition upd_proc :: "pid \<Rightarrow> (process \<Rightarrow> process) \<Rightarrow> proc_scheme \<Rightarrow> proc_scheme" where
  "upd_proc p f s = s\<lparr>processes := AList.map_entry p f (processes s)\<rparr>"

definition logk :: "kcall list \<Rightarrow> proc_scheme \<Rightarrow> proc_scheme" where
  "logk ks s = s\<lparr>klog := klog s @ ks\<rparr>"

text \<open>\<open>awoken.extend(proc.waitpid_waiting.drain(..))\<close>\<close>

definition wake_waiters :: "pid \<Rightarrow> proc_scheme \<Rightarrow> proc_scheme" where
  "wake_waiters q s =
     (case proc_of s q of
        None \<Rightarrow> s
      | Some pr \<Rightarrow> upd_proc q (\<lambda>p. p\<lparr>p_waitpid_waiting := []\<rparr>)
                    (s\<lparr>awoken := awoken s @ p_waitpid_waiting pr\<rparr>))"

text \<open>All threads, and \<open>Weak::upgrade\<close> of a thread reference.\<close>

definition all_threads :: "proc_scheme \<Rightarrow> thread list" where
  "all_threads s = concat (map (\<lambda>e. p_threads (snd e)) (processes s))"

definition upgrade_thread :: "proc_scheme \<Rightarrow> tid \<Rightarrow> thread option" where
  "upgrade_thread s t = find (\<lambda>th. t_tid th = t) (all_threads s)"

subsection \<open>Well-formedness\<close>

definition exit_status_ok :: "process_status \<Rightarrow> bool" where
  "exit_status_ok st =
     (case st of
        Exiting (Some g) v \<Rightarrow> 1 \<le> g \<and> g \<le> 64 \<and> v = 0
      | Exited (Some g) v \<Rightarrow> 1 \<le> g \<and> g \<le> 64 \<and> v = 0
      | _ \<Rightarrow> True)"

definition proc_ok :: "pid \<Rightarrow> process \<Rightarrow> bool" where
  "proc_ok p pr \<longleftrightarrow>
     p_pid pr = p \<and> wm_ok (p_waitpid pr) \<and> exit_status_ok (p_status pr) \<and>
     length (p_rtqs pr) \<le> 32 \<and> (\<forall>q\<in>set (p_rtqs pr). length q \<le> 32) \<and>
     (\<forall>t\<in>set (p_threads pr). t_pid t = p) \<and>
     p_prio pr < 40 \<and> length (p_name pr) \<le> NAME_CAPAC"

definition procs_ok :: "proc_scheme \<Rightarrow> bool" where
  "procs_ok s \<longleftrightarrow>
     distinct (map fst (processes s)) \<and> INIT_PID < next_id s \<and>
     (\<forall>p pr. proc_of s p = Some pr \<longrightarrow> proc_ok p pr \<and> p < next_id s)"

definition glist_ok :: "pid list \<Rightarrow> bool" where
  "glist_ok ps \<longleftrightarrow> ps \<noteq> [] \<and> distinct ps"

definition groups_ok :: "proc_scheme \<Rightarrow> bool" where
  "groups_ok s \<longleftrightarrow>
     distinct (map fst (groups s)) \<and>
     (\<forall>g ps. group_of s g = Some ps \<longrightarrow>
        glist_ok ps \<and> (\<forall>p\<in>set ps. \<exists>pr. proc_of s p = Some pr \<and> p_pgid pr = g)) \<and>
     (\<forall>p pr. proc_of s p = Some pr \<longrightarrow> (\<exists>ps. group_of s (p_pgid pr) = Some ps \<and> p \<in> set ps))"

definition is_proc_handle :: "handle \<Rightarrow> bool" where
  "is_proc_handle h = (case h of HProc _ \<Rightarrow> True | _ \<Rightarrow> False)"

definition hvals :: "(nat \<times> handle) list \<Rightarrow> handle set" where
  "hvals hs = snd ` set hs"

definition init_handles :: "(nat \<times> handle) list \<Rightarrow> nat" where
  "init_handles hs = length (filter (\<lambda>e. snd e = HInit) hs)"

text \<open>
  Before the first process is handed over, at most one \<open>Init\<close> handle exists and nothing else does;
  once it is consumed there is none.
\<close>

definition boot_ok :: "proc_scheme \<Rightarrow> bool" where
  "boot_ok s \<longleftrightarrow>
     distinct (map fst (handles s)) \<and> init_handles (handles s) \<le> 1 \<and>
     (\<not> init_claimed s \<longrightarrow> HInit \<notin> hvals (handles s) \<and> processes s = []) \<and>
     (HInit \<in> hvals (handles s) \<or> \<not> init_claimed s \<longrightarrow>
        processes s = [] \<and> groups s = [] \<and> \<not> (\<exists>h\<in>hvals (handles s). is_proc_handle h))"

definition pm_inv :: "proc_scheme \<Rightarrow> bool" where
  "pm_inv s \<longleftrightarrow> procs_ok s \<and> groups_ok s \<and> boot_ok s"

section \<open>Frame rules\<close>

named_theorems pm_frame \<open>field selectors after the elementary state updates\<close>

lemma proc_of_fields [simp]:
  "proc_of (s\<lparr>groups := gs\<rparr>) = proc_of s" "proc_of (s\<lparr>sessions := ss\<rparr>) = proc_of s"
  "proc_of (s\<lparr>handles := hs\<rparr>) = proc_of s" "proc_of (s\<lparr>thread_lookup := tlk\<rparr>) = proc_of s"
  "proc_of (s\<lparr>next_internal_id := n\<rparr>) = proc_of s" "proc_of (s\<lparr>init_claimed := b\<rparr>) = proc_of s"
  "proc_of (s\<lparr>next_id := i\<rparr>) = proc_of s" "proc_of (s\<lparr>next_tid := t\<rparr>) = proc_of s"
  "proc_of (s\<lparr>states := st\<rparr>) = proc_of s" "proc_of (s\<lparr>awoken := a\<rparr>) = proc_of s"
  "proc_of (s\<lparr>klog := l\<rparr>) = proc_of s" "proc_of (logk ks s) = proc_of s"
  by (simp_all add: proc_of_def fun_eq_iff logk_def)

lemma group_of_fields [simp]:
  "group_of (s\<lparr>processes := ps\<rparr>) = group_of s" "group_of (s\<lparr>sessions := ss\<rparr>) = group_of s"
  "group_of (s\<lparr>handles := hs\<rparr>) = group_of s" "group_of (s\<lparr>thread_lookup := tlk\<rparr>) = group_of s"
  "group_of (s\<lparr>next_internal_id := n\<rparr>) = group_of s" "group_of (s\<lparr>init_claimed := b\<rparr>) = group_of s"
  "group_of (s\<lparr>next_id := i\<rparr>) = group_of s" "group_of (s\<lparr>next_tid := t\<rparr>) = group_of s"
  "group_of (s\<lparr>states := st\<rparr>) = group_of s" "group_of (s\<lparr>awoken := a\<rparr>) = group_of s"
  "group_of (s\<lparr>klog := l\<rparr>) = group_of s" "group_of (logk ks s) = group_of s"
  "group_of (upd_proc p f s) = group_of s" "group_of (wake_waiters q s) = group_of s"
  by (simp_all add: group_of_def fun_eq_iff logk_def upd_proc_def wake_waiters_def split: option.splits)

lemma proc_of_update_processes [simp]:
  "proc_of (s\<lparr>processes := AList.update p pr (processes s')\<rparr>) = (proc_of s')(p \<mapsto> pr)"
  "proc_of (s\<lparr>processes := AList.delete p (processes s')\<rparr>) = (proc_of s')(p := None)"
  by (simp_all add: proc_of_def fun_eq_iff alist_simps)

lemma group_of_update_groups [simp]:
  "group_of (s\<lparr>groups := AList.update g ps (groups s')\<rparr>) = (group_of s')(g \<mapsto> ps)"
  "group_of (s\<lparr>groups := AList.delete g (groups s')\<rparr>) = (group_of s')(g := None)"
  by (simp_all add: group_of_def fun_eq_iff alist_simps)

lemma fields_upd_proc [pm_frame]:
  "groups (upd_proc p f s) = groups s" "sessions (upd_proc p f s) = sessions s"
  "handles (upd_proc p f s) = handles s" "thread_lookup (upd_proc p f s) = thread_lookup s"
  "next_internal_id (upd_proc p f s) = next_internal_id s"
  "init_claimed (upd_proc p f s) = init_claimed s" "next_id (upd_proc p f s) = next_id s"
  "next_tid (upd_proc p f s) = next_tid s" "states (upd_proc p f s) = states s"
  "awoken (upd_proc p f s) = awoken s" "klog (upd_proc p f s) = klog s"
  by (simp_all add: upd_proc_def)

lemma fields_logk [pm_frame]:
  "processes (logk ks s) = processes s"
  "groups (logk ks s) = groups s" "sessions (logk ks s) = sessions s"
  "handles (logk ks s) = handles s" "thread_lookup (logk ks s) = thread_lookup s"
  "next_internal_id (logk ks s) = next_internal_id s"
  "init_claimed (logk ks s) = init_claimed s" "next_id (logk ks s) = next_id s"
  "next_tid (logk ks s) = next_tid s" "states (logk ks s) = states s"
  "awoken (logk ks s) = awoken s" "klog (logk ks s) = klog s @ ks"
  by (simp_all add: logk_def)

lemma keys_upd_proc [pm_frame]: "map fst (processes (upd_proc p f s)) = map fst (processes s)"
  by (simp add: upd_proc_def)

lemma processes_Nil_upd_proc [pm_frame]: "processes (upd_proc p f s) = [] \<longleftrightarrow> processes s = []"
  by (cases "processes s") (simp_all add: upd_proc_def)

lemma proc_of_upd_proc [pm_frame]:
  "proc_of (upd_proc p f s) q = (if q = p then map_option f (proc_of s p) else proc_of s q)"
  by (simp add: upd_proc_def proc_of_def AList.map_of_map_entry split: option.splits)

lemma fields_wake_waiters [pm_frame]:
  "groups (wake_waiters p s) = groups s" "sessions (wake_waiters p s) = sessions s"
  "handles (wake_waiters p s) = handles s" "thread_lookup (wake_waiters p s) = thread_lookup s"
  "next_internal_id (wake_waiters p s) = next_internal_id s"
  "init_claimed (wake_waiters p s) = init_claimed s" "next_id (wake_waiters p s) = next_id s"
  "next_tid (wake_waiters p s) = next_tid s" "states (wake_waiters p s) = states s"
  "klog (wake_waiters p s) = klog s"
  "map fst (processes (wake_waiters p s)) = map fst (processes s)"
  by (simp_all add: wake_waiters_def pm_frame split: option.splits)

lemma proc_of_wake_waiters [pm_frame]:
  "proc_of (wake_waiters p s) q =
     (if q = p then map_option (\<lambda>pr. pr\<lparr>p_waitpid_waiting := []\<rparr>) (proc_of s p) else proc_of s q)"
  by (simp add: wake_waiters_def pm_frame split: option.splits)

text \<open>The invariant reads four fields only.\<close>

lemma pm_inv_cong:
  assumes "processes t = processes s" and "groups t = groups s" and "handles t = handles s"
    and "next_id t = next_id s" and "init_claimed t = init_claimed s"
  shows "pm_inv t = pm_inv s"
  using assms by (simp add: pm_inv_def procs_ok_def groups_ok_def boot_ok_def proc_of_def group_of_def)

lemma pm_inv_frame [simp]:
  "pm_inv (s\<lparr>awoken := a\<rparr>) = pm_inv s" "pm_inv (s\<lparr>klog := l\<rparr>) = pm_inv s"
  "pm_inv (s\<lparr>states := st\<rparr>) = pm_inv s" "pm_inv (s\<lparr>thread_lookup := tlk\<rparr>) = pm_inv s"
  "pm_inv (s\<lparr>next_internal_id := n\<rparr>) = pm_inv s" "pm_inv (s\<lparr>next_tid := t\<rparr>) = pm_inv s"
  "pm_inv (s\<lparr>sessions := ss\<rparr>) = pm_inv s" "pm_inv (logk ks s) = pm_inv s"
  by (rule pm_inv_cong; simp add: pm_frame)+

lemma pm_inv_upd_proc:
  assumes "pm_inv s"
    and "\<And>pr. proc_of s p = Some pr \<Longrightarrow> proc_ok p pr \<Longrightarrow> proc_ok p (f pr) \<and> p_pgid (f pr) = p_pgid pr"
  shows "pm_inv (upd_proc p f s)"
proof -
  have f: "proc_ok p (f pr)" "p_pgid (f pr) = p_pgid pr" if "proc_of s p = Some pr" for pr
    using assms that by (auto simp: pm_inv_def procs_ok_def)
  have "procs_ok (upd_proc p f s)"
    using assms(1) f by (auto simp: pm_inv_def procs_ok_def pm_frame)
  moreover have "groups_ok (upd_proc p f s)"
    unfolding groups_ok_def
  proof (intro conjI allI impI ballI)
    fix g ps q
    assume "group_of (upd_proc p f s) g = Some ps" and q: "q \<in> set ps"
    with assms(1) obtain pr where "proc_of s q = Some pr" and "p_pgid pr = g"
      by (fastforce simp: pm_inv_def groups_ok_def)
    with f show "\<exists>pr. proc_of (upd_proc p f s) q = Some pr \<and> p_pgid pr = g"
      by (auto simp: pm_frame)
  next
    fix q pr
    assume "proc_of (upd_proc p f s) q = Some pr"
    then obtain pr' where "proc_of s q = Some pr'" and "p_pgid pr = p_pgid pr'"
      using f by (auto simp: pm_frame split: if_splits)
    with assms(1) show "\<exists>ps. group_of (upd_proc p f s) (p_pgid pr) = Some ps \<and> q \<in> set ps"
      by (auto simp: pm_inv_def groups_ok_def)
  qed (use assms(1) in \<open>auto simp: pm_inv_def groups_ok_def pm_frame\<close>)
  moreover have "boot_ok (upd_proc p f s)"
    using assms(1) by (simp add: pm_inv_def boot_ok_def pm_frame)
  ultimately show ?thesis by (simp add: pm_inv_def)
qed

lemma pm_inv_wake_waiters: "pm_inv s \<Longrightarrow> pm_inv (wake_waiters q s)"
  by (auto simp: wake_waiters_def proc_ok_def intro!: pm_inv_upd_proc split: option.splits)

lemma procs_ok_upd_proc:
  assumes "procs_ok s" and "\<And>pr. proc_ok p pr \<Longrightarrow> proc_ok p (f pr)"
  shows "procs_ok (upd_proc p f (s\<lparr>groups := gs\<rparr>))"
  using assms by (auto simp: procs_ok_def pm_frame split: if_splits)

lemma proc_of_nonempty: "proc_of s p = Some pr \<Longrightarrow> processes s \<noteq> []"
  by (auto simp: proc_of_def)

text \<open>Once there is a process, the boot conditions only concern the handle table.\<close>

lemma boot_ok_running:
  assumes "boot_ok s" and "processes s \<noteq> []" and "handles t = handles s"
    and "init_claimed t = init_claimed s"
  shows "boot_ok t"
  using assms by (auto simp: boot_ok_def)

lemma pm_invD:
  assumes "pm_inv s" and "proc_of s p = Some pr"
  shows "proc_ok p pr" "p < next_id s" "p_pid pr = p" "wm_ok (p_waitpid pr)"
  using assms by (auto simp: pm_inv_def procs_ok_def proc_ok_def)

end
