(* ===== verification/Utf8.thy ===== *)
theory Utf8
  imports Prelude
begin

text \<open>
  UTF-8 in the standard library: validation (\<open>core::str::from_utf8\<close>) and character boundaries. Text is a
  list of bytes throughout the development.
\<close>

definition in_range :: "u8 \<Rightarrow> u8 \<Rightarrow> u8 \<Rightarrow> bool" where
  "in_range lo hi b \<longleftrightarrow> lo \<le> b \<and> b \<le> hi"

definition is_continuation :: "u8 \<Rightarrow> bool" where
  "is_continuation b = in_range 0x80 0xBF b"

definition utf8_tail :: "u8 \<Rightarrow> bytes \<Rightarrow> nat option" where
  "utf8_tail b bs =
     (if b < 0x80 then Some 0
      else if in_range 0xC2 0xDF b then
        (case bs of c1 # _ \<Rightarrow> if is_continuation c1 then Some 1 else None | _ \<Rightarrow> None)
      else if in_range 0xE0 0xEF b then
        (case bs of
           c1 # c2 # _ \<Rightarrow>
             if in_range (if b = 0xE0 then 0xA0 else 0x80) (if b = 0xED then 0x9F else 0xBF) c1 \<and>
                is_continuation c2
             then Some 2 else None
         | _ \<Rightarrow> None)
      else if in_range 0xF0 0xF4 b then
        (case bs of
           c1 # c2 # c3 # _ \<Rightarrow>
             if in_range (if b = 0xF0 then 0x90 else 0x80) (if b = 0xF4 then 0x8F else 0xBF) c1 \<and>
                is_continuation c2 \<and> is_continuation c3
             then Some 3 else None
         | _ \<Rightarrow> None)
      else None)"

fun utf8_valid :: "bytes \<Rightarrow> bool" where
  "utf8_valid [] = True"
| "utf8_valid (b # bs) =
     (case utf8_tail b bs of None \<Rightarrow> False | Some n \<Rightarrow> utf8_valid (drop n bs))"

definition is_char_boundary :: "bytes \<Rightarrow> nat \<Rightarrow> bool" where
  "is_char_boundary bs i \<longleftrightarrow>
     i = 0 \<or> i = length bs \<or> (i < length bs \<and> \<not> is_continuation (bs ! i))"

end
