(* ===== verification/Procmgr_Ids.thy ===== *)
theory Procmgr_Ids
  imports Procmgr_Inv Utf8
begin

text \<open>
  Process creation and identity in \<^verbatim>\<open>bootstrap/src/procmgr.rs\<close>: fork, new threads, process groups and
  sessions, credentials, names and priorities.
\<close>

section \<open>Definitions\<close>

subsection \<open>Kernel attributes\<close>

definition arraystring_to_bytes :: "bytes \<Rightarrow> bytes" where
  "arraystring_to_bytes n = take NAME_CAPAC n @ replicate (NAME_CAPAC - length n) 0"

definition attrs_of :: "process \<Rightarrow> proc_scheme_attrs" where
  "attrs_of pr =
     \<lparr>at_pid = of_nat (p_pid pr), at_euid = p_euid pr, at_egid = p_egid pr, at_prio = p_prio pr,
      at_debug_name = arraystring_to_bytes (p_name pr)\<rparr>"

text \<open>
  \<open>Thread::sync_kernel_attrs\<close>: the writes it issues and whether it succeeds; then the loop over the
  threads of a process, which ends at the first failure.
\<close>

definition thread_sync_kernel_attrs :: "ext \<Rightarrow> process \<Rightarrow> thread \<Rightarrow> (errno + unit) \<times> kcall list" where
  "thread_sync_kernel_attrs x pr th =
     (case dup_attrs x (t_fd th) of
        Inl e \<Rightarrow> (Inl e, [])
      | Inr attr_fd \<Rightarrow>
         (case write_attrs x attr_fd (attrs_of pr) of
            Some e \<Rightarrow> (Inl e, [AttrsWrite attr_fd (attrs_of pr)])
          | None \<Rightarrow> (Inr (), [AttrsWrite attr_fd (attrs_of pr)])))"

fun sync_kernel_attrs_loop :: "ext \<Rightarrow> process \<Rightarrow> thread list \<Rightarrow> (errno + unit) \<times> kcall list" where
  "sync_kernel_attrs_loop x pr [] = (Inr (), [])"
| "sync_kernel_attrs_loop x pr (th # ths) =
     (case thread_sync_kernel_attrs x pr th of
        (Inl e, ks) \<Rightarrow> (Inl e, ks)
      | (Inr _, ks) \<Rightarrow> (let (r, ks') = sync_kernel_attrs_loop x pr ths in (r, ks @ ks')))"

definition sync_kernel_attrs :: "ext \<Rightarrow> process \<Rightarrow> (errno + unit) \<times> kcall list" where
  "sync_kernel_attrs x pr = sync_kernel_attrs_loop x pr (p_threads pr)"

text \<open>A caller that only logs a warning on failure: the writes stay, the result does not.\<close>

definition sync_logged :: "ext \<Rightarrow> pid \<Rightarrow> proc_scheme \<Rightarrow> proc_scheme" where
  "sync_logged x p s =
     (case proc_of s p of None \<Rightarrow> s | Some pr \<Rightarrow> logk (snd (sync_kernel_attrs x pr)) s)"

subsection \<open>fork and new threads\<close>

definition new_id :: "proc_scheme \<Rightarrow> pid \<times> proc_scheme" where
  "new_id s = (next_id s, s\<lparr>next_id := Suc (next_id s)\<rparr>)"

definition child_of :: "process \<Rightarrow> pid \<Rightarrow> pid \<Rightarrow> thread \<Rightarrow> process" where
  "child_of parent parent_pid child_pid th =
     \<lparr>p_threads = [th], p_pid = child_pid, p_ppid = parent_pid, p_pgid = p_pgid parent,
      p_sid = p_sid parent, p_name = p_name parent, p_prio = p_prio parent, p_ruid = p_ruid parent,
      p_euid = p_euid parent, p_suid = p_suid parent, p_rgid = p_rgid parent,
      p_egid = p_egid parent, p_sgid = p_sgid parent, p_status = PossiblyRunnable,
      p_disabled_setpgid = False, p_awaiting_threads_term = [], p_waitpid = [],
      p_waitpid_waiting = [], p_sig_pctl = None, p_rtqs = []\<rparr>"

definition push_group :: "pid \<Rightarrow> pid \<Rightarrow> proc_scheme \<Rightarrow> proc_scheme" where
  "push_group g p s =
     (case group_of s g of
        None \<Rightarrow> s
      | Some ps \<Rightarrow> s\<lparr>groups := AList.update g (ps @ [p]) (groups s)\<rparr>)"

definition fork :: "ext \<Rightarrow> pid \<Rightarrow> proc_scheme \<Rightarrow> (pid, proc_scheme) outcome" where
  "fork x parent_pid s =
     (let (child_pid, s1) = new_id s in
      case proc_of s1 parent_pid of
        None \<Rightarrow> fail EBADFD s1
      | Some parent \<Rightarrow>
         (case new_context x of
            Inl e \<Rightarrow> fail e s1
          | Inr ctxt_fd \<Rightarrow>
             (case dup_status x ctxt_fd of
                Inl e \<Rightarrow> fail e s1
              | Inr status_fd \<Rightarrow>
                 if \<not> subscribe_ok x ctxt_fd then panic s1
                 else
                   let th = \<lparr>t_tid = next_tid s1, t_fd = ctxt_fd, status_hndl = status_fd,
                             t_pid = child_pid, sig_ctrl = None\<rparr>;
                       child = child_of parent parent_pid child_pid th;
                       s2 = logk (Subscribe ctxt_fd # snd (sync_kernel_attrs x child)) s1;
                       s3 = push_group (p_pgid parent) child_pid s2;
                       s4 = s3\<lparr>processes := AList.update child_pid child (processes s3),
                               thread_lookup := AList.update ctxt_fd (next_tid s3) (thread_lookup s3),
                               next_tid := Suc (next_tid s3)\<rparr>
                   in ok child_pid s4)))"

definition new_thread :: "ext \<Rightarrow> pid \<Rightarrow> proc_scheme \<Rightarrow> (tid, proc_scheme) outcome" where
  "new_thread x p s =
     (case proc_of s p of
        None \<Rightarrow> fail EBADFD s
      | Some pr \<Rightarrow>
         (case new_context x of
            Inl e \<Rightarrow> fail e s
          | Inr ctxt_fd \<Rightarrow>
             (case dup_attrs x ctxt_fd of
                Inl e \<Rightarrow> fail e s
              | Inr attr_fd \<Rightarrow>
                 let at = (attrs_of pr)\<lparr>at_pid := of_nat p\<rparr>; s1 = logk [AttrsWrite attr_fd at] s in
                 (case write_attrs x attr_fd at of
                    Some e \<Rightarrow> fail e s1
                  | None \<Rightarrow>
                     (case dup_status x ctxt_fd of
                        Inl e \<Rightarrow> fail e s1
                      | Inr status_fd \<Rightarrow>
                         if \<not> subscribe_ok x ctxt_fd then panic s1
                         else
                           let th = \<lparr>t_tid = next_tid s1, t_fd = ctxt_fd, status_hndl = status_fd,
                                     t_pid = p, sig_ctrl = None\<rparr>;
                               s2 = upd_proc p (\<lambda>q. q\<lparr>p_threads := p_threads q @ [th]\<rparr>)
                                      (logk [Subscribe ctxt_fd] s1);
                               s3 = s2\<lparr>thread_lookup := AList.update ctxt_fd (next_tid s2) (thread_lookup s2),
                                       next_tid := Suc (next_tid s2)\<rparr>
                           in ok (t_tid th) s3)))))"

subsection \<open>Process groups and sessions\<close>

definition on_getpgid :: "pid \<Rightarrow> pid \<Rightarrow> proc_scheme \<Rightarrow> (pid, proc_scheme) outcome" where
  "on_getpgid caller_pid target_pid s =
     (case (proc_of s caller_pid, proc_of s target_pid) of
        (Some caller, Some target) \<Rightarrow>
          if p_sid caller \<noteq> p_sid target \<and> p_euid caller \<noteq> 0 then fail EPERM s
          else ok (p_pgid target) s
      | _ \<Rightarrow> fail ESRCH s)"

definition on_getsid :: "pid \<Rightarrow> pid \<Rightarrow> proc_scheme \<Rightarrow> (pid, proc_scheme) outcome" where
  "on_getsid caller_pid req_pid s =
     (case (proc_of s caller_pid, proc_of s req_pid) of
        (Some caller, Some requested) \<Rightarrow>
          if p_sid caller \<noteq> p_sid requested \<and> p_euid caller \<noteq> 0 then fail EPERM s
          else ok (p_sid requested) s
      | _ \<Rightarrow> fail ESRCH s)"

definition on_getppid :: "pid \<Rightarrow> proc_scheme \<Rightarrow> (pid, proc_scheme) outcome" where
  "on_getppid caller_pid s =
     (case proc_of s caller_pid of None \<Rightarrow> fail ESRCH s | Some pr \<Rightarrow> ok (p_ppid pr) s)"

text \<open>
  \<open>set_pgid target proc parent new_pgid\<close>: \<open>proc\<close> is the borrowed record of \<open>target\<close> and \<open>parent\<close> the
  parent whose waiters are woken, if there is one.
\<close>

definition leave_group :: "pid \<Rightarrow> pid \<Rightarrow> pid list \<Rightarrow> (pid \<times> pid list) list \<Rightarrow> (pid \<times> pid list) list" where
  "leave_group p g ps gs =
     (let ps' = filter (\<lambda>w. w \<noteq> p) ps
      in if ps' = [] then AList.delete g gs else AList.update g ps' gs)"

definition enter_group :: "pid \<Rightarrow> pid \<Rightarrow> (pid \<times> pid list) list \<Rightarrow> (pid \<times> pid list) list" where
  "enter_group p g gs =
     AList.update g ((case map_of gs g of None \<Rightarrow> [] | Some ps \<Rightarrow> ps) @ [p]) gs"

definition wake_parent :: "pid option \<Rightarrow> proc_scheme \<Rightarrow> proc_scheme" where
  "wake_parent parent s = (case parent of None \<Rightarrow> s | Some q \<Rightarrow> wake_waiters q s)"

definition set_pgid :: "pid \<Rightarrow> process \<Rightarrow> pid option \<Rightarrow> pid \<Rightarrow> proc_scheme \<Rightarrow> (unit, proc_scheme) outcome" where
  "set_pgid target proc parent new_pgid s =
     (let old_pgid = p_pgid proc in
      if old_pgid = new_pgid then panic s
      else
        let s1 = wake_parent parent s in
        case group_of s1 old_pgid of
          None \<Rightarrow> fail ESRCH s1
        | Some ps \<Rightarrow>
           let s2 = s1\<lparr>groups := enter_group target new_pgid (leave_group target old_pgid ps (groups s1))\<rparr>
           in ok () (upd_proc target (\<lambda>p. p\<lparr>p_pgid := new_pgid\<rparr>) s2))"

definition on_setsid :: "pid \<Rightarrow> proc_scheme \<Rightarrow> (unit, proc_scheme) outcome" where
  "on_setsid caller_pid s =
     (if list_ex (\<lambda>(p, pr). p \<noteq> caller_pid \<and> p_pgid pr = caller_pid) (processes s) then fail EPERM s
      else
        case proc_of s caller_pid of
          None \<Rightarrow> fail ESRCH s
        | Some caller \<Rightarrow>
           if p_ppid caller = caller_pid then fail ESRCH s
           else if p_pgid caller = caller_pid then fail EPERM s
           else
             let parent = (if proc_of s (p_ppid caller) = None then None else Some (p_ppid caller)) in
             case set_pgid caller_pid caller parent caller_pid s of
               (Inl e, s1) \<Rightarrow> (Inl e, s1)
             | (Inr _, s1) \<Rightarrow> ok () (upd_proc caller_pid (\<lambda>p. p\<lparr>p_sid := caller_pid\<rparr>) s1))"

definition on_setpgid :: "pid \<Rightarrow> pid \<Rightarrow> pid \<Rightarrow> proc_scheme \<Rightarrow> (unit, proc_scheme) outcome" where
  "on_setpgid caller_pid target_pid new_pgid s =
     (case proc_of s caller_pid of
        None \<Rightarrow> fail ESRCH s
      | Some caller \<Rightarrow>
         (case proc_of s target_pid of
            None \<Rightarrow> fail ESRCH s
          | Some proc \<Rightarrow>
             if p_ppid proc \<noteq> caller_pid \<and> target_pid \<noteq> caller_pid then fail ESRCH s
             else if p_ppid proc \<noteq> target_pid \<and> proc_of s (p_ppid proc) = None then fail ESRCH s
             else if p_sid proc = target_pid then fail EPERM s
             else if p_sid caller \<noteq> p_sid proc then fail EPERM s
             else if new_pgid \<noteq> target_pid \<and> group_of s new_pgid = None then fail EPERM s
             else if p_ppid proc = caller_pid \<and> p_disabled_setpgid proc then fail EACCES s
             else if p_pgid proc = new_pgid then ok () s
             else set_pgid target_pid proc
                    (if p_ppid proc = target_pid then None else Some (p_ppid proc)) new_pgid s))"

subsection \<open>Credentials, name and priority\<close>

definition id_opt :: "u32 \<Rightarrow> u32 option" where
  "id_opt i = (if i = - 1 then None else Some i)"

definition new_or :: "u32 option \<Rightarrow> u32 \<Rightarrow> u32" where
  "new_or n old = (case n of None \<Rightarrow> old | Some v \<Rightarrow> v)"

definition ids_allowed :: "u32 option list \<Rightarrow> u32 list \<Rightarrow> bool" where
  "ids_allowed new old = list_all (\<lambda>n. case n of None \<Rightarrow> True | Some v \<Rightarrow> v \<in> set old) new"

definition set_ids :: "u32 option list \<Rightarrow> process \<Rightarrow> process" where
  "set_ids ids pr =
     (case ids of
        [ru, eu, su, rg, eg, sg] \<Rightarrow>
          pr\<lparr>p_ruid := new_or ru (p_ruid pr), p_euid := new_or eu (p_euid pr),
             p_suid := new_or su (p_suid pr), p_rgid := new_or rg (p_rgid pr),
             p_egid := new_or eg (p_egid pr), p_sgid := new_or sg (p_sgid pr)\<rparr>
      | _ \<Rightarrow> pr)"

text \<open>
  \<open>raw\<close> is the payload as \<open>plain::slice_from_bytes::<u32>\<close> gives it; \<open>None\<close> is its error, which the code
  unwraps.
\<close>

definition on_setresugid :: "ext \<Rightarrow> pid \<Rightarrow> u32 list option \<Rightarrow> proc_scheme \<Rightarrow> (unit, proc_scheme) outcome" where
  "on_setresugid x p raw s =
     (case raw of
        None \<Rightarrow> panic s
      | Some ids \<Rightarrow>
         if length ids \<noteq> 6 then fail EINVAL s
         else
           let new = map id_opt ids in
           case proc_of s p of
             None \<Rightarrow> fail ESRCH s
           | Some pr \<Rightarrow>
              if p_euid pr \<noteq> 0 \<and> \<not> ids_allowed (take 3 new) [p_ruid pr, p_euid pr, p_suid pr]
              then fail EPERM s
              else if p_euid pr \<noteq> 0 \<and> \<not> ids_allowed (drop 3 new) [p_rgid pr, p_egid pr, p_sgid pr]
              then fail EPERM s
              else ok () (sync_logged x p (upd_proc p (set_ids new) s)))"

definition on_proc_rename :: "ext \<Rightarrow> pid \<Rightarrow> bytes \<Rightarrow> proc_scheme \<Rightarrow> (unit, proc_scheme) outcome" where
  "on_proc_rename x p new_name_raw s =
     (let new_name = takeWhile (\<lambda>c. c \<noteq> 0) new_name_raw in
      if \<not> utf8_valid new_name then fail EINVAL s
      else
        case proc_of s p of
          None \<Rightarrow> fail ESRCH s
        | Some pr \<Rightarrow>
           let n = min (length new_name) NAME_CAPAC in
           if \<not> is_char_boundary new_name n then panic s
           else ok () (sync_logged x p (upd_proc p (\<lambda>q. q\<lparr>p_name := take n new_name\<rparr>) s)))"

definition on_setprocprio :: "ext \<Rightarrow> pid \<Rightarrow> pid \<Rightarrow> u32 \<Rightarrow> proc_scheme \<Rightarrow> (unit, proc_scheme) outcome" where
  "on_setprocprio x caller_pid target_pid new_prio s =
     (if new_prio \<ge> 40 then fail EINVAL s
      else
        case proc_of s caller_pid of
          None \<Rightarrow> fail ESRCH s
        | Some caller \<Rightarrow>
           (case proc_of s target_pid of
              None \<Rightarrow> fail ESRCH s
            | Some target \<Rightarrow>
               if p_euid caller \<noteq> 0 \<and> p_euid caller \<noteq> p_euid target then fail EPERM s
               else ok () (sync_logged x target_pid
                            (upd_proc target_pid (\<lambda>q. q\<lparr>p_prio := new_prio\<rparr>) s))))"

definition on_getprocprio :: "pid \<Rightarrow> pid \<Rightarrow> proc_scheme \<Rightarrow> (u32, proc_scheme) outcome" where
  "on_getprocprio caller_pid target_pid s =
     (case proc_of s target_pid of None \<Rightarrow> fail ESRCH s | Some pr \<Rightarrow> ok (p_prio pr) s)"

definition on_disable_setpgid :: "pid \<Rightarrow> proc_scheme \<Rightarrow> (unit, proc_scheme) outcome" where
  "on_disable_setpgid p s =
     (case proc_of s p of
        None \<Rightarrow> fail ESRCH s
      | Some _ \<Rightarrow> ok () (upd_proc p (\<lambda>q. q\<lparr>p_disabled_setpgid := True\<rparr>) s))"

section \<open>Process groups as sets of members\<close>

definition members :: "(pid \<times> pid list) list \<Rightarrow> pid \<Rightarrow> pid set" where
  "members gs g = (case map_of gs g of None \<Rightarrow> {} | Some ps \<Rightarrow> set ps)"

definition group_lists_ok :: "(pid \<times> pid list) list \<Rightarrow> bool" where
  "group_lists_ok gs \<longleftrightarrow>
     distinct (map fst gs) \<and> (\<forall>g ps. map_of gs g = Some ps \<longrightarrow> glist_ok ps)"

text \<open>The two directions of \<open>groups_ok\<close> in one equation: a group is the set of its members.\<close>

lemma groups_ok_members:
  "groups_ok s \<longleftrightarrow>
     group_lists_ok (groups s) \<and>
     (\<forall>g. members (groups s) g = {p. \<exists>pr. proc_of s p = Some pr \<and> p_pgid pr = g})"
proof
  assume ok: "groups_ok s"
  have "members (groups s) g = {p. \<exists>pr. proc_of s p = Some pr \<and> p_pgid pr = g}" for g
  proof (cases "group_of s g")
    case None
    then have "members (groups s) g = {}" by (simp add: members_def group_of_def)
    moreover from ok None have "\<not> (\<exists>pr. proc_of s p = Some pr \<and> p_pgid pr = g)" for p
      unfolding groups_ok_def by (metis option.distinct(1))
    ultimately show ?thesis by simp
  next
    case (Some ps)
    then have "members (groups s) g = set ps" by (simp add: members_def group_of_def)
    moreover from ok Some have "p \<in> set ps \<longleftrightarrow> (\<exists>pr. proc_of s p = Some pr \<and> p_pgid pr = g)" for p
      unfolding groups_ok_def by (metis option.inject)
    ultimately show ?thesis by blast
  qed
  moreover from ok have "group_lists_ok (groups s)"
    unfolding groups_ok_def group_lists_ok_def group_of_def by blast
  ultimately show "group_lists_ok (groups s) \<and>
     (\<forall>g. members (groups s) g = {p. \<exists>pr. proc_of s p = Some pr \<and> p_pgid pr = g})" by blast
next
  assume *: "group_lists_ok (groups s) \<and>
     (\<forall>g. members (groups s) g = {p. \<exists>pr. proc_of s p = Some pr \<and> p_pgid pr = g})"
  show "groups_ok s"
    unfolding groups_ok_def
  proof (intro conjI allI impI ballI)
    fix g ps q
    assume "group_of s g = Some ps" and "q \<in> set ps"
    then have "q \<in> members (groups s) g" by (simp add: members_def group_of_def)
    with * show "\<exists>pr. proc_of s q = Some pr \<and> p_pgid pr = g" by simp
  next
    fix q pr
    assume "proc_of s q = Some pr"
    with * have "q \<in> members (groups s) (p_pgid pr)" by simp
    then show "\<exists>ps. group_of s (p_pgid pr) = Some ps \<and> q \<in> set ps"
      by (simp add: members_def group_of_def split: option.splits)
  qed (use * in \<open>auto simp: group_lists_ok_def group_of_def\<close>)
qed

lemma leave_group_members:
  assumes "map_of gs g = Some ps"
  shows "members (leave_group p g ps gs) h = (if h = g then members gs g - {p} else members gs h)"
proof -
  have "filter (\<lambda>w. w \<noteq> p) ps = [] \<Longrightarrow> set ps \<subseteq> {p}"
    by (auto simp: filter_empty_conv)
  with assms show ?thesis
    by (auto simp: leave_group_def members_def Let_def alist_simps)
qed

lemma group_lists_ok_delete: "group_lists_ok gs \<Longrightarrow> group_lists_ok (AList.delete g gs)"
  by (simp add: group_lists_ok_def alist_simps)

lemma group_lists_ok_update: "group_lists_ok gs \<Longrightarrow> glist_ok ps \<Longrightarrow> group_lists_ok (AList.update g ps gs)"
  by (simp add: group_lists_ok_def alist_simps)

lemma group_lists_okD: "group_lists_ok gs \<Longrightarrow> map_of gs g = Some ps \<Longrightarrow> glist_ok ps"
  by (auto simp: group_lists_ok_def)

lemma leave_group_lists:
  assumes "group_lists_ok gs" and "map_of gs g = Some ps"
  shows "group_lists_ok (leave_group p g ps gs)"
proof -
  have "filter (\<lambda>w. w \<noteq> p) ps \<noteq> [] \<Longrightarrow> glist_ok (filter (\<lambda>w. w \<noteq> p) ps)"
    using group_lists_okD[OF assms] by (simp add: glist_ok_def)
  with assms show ?thesis
    by (simp add: leave_group_def Let_def group_lists_ok_delete group_lists_ok_update)
qed

lemma enter_group_members: "members (enter_group p g gs) h = (if h = g then insert p (members gs g) else members gs h)"
  by (auto simp: enter_group_def members_def alist_simps split: option.splits)

lemma enter_group_lists:
  assumes "group_lists_ok gs" and "p \<notin> members gs g"
  shows "group_lists_ok (enter_group p g gs)"
proof (cases "map_of gs g")
  case None
  with assms(1) show ?thesis by (simp add: enter_group_def group_lists_ok_update glist_ok_def)
next
  case (Some ps)
  have "glist_ok (ps @ [p])"
    using group_lists_okD[OF assms(1) Some] assms(2) Some by (simp add: members_def glist_ok_def)
  with assms(1) Some show ?thesis by (simp add: enter_group_def group_lists_ok_update)
qed

section \<open>Operations keep the invariant\<close>

lemma pm_invI_groups:
  assumes "procs_ok t" and "boot_ok t" and "group_lists_ok (groups t)"
    and "\<And>g. members (groups t) g = {p. \<exists>pr. proc_of t p = Some pr \<and> p_pgid pr = g}"
  shows "pm_inv t"
  using assms by (simp add: pm_inv_def groups_ok_members)

lemma pm_inv_members:
  "pm_inv s \<Longrightarrow> members (groups s) g = {p. \<exists>pr. proc_of s p = Some pr \<and> p_pgid pr = g}"
  by (simp add: pm_inv_def groups_ok_members)

lemma pm_inv_group_lists: "pm_inv s \<Longrightarrow> group_lists_ok (groups s)"
  by (simp add: pm_inv_def groups_ok_members)

lemma pm_inv_group_of_proc:
  assumes "pm_inv s" and "proc_of s p = Some pr"
  obtains ps where "group_of s (p_pgid pr) = Some ps" and "p \<in> set ps" and "glist_ok ps"
  using assms unfolding pm_inv_def groups_ok_def by blast

definition move_group :: "pid \<Rightarrow> pid \<Rightarrow> pid \<Rightarrow> pid list \<Rightarrow> proc_scheme \<Rightarrow> proc_scheme" where
  "move_group p old new ps s =
     upd_proc p (\<lambda>q. q\<lparr>p_pgid := new\<rparr>)
       (s\<lparr>groups := enter_group p new (leave_group p old ps (groups s))\<rparr>)"

lemma move_group_inv:
  assumes inv: "pm_inv s" and p: "proc_of s p = Some pr" and old: "p_pgid pr = old"
    and ps: "group_of s old = Some ps" and new: "new \<noteq> old"
  shows "pm_inv (move_group p old new ps s)"
proof (rule pm_invI_groups)
  let ?t = "move_group p old new ps s"
  show "procs_ok ?t"
    using inv unfolding move_group_def by (intro procs_ok_upd_proc) (simp_all add: pm_inv_def proc_ok_def)
  show "boot_ok ?t"
    by (rule boot_ok_running[of s])
      (use inv proc_of_nonempty[OF p] in \<open>simp_all add: pm_inv_def move_group_def pm_frame\<close>)
  have ps': "map_of (groups s) old = Some ps" using ps by (simp add: group_of_def)
  have "p \<notin> members (groups s) new"
    using pm_inv_members[OF inv] p old new by auto
  then show "group_lists_ok (groups ?t)"
    using pm_inv_group_lists[OF inv] ps' new
    by (simp add: move_group_def pm_frame enter_group_lists leave_group_lists leave_group_members)
  show "members (groups ?t) g = {q. \<exists>pr. proc_of ?t q = Some pr \<and> p_pgid pr = g}" for g
  proof (cases "g = new \<or> g = old")
    case True
    with pm_inv_members[OF inv, of g] ps' p old new show ?thesis
      by (auto simp: move_group_def pm_frame enter_group_members leave_group_members)
  next
    case False
    with pm_inv_members[OF inv, of g] ps' p old show ?thesis
      by (auto simp: move_group_def pm_frame enter_group_members leave_group_members)
  qed
qed

lemma wake_parent_frame:
  "group_of (wake_parent parent s) = group_of s"
  "pm_inv s \<Longrightarrow> pm_inv (wake_parent parent s)"
  "proc_of s p = Some pr \<Longrightarrow> \<exists>pr1. proc_of (wake_parent parent s) p = Some pr1 \<and> p_pgid pr1 = p_pgid pr"
  by (auto simp: wake_parent_def pm_inv_wake_waiters pm_frame split: option.splits)

text \<open>In a well-formed state \<open>set_pgid\<close> cannot fail: the old group is always there.\<close>

lemma set_pgid_eq:
  assumes inv: "pm_inv s" and p: "proc_of s target = Some proc"
  shows "set_pgid target proc parent new_pgid s =
     (if p_pgid proc = new_pgid then panic s
      else ok () (move_group target (p_pgid proc) new_pgid (the (group_of s (p_pgid proc)))
                    (wake_parent parent s)))"
proof -
  obtain ps where "group_of s (p_pgid proc) = Some ps"
    using inv p by (rule pm_inv_group_of_proc)
  then show ?thesis
    by (simp add: set_pgid_def Let_def wake_parent_frame move_group_def)
qed

lemma set_pgid_inv:
  assumes inv: "pm_inv s" and p: "proc_of s target = Some proc"
    and res: "set_pgid target proc parent new_pgid s = (r, s')"
  shows "pm_inv s'"
proof (cases "p_pgid proc = new_pgid")
  case True
  with res inv show ?thesis by (simp add: set_pgid_eq[OF inv p])
next
  case False
  obtain ps where ps: "group_of s (p_pgid proc) = Some ps"
    using inv p by (rule pm_inv_group_of_proc)
  obtain pr1 where pr1: "proc_of (wake_parent parent s) target = Some pr1"
      and pg: "p_pgid pr1 = p_pgid proc"
    using wake_parent_frame(3)[OF p] by blast
  have "pm_inv (move_group target (p_pgid proc) new_pgid ps (wake_parent parent s))"
    by (rule move_group_inv[OF _ pr1 pg])
      (use False ps inv in \<open>auto simp: wake_parent_frame\<close>)
  with res False ps show ?thesis by (simp add: set_pgid_eq[OF inv p])
qed

named_theorems pm_inv_ops \<open>every operation keeps the invariant\<close>

text \<open>An operation keeps the invariant when each of its branches does.\<close>

lemma pm_inv_branch:
  "(c \<Longrightarrow> pm_inv (snd a)) \<Longrightarrow> (\<not> c \<Longrightarrow> pm_inv (snd b)) \<Longrightarrow> pm_inv (snd (if c then a else b))"
  "(v = None \<Longrightarrow> pm_inv (snd a)) \<Longrightarrow> (\<And>y. v = Some y \<Longrightarrow> pm_inv (snd (f y))) \<Longrightarrow>
     pm_inv (snd (case v of None \<Rightarrow> a | Some y \<Rightarrow> f y))"
  "(\<And>e. w = Inl e \<Longrightarrow> pm_inv (snd (g e))) \<Longrightarrow> (\<And>y. w = Inr y \<Longrightarrow> pm_inv (snd (h y))) \<Longrightarrow>
     pm_inv (snd (case w of Inl e \<Rightarrow> g e | Inr y \<Rightarrow> h y))"
  by (simp_all split: option.split sum.split)

lemma pm_inv_next_id: "pm_inv s \<Longrightarrow> pm_inv (s\<lparr>next_id := Suc (next_id s)\<rparr>)"
  by (fastforce simp: pm_inv_def procs_ok_def groups_ok_def boot_ok_def)

lemma sync_logged_inv [simp]: "pm_inv (sync_logged x p s) = pm_inv s"
  by (simp add: sync_logged_def split: option.splits)

lemma child_proc_ok:
  "proc_ok q parent \<Longrightarrow> t_pid th = p \<Longrightarrow> proc_ok p (child_of parent q p th)"
  by (simp add: proc_ok_def child_of_def exit_status_ok_def)

text \<open>Adding a fresh process to the group of its parent.\<close>

lemma add_child_inv:
  assumes inv: "pm_inv s" and fresh: "proc_of s p = None" and p: "p < next_id s"
    and ok: "proc_ok p child" and ps: "group_of s (p_pgid child) = Some ps" and ne: "processes s \<noteq> []"
  shows "pm_inv (s\<lparr>groups := AList.update (p_pgid child) (ps @ [p]) (groups s),
                  processes := AList.update p child (processes s)\<rparr>)" (is "pm_inv ?t")
proof (rule pm_invI_groups)
  have ps': "map_of (groups s) (p_pgid child) = Some ps" using ps by (simp add: group_of_def)
  have enter: "groups ?t = enter_group p (p_pgid child) (groups s)"
    using ps' by (simp add: enter_group_def)
  have procs: "proc_of ?t = (proc_of s)(p \<mapsto> child)"
    by (simp add: proc_of_def fun_eq_iff alist_simps)
  show "procs_ok ?t"
    using inv p ok unfolding procs_ok_def procs by (auto simp: pm_inv_def procs_ok_def)
  show "boot_ok ?t"
    by (rule boot_ok_running[of s]) (use inv ne in \<open>simp_all add: pm_inv_def\<close>)
  have "p \<notin> members (groups s) (p_pgid child)"
    using pm_inv_members[OF inv] fresh by simp
  then show "group_lists_ok (groups ?t)"
    unfolding enter by (rule enter_group_lists[OF pm_inv_group_lists[OF inv]])
  show "members (groups ?t) g = {q. \<exists>pr. proc_of ?t q = Some pr \<and> p_pgid pr = g}" for g
    unfolding enter procs using pm_inv_members[OF inv, of g] fresh
    by (auto simp: enter_group_members)
qed

lemma pm_inv_fresh: "pm_inv s \<Longrightarrow> proc_of s (next_id s) = None"
  by (cases "proc_of s (next_id s)") (auto dest: pm_invD(2))

lemma fork_ok:
  assumes "pm_inv s" and "proc_of s parent_pid = Some parent" and "new_context x = Inr cfd"
    and "dup_status x cfd = Inr sfd" and "subscribe_ok x cfd"
    and "group_of s (p_pgid parent) = Some ps"
  defines "th \<equiv> \<lparr>t_tid = next_tid s, t_fd = cfd, status_hndl = sfd, t_pid = next_id s, sig_ctrl = None\<rparr>"
  defines "child \<equiv> child_of parent parent_pid (next_id s) th"
  shows "fork x parent_pid s =
     ok (next_id s)
       (s\<lparr>processes := AList.update (next_id s) child (processes s),
          groups := AList.update (p_pgid parent) (ps @ [next_id s]) (groups s),
          thread_lookup := AList.update cfd (next_tid s) (thread_lookup s),
          next_id := Suc (next_id s), next_tid := Suc (next_tid s),
          klog := klog s @ Subscribe cfd # snd (sync_kernel_attrs x child)\<rparr>)"
  using assms(1-6) unfolding child_def th_def
  by (simp add: fork_def new_id_def push_group_def logk_def Let_def)

lemma fork_inv [pm_inv_ops]:
  assumes inv: "pm_inv s"
  shows "pm_inv (snd (fork x parent_pid s))"
proof -
  have inv1: "pm_inv (s\<lparr>next_id := Suc (next_id s)\<rparr>)" using inv by (rule pm_inv_next_id)
  show ?thesis
  proof (cases "\<exists>parent cfd sfd. proc_of s parent_pid = Some parent \<and> new_context x = Inr cfd \<and>
      dup_status x cfd = Inr sfd \<and> subscribe_ok x cfd")
    case False
    then show ?thesis
      using inv1 by (auto simp: fork_def new_id_def split: option.splits sum.splits)
  next
    case True
    then obtain parent cfd sfd where h: "proc_of s parent_pid = Some parent"
        "new_context x = Inr cfd" "dup_status x cfd = Inr sfd" "subscribe_ok x cfd" by blast
    obtain ps where ps: "group_of s (p_pgid parent) = Some ps"
      using inv h(1) by (rule pm_inv_group_of_proc)
    let ?th = "\<lparr>t_tid = next_tid s, t_fd = cfd, status_hndl = sfd, t_pid = next_id s, sig_ctrl = None\<rparr>"
    let ?c = "child_of parent parent_pid (next_id s) ?th"
    let ?s1 = "s\<lparr>next_id := Suc (next_id s)\<rparr>"
    have "p_pgid ?c = p_pgid parent" by (simp add: child_of_def)
    moreover have "proc_ok (next_id s) ?c"
      using pm_invD(1)[OF inv h(1)] by (rule child_proc_ok) simp
    ultimately have "pm_inv (?s1\<lparr>groups := AList.update (p_pgid parent) (ps @ [next_id s]) (groups ?s1),
        processes := AList.update (next_id s) ?c (processes ?s1)\<rparr>)"
      using add_child_inv[OF inv1, of "next_id s" ?c ps] pm_inv_fresh[OF inv] ps proc_of_nonempty[OF h(1)]
      by simp
    then show ?thesis
      unfolding fork_ok[OF inv h ps] snd_conv by (rule pm_inv_cong[THEN iffD1, rotated -1]) simp_all
  qed
qed

lemma new_thread_inv [pm_inv_ops]: "pm_inv s \<Longrightarrow> pm_inv (snd (new_thread x p s))"
  by (auto simp: new_thread_def Let_def proc_ok_def intro!: pm_inv_upd_proc split: option.splits sum.splits)

lemma getters_state [simp]:
  "snd (on_getpgid c t s) = s" "snd (on_getsid c t s) = s" "snd (on_getppid c s) = s"
  "snd (on_getprocprio c t s) = s"
  by (auto simp: on_getpgid_def on_getsid_def on_getppid_def on_getprocprio_def split: option.splits)

lemma on_setsid_inv [pm_inv_ops]:
  assumes inv: "pm_inv s"
  shows "pm_inv (snd (on_setsid c s))"
proof -
  have "pm_inv (upd_proc c (\<lambda>p. p\<lparr>p_sid := c\<rparr>) s1)"
    if "proc_of s c = Some pr" and "set_pgid c pr parent c s = (r, s1)" for pr parent r s1
    using set_pgid_inv[OF inv that] by (rule pm_inv_upd_proc) (simp add: proc_ok_def)
  then show ?thesis
    using inv set_pgid_inv[OF inv]
    by (auto simp: on_setsid_def Let_def split: option.splits prod.splits sum.splits)
qed

lemma set_pgid_snd_inv: "pm_inv s \<Longrightarrow> proc_of s t = Some pr \<Longrightarrow> pm_inv (snd (set_pgid t pr parent g s))"
  by (cases "set_pgid t pr parent g s") (simp add: set_pgid_inv)

lemma on_setpgid_inv [pm_inv_ops]: "pm_inv s \<Longrightarrow> pm_inv (snd (on_setpgid c t g s))"
  unfolding on_setpgid_def by (intro pm_inv_branch) (simp_all add: set_pgid_snd_inv)

lemma set_ids_fields [simp]:
  "p_pid (set_ids ids pr) = p_pid pr" "p_waitpid (set_ids ids pr) = p_waitpid pr"
  "p_status (set_ids ids pr) = p_status pr" "p_rtqs (set_ids ids pr) = p_rtqs pr"
  "p_threads (set_ids ids pr) = p_threads pr" "p_prio (set_ids ids pr) = p_prio pr"
  "p_name (set_ids ids pr) = p_name pr" "p_pgid (set_ids ids pr) = p_pgid pr"
  by (simp_all add: set_ids_def split: list.splits)

lemma on_setresugid_inv [pm_inv_ops]: "pm_inv s \<Longrightarrow> pm_inv (snd (on_setresugid x p raw s))"
  by (auto simp: on_setresugid_def Let_def proc_ok_def intro!: pm_inv_upd_proc split: option.splits)

lemma on_proc_rename_inv [pm_inv_ops]: "pm_inv s \<Longrightarrow> pm_inv (snd (on_proc_rename x p n s))"
  by (auto simp: on_proc_rename_def Let_def proc_ok_def intro!: pm_inv_upd_proc split: option.splits)

lemma on_setprocprio_inv [pm_inv_ops]: "pm_inv s \<Longrightarrow> pm_inv (snd (on_setprocprio x c t n s))"
  by (auto simp: on_setprocprio_def proc_ok_def not_le intro!: pm_inv_upd_proc split: option.splits)

lemma on_disable_setpgid_inv [pm_inv_ops]: "pm_inv s \<Longrightarrow> pm_inv (snd (on_disable_setpgid p s))"
  by (auto simp: on_disable_setpgid_def proc_ok_def intro!: pm_inv_upd_proc split: option.splits)

end
