(* ===== verification/Procmgr_Signal.thy ===== *)
theory Procmgr_Signal
  imports Procmgr_Ids
begin

text \<open>
  Signals in \<^verbatim>\<open>bootstrap/src/procmgr.rs\<close>: permission, stop and continue, kill, delivery to a process or a
  thread, real-time queues, and the notification of the parent.

  The closure inside \<open>on_send_sig\<close> is \<open>send_sig_closure\<close>; its branches are definitions of their own. A
  call of \<open>on_send_sig\<close> returns the result, the flag \<open>killed_self\<close> and the new state. It calls itself
  to send SIGCHLD to the parent; \<open>fuel\<close> bounds the depth, and running out is the panic of an
  exhausted stack. \<open>on_send_sig_fuel\<close> shows that depth two is always enough, because SIGCHLD is not a
  job-control signal.
\<close>

unbundle bit_operations_syntax

section \<open>Definitions\<close>

datatype send_result =
    LacksPermission
  | Succeeded
  | SucceededSigchld u8 pid pid
  | SucceededSigcont pid pid
  | FullQ
  | Invalid

datatype kill_mode = Idempotent | Queued bytes

datatype kill_target = TProc pid | TThread tid pid

type_synonym sig_outcome = "(fault + send_result) \<times> bool \<times> proc_scheme"

definition pgrp_is_orphaned :: "proc_scheme \<Rightarrow> pid \<Rightarrow> bool option" where
  "pgrp_is_orphaned s grp =
     map_option
       (list_all (\<lambda>p. case proc_of s p of
           None \<Rightarrow> True
         | Some process \<Rightarrow>
            (case proc_of s (p_ppid process) of
               None \<Rightarrow> True
             | Some parent \<Rightarrow> p_pgid parent = p_pgid process \<or> p_sid parent \<noteq> p_sid process)))
       (group_of s grp)"

text \<open>\<open>(sig - 1) / 32\<close> and \<open>(sig - 1) % 32\<close> on \<open>usize\<close>, which wraps for signal 0.\<close>

definition sig_group :: "nat \<Rightarrow> nat" where
  "sig_group sig = unat ((of_nat sig - 1 :: u64) div 32)"

definition sig_idx :: "nat \<Rightarrow> nat" where
  "sig_idx sig = unat ((of_nat sig - 1 :: u64) mod 32)"

definition is_conditional_stop :: "ext \<Rightarrow> nat \<Rightarrow> bool" where
  "is_conditional_stop x sig \<longleftrightarrow> sig = SIGTTIN x \<or> sig = SIGTTOU x \<or> sig = SIGTSTP x"

text \<open>Writing a verb to every thread, where a failed write is unwrapped.\<close>

fun write_all_expect :: "ext \<Rightarrow> verb \<Rightarrow> thread list \<Rightarrow> bool \<times> kcall list" where
  "write_all_expect x v [] = (True, [])"
| "write_all_expect x v (th # ths) =
     (case write_status x (status_hndl th) v of
        Some _ \<Rightarrow> (False, [StatusWrite (status_hndl th) v])
      | None \<Rightarrow> (let (b, ks) = write_all_expect x v ths in (b, StatusWrite (status_hndl th) v # ks)))"

definition mask_word :: "nat \<Rightarrow> u64 \<Rightarrow> sigcontrol \<Rightarrow> sigcontrol" where
  "mask_word i m tc = tc\<lparr>tc_word := (tc_word tc)(i := tc_word tc i AND NOT m)\<rparr>"

definition cont_thread :: "ext \<Rightarrow> thread \<Rightarrow> thread" where
  "cont_thread x th =
     th\<lparr>sig_ctrl := map_option
          (mask_word 0 (sig_bit x (SIGSTOP x) OR sig_bit x (SIGTTIN x) OR sig_bit x (SIGTTOU x)
             OR sig_bit x (SIGTSTP x)))
          (sig_ctrl th)\<rparr>"

definition send_cont :: "ext \<Rightarrow> pid \<Rightarrow> process \<Rightarrow> sig_proc_control \<Rightarrow> bool \<Rightarrow> proc_scheme \<Rightarrow> sig_outcome" where
  "send_cont x target_pid target pctl killed s =
     (let pctl' = (if signal_will_ign x pctl (SIGCONT x) False then pctl
                   else pctl\<lparr>pending := pending pctl OR sig_bit x (SIGCONT x)\<rparr>);
          (written, ks) = write_all_expect x VUnstop (p_threads target);
          s1 = logk ks (upd_proc target_pid
                 (\<lambda>q. q\<lparr>p_status := PossiblyRunnable, p_sig_pctl := Some pctl',
                        p_threads := map (cont_thread x) (p_threads q)\<rparr>) s)
      in if written then (Inr (SucceededSigcont (p_ppid target) (p_pgid target)), killed, s1)
         else (Inl Panic, killed, s1))"

definition stop_thread :: "ext \<Rightarrow> thread \<Rightarrow> thread" where
  "stop_thread x th =
     (case write_status x (status_hndl th) VStop of
        Some _ \<Rightarrow> th
      | None \<Rightarrow> th\<lparr>sig_ctrl := map_option (mask_word 0 (sig_bit x (SIGCONT x))) (sig_ctrl th)\<rparr>)"

definition send_stop :: "ext \<Rightarrow> pid \<Rightarrow> process \<Rightarrow> sig_proc_control \<Rightarrow> u8 \<Rightarrow> bool \<Rightarrow> proc_scheme \<Rightarrow> sig_outcome" where
  "send_stop x target_pid target pctl nz_signal killed s =
     (let s1 = logk (map (\<lambda>th. StatusWrite (status_hndl th) VStop) (p_threads target))
                 (upd_proc target_pid
                   (\<lambda>q. q\<lparr>p_status := Stopped (unat nz_signal),
                          p_threads := map (stop_thread x) (p_threads q),
                          p_sig_pctl := Some (pctl\<lparr>pending := pending pctl AND NOT (sig_bit x (SIGCONT x))\<rparr>)\<rparr>) s)
      in (Inr (SucceededSigchld nz_signal (p_ppid target) (p_pgid target)), killed, s1))"

definition send_kill :: "ext \<Rightarrow> process \<Rightarrow> bool \<Rightarrow> bool \<Rightarrow> proc_scheme \<Rightarrow> sig_outcome" where
  "send_kill x target is_self killed s =
     (let (written, ks) = write_all_expect x VForceKill (p_threads target); s1 = logk ks s
      in if written then (Inr Succeeded, killed \<or> is_self, s1) else (Inl Panic, killed, s1))"

definition thread_allows :: "nat \<Rightarrow> sigcontrol \<Rightarrow> bool" where
  "thread_allows sig tc \<longleftrightarrow>
     drop_bit 32 (tc_word tc (sig_group sig)) AND push_bit (sig_idx sig) 1 \<noteq> 0"

definition set_thread :: "tid \<Rightarrow> (thread \<Rightarrow> thread) \<Rightarrow> process \<Rightarrow> process" where
  "set_thread t f q = q\<lparr>p_threads := map (\<lambda>th. if t_tid th = t then f th else th) (p_threads q)\<rparr>"

definition deliver_thread ::
  "ext \<Rightarrow> tid \<Rightarrow> pid \<Rightarrow> process \<Rightarrow> sender_info \<Rightarrow> nat \<Rightarrow> bool \<Rightarrow> bool \<Rightarrow> proc_scheme \<Rightarrow> sig_outcome" where
  "deliver_thread x t target_pid target sender sig is_self killed s =
     (case find (\<lambda>th. t_tid th = t) (p_threads target) of
        None \<Rightarrow> (Inr Invalid, killed, s)
      | Some th \<Rightarrow>
         (case sig_ctrl th of
            None \<Rightarrow> (Inr Invalid, killed, s)
          | Some tc \<Rightarrow>
             let tc' = tc\<lparr>tc_sender_infos := (tc_sender_infos tc)(sig_idx sig := sender),
                          tc_word := (tc_word tc)(sig_group sig :=
                             tc_word tc (sig_group sig) OR push_bit (sig_idx sig) 1)\<rparr>;
                 s1 = upd_proc target_pid (set_thread t (\<lambda>h. h\<lparr>sig_ctrl := Some tc'\<rparr>)) s
             in if thread_allows sig tc' then
                  (let s2 = logk [StatusWrite (status_hndl th) VInterrupt] s1 in
                   case write_status x (status_hndl th) VInterrupt of
                     Some _ \<Rightarrow> (Inl Panic, killed \<or> is_self, s2)
                   | None \<Rightarrow> (Inr Succeeded, killed \<or> is_self, s2))
                else (Inr Succeeded, killed, s1)))"

text \<open>The thread that is interrupted for a process-directed signal: the first that allows it.\<close>

definition interrupt_target :: "nat \<Rightarrow> thread list \<Rightarrow> thread option" where
  "interrupt_target sig ths =
     find (\<lambda>th. case sig_ctrl th of None \<Rightarrow> False | Some tc \<Rightarrow> thread_allows sig tc) ths"

definition notify_proc ::
  "ext \<Rightarrow> pid \<Rightarrow> process \<Rightarrow> sig_proc_control \<Rightarrow> nat \<Rightarrow> bool \<Rightarrow> bool \<Rightarrow> proc_scheme \<Rightarrow> sig_outcome" where
  "notify_proc x target_pid target pctl sig is_self killed s =
     (let s1 = upd_proc target_pid
                 (\<lambda>q. q\<lparr>p_sig_pctl := Some (pctl\<lparr>pending := pending pctl OR sig_bit x sig\<rparr>)\<rparr>) s
      in case interrupt_target sig (p_threads target) of
           None \<Rightarrow> (Inr Succeeded, killed, s1)
         | Some th \<Rightarrow>
            (let s2 = logk [StatusWrite (status_hndl th) VInterrupt] s1 in
             case write_status x (status_hndl th) VInterrupt of
               Some _ \<Rightarrow> (Inl Panic, killed, s2)
             | None \<Rightarrow> (Inr Succeeded, killed \<or> is_self, s2)))"

text \<open>\<open>resize_with(rtidx + 1, VecDeque::new)\<close> where the queue is missing.\<close>

definition grow_rtqs :: "nat \<Rightarrow> bytes list list \<Rightarrow> bytes list list" where
  "grow_rtqs i qs = qs @ replicate (Suc i - length qs) []"

definition deliver_proc ::
  "ext \<Rightarrow> pid \<Rightarrow> process \<Rightarrow> sig_proc_control \<Rightarrow> sender_info \<Rightarrow> nat \<Rightarrow> kill_mode \<Rightarrow> bool \<Rightarrow> bool
     \<Rightarrow> proc_scheme \<Rightarrow> sig_outcome" where
  "deliver_proc x target_pid target pctl sender sig mode is_self killed s =
     (case mode of
        Queued arg \<Rightarrow>
          if sig_group sig \<noteq> 1 then (Inr Invalid, killed, s)
          else
            let qs = grow_rtqs (sig_idx sig) (p_rtqs target);
                s1 = upd_proc target_pid (\<lambda>q. q\<lparr>p_rtqs := qs\<rparr>) s
            in if length (qs ! sig_idx sig) \<ge> 32 then (Inr FullQ, killed, s1)
               else notify_proc x target_pid target pctl sig is_self killed
                      (upd_proc target_pid
                         (\<lambda>q. q\<lparr>p_rtqs := qs[sig_idx sig := qs ! sig_idx sig @ [arg]]\<rparr>) s)
      | Idempotent \<Rightarrow>
          if pending pctl AND sig_bit x sig \<noteq> 0 then (Inr Succeeded, killed, s)
          else if sig_group sig \<noteq> 0 then (Inr Invalid, killed, s)
          else notify_proc x target_pid target
                 (pctl\<lparr>pc_sender_infos := (pc_sender_infos pctl)(sig_idx sig := sender)\<rparr>)
                 sig is_self killed s)"

definition may_signal :: "u32 \<Rightarrow> u32 \<Rightarrow> process \<Rightarrow> bool" where
  "may_signal caller_euid caller_ruid target \<longleftrightarrow>
     caller_euid = 0 \<or> caller_euid = p_ruid target \<or> caller_ruid = p_ruid target"

definition is_exiting :: "process_status \<Rightarrow> bool" where
  "is_exiting st = (case st of Exited _ _ \<Rightarrow> True | Exiting _ _ \<Rightarrow> True | _ \<Rightarrow> False)"

definition is_stopped :: "process_status \<Rightarrow> bool" where
  "is_stopped st = (case st of Stopped _ \<Rightarrow> True | _ \<Rightarrow> False)"

definition send_sig_closure ::
  "ext \<Rightarrow> u32 \<Rightarrow> u32 \<Rightarrow> sender_info \<Rightarrow> kill_target \<Rightarrow> pid \<Rightarrow> process \<Rightarrow> u8 \<Rightarrow> bool \<Rightarrow> bool \<Rightarrow> kill_mode
     \<Rightarrow> bool \<Rightarrow> proc_scheme \<Rightarrow> sig_outcome" where
  "send_sig_closure x caller_euid caller_ruid sender target target_pid target_proc signal is_self killed
       mode stop_or_continue s =
     (let sig = unat signal in
      if \<not> may_signal caller_euid caller_ruid target_proc then (Inr LacksPermission, killed, s)
      else if signal = 0 then (Inr Succeeded, killed, s)
      else if is_exiting (p_status target_proc) then (Inr Succeeded, killed, s)
      else
        case p_sig_pctl target_proc of
          None \<Rightarrow> (Inr Invalid, killed, s)
        | Some pctl \<Rightarrow>
           if sig = SIGCONT x \<and> is_stopped (p_status target_proc) then
             send_cont x target_pid target_proc pctl killed s
           else if sig = SIGSTOP x \<or> (is_conditional_stop x sig \<and> signal_will_stop x pctl sig) then
             (if is_conditional_stop x sig
                 \<and> (case pgrp_is_orphaned s (p_pgid target_proc) of None \<Rightarrow> True | Some b \<Rightarrow> b)
              then (Inr Succeeded, killed, s)
              else send_stop x target_pid target_proc pctl signal killed s)
           else if sig = SIGKILL x then send_kill x target_proc is_self killed s
           else if signal_will_ign x pctl sig stop_or_continue then (Inr Succeeded, killed, s)
           else
             (case target of
                TThread t _ \<Rightarrow> deliver_thread x t target_pid target_proc sender sig is_self killed s
              | TProc _ \<Rightarrow> deliver_proc x target_pid target_proc pctl sender sig mode is_self killed s))"

definition target_pid_of :: "kill_target \<Rightarrow> pid" where
  "target_pid_of t = (case t of TProc p \<Rightarrow> p | TThread _ p \<Rightarrow> p)"

text \<open>
  The parent is told of a status change of \<open>p\<close>: an entry in its wait map, and its waiters are woken.
\<close>

definition post_status :: "pid \<Rightarrow> pid \<Rightarrow> pid \<Rightarrow> waitpid_status \<Rightarrow> proc_scheme \<Rightarrow> proc_scheme" where
  "post_status ppid p pgid st s =
     wake_waiters ppid
       (upd_proc ppid (\<lambda>q. q\<lparr>p_waitpid := bt_insert waitpid_key_cmp (stored_key p pgid) (p, st) (p_waitpid q)\<rparr>) s)"

fun on_send_sig ::
  "nat \<Rightarrow> ext \<Rightarrow> pid \<Rightarrow> kill_target \<Rightarrow> u8 \<Rightarrow> bool \<Rightarrow> kill_mode \<Rightarrow> bool \<Rightarrow> proc_scheme
     \<Rightarrow> (fault + unit) \<times> bool \<times> proc_scheme" where
  "on_send_sig 0 x caller_pid target signal killed mode stop_or_continue s = (Inl Panic, killed, s)"
| "on_send_sig (Suc fuel) x caller_pid target signal killed mode stop_or_continue s =
     (if unat signal > 64 then (Inl (Errno EINVAL), killed, s)
      else
        let target_pid = target_pid_of target in
        case (proc_of s target_pid, proc_of s caller_pid) of
          (Some target_proc, Some caller) \<Rightarrow>
            (case send_sig_closure x (p_euid caller) (p_ruid caller)
                    \<lparr>si_pid = of_nat caller_pid, si_ruid = p_ruid caller\<rparr> target target_pid
                    target_proc signal (target_pid = caller_pid) killed mode stop_or_continue s of
               (Inl f, killed1, s1) \<Rightarrow> (Inl f, killed1, s1)
             | (Inr LacksPermission, killed1, s1) \<Rightarrow> (Inl (Errno EPERM), killed1, s1)
             | (Inr Succeeded, killed1, s1) \<Rightarrow> (Inr (), killed1, s1)
             | (Inr FullQ, killed1, s1) \<Rightarrow> (Inl (Errno EAGAIN), killed1, s1)
             | (Inr Invalid, killed1, s1) \<Rightarrow> (Inl (Errno ESRCH), killed1, s1)
             | (Inr (SucceededSigchld orig_signal ppid pgid), killed1, s1) \<Rightarrow>
                 (case proc_of s1 ppid of
                    None \<Rightarrow> (Inl (Errno ESRCH), killed1, s1)
                  | Some _ \<Rightarrow>
                     let s2 = post_status ppid target_pid pgid (WStopped orig_signal) s1 in
                     if ppid = INIT_PID then (Inr (), killed1, s2)
                     else
                       (case on_send_sig fuel x INIT_PID (TProc ppid) (of_nat (SIGCHLD x)) killed1
                               Idempotent True s2 of
                          (Inl Panic, killed2, s3) \<Rightarrow> (Inl Panic, killed2, s3)
                        | (_, killed2, s3) \<Rightarrow> (Inr (), killed2, s3)))
             | (Inr (SucceededSigcont ppid pgid), killed1, s1) \<Rightarrow>
                 (case proc_of s1 ppid of
                    None \<Rightarrow> (Inl (Errno ESRCH), killed1, s1)
                  | Some _ \<Rightarrow>
                     let s2 = post_status ppid target_pid pgid Continued s1 in
                     if ppid = INIT_PID then (Inr (), killed1, s2)
                     else
                       (case on_send_sig fuel x INIT_PID (TProc ppid) (of_nat (SIGCHLD x)) killed1
                               Idempotent True s2 of
                          (Inl Panic, killed2, s3) \<Rightarrow> (Inl Panic, killed2, s3)
                        | (_, killed2, s3) \<Rightarrow> (Inr (), killed2, s3))))
        | _ \<Rightarrow> (Inl (Errno ESRCH), killed, s))"

text \<open>The depth of self-calls the manager uses.\<close>

definition sig_fuel :: nat where
  "sig_fuel = 2"

definition on_kill_thread :: "ext \<Rightarrow> thread \<Rightarrow> u8 \<Rightarrow> proc_scheme \<Rightarrow> (unit, proc_scheme) outcome" where
  "on_kill_thread x th signal s =
     (case on_send_sig sig_fuel x (t_pid th) (TThread (t_tid th) (t_pid th)) signal False Idempotent False s of
        (Inl f, _, s1) \<Rightarrow> (Inl f, s1)
      | (Inr _, killed_self, s1) \<Rightarrow> if killed_self then fail ERESTART s1 else ok () s1)"

text \<open>
  The loop of \<open>on_kill\<close> over the processes; the accumulator is the last error, the number of
  processes signalled and \<open>killed_self\<close>.
\<close>

fun kill_loop ::
  "ext \<Rightarrow> pid \<Rightarrow> pid option \<Rightarrow> u8 \<Rightarrow> kill_mode \<Rightarrow> pid list \<Rightarrow> errno option \<Rightarrow> nat \<Rightarrow> bool \<Rightarrow> proc_scheme
     \<Rightarrow> (fault + errno option \<times> nat \<times> bool) \<times> proc_scheme" where
  "kill_loop x caller match_grp signal mode [] err_opt n killed s = (Inr (err_opt, n, killed), s)"
| "kill_loop x caller match_grp signal mode (p # ps) err_opt n killed s =
     (if (case (match_grp, proc_of s p) of (Some g, Some pr) \<Rightarrow> p_pgid pr \<noteq> g | _ \<Rightarrow> False)
      then kill_loop x caller match_grp signal mode ps err_opt n killed s
      else
        case on_send_sig sig_fuel x caller (TProc p) signal killed mode False s of
          (Inl Panic, _, s1) \<Rightarrow> (Inl Panic, s1)
        | (Inl (Errno e), killed1, s1) \<Rightarrow> kill_loop x caller match_grp signal mode ps (Some e) n killed1 s1
        | (Inr _, killed1, s1) \<Rightarrow> kill_loop x caller match_grp signal mode ps err_opt (Suc n) killed1 s1)"

definition kill_matching ::
  "ext \<Rightarrow> pid \<Rightarrow> pid option \<Rightarrow> u8 \<Rightarrow> kill_mode \<Rightarrow> proc_scheme \<Rightarrow> (unit, proc_scheme) outcome" where
  "kill_matching x caller match_grp signal mode s =
     (case kill_loop x caller match_grp signal mode (map fst (processes s)) None 0 False s of
        (Inl f, s1) \<Rightarrow> (Inl f, s1)
      | (Inr (err_opt, num_succeeded, killed_self), s1) \<Rightarrow>
          if num_succeeded = 0 then
            (case err_opt of Some e \<Rightarrow> fail e s1 | None \<Rightarrow> fail ESRCH s1)
          else if killed_self then fail ERESTART s1
          else ok () s1)"

definition on_kill :: "ext \<Rightarrow> pid \<Rightarrow> proc_kill_target \<Rightarrow> u8 \<Rightarrow> kill_mode \<Rightarrow> proc_scheme \<Rightarrow> (unit, proc_scheme) outcome" where
  "on_kill x caller_pid target signal mode s =
     (case target of
        KSingleProc p \<Rightarrow>
          (case on_send_sig sig_fuel x caller_pid (TProc p) signal False mode False s of
             (Inl f, _, s1) \<Rightarrow> (Inl f, s1)
           | (Inr _, killed_self, s1) \<Rightarrow> if killed_self then fail ERESTART s1 else ok () s1)
      | KAll \<Rightarrow> kill_matching x caller_pid None signal mode s
      | KProcGroup grp \<Rightarrow> kill_matching x caller_pid (Some grp) signal mode s
      | KThisGroup \<Rightarrow>
          (case proc_of s caller_pid of
             None \<Rightarrow> fail ESRCH s
           | Some caller \<Rightarrow> kill_matching x caller_pid (Some (p_pgid caller)) signal mode s))"

subsection \<open>Signal control pages and queued signals\<close>

definition on_sync_sigtctl :: "ext \<Rightarrow> thread \<Rightarrow> proc_scheme \<Rightarrow> (unit, proc_scheme) outcome" where
  "on_sync_sigtctl x th s =
     (case dup_sighandler x (t_fd th) of
        Inl e \<Rightarrow> fail e s
      | Inr fd \<Rightarrow>
         (case map_tctl x fd of
            Inl e \<Rightarrow> fail e s
          | Inr tc \<Rightarrow> ok () (upd_proc (t_pid th) (set_thread (t_tid th) (\<lambda>h. h\<lparr>sig_ctrl := Some tc\<rparr>)) s)))"

definition on_sync_sigpctl :: "ext \<Rightarrow> pid \<Rightarrow> proc_scheme \<Rightarrow> (unit, proc_scheme) outcome" where
  "on_sync_sigpctl x p s =
     (case proc_of s p of
        None \<Rightarrow> fail ESRCH s
      | Some pr \<Rightarrow>
         (case p_threads pr of
            [] \<Rightarrow> fail EINVAL s
          | any_thread # _ \<Rightarrow>
             (case dup_sighandler x (t_fd any_thread) of
                Inl e \<Rightarrow> fail e s
              | Inr fd \<Rightarrow>
                 (case map_pctl x fd of
                    Inl e \<Rightarrow> fail e s
                  | Inr pc \<Rightarrow> ok () (upd_proc p (\<lambda>q. q\<lparr>p_sig_pctl := Some pc\<rparr>) s)))))"

text \<open>
  \<open>on_sigdeq\<close> reads the queue index from the first four payload bytes (native order, little endian)
  and returns the bytes that overwrite the payload.
\<close>

definition u32_of_le :: "bytes \<Rightarrow> nat" where
  "u32_of_le bs = foldr (\<lambda>b acc. unat b + 256 * acc) (take 4 bs) 0"

definition on_sigdeq :: "ext \<Rightarrow> pid \<Rightarrow> bytes \<Rightarrow> proc_scheme \<Rightarrow> (bytes, proc_scheme) outcome" where
  "on_sigdeq x p payload s =
     (if length payload < 4 then fail EINVAL s
      else
        let idx = u32_of_le payload in
        if length payload < rt_sig_info_size x then fail EINVAL s
        else if idx \<ge> 32 then fail EINVAL s
        else
          case proc_of s p of
            None \<Rightarrow> fail ESRCH s
          | Some pr \<Rightarrow>
             (case p_sig_pctl pr of
                None \<Rightarrow> fail EBADF s
              | Some pctl \<Rightarrow>
                 if idx \<ge> length (p_rtqs pr) then fail EAGAIN s
                 else
                   (case p_rtqs pr ! idx of
                      [] \<Rightarrow> fail EAGAIN s
                    | front # rest \<Rightarrow>
                       let pctl' = (if rest = [] then
                                      pctl\<lparr>pending := pending pctl AND NOT (push_bit (32 + idx) 1)\<rparr>
                                    else pctl)
                       in ok front (upd_proc p
                            (\<lambda>q. q\<lparr>p_rtqs := (p_rtqs q)[idx := rest], p_sig_pctl := Some pctl'\<rparr>) s))))"

subsection \<open>What sending a signal may change\<close>

definition rtqs_ok :: "bytes list list \<Rightarrow> bool" where
  "rtqs_ok qs \<longleftrightarrow> length qs \<le> 32 \<and> (\<forall>q\<in>set qs. length q \<le> 32)"

definition thread_ident :: "thread \<Rightarrow> tid \<times> nat \<times> nat \<times> pid" where
  "thread_ident th = (t_tid th, t_fd th, status_hndl th, t_pid th)"

text \<open>
  Identity, credentials, group, session and threads of a process stay; a process that is exiting or
  has exited keeps its status, no signal makes a process exit in the table, and none makes a wait map
  report a termination.
\<close>

definition exit_kept :: "process_status \<Rightarrow> process_status \<Rightarrow> bool" where
  "exit_kept st st' \<longleftrightarrow> (is_exiting st \<or> is_exiting st' \<longrightarrow> st' = st)"

definition is_term :: "waitpid_status \<Rightarrow> bool" where
  "is_term st = (case st of Terminated _ _ \<Rightarrow> True | _ \<Rightarrow> False)"

definition no_new_term :: "waitpid_map \<Rightarrow> waitpid_map \<Rightarrow> bool" where
  "no_new_term m m' \<longleftrightarrow>
     (\<forall>p g c. wm_status m' p = Some (Terminated g c) \<longrightarrow> wm_status m p = Some (Terminated g c))"

definition sig_proc_rel :: "process \<Rightarrow> process \<Rightarrow> bool" where
  "sig_proc_rel a b \<longleftrightarrow>
     (p_pid b, p_ppid b, p_pgid b, p_sid b, p_name b, p_prio b) =
       (p_pid a, p_ppid a, p_pgid a, p_sid a, p_name a, p_prio a) \<and>
     (p_ruid b, p_euid b, p_suid b, p_rgid b, p_egid b, p_sgid b) =
       (p_ruid a, p_euid a, p_suid a, p_rgid a, p_egid a, p_sgid a) \<and>
     (p_disabled_setpgid b, p_awaiting_threads_term b) = (p_disabled_setpgid a, p_awaiting_threads_term a) \<and>
     map thread_ident (p_threads b) = map thread_ident (p_threads a) \<and>
     exit_kept (p_status a) (p_status b) \<and>
     (wm_ok (p_waitpid a) \<longrightarrow> wm_ok (p_waitpid b) \<and> no_new_term (p_waitpid a) (p_waitpid b)) \<and>
     (rtqs_ok (p_rtqs a) \<longrightarrow> rtqs_ok (p_rtqs b))"

definition sig_frame :: "proc_scheme \<Rightarrow> proc_scheme \<Rightarrow> bool" where
  "sig_frame s t \<longleftrightarrow>
     map fst (processes t) = map fst (processes s) \<and> groups t = groups s \<and> sessions t = sessions s \<and>
     handles t = handles s \<and> thread_lookup t = thread_lookup s \<and> states t = states s \<and>
     next_internal_id t = next_internal_id s \<and> init_claimed t = init_claimed s \<and>
     next_id t = next_id s \<and> next_tid t = next_tid s \<and>
     (\<forall>p. rel_option sig_proc_rel (proc_of s p) (proc_of t p)) \<and>
     (\<exists>ks. klog t = klog s @ ks) \<and> (\<exists>a. awoken t = awoken s @ a)"

section \<open>Frame and invariant\<close>

lemma exit_kept_refl [simp]: "exit_kept st st"
  by (simp add: exit_kept_def)

lemma exit_kept_trans: "exit_kept a b \<Longrightarrow> exit_kept b c \<Longrightarrow> exit_kept a c"
  unfolding exit_kept_def by metis

lemma no_new_term_refl [simp]: "no_new_term m m"
  by (simp add: no_new_term_def)

lemma no_new_term_trans: "no_new_term a b \<Longrightarrow> no_new_term b c \<Longrightarrow> no_new_term a c"
  by (simp add: no_new_term_def)

lemma no_new_term_insert:
  "wm_ok m \<Longrightarrow> \<not> is_term st \<Longrightarrow>
   no_new_term m (bt_insert waitpid_key_cmp (stored_key p q) (p, st) m)"
  by (auto simp: no_new_term_def wm_insert_status is_term_def split: if_splits)

lemma sig_proc_rel_refl [simp]: "sig_proc_rel a a"
  by (simp add: sig_proc_rel_def)

lemma sig_proc_rel_trans: "sig_proc_rel a b \<Longrightarrow> sig_proc_rel b c \<Longrightarrow> sig_proc_rel a c"
  unfolding sig_proc_rel_def prod.inject by (elim conjE, intro conjI) ((erule (1) exit_kept_trans | blast intro: no_new_term_trans | simp)+)

lemma sig_frame_refl [simp]: "sig_frame s s"
  by (simp add: sig_frame_def option.rel_refl)

lemma sig_frame_trans:
  assumes "sig_frame s t" and "sig_frame t u"
  shows "sig_frame s u"
proof -
  have "rel_option sig_proc_rel (proc_of s p) (proc_of u p)" for p
  proof -
    have "rel_option sig_proc_rel (proc_of s p) (proc_of t p)" "rel_option sig_proc_rel (proc_of t p) (proc_of u p)"
      using assms by (simp_all add: sig_frame_def)
    then show ?thesis
      by (cases "proc_of s p"; cases "proc_of t p"; cases "proc_of u p") (auto intro: sig_proc_rel_trans)
  qed
  with assms show ?thesis by (auto simp: sig_frame_def)
qed

lemma sig_frame_upd_proc:
  assumes "\<And>pr. proc_of s p = Some pr \<Longrightarrow> sig_proc_rel pr (f pr)"
  shows "sig_frame s (upd_proc p f s)"
proof -
  have "rel_option sig_proc_rel (proc_of s q) (proc_of (upd_proc p f s) q)" for q
    using assms by (cases "proc_of s q") (auto simp: pm_frame)
  then show ?thesis by (simp add: sig_frame_def pm_frame)
qed

lemma sig_frame_logk: "sig_frame s t \<Longrightarrow> sig_frame s (logk ks t)"
  by (auto simp: sig_frame_def pm_frame)

lemma sig_frame_awoken: "sig_frame s (s\<lparr>awoken := awoken s @ a\<rparr>)"
  by (simp add: sig_frame_def option.rel_refl)

lemma sig_frame_wake_waiters: "sig_frame s (wake_waiters q s)"
proof (cases "proc_of s q")
  case (Some pr)
  show ?thesis
    unfolding wake_waiters_def Some option.case
    by (rule sig_frame_trans[OF sig_frame_awoken sig_frame_upd_proc]) (simp add: sig_proc_rel_def)
qed (simp add: wake_waiters_def)

lemma sig_frame_proc:
  assumes "sig_frame s t" and "proc_of t p = Some b"
  obtains a where "proc_of s p = Some a" and "sig_proc_rel a b"
proof -
  have "rel_option sig_proc_rel (proc_of s p) (proc_of t p)"
    using assms(1) by (simp add: sig_frame_def)
  with assms(2) that show ?thesis by (cases "proc_of s p") auto
qed

lemma sig_frame_proc_fwd:
  assumes "sig_frame s t" and "proc_of s p = Some a"
  obtains b where "proc_of t p = Some b" and "sig_proc_rel a b"
proof -
  have "rel_option sig_proc_rel (proc_of s p) (proc_of t p)"
    using assms(1) by (simp add: sig_frame_def)
  with assms(2) that show ?thesis by (cases "proc_of t p") auto
qed

lemma sig_proc_rel_threads:
  assumes "sig_proc_rel a b"
  shows "map t_pid (p_threads b) = map t_pid (p_threads a)"
    "map t_tid (p_threads b) = map t_tid (p_threads a)"
    "map status_hndl (p_threads b) = map status_hndl (p_threads a)"
proof -
  have eq: "map (g \<circ> thread_ident) (p_threads b) = map (g \<circ> thread_ident) (p_threads a)"
    for g :: "tid \<times> nat \<times> nat \<times> pid \<Rightarrow> nat"
    using assms unfolding sig_proc_rel_def by (metis list.map_comp)
  show "map t_pid (p_threads b) = map t_pid (p_threads a)"
    using eq[of "\<lambda>(_, _, _, p). p"] by (simp add: comp_def thread_ident_def)
  show "map t_tid (p_threads b) = map t_tid (p_threads a)"
    using eq[of "\<lambda>(t, _, _, _). t"] by (simp add: comp_def thread_ident_def)
  show "map status_hndl (p_threads b) = map status_hndl (p_threads a)"
    using eq[of "\<lambda>(_, _, h, _). h"] by (simp add: comp_def thread_ident_def)
qed

lemma sig_proc_rel_status:
  "sig_proc_rel a b \<Longrightarrow> exit_status_ok (p_status a) \<Longrightarrow> exit_status_ok (p_status b)"
  by (cases "p_status b") (simp_all add: sig_proc_rel_def exit_kept_def exit_status_ok_def is_exiting_def)

lemma sig_proc_rel_ok:
  assumes rel: "sig_proc_rel a b" and ok: "proc_ok p a"
  shows "proc_ok p b"
proof -
  have "t_pid ` set (p_threads b) = t_pid ` set (p_threads a)"
    using sig_proc_rel_threads(1)[OF rel] by (metis list.set_map)
  moreover have "\<forall>t\<in>set (p_threads a). t_pid t = p" using ok by (simp add: proc_ok_def)
  ultimately have t: "\<forall>t\<in>set (p_threads b). t_pid t = p" by (metis imageE imageI)
  have "exit_status_ok (p_status b)"
    using ok by (intro sig_proc_rel_status[OF rel]) (simp add: proc_ok_def)
  with t ok rel show ?thesis
    unfolding proc_ok_def sig_proc_rel_def rtqs_ok_def by simp
qed

lemma sig_frame_inv:
  assumes "sig_frame s t" and "pm_inv s"
  shows "pm_inv t"
proof -
  have fr: "groups t = groups s" "handles t = handles s" "next_id t = next_id s"
      "init_claimed t = init_claimed s" "map fst (processes t) = map fst (processes s)"
    using assms(1) by (simp_all add: sig_frame_def)
  then have gr: "group_of t = group_of s" and emp: "processes t = [] \<longleftrightarrow> processes s = []"
    by (auto simp: group_of_def fun_eq_iff)
  have inv: "procs_ok s" "groups_ok s" "boot_ok s" using assms(2) by (simp_all add: pm_inv_def)
  have "proc_ok p pr \<and> p < next_id s" if pr: "proc_of t p = Some pr" for p pr
  proof -
    obtain a where a: "proc_of s p = Some a" "sig_proc_rel a pr" by (rule sig_frame_proc[OF assms(1) pr])
    show ?thesis using sig_proc_rel_ok[OF a(2) pm_invD(1)[OF assms(2) a(1)]] pm_invD(2)[OF assms(2) a(1)] by simp
  qed
  then have "procs_ok t" using inv(1) fr by (simp add: procs_ok_def)
  moreover have "groups_ok t"
    unfolding groups_ok_def gr fr
  proof (intro conjI allI impI ballI)
    fix g ps p
    assume "group_of s g = Some ps" "p \<in> set ps"
    then obtain a where a: "proc_of s p = Some a" "p_pgid a = g"
      using inv(2) unfolding groups_ok_def by blast
    obtain b where "proc_of t p = Some b" "sig_proc_rel a b" by (rule sig_frame_proc_fwd[OF assms(1) a(1)])
    with a show "\<exists>pr. proc_of t p = Some pr \<and> p_pgid pr = g" by (simp add: sig_proc_rel_def)
  next
    fix p pr
    assume pr: "proc_of t p = Some pr"
    obtain a where "proc_of s p = Some a" "sig_proc_rel a pr" by (rule sig_frame_proc[OF assms(1) pr])
    then show "\<exists>ps. group_of s (p_pgid pr) = Some ps \<and> p \<in> set ps"
      using inv(2) by (auto simp: groups_ok_def sig_proc_rel_def)
  qed (use inv(2) in \<open>simp_all add: groups_ok_def\<close>)
  moreover have "boot_ok t" using inv(3) fr emp by (simp add: boot_ok_def)
  ultimately show ?thesis by (simp add: pm_inv_def)
qed

abbreviation final :: "'a \<times> 'b \<times> proc_scheme \<Rightarrow> proc_scheme" where
  "final r \<equiv> snd (snd r)"

lemma thread_ident_sig_ctrl [simp]:
  "thread_ident (th\<lparr>sig_ctrl := c\<rparr>) = thread_ident th" "thread_ident (cont_thread x th) = thread_ident th"
  "thread_ident (stop_thread x th) = thread_ident th"
  by (simp_all add: thread_ident_def cont_thread_def stop_thread_def split: option.splits)

lemma sig_idx_less: "sig_idx sig < 32"
proof -
  have "(of_nat sig - 1 :: u64) mod 32 < 32" by (rule word_mod_less_divisor) simp
  then show ?thesis by (simp add: sig_idx_def word_less_nat_alt)
qed

lemma rtqs_ok_grow: "rtqs_ok qs \<Longrightarrow> rtqs_ok (grow_rtqs (sig_idx sig) qs)"
  using sig_idx_less[of sig] by (auto simp: rtqs_ok_def grow_rtqs_def)

lemma length_grow_rtqs [simp]: "sig_idx sig < length (grow_rtqs (sig_idx sig) qs)"
  by (simp add: grow_rtqs_def)

lemma rtqs_ok_push:
  "rtqs_ok qs \<Longrightarrow> length (qs ! i) < 32 \<Longrightarrow> rtqs_ok (qs[i := qs ! i @ [arg]])"
  by (auto simp: rtqs_ok_def dest!: subsetD[OF set_update_subset_insert])

lemma send_cont_frame:
  "\<not> is_exiting (p_status target) \<Longrightarrow> proc_of s p = Some target
   \<Longrightarrow> sig_frame s (final (send_cont x p target pctl killed s))"
  by (auto simp: send_cont_def Let_def sig_proc_rel_def exit_kept_def is_exiting_def
      intro!: sig_frame_logk sig_frame_upd_proc split: prod.splits)

lemma send_stop_frame:
  "\<not> is_exiting (p_status target) \<Longrightarrow> proc_of s p = Some target
   \<Longrightarrow> sig_frame s (final (send_stop x p target pctl sig killed s))"
  by (auto simp: send_stop_def Let_def sig_proc_rel_def exit_kept_def is_exiting_def
      intro!: sig_frame_logk sig_frame_upd_proc)

lemma send_kill_frame: "sig_frame s (final (send_kill x target is_self killed s))"
  by (auto simp: send_kill_def Let_def intro!: sig_frame_logk split: prod.splits)

lemma deliver_thread_frame:
  "sig_frame s (final (deliver_thread x t p target sender sig is_self killed s))"
proof -
  have upd: "sig_frame s (upd_proc p (set_thread t (\<lambda>h. h\<lparr>sig_ctrl := c\<rparr>)) s)" for c
    by (rule sig_frame_upd_proc) (simp add: sig_proc_rel_def set_thread_def)
  then show ?thesis
    by (simp add: deliver_thread_def Let_def sig_frame_logk split: option.split)
qed

lemma notify_proc_frame: "sig_frame s (final (notify_proc x p target pctl sig is_self killed s))"
proof -
  have "sig_frame s (upd_proc p (\<lambda>q. q\<lparr>p_sig_pctl := c\<rparr>) s)" for c
    by (rule sig_frame_upd_proc) (simp add: sig_proc_rel_def)
  then show ?thesis
    by (simp add: notify_proc_def Let_def sig_frame_logk split: option.split)
qed

lemma deliver_proc_frame:
  assumes "proc_of s p = Some target"
  shows "sig_frame s (final (deliver_proc x p target pctl sender sig mode is_self killed s))"
proof (cases mode)
  case Idempotent
  then show ?thesis by (simp add: deliver_proc_def notify_proc_frame)
next
  case (Queued arg)
  let ?qs = "grow_rtqs (sig_idx sig) (p_rtqs target)"
  have "sig_frame s (upd_proc p (\<lambda>q. q\<lparr>p_rtqs := ?qs\<rparr>) s)"
    using assms by (intro sig_frame_upd_proc) (simp add: sig_proc_rel_def rtqs_ok_grow)
  moreover have "sig_frame s (upd_proc p (\<lambda>q. q\<lparr>p_rtqs := ?qs[sig_idx sig := ?qs ! sig_idx sig @ [arg]]\<rparr>) s)"
    if "length (?qs ! sig_idx sig) < 32"
    using assms that by (intro sig_frame_upd_proc) (simp add: sig_proc_rel_def rtqs_ok_grow rtqs_ok_push)
  ultimately show ?thesis
    by (simp add: Queued deliver_proc_def Let_def sig_frame_trans[OF _ notify_proc_frame])
qed

lemma send_sig_closure_frame:
  assumes "proc_of s p = Some target_proc"
  shows "sig_frame s (final (send_sig_closure x eu ru sender target p target_proc sg is_self killed mode soc s))"
  using assms
  by (simp add: send_sig_closure_def Let_def send_cont_frame send_stop_frame send_kill_frame
      deliver_thread_frame deliver_proc_frame split: option.split kill_target.split)

lemma post_status_frame: "\<not> is_term st \<Longrightarrow> sig_frame s (post_status ppid p pgid st s)"
  unfolding post_status_def
  by (rule sig_frame_trans[OF sig_frame_upd_proc sig_frame_wake_waiters])
    (simp add: sig_proc_rel_def wm_insert_ok no_new_term_insert)

text \<open>What \<open>on_send_sig\<close> does with the result of the closure.\<close>

lemma on_send_sig_frame:
  "sig_frame s (final (on_send_sig fuel x caller target sg killed mode soc s))"
proof (induction fuel arbitrary: caller target sg killed mode soc s)
  case (Suc fuel)
  have post: "sig_frame u (post_status pp p pg st v)" if "sig_frame u v" "\<not> is_term st" for u v pp p pg st
    by (rule sig_frame_trans[OF that(1) post_status_frame[OF that(2)]])
  have rec: "sig_frame u t'" if "sig_frame u v" and "on_send_sig fuel x c t g k m so (post_status pp p pg st v) = (r, k', t')"
      and "\<not> is_term st"
    for u v c t g k m so pp p pg st r k' t'
    using sig_frame_trans[OF post[OF that(1,3)] Suc.IH[where s = "post_status pp p pg st v"]] that(2)
    by (metis snd_conv)
  show ?case
  proof (cases "proc_of s (target_pid_of target)"; cases "proc_of s caller")
    fix tp cp
    assume tp: "proc_of s (target_pid_of target) = Some tp" and cp: "proc_of s caller = Some cp"
    obtain r k u where cl: "send_sig_closure x (p_euid cp) (p_ruid cp)
        \<lparr>si_pid = of_nat caller, si_ruid = p_ruid cp\<rparr> target (target_pid_of target) tp sg
        (target_pid_of target = caller) killed mode soc s = (r, k, u)"
      by (rule prod_cases3)
    then have "sig_frame s u" using send_sig_closure_frame[OF tp] by (metis snd_conv)
    with tp cp cl rec post show ?thesis
      by (auto simp: Let_def is_term_def split: option.split sum.split prod.split fault.split send_result.split)
  qed (simp_all add: Let_def)
qed simp

lemma on_send_sig_frameD:
  "on_send_sig fuel x caller target sg killed mode soc s = (r, k, t) \<Longrightarrow> sig_frame s t"
  using on_send_sig_frame[of s fuel x caller target sg killed mode soc] by simp

lemma kill_loop_frame: "sig_frame s (snd (kill_loop x caller g sg mode ps err n killed s))"
proof (induction ps arbitrary: err n killed s)
  case (Cons p ps)
  have "sig_frame s (snd (kill_loop x caller g sg mode ps err' n' k t))"
    if "on_send_sig sig_fuel x caller (TProc p) sg killed mode False s = (r, k, t)" for r k t err' n'
    by (rule sig_frame_trans[OF on_send_sig_frameD[OF that] Cons.IH])
  then show ?case
    using Cons.IH by (auto split: prod.split sum.split fault.split intro: on_send_sig_frameD)
qed simp

lemma kill_matching_frame: "sig_frame s (snd (kill_matching x caller g sg mode s))"
  using kill_loop_frame[of s x caller g sg mode "map fst (processes s)" None 0 False]
  by (auto simp: kill_matching_def split: prod.split sum.split option.split)

lemma on_kill_frame: "sig_frame s (snd (on_kill x caller target sg mode s))"
  by (cases target)
    (auto simp: on_kill_def kill_matching_frame split: prod.split sum.split option.split
      intro: on_send_sig_frameD)

lemma on_kill_thread_frame: "sig_frame s (snd (on_kill_thread x th sg s))"
  by (auto simp: on_kill_thread_def split: prod.split sum.split intro: on_send_sig_frameD)

lemma on_sync_sigtctl_frame: "sig_frame s (snd (on_sync_sigtctl x th s))"
  by (auto simp: on_sync_sigtctl_def sig_proc_rel_def set_thread_def split: sum.split
      intro!: sig_frame_upd_proc)

lemma on_sync_sigpctl_frame: "sig_frame s (snd (on_sync_sigpctl x p s))"
  by (auto simp: on_sync_sigpctl_def sig_proc_rel_def split: option.split sum.split list.split
      intro!: sig_frame_upd_proc)

lemma rtqs_ok_pop:
  assumes "rtqs_ok qs" and "i < length qs" and "qs ! i = v # vs"
  shows "rtqs_ok (qs[i := vs])"
proof -
  have "length (v # vs) \<le> 32" using assms by (metis nth_mem rtqs_ok_def)
  with assms(1) show ?thesis
    by (auto simp: rtqs_ok_def dest!: subsetD[OF set_update_subset_insert])
qed

lemma on_sigdeq_frame: "sig_frame s (snd (on_sigdeq x p payload s))"
  by (auto simp: on_sigdeq_def Let_def sig_proc_rel_def rtqs_ok_pop split: option.split list.split
      intro!: sig_frame_upd_proc)

lemmas signal_frames = on_kill_frame on_kill_thread_frame on_sync_sigtctl_frame on_sync_sigpctl_frame
  on_sigdeq_frame

lemmas signal_inv [pm_inv_ops] = signal_frames[THEN sig_frame_inv]

end
