(* ===== verification/Procmgr_Wait.thy ===== *)
theory Procmgr_Wait
  imports Procmgr_Signal
begin

text \<open>
  Waiting and exiting in \<^verbatim>\<open>bootstrap/src/procmgr.rs\<close>: \<open>on_waitpid\<close>, \<open>reap\<close>, \<open>on_exit_start\<close> and the work on
  pending requests, \<open>work_on\<close>. The map of pending requests of the event loop is the field \<open>states\<close>; an
  occupied entry handed to \<open>work_on\<close> is the key of a request, whose state is first replaced by
  \<open>Placeholder\<close> as in the code.
\<close>

unbundle bit_operations_syntax

section \<open>Definitions\<close>

type_synonym wait_result = "(errno + nat \<times> u32) poll"

definition reap :: "pid \<Rightarrow> proc_scheme \<Rightarrow> proc_scheme" where
  "reap p s =
     (case proc_of s p of
        None \<Rightarrow> s
      | Some proc \<Rightarrow>
         if p_threads proc \<noteq> [] then s
         else
           let s1 = s\<lparr>processes := AList.delete p (processes s)\<rparr> in
           case group_of s1 (p_pgid proc) of
             None \<Rightarrow> s1
           | Some ps \<Rightarrow> s1\<lparr>groups := leave_group p (p_pgid proc) ps (groups s1)\<rparr>)"

text \<open>The status word of \<open>waitpid\<close> (an \<open>i32\<close>).\<close>

definition status_word :: "waitpid_status \<Rightarrow> u32" where
  "status_word st =
     (case st of
        Continued \<Rightarrow> 0xffff
      | WStopped signal \<Rightarrow> 0x7f OR push_bit 8 (ucast signal)
      | Terminated signal status \<Rightarrow>
          (case signal of None \<Rightarrow> 0 | Some g \<Rightarrow> ucast g) OR push_bit 8 (ucast status))"

definition grim_reaper :: "wait_flags \<Rightarrow> pid \<Rightarrow> waitpid_status \<Rightarrow> proc_scheme \<Rightarrow> wait_result \<times> proc_scheme" where
  "grim_reaper flags w_pid status s =
     (case status of
        Continued \<Rightarrow> ((if wcontinued flags then Ready (Inr (w_pid, status_word status)) else Pending), s)
      | WStopped _ \<Rightarrow> ((if wuntraced flags then Ready (Inr (w_pid, status_word status)) else Pending), s)
      | Terminated _ _ \<Rightarrow> (Ready (Inr (w_pid, status_word status)), reap w_pid s))"

definition set_waitpid :: "pid \<Rightarrow> waitpid_map \<Rightarrow> proc_scheme \<Rightarrow> proc_scheme" where
  "set_waitpid p m s = upd_proc p (\<lambda>q. q\<lparr>p_waitpid := m\<rparr>) s"

definition queue_waiter :: "pid \<Rightarrow> virtual_id \<Rightarrow> proc_scheme \<Rightarrow> proc_scheme" where
  "queue_waiter p req_id s = upd_proc p (\<lambda>q. q\<lparr>p_waitpid_waiting := p_waitpid_waiting q @ [req_id]\<rparr>) s"

text \<open>What all targets do with an entry they found: take it out, or answer 0, or queue the request.\<close>

definition take_entry ::
  "wait_flags \<Rightarrow> pid \<Rightarrow> process \<Rightarrow> virtual_id \<Rightarrow> (waitpid_key \<times> pid \<times> waitpid_status) option \<Rightarrow> waitpid_key
     \<Rightarrow> proc_scheme \<Rightarrow> wait_result \<times> proc_scheme" where
  "take_entry flags this_pid proc req_id found key s =
     (case found of
        Some (_, w_pid, status) \<Rightarrow>
          grim_reaper flags w_pid status
            (set_waitpid this_pid (bt_remove waitpid_key_cmp key (p_waitpid proc)) s)
      | None \<Rightarrow> if wnohang flags then (Ready (Inr (0, 0)), s) else (Pending, queue_waiter this_pid req_id s))"

definition has_child :: "pid \<Rightarrow> proc_scheme \<Rightarrow> bool" where
  "has_child p s = list_ex (\<lambda>e. p_ppid (snd e) = p) (processes s)"

definition group_has_child :: "pid \<Rightarrow> pid list \<Rightarrow> proc_scheme \<Rightarrow> bool" where
  "group_has_child p ps s =
     list_ex (\<lambda>q. q \<noteq> p \<and> (case proc_of s q of None \<Rightarrow> False | Some pr \<Rightarrow> p_ppid pr = p)) ps"

definition on_waitpid :: "pid \<Rightarrow> waitpid_target \<Rightarrow> wait_flags \<Rightarrow> virtual_id \<Rightarrow> proc_scheme \<Rightarrow> wait_result \<times> proc_scheme" where
  "on_waitpid this_pid target flags req_id s =
     (if (target = AnyChild \<or> target = AnyGroupMember) \<and> \<not> has_child this_pid s then (Ready (Inl ECHILD), s)
      else
        case proc_of s this_pid of
          None \<Rightarrow> (Ready (Inl EBADFD), s)
        | Some proc \<Rightarrow>
           (case target of
              AnyChild \<Rightarrow>
                (let kv = bt_first (p_waitpid proc) in
                 take_entry flags this_pid proc req_id kv (fst (the kv)) s)
            | AnyGroupMember \<Rightarrow>
                (let kv = bt_get waitpid_key_cmp (key_of_pgid (p_pgid proc)) (p_waitpid proc) in
                 take_entry flags this_pid proc req_id kv (fst (the kv)) s)
            | SingleProc p \<Rightarrow>
                if this_pid = p then (Ready (Inl EINVAL), s)
                else
                  (case proc_of s p of
                     None \<Rightarrow> (Ready (Inl ECHILD), s)
                   | Some target_proc \<Rightarrow>
                      if p_ppid target_proc \<noteq> this_pid then (Ready (Inl ECHILD), s)
                      else
                        (case p_status target_proc of
                           Exited signal status \<Rightarrow>
                             grim_reaper flags p (Terminated signal status)
                               (set_waitpid this_pid
                                  (bt_remove waitpid_key_cmp (key_of_pid p) (p_waitpid proc)) s)
                         | _ \<Rightarrow>
                             take_entry flags this_pid proc req_id
                               (bt_get waitpid_key_cmp (key_of_pid p) (p_waitpid proc)) (key_of_pid p) s))
            | ProcGroup pgid \<Rightarrow>
                (case group_of s pgid of
                   None \<Rightarrow> (Ready (Inl ECHILD), s)
                 | Some ps \<Rightarrow>
                    if \<not> group_has_child this_pid ps s then (Ready (Inl ECHILD), s)
                    else take_entry flags this_pid proc req_id
                           (bt_get waitpid_key_cmp (key_of_pgid pgid) (p_waitpid proc)) (key_of_pgid pgid) s)))"

subsection \<open>Exit\<close>

definition set_state :: "virtual_id \<Rightarrow> pending_state \<Rightarrow> proc_scheme \<Rightarrow> proc_scheme" where
  "set_state v st s = s\<lparr>states := AList.update v st (states s)\<rparr>"

definition remove_state :: "virtual_id \<Rightarrow> proc_scheme \<Rightarrow> proc_scheme" where
  "remove_state v s = s\<lparr>states := AList.delete v (states s)\<rparr>"

definition mk_response :: "nat \<Rightarrow> errno + nat \<Rightarrow> response" where
  "mk_response tag r = \<lparr>r_tag = tag, r_result = r, r_status = None, r_data = []\<rparr>"

text \<open>A signal whose error is only logged; a panic is still a panic.\<close>

definition send_logged :: "ext \<Rightarrow> pid \<Rightarrow> pid \<Rightarrow> nat \<Rightarrow> proc_scheme \<Rightarrow> (unit, proc_scheme) outcome" where
  "send_logged x from to sig s =
     (case on_send_sig sig_fuel x from (TProc to) (of_nat sig) False Idempotent False s of
        (Inl Panic, _, t) \<Rightarrow> panic t
      | (_, _, t) \<Rightarrow> ok () t)"

definition transfer_child :: "pid \<Rightarrow> proc_scheme \<Rightarrow> proc_scheme" where
  "transfer_child c s =
     (case proc_of s c of
        None \<Rightarrow> s
      | Some child \<Rightarrow>
         upd_proc INIT_PID
           (\<lambda>q. q\<lparr>p_waitpid := bt_append waitpid_key_cmp (p_waitpid q) (p_waitpid child)\<rparr>)
           (upd_proc c (\<lambda>q. q\<lparr>p_ppid := INIT_PID, p_waitpid := []\<rparr>) s))"

fun hup_members :: "ext \<Rightarrow> pid list \<Rightarrow> proc_scheme \<Rightarrow> (unit, proc_scheme) outcome" where
  "hup_members x [] s = ok () s"
| "hup_members x (q # qs) s =
     (case proc_of s q of
        None \<Rightarrow> hup_members x qs s
      | Some pr \<Rightarrow>
         if is_stopped (p_status pr) then
           bind_out (send_logged x INIT_PID q (SIGCONT x) s)
             (\<lambda>_ s1. bind_out (send_logged x INIT_PID q (SIGHUP x) s1) (\<lambda>_ s2. hup_members x qs s2))
         else hup_members x qs s)"

fun hup_groups :: "ext \<Rightarrow> (pid \<times> bool option) list \<Rightarrow> proc_scheme \<Rightarrow> (unit, proc_scheme) outcome" where
  "hup_groups x [] s = ok () s"
| "hup_groups x ((pgid, was_orphaned) # as) s =
     (if was_orphaned \<noteq> Some True \<and> pgrp_is_orphaned s pgid = Some True then
        (case group_of s pgid of
           None \<Rightarrow> hup_groups x as s
         | Some ps \<Rightarrow> bind_out (hup_members x ps s) (\<lambda>_ s1. hup_groups x as s1))
      else hup_groups x as s)"

definition children_of :: "pid \<Rightarrow> proc_scheme \<Rightarrow> pid list" where
  "children_of p s = map fst (filter (\<lambda>e. fst e \<noteq> INIT_PID \<and> p_ppid (snd e) = p) (processes s))"

definition pgid_of :: "proc_scheme \<Rightarrow> pid \<Rightarrow> pid" where
  "pgid_of s p = (case proc_of s p of None \<Rightarrow> 0 | Some pr \<Rightarrow> p_pgid pr)"

text \<open>Init takes over the children of the process that exits.\<close>

definition adopt_children :: "ext \<Rightarrow> pid \<Rightarrow> pid \<Rightarrow> proc_scheme \<Rightarrow> (unit, proc_scheme) outcome" where
  "adopt_children x current_pid pgid s =
     (case proc_of s INIT_PID of
        None \<Rightarrow> ok () s
      | Some _ \<Rightarrow>
         let s1 = wake_waiters INIT_PID s;
             children = children_of current_pid s1;
             affected = map (\<lambda>g. (g, pgrp_is_orphaned s1 g))
                          (hash_iter x (remdups (map (pgid_of s1) children @ [pgid])));
             s2 = fold transfer_child children s1
         in hup_groups x affected s2)"

definition exit_done :: "ext \<Rightarrow> pid \<Rightarrow> process \<Rightarrow> u8 option \<Rightarrow> u8 \<Rightarrow> proc_scheme \<Rightarrow> (unit, proc_scheme) outcome" where
  "exit_done x current_pid proc signal status s =
     (let s1 = upd_proc current_pid (\<lambda>q. q\<lparr>p_status := Exited signal status\<rparr>) s;
          ppid = p_ppid proc; pgid = p_pgid proc
      in case proc_of s1 ppid of
           None \<Rightarrow> ok () s1
         | Some _ \<Rightarrow>
            bind_out (send_logged x current_pid ppid (SIGCHLD x) s1)
              (\<lambda>_ s2. bind_out (adopt_children x current_pid pgid s2)
                (\<lambda>_ s3. ok () (post_status ppid current_pid pgid (Terminated signal status) s3))))"

definition exit_reply ::
  "virtual_id \<Rightarrow> nat option \<Rightarrow> errno + nat \<Rightarrow> proc_scheme \<Rightarrow> (response poll, proc_scheme) outcome" where
  "exit_reply req_id tag r s =
     (case tag of
        Some tg \<Rightarrow> ok (Ready (mk_response tg r)) s
      | None \<Rightarrow> ok Pending (remove_state req_id s))"

definition work_on :: "ext \<Rightarrow> virtual_id \<Rightarrow> proc_scheme \<Rightarrow> (response poll, proc_scheme) outcome" where
  "work_on x req_id s0 =
     (case map_of (states s0) req_id of
        None \<Rightarrow> ok Pending s0
      | Some this_state \<Rightarrow>
         let s = set_state req_id Placeholder s0 in
         (case this_state of
            Placeholder \<Rightarrow> ok Pending s
          | AwaitingThreadsTermination current_pid tag \<Rightarrow>
              (case proc_of s current_pid of
                 None \<Rightarrow> exit_reply req_id tag (Inl ESRCH) s
               | Some proc \<Rightarrow>
                  if p_threads proc = [] then
                    (case p_status proc of
                       Exiting signal status \<Rightarrow>
                         bind_out (exit_done x current_pid proc signal status (remove_state req_id s))
                           (\<lambda>_ t. case tag of
                                     Some tg \<Rightarrow> ok (Ready (mk_response tg (Inr 0))) t
                                   | None \<Rightarrow> ok Pending t)
                     | Exited _ _ \<Rightarrow> exit_reply req_id tag (Inr 0) s
                     | _ \<Rightarrow> exit_reply req_id tag (Inl ESRCH) s)
                  else
                    ok Pending
                      (set_state req_id (AwaitingThreadsTermination current_pid tag)
                        (upd_proc current_pid
                          (\<lambda>q. q\<lparr>p_awaiting_threads_term := p_awaiting_threads_term q @ [req_id]\<rparr>) s)))
          | AwaitingStatusChange waiter target flags op \<Rightarrow>
              (case on_waitpid waiter target flags req_id s of
                 (Ready (Inr (p, status)), t) \<Rightarrow>
                   ok (Ready \<lparr>r_tag = op_tag op, r_result = Inr p,
                             r_status = (if op_status_slot op then Some status else None), r_data = []\<rparr>) t
               | (Ready (Inl e), t) \<Rightarrow> ok (Ready (mk_response (op_tag op) (Inl e))) t
               | (Pending, t) \<Rightarrow>
                   ok Pending (set_state req_id (AwaitingStatusChange waiter target flags op) t))))"

text \<open>The loop that terminates the threads; with a tag the first error ends it.\<close>

fun exit_threads :: "ext \<Rightarrow> nat option \<Rightarrow> thread list \<Rightarrow> errno option \<times> kcall list" where
  "exit_threads x tag [] = (None, [])"
| "exit_threads x tag (th # ths) =
     (case (write_status x (status_hndl th) (VRaw (- 1)), tag) of
        (Some e, Some _) \<Rightarrow> (Some e, [StatusWrite (status_hndl th) (VRaw (- 1))])
      | _ \<Rightarrow> (let (r, ks) = exit_threads x tag ths
              in (r, StatusWrite (status_hndl th) (VRaw (- 1)) # ks)))"

definition reply_err :: "nat option \<Rightarrow> errno \<Rightarrow> proc_scheme \<Rightarrow> (response poll, proc_scheme) outcome" where
  "reply_err tag e s =
     (case tag of Some tg \<Rightarrow> ok (Ready (mk_response tg (Inl e))) s | None \<Rightarrow> ok Pending s)"

text \<open>The raw status: a byte, or a signal number in the high byte.\<close>

definition decode_exit :: "u16 \<Rightarrow> (u8 option \<times> u8) option" where
  "decode_exit status =
     (if status AND 0xff = status then Some (None, ucast status)
      else
        let sig = ucast (drop_bit 8 status) :: u8 in
        if 1 \<le> sig \<and> sig \<le> 64 then Some (Some sig, 0) else None)"

definition on_exit_start ::
  "ext \<Rightarrow> pid \<Rightarrow> u16 \<Rightarrow> virtual_id \<Rightarrow> nat option \<Rightarrow> proc_scheme \<Rightarrow> (response poll, proc_scheme) outcome" where
  "on_exit_start x p status state tag s =
     (case proc_of s p of
        None \<Rightarrow> reply_err tag EBADFD s
      | Some process \<Rightarrow>
         (case p_status process of
            Exiting _ _ \<Rightarrow> reply_err tag EAGAIN s
          | Exited _ _ \<Rightarrow> reply_err tag ESRCH s
          | _ \<Rightarrow>
             (case decode_exit status of
                None \<Rightarrow> reply_err tag EINVAL s
              | Some (signal, code) \<Rightarrow>
                 let s1 = upd_proc p (\<lambda>q. q\<lparr>p_status := Exiting signal code\<rparr>) s;
                     (failed, ks) = exit_threads x tag (p_threads process);
                     s2 = logk ks s1
                 in case (failed, tag) of
                      (Some e, Some tg) \<Rightarrow> ok (Ready (mk_response tg (Inl e))) s2
                    | _ \<Rightarrow>
                       let s3 = (if p_threads process \<noteq> [] then
                                   upd_proc p (\<lambda>q. q\<lparr>p_awaiting_threads_term :=
                                     p_awaiting_threads_term q @ [state]\<rparr>) s2
                                 else s2)
                       in work_on x state (set_state state (AwaitingThreadsTermination p tag) s3))))"

section \<open>Invariant\<close>

lemma reap_inv:
  assumes inv: "pm_inv s"
  shows "pm_inv (reap p s)"
proof (cases "proc_of s p")
  case (Some pr)
  obtain ps where ps: "group_of s (p_pgid pr) = Some ps" using inv Some by (rule pm_inv_group_of_proc)
  let ?t = "s\<lparr>processes := AList.delete p (processes s), groups := leave_group p (p_pgid pr) ps (groups s)\<rparr>"
  have procs: "proc_of ?t = (proc_of s)(p := None)"
    by (simp add: proc_of_def fun_eq_iff alist_simps)
  have ps': "map_of (groups s) (p_pgid pr) = Some ps" using ps by (simp add: group_of_def)
  have "pm_inv ?t"
  proof (rule pm_invI_groups)
    show "procs_ok ?t"
      using inv unfolding procs_ok_def procs by (auto simp: pm_inv_def procs_ok_def split: if_splits)
    show "boot_ok ?t"
      by (rule boot_ok_running[of s]) (use inv proc_of_nonempty[OF Some] in \<open>simp_all add: pm_inv_def\<close>)
    show "group_lists_ok (groups ?t)"
      using leave_group_lists[OF pm_inv_group_lists[OF inv] ps'] by simp
    show "members (groups ?t) g = {q. \<exists>pr. proc_of ?t q = Some pr \<and> p_pgid pr = g}" for g
      using pm_inv_members[OF inv, of g] ps' Some unfolding procs by (auto simp: leave_group_members)
  qed
  with inv ps show ?thesis by (simp add: reap_def Some Let_def)
qed (use inv in \<open>simp add: reap_def\<close>)

lemma set_waitpid_inv: "pm_inv s \<Longrightarrow> wm_ok m \<Longrightarrow> pm_inv (set_waitpid p m s)"
  unfolding set_waitpid_def by (rule pm_inv_upd_proc) (simp_all add: proc_ok_def)

lemma queue_waiter_inv: "pm_inv s \<Longrightarrow> pm_inv (queue_waiter p v s)"
  unfolding queue_waiter_def by (rule pm_inv_upd_proc) (simp_all add: proc_ok_def)

lemma grim_reaper_inv: "pm_inv s \<Longrightarrow> pm_inv (snd (grim_reaper flags w st s))"
  by (simp add: grim_reaper_def reap_inv split: waitpid_status.split)

lemma take_entry_inv:
  assumes "pm_inv s" and "proc_of s this_pid = Some proc"
  shows "pm_inv (snd (take_entry flags this_pid proc req found key s))"
  using assms pm_invD(4)[OF assms]
  by (auto simp: take_entry_def grim_reaper_inv set_waitpid_inv queue_waiter_inv wm_remove_ok
      split: option.split)

lemma pm_inv_status_branch:
  "(st = PossiblyRunnable \<Longrightarrow> pm_inv (snd a)) \<Longrightarrow> (\<And>g. st = Stopped g \<Longrightarrow> pm_inv (snd (b g))) \<Longrightarrow>
   (\<And>g v. st = Exiting g v \<Longrightarrow> pm_inv (snd (c g v))) \<Longrightarrow> (\<And>g v. st = Exited g v \<Longrightarrow> pm_inv (snd (d g v))) \<Longrightarrow>
   pm_inv (snd (case st of PossiblyRunnable \<Rightarrow> a | Stopped g \<Rightarrow> b g | Exiting g v \<Rightarrow> c g v | Exited g v \<Rightarrow> d g v))"
  by (cases st) simp_all

lemma on_waitpid_inv [pm_inv_ops]:
  assumes "pm_inv s"
  shows "pm_inv (snd (on_waitpid this_pid target flags req s))"
  unfolding on_waitpid_def Let_def
  using assms pm_invD(4)[OF assms]
  by (auto intro!: pm_inv_branch pm_inv_status_branch take_entry_inv grim_reaper_inv set_waitpid_inv
      wm_remove_ok split: waitpid_target.split)

lemma state_frames [simp]:
  "pm_inv (set_state v st s) = pm_inv s" "pm_inv (remove_state v s) = pm_inv s"
  "proc_of (set_state v st s) = proc_of s" "proc_of (remove_state v s) = proc_of s"
  "group_of (set_state v st s) = group_of s" "group_of (remove_state v s) = group_of s"
  by (simp_all add: set_state_def remove_state_def)

lemma send_logged_frame: "sig_frame s (snd (send_logged x from to sig s))"
  by (auto simp: send_logged_def split: prod.split sum.split fault.split intro: on_send_sig_frameD)

lemma transfer_child_inv: "pm_inv s \<Longrightarrow> pm_inv (transfer_child c s)"
proof (cases "proc_of s c")
  case (Some child)
  assume inv: "pm_inv s"
  have w: "wm_ok (p_waitpid child)" using pm_invD(4)[OF inv Some] .
  have "pm_inv (upd_proc c (\<lambda>q. q\<lparr>p_ppid := INIT_PID, p_waitpid := []\<rparr>) s)"
    using inv by (rule pm_inv_upd_proc) (simp_all add: proc_ok_def)
  then show ?thesis
    unfolding transfer_child_def Some option.case
    by (rule pm_inv_upd_proc) (simp_all add: proc_ok_def w wm_append_ok)
qed (simp add: transfer_child_def)

lemma fold_transfer_inv: "pm_inv s \<Longrightarrow> pm_inv (fold transfer_child cs s)"
  by (induction cs arbitrary: s) (simp_all add: transfer_child_inv)

lemma sig_frame_bind:
  assumes "sig_frame s (snd r)" and "\<And>u t. r = (Inr u, t) \<Longrightarrow> sig_frame t (snd (k u t))"
  shows "sig_frame s (snd (bind_out r k))"
  using assms by (cases r) (auto simp: bind_out_def intro: sig_frame_trans split: sum.split)

lemma hup_members_frame: "sig_frame s (snd (hup_members x qs s))"
proof (induction qs arbitrary: s)
  case (Cons q qs)
  then show ?case
    by (auto intro!: sig_frame_bind send_logged_frame split: option.split)
qed simp

lemma hup_groups_frame: "sig_frame s (snd (hup_groups x as s))"
proof (induction as arbitrary: s)
  case (Cons a as)
  then show ?case
    by (cases a) (auto intro!: sig_frame_bind hup_members_frame split: option.split)
qed simp

lemma pm_inv_bind:
  assumes "pm_inv (snd r)" and "\<And>u t. r = (Inr u, t) \<Longrightarrow> pm_inv t \<Longrightarrow> pm_inv (snd (k u t))"
  shows "pm_inv (snd (bind_out r k))"
  using assms by (cases r) (auto simp: bind_out_def split: sum.split)

lemma adopt_children_inv: "pm_inv s \<Longrightarrow> pm_inv (snd (adopt_children x p g s))"
  by (auto simp: adopt_children_def Let_def intro!: sig_frame_inv[OF hup_groups_frame] fold_transfer_inv
      pm_inv_wake_waiters split: option.split)

lemma post_status_inv: "pm_inv s \<Longrightarrow> pm_inv (post_status q p g st s)"
  unfolding post_status_def
  by (intro pm_inv_wake_waiters pm_inv_upd_proc) (simp_all add: proc_ok_def wm_insert_ok)

lemma exit_done_inv:
  assumes "pm_inv s" and "exit_status_ok (Exited signal status)"
  shows "pm_inv (snd (exit_done x p proc signal status s))"
proof -
  have "pm_inv (upd_proc p (\<lambda>q. q\<lparr>p_status := Exited signal status\<rparr>) s)"
    using assms(1) by (rule pm_inv_upd_proc) (use assms(2) in \<open>simp_all add: proc_ok_def\<close>)
  then show ?thesis
    by (auto simp: exit_done_def Let_def intro!: pm_inv_bind adopt_children_inv post_status_inv
        sig_frame_inv[OF send_logged_frame] split: option.split)
qed

lemma exit_reply_inv [simp]: "pm_inv (snd (exit_reply v tag r s)) = pm_inv s"
  by (simp add: exit_reply_def split: option.split)

lemma work_on_inv [pm_inv_ops]:
  assumes "pm_inv s"
  shows "pm_inv (snd (work_on x v s))"
proof (cases "map_of (states s) v")
  case (Some st)
  let ?s = "set_state v Placeholder s"
  show ?thesis
  proof (cases st)
    case (AwaitingStatusChange waiter target flags op)
    obtain r t where "on_waitpid waiter target flags v ?s = (r, t)" by fastforce
    moreover from this have "pm_inv t" using on_waitpid_inv[of ?s waiter target flags v] assms by simp
    ultimately show ?thesis
      by (simp add: work_on_def Some AwaitingStatusChange Let_def split: poll.split sum.split)
  next
    case (AwaitingThreadsTermination p tag)
    have st_ok: "exit_status_ok (Exited g c)" if "proc_of s p = Some pr" "p_status pr = Exiting g c" for pr g c
      using pm_invD(1)[OF assms that(1)] that(2) by (auto simp: proc_ok_def exit_status_ok_def split: option.splits)
    have "pm_inv (upd_proc p (\<lambda>q. q\<lparr>p_awaiting_threads_term := p_awaiting_threads_term q @ [v]\<rparr>) ?s)"
      by (rule pm_inv_upd_proc) (use assms in \<open>simp_all add: proc_ok_def\<close>)
    with assms show ?thesis
      unfolding work_on_def Some AwaitingThreadsTermination Let_def option.case pending_state.case
      by (intro pm_inv_branch pm_inv_status_branch pm_inv_bind)
        (auto simp: exit_done_inv st_ok split: option.split)
  qed (use assms in \<open>simp add: work_on_def Some Let_def\<close>)
qed (use assms in \<open>simp add: work_on_def\<close>)

lemma reply_err_state [simp]: "snd (reply_err tag e s) = s"
  by (simp add: reply_err_def split: option.split)

lemma decode_exit_ok: "decode_exit status = Some (g, c) \<Longrightarrow> exit_status_ok (Exiting g c)"
  by (auto simp: decode_exit_def exit_status_ok_def Let_def split: if_splits)

lemma on_exit_start_inv [pm_inv_ops]:
  assumes "pm_inv s"
  shows "pm_inv (snd (on_exit_start x p status v tag s))"
proof (cases "proc_of s p")
  case (Some pr)
  have "pm_inv (snd (on_exit_start x p status v tag s))"
    if "\<not> is_exiting (p_status pr)" "decode_exit status = Some (g, c)" for g c
  proof -
    obtain failed ks where th: "exit_threads x tag (p_threads pr) = (failed, ks)" by fastforce
    let ?s1 = "logk ks (upd_proc p (\<lambda>q. q\<lparr>p_status := Exiting g c\<rparr>) s)"
    have s1: "pm_inv ?s1"
      unfolding pm_inv_frame using assms by (rule pm_inv_upd_proc) (simp_all add: proc_ok_def decode_exit_ok[OF that(2)])
    moreover have "pm_inv (upd_proc p (\<lambda>q. q\<lparr>p_awaiting_threads_term := p_awaiting_threads_term q @ [v]\<rparr>) ?s1)"
      using s1 by (rule pm_inv_upd_proc) (simp_all add: proc_ok_def)
    ultimately show ?thesis
      using that by (cases "p_status pr") (simp_all add: on_exit_start_def Some th is_exiting_def Let_def work_on_inv split: option.split)
  qed
  then show ?thesis
    using assms by (cases "p_status pr"; cases "decode_exit status")
      (auto simp: on_exit_start_def Some is_exiting_def)
qed (use assms in \<open>simp add: on_exit_start_def\<close>)

end
