(* ===== verification/Decimal.thy ===== *)
theory Decimal
  imports Prelude
begin

text \<open>
  Decimal numbers of the standard library: \<open>str::parse\<close> for unsigned integers and the \<open>Display\<close> of unsigned
  integers, as bytes.
\<close>

definition is_digit :: "u8 \<Rightarrow> bool" where
  "is_digit b \<longleftrightarrow> 48 \<le> b \<and> b \<le> 57"

definition digit_val :: "u8 \<Rightarrow> nat" where
  "digit_val b = unat b - 48"

definition digits_val :: "bytes \<Rightarrow> nat" where
  "digits_val ds = foldl (\<lambda>acc b. 10 * acc + digit_val b) 0 ds"

text \<open>An optional plus sign, then at least one digit, without overflow of the type that holds numbers below \<open>bound\<close>.\<close>

definition parse_below :: "nat \<Rightarrow> bytes \<Rightarrow> nat option" where
  "parse_below bound bs =
     (let ds = (case bs of b # r \<Rightarrow> if b = 0x2b then r else bs | [] \<Rightarrow> [])
      in if ds \<noteq> [] \<and> list_all is_digit ds \<and> digits_val ds < bound then Some (digits_val ds) else None)"

fun show_nat :: "nat \<Rightarrow> bytes" where
  "show_nat n = (if n < 10 then [48 + of_nat n] else show_nat (n div 10) @ [48 + of_nat (n mod 10)])"

declare show_nat.simps [simp del]

lemma digit_of_nat:
  assumes "n < 10"
  shows "is_digit (48 + of_nat n)" "digit_val (48 + of_nat n) = n"
proof -
  have u: "unat (48 + of_nat n :: u8) = 48 + n" using assms by (simp add: unat_word_ariths unat_of_nat)
  show "is_digit (48 + of_nat n)" using assms by (simp add: is_digit_def word_le_nat_alt u)
  show "digit_val (48 + of_nat n) = n" by (simp add: digit_val_def u)
qed

lemma digits_val_snoc: "digits_val (ds @ [b]) = 10 * digits_val ds + digit_val b"
  by (simp add: digits_val_def)

lemma show_nat_digits: "list_all is_digit (show_nat n)" "show_nat n \<noteq> []" "digits_val (show_nat n) = n"
proof (induction n rule: show_nat.induct)
  case (1 n)
  {
    case 1
    then show ?case using "1.IH"(1) digit_of_nat(1) by (subst show_nat.simps) simp
  next
    case 2
    then show ?case by (subst show_nat.simps) simp
  next
    case 3
    show ?case
    proof (cases "n < 10")
      case True
      then show ?thesis by (subst show_nat.simps) (simp add: digits_val_def digit_of_nat)
    next
      case False
      then show ?thesis using "1.IH"(3) by (subst show_nat.simps) (simp add: digits_val_snoc digit_of_nat)
    qed
  }
qed

text \<open>A number that is printed is read back.\<close>

lemma parse_show: "n < bound \<Longrightarrow> parse_below bound (show_nat n) = Some n"
proof -
  assume n: "n < bound"
  obtain b r where br: "show_nat n = b # r" using show_nat_digits(2)[of n] by (cases "show_nat n") auto
  then have "is_digit b" using show_nat_digits(1)[of n] by simp
  then have "b \<noteq> 0x2b" by (auto simp: is_digit_def)
  then show ?thesis using n br show_nat_digits[of n] by (simp add: parse_below_def)
qed

end
