(* ===== verification/Procmgr_Scheme.thy ===== *)
theory Procmgr_Scheme
  imports Procmgr_Wait Decimal
begin

text \<open>
  The scheme interface of the process manager (\<^verbatim>\<open>bootstrap/src/procmgr.rs\<close>): opening, duplicating, reading
  and calling handles, cancellation, the first process, thread death, and one turn of the event loop.

  A request carries what the kernel hands over: file numbers, paths, the three metadata words of a call
  and its payload. \<open>cl_ids\<close> is the payload read as \<open>u32\<close> words (\<open>plain::slice_from_bytes\<close>), \<open>cl_slot\<close> says
  whether it can hold the \<open>i32\<close> status, \<open>cl_aligned\<close> whether it is aligned for \<open>ProcMeta\<close>. Indexing the slab with
  a number that is not in use is a panic.
\<close>

unbundle bit_operations_syntax

section \<open>Definitions\<close>

record call_args =
  cl_m0 :: u64
  cl_m1 :: u64
  cl_m2 :: u64
  cl_payload :: bytes
  cl_ids :: "u32 list option"
  cl_slot :: bool
  cl_aligned :: bool

datatype open_result = ThisScheme nat bool | OtherScheme nat

datatype request =
    ROpenAt nat bytes u64 u32
  | RDup nat bytes
  | RRead nat u64 nat bool
  | RCall nat nat nat call_args
  | RFpath nat
  | RFsize nat
  | RFstat nat
  | ROther
  | RCancel nat
  | RClose nat
  | RSendFd nat

datatype reply =
    PErr errno
  | POk nat bytes
  | POpen open_result
  | PStat nat u16
  | PResp response

definition pm_init :: proc_scheme where
  "pm_init = \<lparr>processes = [], groups = [], sessions = [], handles = [], thread_lookup = [],
     next_internal_id = 1, init_claimed = False, next_id = 2, next_tid = 0, states = [], awoken = [], klog = []\<rparr>"

definition insert_handle :: "ext \<Rightarrow> handle \<Rightarrow> proc_scheme \<Rightarrow> nat \<times> proc_scheme" where
  "insert_handle x h s =
     (let n = slab_vacant x (handles s) in (n, s\<lparr>handles := AList.update n h (handles s)\<rparr>))"

text \<open>\<open>[init]\<close>\<close>

definition init_name :: bytes where
  "init_name = [0x5b, 0x69, 0x6e, 0x69, 0x74, 0x5d]"

definition init_process :: "thread \<Rightarrow> process" where
  "init_process th =
     \<lparr>p_threads = [th], p_pid = INIT_PID, p_ppid = INIT_PID, p_pgid = INIT_PID, p_sid = INIT_PID,
      p_name = init_name, p_prio = 20, p_ruid = 0, p_euid = 0, p_suid = 0, p_rgid = 0, p_egid = 0, p_sgid = 0,
      p_status = PossiblyRunnable, p_disabled_setpgid = False, p_awaiting_threads_term = [], p_waitpid = [],
      p_waitpid_waiting = [], p_sig_pctl = None, p_rtqs = []\<rparr>"

definition on_sendfd :: "ext \<Rightarrow> nat \<Rightarrow> proc_scheme \<Rightarrow> (reply, proc_scheme) outcome" where
  "on_sendfd x hid s =
     (case map_of (handles s) hid of
        None \<Rightarrow> panic s
      | Some HInit \<Rightarrow>
         (case obtain_fd x of
            Inl e \<Rightarrow> ok (PErr e) s
          | Inr fd \<Rightarrow>
             let s1 = logk [Subscribe fd] s in
             if \<not> subscribe_ok x fd then panic s1
             else
               (case dup_status x fd of
                  Inl _ \<Rightarrow> panic s1
                | Inr hndl \<Rightarrow>
                   let th = \<lparr>t_tid = next_tid s1, t_fd = fd, status_hndl = hndl, t_pid = INIT_PID, sig_ctrl = None\<rparr>
                   in ok (POk 0 [])
                        (s1\<lparr>next_tid := Suc (next_tid s1),
                            groups := AList.update INIT_PID [INIT_PID] (groups s1),
                            processes := AList.update INIT_PID (init_process th) (processes s1),
                            sessions := List.insert INIT_PID (sessions s1),
                            thread_lookup := AList.update fd (t_tid th) (thread_lookup s1),
                            handles := AList.update hid (HProc INIT_PID) (handles s1)\<rparr>)))
      | Some _ \<Rightarrow> ok (PErr EBADF) s)"

subsection \<open>The process list\<close>

fun dec_digits :: "nat \<Rightarrow> bytes" where
  "dec_digits n = (if n < 10 then [of_nat (48 + n)] else dec_digits (n div 10) @ [of_nat (48 + n mod 10)])"

declare dec_digits.simps [simp del]

text \<open>\<open>{:<w}\<close> pads on the right up to \<open>w\<close> characters, which are the bytes that do not continue one.\<close>

definition pad_right :: "nat \<Rightarrow> bytes \<Rightarrow> bytes" where
  "pad_right w bs = bs @ replicate (w - length (filter (\<lambda>b. \<not> is_continuation b) bs)) 0x20"

definition ascii :: "string \<Rightarrow> bytes" where
  "ascii cs = map (\<lambda>c. of_nat (of_char c)) cs"

definition ps_header :: bytes where
  "ps_header =
     concat (map (\<lambda>h. pad_right 6 (ascii h))
       [''PID'', ''PGID'', ''PPID'', ''SID'', ''RUID'', ''RGID'', ''EUID'', ''EGID'', ''NTHRD'']) @
     pad_right 8 (ascii ''STATUS'') @ pad_right 16 (ascii ''NAME'') @ [0x0a]"

definition status_letter :: "process_status \<Rightarrow> u8" where
  "status_letter st =
     (case st of PossiblyRunnable \<Rightarrow> 0x52 | Stopped _ \<Rightarrow> 0x53 | Exiting _ _ \<Rightarrow> 0x45 | Exited _ _ \<Rightarrow> 0x58)"

definition ps_line :: "pid \<Rightarrow> process \<Rightarrow> bytes" where
  "ps_line p pr =
     concat (map (\<lambda>n. pad_right 6 (dec_digits n))
       [p, p_pgid pr, p_ppid pr, p_sid pr, unat (p_ruid pr), unat (p_rgid pr), unat (p_euid pr),
        unat (p_egid pr), length (p_threads pr)]) @
     pad_right 8 [status_letter (p_status pr)] @ pad_right 16 (p_name pr) @ [0x0a]"

definition ps_data :: "proc_scheme \<Rightarrow> bytes" where
  "ps_data s = ps_header @ concat (map (\<lambda>(p, pr). ps_line p pr) (processes s))"

subsection \<open>Opening, reading and duplicating\<close>

definition trim_start_slash :: "bytes \<Rightarrow> bytes" where
  "trim_start_slash = dropWhile (\<lambda>b. b = 0x2f)"

definition on_openat :: "ext \<Rightarrow> nat \<Rightarrow> bytes \<Rightarrow> u64 \<Rightarrow> u32 \<Rightarrow> proc_scheme \<Rightarrow> (open_result, proc_scheme) outcome" where
  "on_openat x fd path flags uid s =
     (case map_of (handles s) fd of
        None \<Rightarrow> panic s
      | Some HSchemeRoot \<Rightarrow>
         (let path = trim_start_slash path in
          if path = ascii ''init'' then
            (if init_claimed s then fail EEXIST s
             else let (n, s1) = insert_handle x HInit (s\<lparr>init_claimed := True\<rparr>) in ok (ThisScheme n False) s1)
          else if path = ascii ''ps'' then
            (let (n, s1) = insert_handle x (HPs (ps_data s)) s in ok (ThisScheme n True) s1)
          else if path = ascii ''proc-creds-capability'' then
            (if uid \<noteq> 0 then fail EACCES s
             else if flags AND O_ACCMODE x \<noteq> O_RDONLY x then fail EINVAL s
             else let (n, s1) = insert_handle x HProcCredsCapability s in ok (ThisScheme n False) s1)
          else fail ENOENT s)
      | Some _ \<Rightarrow> fail EACCES s)"

definition meta_of :: "pid \<Rightarrow> process \<Rightarrow> proc_meta" where
  "meta_of p pr =
     \<lparr>m_pid = of_nat p, m_pgid = of_nat (p_pgid pr), m_ppid = of_nat (p_ppid pr), m_ruid = p_ruid pr,
      m_euid = p_euid pr, m_suid = p_suid pr, m_rgid = p_rgid pr, m_egid = p_egid pr, m_sgid = p_sgid pr,
      m_ens = 1, m_rns = 1\<rparr>"

definition read_process_metadata :: "ext \<Rightarrow> pid \<Rightarrow> nat \<Rightarrow> bool \<Rightarrow> proc_scheme \<Rightarrow> errno + bytes" where
  "read_process_metadata x p len aligned s =
     (case proc_of s p of
        None \<Rightarrow> Inl ESRCH
      | Some process \<Rightarrow>
         if len < proc_meta_size x \<or> \<not> aligned then Inl EBADF
         else Inr (proc_meta_bytes x (meta_of p process)))"

definition on_read :: "ext \<Rightarrow> nat \<Rightarrow> u64 \<Rightarrow> nat \<Rightarrow> bool \<Rightarrow> proc_scheme \<Rightarrow> (nat \<times> bytes, proc_scheme) outcome" where
  "on_read x hid offset len aligned s =
     (case map_of (handles s) hid of
        None \<Rightarrow> panic s
      | Some (HProc p) \<Rightarrow>
         (case read_process_metadata x p len aligned s of
            Inl e \<Rightarrow> fail e s
          | Inr bs \<Rightarrow> ok (proc_meta_size x, bs) s)
      | Some (HPs src_buf) \<Rightarrow>
         (let bs = take len (drop (unat offset) src_buf) in ok (length bs, bs) s)
      | Some _ \<Rightarrow> fail EBADF s)"

definition on_dup :: "ext \<Rightarrow> nat \<Rightarrow> bytes \<Rightarrow> proc_scheme \<Rightarrow> (open_result, proc_scheme) outcome" where
  "on_dup x old_id buf s =
     (case map_of (handles s) old_id of
        None \<Rightarrow> panic s
      | Some (HProc p) \<Rightarrow>
         if buf = ascii ''fork'' then
           bind_out (fork x p s)
             (\<lambda>child s1. let (n, s2) = insert_handle x (HProc child) s1 in ok (ThisScheme n False) s2)
         else if buf = ascii ''new-thread'' then
           bind_out (new_thread x p s)
             (\<lambda>t s1. let (n, s2) = insert_handle x (HThread t) s1 in ok (ThisScheme n False) s2)
         else if take 7 buf = ascii ''thread-'' then
           (case (if utf8_valid (drop 7 buf) then parse_below (2 ^ 64) (drop 7 buf) else None) of
              None \<Rightarrow> fail EINVAL s
            | Some idx \<Rightarrow>
               (case proc_of s p of
                  None \<Rightarrow> fail EBADFD s
                | Some process \<Rightarrow>
                   if idx < length (p_threads process) then
                     (let (n, s1) = insert_handle x (HThread (t_tid (p_threads process ! idx))) s
                      in ok (ThisScheme n False) s1)
                   else fail ENOENT s))
         else fail EINVAL s
      | Some (HThread t) \<Rightarrow>
         (case upgrade_thread s t of
            None \<Rightarrow> fail EOWNERDEAD s
          | Some th \<Rightarrow>
             (case dup_raw x (t_fd th) buf of
                Inl e \<Rightarrow> fail e s
              | Inr fd \<Rightarrow> ok (OtherScheme fd) s))
      | Some _ \<Rightarrow> fail EBADF s)"

definition on_close :: "nat \<Rightarrow> proc_scheme \<Rightarrow> proc_scheme" where
  "on_close hid s = s\<lparr>handles := AList.delete hid (handles s)\<rparr>"

subsection \<open>Calls\<close>

definition answer :: "nat \<Rightarrow> (nat, proc_scheme) outcome \<Rightarrow> (response poll, proc_scheme) outcome" where
  "answer tag r =
     (case r of
        (Inl (Errno e), s) \<Rightarrow> ok (Ready (mk_response tag (Inl e))) s
      | (Inl Panic, s) \<Rightarrow> panic s
      | (Inr n, s) \<Rightarrow> ok (Ready (mk_response tag (Inr n))) s)"

definition map_out :: "('a \<Rightarrow> 'b) \<Rightarrow> ('a, 's) outcome \<Rightarrow> ('b, 's) outcome" where
  "map_out f r = (case r of (Inl e, s) \<Rightarrow> (Inl e, s) | (Inr v, s) \<Rightarrow> (Inr (f v), s))"

abbreviation unit_out :: "(unit, 's) outcome \<Rightarrow> (nat, 's) outcome" where
  "unit_out r \<equiv> map_out (\<lambda>_. 0) r"

text \<open>\<open>NonZeroUsize::new(m).map_or(default, ..)\<close>\<close>

definition pid_or :: "pid \<Rightarrow> u64 \<Rightarrow> pid" where
  "pid_or d m = (if m = 0 then d else unat m)"

definition wait_target :: "proc_call \<Rightarrow> u64 \<Rightarrow> waitpid_target" where
  "wait_target verb m1 =
     (if verb = CWaitpid then (if m1 = 0 then AnyChild else SingleProc (unat m1))
      else (if m1 = 0 then AnyGroupMember else ProcGroup (unat m1)))"

definition call_waitpid ::
  "ext \<Rightarrow> nat \<Rightarrow> nat \<Rightarrow> pid \<Rightarrow> proc_call \<Rightarrow> call_args \<Rightarrow> proc_scheme \<Rightarrow> (response poll, proc_scheme) outcome" where
  "call_waitpid x rid tag fd_pid verb a s =
     (case wait_flags_of_bits x (cl_m2 a) of
        None \<Rightarrow> answer tag (fail EINVAL s)
      | Some flags \<Rightarrow>
         work_on x (KernelId rid)
           (set_state (KernelId rid)
              (AwaitingStatusChange fd_pid (wait_target verb (cl_m1 a)) flags
                 \<lparr>op_tag = tag, op_status_slot = cl_slot a\<rparr>) s))"

definition call_kill :: "ext \<Rightarrow> nat \<Rightarrow> pid \<Rightarrow> proc_call \<Rightarrow> call_args \<Rightarrow> proc_scheme \<Rightarrow> (response poll, proc_scheme) outcome" where
  "call_kill x tag fd_pid verb a s =
     (let target = kill_target_of_raw x (cl_m1 a) in
      if cl_m2 a > 64 then answer tag (fail EINVAL s)
      else
        let signal = ucast (cl_m2 a) :: u8 in
        if verb = CKill then answer tag (unit_out (on_kill x fd_pid target signal Idempotent s))
        else if length (cl_payload a) \<noteq> rt_sig_info_size x then answer tag (fail EINVAL s)
        else if \<not> rt_sig_info_aligned x then panic s
        else answer tag (unit_out (on_kill x fd_pid target signal (Queued (cl_payload a)) s)))"

definition with_data :: "nat \<Rightarrow> (bytes, proc_scheme) outcome \<Rightarrow> (response poll, proc_scheme) outcome" where
  "with_data tag r =
     (case r of
        (Inl (Errno e), s) \<Rightarrow> ok (Ready (mk_response tag (Inl e))) s
      | (Inl Panic, s) \<Rightarrow> panic s
      | (Inr bs, s) \<Rightarrow> ok (Ready ((mk_response tag (Inr 0))\<lparr>r_data := bs\<rparr>)) s)"

definition call_proc ::
  "ext \<Rightarrow> nat \<Rightarrow> nat \<Rightarrow> pid \<Rightarrow> proc_call \<Rightarrow> call_args \<Rightarrow> proc_scheme \<Rightarrow> (response poll, proc_scheme) outcome" where
  "call_proc x rid tag fd_pid verb a s =
     (case verb of
        CExit \<Rightarrow> on_exit_start x fd_pid (ucast (cl_m1 a)) (KernelId rid) (Some tag) s
      | CWaitpid \<Rightarrow> call_waitpid x rid tag fd_pid verb a s
      | CWaitpgid \<Rightarrow> call_waitpid x rid tag fd_pid verb a s
      | CSetpgid \<Rightarrow>
          (let target_pid = pid_or fd_pid (cl_m1 a); new_pgid = pid_or target_pid (cl_m2 a)
           in if new_pgid = 2 ^ 64 - 1 then answer tag (on_getpgid fd_pid target_pid s)
              else answer tag (unit_out (on_setpgid fd_pid target_pid new_pgid s)))
      | CGetsid \<Rightarrow> answer tag (on_getsid fd_pid (pid_or fd_pid (cl_m1 a)) s)
      | CGetppid \<Rightarrow> answer tag (on_getppid fd_pid s)
      | CSetsid \<Rightarrow> answer tag (unit_out (on_setsid fd_pid s))
      | CSetResugid \<Rightarrow> answer tag (unit_out (on_setresugid x fd_pid (cl_ids a) s))
      | CKill \<Rightarrow> call_kill x tag fd_pid verb a s
      | CSigq \<Rightarrow> call_kill x tag fd_pid verb a s
      | CSyncSigPctl \<Rightarrow> answer tag (unit_out (on_sync_sigpctl x fd_pid s))
      | CSigdeq \<Rightarrow> with_data tag (on_sigdeq x fd_pid (cl_payload a) s)
      | CRename \<Rightarrow> answer tag (unit_out (on_proc_rename x fd_pid (cl_payload a) s))
      | CDisableSetpgid \<Rightarrow> answer tag (unit_out (on_disable_setpgid fd_pid s))
      | CGetProcCredentials \<Rightarrow> answer tag (fail EACCES s)
      | CSetrens \<Rightarrow> answer tag (fail EINVAL s)
      | CSetProcPriority \<Rightarrow>
          answer tag (unit_out (on_setprocprio x fd_pid (pid_or fd_pid (cl_m1 a)) (ucast (cl_m2 a)) s))
      | CGetProcPriority \<Rightarrow>
          answer tag (map_out unat (on_getprocprio fd_pid (pid_or fd_pid (cl_m1 a)) s)))"

definition call_creds :: "ext \<Rightarrow> nat \<Rightarrow> call_args \<Rightarrow> proc_scheme \<Rightarrow> (response poll, proc_scheme) outcome" where
  "call_creds x tag a s =
     (case proc_call_of_raw x (cl_m0 a) of
        Some CGetProcCredentials \<Rightarrow>
          (case read_process_metadata x (unat (cl_m1 a)) (length (cl_payload a)) (cl_aligned a) s of
             Inl e \<Rightarrow> answer tag (fail e s)
           | Inr bs \<Rightarrow> ok (Ready ((mk_response tag (Inr (proc_meta_size x)))\<lparr>r_data := bs\<rparr>)) s)
      | _ \<Rightarrow> answer tag (fail EINVAL s))"

definition on_call :: "ext \<Rightarrow> nat \<Rightarrow> nat \<Rightarrow> nat \<Rightarrow> call_args \<Rightarrow> proc_scheme \<Rightarrow> (response poll, proc_scheme) outcome" where
  "on_call x rid tag hid a s =
     (case map_of (handles s) hid of
        None \<Rightarrow> panic s
      | Some h \<Rightarrow>
         (case h of
            HInit \<Rightarrow> answer tag (fail EBADF s)
          | HThread t \<Rightarrow>
             (case upgrade_thread s t of
                None \<Rightarrow> answer tag (fail EOWNERDEAD s)
              | Some th \<Rightarrow>
                 (case thread_call_of_raw x (cl_m0 a) of
                    None \<Rightarrow> answer tag (fail EINVAL s)
                  | Some CSyncSigTctl \<Rightarrow> answer tag (unit_out (on_sync_sigtctl x th s))
                  | Some CSignalThread \<Rightarrow> answer tag (unit_out (on_kill_thread x th (ucast (cl_m1 a)) s))))
          | HProc fd_pid \<Rightarrow>
             (case proc_call_of_raw x (cl_m0 a) of
                None \<Rightarrow> answer tag (fail EINVAL s)
              | Some verb \<Rightarrow> call_proc x rid tag fd_pid verb a s)
          | HPs _ \<Rightarrow> answer tag (fail EOPNOTSUPP s)
          | HProcCredsCapability \<Rightarrow> call_creds x tag a s
          | HSchemeRoot \<Rightarrow> answer tag (fail EBADF s)))"

subsection \<open>Requests and events\<close>

definition cancel :: "nat \<Rightarrow> proc_scheme \<Rightarrow> reply poll \<times> proc_scheme" where
  "cancel rid s =
     (case map_of (states s) (KernelId rid) of
        None \<Rightarrow> (Pending, s)
      | Some st \<Rightarrow>
         let s1 = remove_state (KernelId rid) s in
         (case st of
            AwaitingStatusChange _ _ _ op \<Rightarrow> (Ready (PResp (mk_response (op_tag op) (Inl ECANCELED))), s1)
          | AwaitingThreadsTermination p tag \<Rightarrow>
             (let vid = InternalId (next_internal_id s1);
                  s2 = set_state vid (AwaitingThreadsTermination p None)
                         (s1\<lparr>next_internal_id := Suc (next_internal_id s1)\<rparr>)
              in ((case tag of Some tg \<Rightarrow> Ready (PResp (mk_response tg (Inl ECANCELED))) | None \<Rightarrow> Pending),
                  s2\<lparr>awoken := awoken s2 @ [vid]\<rparr>))
          | Placeholder \<Rightarrow> (Pending, s1)))"

definition as_reply :: "('a \<Rightarrow> reply) \<Rightarrow> ('a, proc_scheme) outcome \<Rightarrow> (reply poll, proc_scheme) outcome" where
  "as_reply f r =
     (case r of
        (Inl (Errno e), s) \<Rightarrow> ok (Ready (PErr e)) s
      | (Inl Panic, s) \<Rightarrow> panic s
      | (Inr v, s) \<Rightarrow> ok (Ready (f v)) s)"

definition of_poll :: "response poll \<Rightarrow> reply poll" where
  "of_poll p = (case p of Ready r \<Rightarrow> Ready (PResp r) | Pending \<Rightarrow> Pending)"

definition handle_scheme :: "ext \<Rightarrow> request \<Rightarrow> proc_scheme \<Rightarrow> (reply poll, proc_scheme) outcome" where
  "handle_scheme x req s =
     (case req of
        ROpenAt fd path flags uid \<Rightarrow> as_reply POpen (on_openat x fd path flags uid s)
      | RDup fd buf \<Rightarrow> as_reply POpen (on_dup x fd buf s)
      | RRead fd offset len aligned \<Rightarrow> as_reply (\<lambda>(n, bs). POk n bs) (on_read x fd offset len aligned s)
      | RCall rid tag fd a \<Rightarrow> map_out of_poll (on_call x rid tag fd a (remove_state (KernelId rid) s))
      | RFpath len \<Rightarrow>
          (let n = min (length (ascii ''/scheme/proc/'')) len
           in ok (Ready (POk n (take n (ascii ''/scheme/proc/'')))) s)
      | RFsize fd \<Rightarrow>
          (case map_of (handles s) fd of
             None \<Rightarrow> panic s
           | Some (HPs b) \<Rightarrow> ok (Ready (POk (length b) [])) s
           | Some _ \<Rightarrow> ok (Ready (PErr EOPNOTSUPP)) s)
      | RFstat fd \<Rightarrow>
          (case map_of (handles s) fd of
             None \<Rightarrow> panic s
           | Some (HPs b) \<Rightarrow> ok (Ready (PStat (length b) (MODE_FILE x OR 0x124))) s
           | Some _ \<Rightarrow> ok (Ready (PErr EOPNOTSUPP)) s)
      | ROther \<Rightarrow> ok (Ready (PErr ENOSYS)) s
      | RCancel rid \<Rightarrow> (case cancel rid s of (r, t) \<Rightarrow> ok r t)
      | RClose fd \<Rightarrow> ok Pending (on_close fd s)
      | RSendFd fd \<Rightarrow> as_reply (\<lambda>r. r) (on_sendfd x fd s))"

text \<open>The exit status the event loop gives to a process whose last thread is dead.\<close>

definition death_status :: "ext \<Rightarrow> context_status \<Rightarrow> u16 option" where
  "death_status x c =
     (case c of
        CtxDead \<Rightarrow> Some 0
      | CtxForceKilled \<Rightarrow> Some (of_nat (SIGKILL x * 256))
      | CtxUnhandledExcp \<Rightarrow> Some 1
      | CtxOther \<Rightarrow> None)"

definition thread_event :: "ext \<Rightarrow> nat \<Rightarrow> proc_scheme \<Rightarrow> (unit, proc_scheme) outcome" where
  "thread_event x data s =
     (case map_of (thread_lookup s) data of
        None \<Rightarrow> ok () s
      | Some t \<Rightarrow>
         (case upgrade_thread s t of
            None \<Rightarrow> ok () s
          | Some th \<Rightarrow>
             (case proc_of s (t_pid th) of
                None \<Rightarrow> ok () s
              | Some proc \<Rightarrow>
                 (case read_status x (status_hndl th) of
                    None \<Rightarrow> panic s
                  | Some c \<Rightarrow>
                     (case death_status x c of
                        None \<Rightarrow> ok () s
                      | Some status \<Rightarrow>
                         let threads = filter (\<lambda>h. t_tid h \<noteq> t) (p_threads proc);
                             s1 = upd_proc (t_pid th) (\<lambda>q. q\<lparr>p_threads := threads\<rparr>)
                                    (logk [Unsubscribe data]
                                       (s\<lparr>thread_lookup := AList.delete data (thread_lookup s)\<rparr>))
                         in (case p_status proc of
                               Exiting _ _ \<Rightarrow>
                                 ok () (upd_proc (t_pid th) (\<lambda>q. q\<lparr>p_awaiting_threads_term := []\<rparr>)
                                          (s1\<lparr>awoken := awoken s1 @ p_awaiting_threads_term proc\<rparr>))
                             | _ \<Rightarrow>
                                if threads \<noteq> [] then ok () s1
                                else
                                  let n = next_internal_id s1;
                                      s2 = s1\<lparr>next_internal_id := Suc n\<rparr>
                                  in if map_of (states s2) (InternalId n) \<noteq> None then ok () s2
                                     else map_out (\<lambda>_. ()) (on_exit_start x (t_pid th) status (InternalId n) None s2)))))))"

text \<open>
  The loop that works on woken requests. The two queues of the code, the one being drained and the one
  being filled, are one first-in first-out queue. \<open>None\<close> is running out of fuel.
\<close>

fun run_awoken :: "nat \<Rightarrow> ext \<Rightarrow> response list \<Rightarrow> proc_scheme \<Rightarrow> (response list, proc_scheme) outcome option" where
  "run_awoken 0 x out s = (if awoken s = [] then Some (ok out s) else None)"
| "run_awoken (Suc n) x out s =
     (case awoken s of
        [] \<Rightarrow> Some (ok out s)
      | v # vs \<Rightarrow>
         (case work_on x v (s\<lparr>awoken := vs\<rparr>) of
            (Inl f, t) \<Rightarrow> Some (Inl f, t)
          | (Inr (Ready r), t) \<Rightarrow> run_awoken n x (out @ [r]) t
          | (Inr Pending, t) \<Rightarrow> run_awoken n x out t))"

end
