(* ===== verification/Procmgr_Example.thy ===== *)
theory Procmgr_Example
  imports Procmgr_Inv
begin

text \<open>
  A concrete environment and a small process table: the instance on which the properties of the
  process manager are exercised. \<open>ext0\<close> answers every kernel call with success and has the signal
  numbers of the Redox ABI.
\<close>

definition ext0 :: ext where
  "ext0 = \<lparr>SIGHUP = 1, SIGKILL = 9, SIGCHLD = 17, SIGCONT = 18, SIGSTOP = 19, SIGTSTP = 20,
     SIGTTIN = 21, SIGTTOU = 22,
     sig_bit = (\<lambda>n. push_bit (n - 1) 1),
     signal_will_ign = (\<lambda>pc n soc. n < length (pc_actions pc) \<and> pc_actions pc ! n = 1),
     signal_will_stop = (\<lambda>pc n. n < length (pc_actions pc) \<and> pc_actions pc ! n = 0),
     hash_iter = (\<lambda>ps. ps), read_status = (\<lambda>_. Some CtxDead),
     slab_vacant = (\<lambda>hs. Suc (foldr max (map fst hs) 0)),
     obtain_fd = Inr 70, new_context = Inr 80,
     dup_status = (\<lambda>fd. Inr (fd + 1)), dup_attrs = (\<lambda>fd. Inr (fd + 2)),
     dup_sighandler = (\<lambda>fd. Inr (fd + 3)), dup_raw = (\<lambda>fd buf. Inr (fd + 4)),
     subscribe_ok = (\<lambda>_. True), write_status = (\<lambda>_ _. None), write_attrs = (\<lambda>_ _. None),
     map_tctl = (\<lambda>_. Inl ENOMEM), map_pctl = (\<lambda>_. Inl ENOMEM),
     proc_call_of_raw = (\<lambda>n. if n = 0 then Some CExit else if n = 1 then Some CWaitpid else None),
     thread_call_of_raw = (\<lambda>_. None), kill_target_of_raw = (\<lambda>n. KSingleProc (unat n)),
     wait_flags_of_bits = (\<lambda>_. Some \<lparr>wnohang = False, wuntraced = True, wcontinued = True\<rparr>),
     rt_sig_info_size = 4, rt_sig_info_aligned = True, proc_meta_bytes = (\<lambda>_. replicate 44 0), proc_meta_size = 44, MODE_FILE = 0x8000, O_ACCMODE = 3, O_RDONLY = 1\<rparr>"

definition sender0 :: sender_info where
  "sender0 = \<lparr>si_pid = 0, si_ruid = 0\<rparr>"

definition pctl0 :: sig_proc_control where
  "pctl0 = \<lparr>pending = 0, pc_sender_infos = (\<lambda>_. sender0), pc_actions = replicate 32 0\<rparr>"

definition thread0 :: "pid \<Rightarrow> thread" where
  "thread0 p = \<lparr>t_tid = p, t_fd = 10 * p, status_hndl = 10 * p + 1, t_pid = p, sig_ctrl = None\<rparr>"

definition proc0 :: "pid \<Rightarrow> pid \<Rightarrow> pid \<Rightarrow> pid \<Rightarrow> u32 \<Rightarrow> process" where
  "proc0 p ppid pgid sid uid =
     \<lparr>p_threads = [thread0 p], p_pid = p, p_ppid = ppid, p_pgid = pgid, p_sid = sid, p_name = [105],
      p_prio = 20, p_ruid = uid, p_euid = uid, p_suid = uid, p_rgid = uid, p_egid = uid, p_sgid = uid,
      p_status = PossiblyRunnable, p_disabled_setpgid = False, p_awaiting_threads_term = [],
      p_waitpid = [], p_waitpid_waiting = [], p_sig_pctl = Some pctl0, p_rtqs = []\<rparr>"

text \<open>
  Init (1), a session leader (2) owned by user 1000 that waits for its children with request 7, its
  child (3) in a group of its own, and a process of another user (4).
\<close>

definition pm0 :: proc_scheme where
  "pm0 = \<lparr>processes = [(1, proc0 1 1 1 1 0), (2, (proc0 2 1 2 2 1000)\<lparr>p_waitpid_waiting := [KernelId 7]\<rparr>),
                      (3, proc0 3 2 3 2 1000), (4, proc0 4 1 4 4 2000)],
     groups = [(1, [1]), (2, [2]), (3, [3]), (4, [4])], sessions = [1, 2, 4],
     handles = [(1, HProc 1), (2, HProc 2), (3, HProc 3), (4, HProc 4)],
     thread_lookup = [(11, 1), (21, 2), (31, 3), (41, 4)], next_internal_id = 1, init_claimed = True,
     next_id = 5, next_tid = 5, states = [], awoken = [], klog = []\<rparr>"

lemma ext0_simps [simp]:
  "SIGHUP ext0 = 1" "SIGKILL ext0 = 9" "SIGCHLD ext0 = 17" "SIGCONT ext0 = 18" "SIGSTOP ext0 = 19"
  "SIGTSTP ext0 = 20" "SIGTTIN ext0 = 21" "SIGTTOU ext0 = 22" "write_status ext0 h v = None"
  "write_attrs ext0 h a = None" "rt_sig_info_size ext0 = 4" "slab_vacant ext0 hs = Suc (foldr max (map fst hs) 0)"
  "hash_iter ext0 ps = ps" "read_status ext0 h = Some CtxDead"
  "signal_will_ign ext0 pc n soc = (n < length (pc_actions pc) \<and> pc_actions pc ! n = 1)"
  "signal_will_stop ext0 pc n = (n < length (pc_actions pc) \<and> pc_actions pc ! n = 0)"
  by (simp_all add: ext0_def)

lemma proc0_simps [simp]:
  "p_threads (proc0 p pp g sd u) = [thread0 p]" "p_pid (proc0 p pp g sd u) = p" "p_ppid (proc0 p pp g sd u) = pp"
  "p_pgid (proc0 p pp g sd u) = g" "p_sid (proc0 p pp g sd u) = sd" "p_prio (proc0 p pp g sd u) = 20"
  "p_name (proc0 p pp g sd u) = [105]"
  "p_ruid (proc0 p pp g sd u) = u" "p_euid (proc0 p pp g sd u) = u" "p_suid (proc0 p pp g sd u) = u"
  "p_rgid (proc0 p pp g sd u) = u" "p_egid (proc0 p pp g sd u) = u" "p_sgid (proc0 p pp g sd u) = u"
  "p_status (proc0 p pp g sd u) = PossiblyRunnable" "p_disabled_setpgid (proc0 p pp g sd u) = False"
  "p_awaiting_threads_term (proc0 p pp g sd u) = []" "p_waitpid (proc0 p pp g sd u) = []"
  "p_waitpid_waiting (proc0 p pp g sd u) = []" "p_sig_pctl (proc0 p pp g sd u) = Some pctl0"
  "p_rtqs (proc0 p pp g sd u) = []"
  "t_tid (thread0 p) = p" "t_fd (thread0 p) = 10 * p" "status_hndl (thread0 p) = 10 * p + 1" "t_pid (thread0 p) = p"
  by (simp_all add: proc0_def thread0_def)

lemma pm0_fields [simp]:
  "awoken pm0 = []" "klog pm0 = []" "next_id pm0 = 5" "states pm0 = []" "init_claimed pm0"
  "handles pm0 = [(1, HProc 1), (2, HProc 2), (3, HProc 3), (4, HProc 4)]"
  by (simp_all add: pm0_def)

lemma pm0_procs [simp]:
  "proc_of pm0 1 = Some (proc0 1 1 1 1 0)" "proc_of pm0 (Suc 0) = Some (proc0 1 1 1 1 0)"
  "proc_of pm0 2 = Some ((proc0 2 1 2 2 1000)\<lparr>p_waitpid_waiting := [KernelId 7]\<rparr>)"
  "proc_of pm0 3 = Some (proc0 3 2 3 2 1000)"
  "proc_of pm0 4 = Some (proc0 4 1 4 4 2000)"
  by (simp_all add: pm0_def proc_of_def)

lemma pm0_groups [simp]:
  "group_of pm0 1 = Some [1]" "group_of pm0 (Suc 0) = Some [1]" "group_of pm0 2 = Some [2]" "group_of pm0 3 = Some [3]" "group_of pm0 4 = Some [4]"
  by (simp_all add: pm0_def group_of_def)

lemma pm0_inv [simp]: "pm_inv pm0"
proof -
  have p: "proc_of pm0 p = Some pr \<Longrightarrow> p \<in> {1, 2, 3, 4}" for p pr
    by (auto simp: pm0_def proc_of_def split: if_splits)
  have g: "group_of pm0 g = Some ps \<Longrightarrow> g \<in> {1, 2, 3, 4} \<and> ps = [g]" for g ps
    by (auto simp: pm0_def group_of_def split: if_splits)
  have "procs_ok pm0"
    unfolding procs_ok_def
  proof (intro conjI allI impI)
    fix p pr
    assume pr: "proc_of pm0 p = Some pr"
    with p[OF pr] show "proc_ok p pr" by (auto simp: proc_ok_def exit_status_ok_def NAME_CAPAC_def)
    from p[OF pr] show "p < next_id pm0" by auto
  qed (simp_all add: pm0_def INIT_PID_def)
  moreover have "groups_ok pm0"
    unfolding groups_ok_def
  proof (intro conjI allI impI)
    fix p pr
    assume pr: "proc_of pm0 p = Some pr"
    with p[OF pr] show "\<exists>ps. group_of pm0 (p_pgid pr) = Some ps \<and> p \<in> set ps" by auto
  next
    fix q ps
    assume "group_of pm0 q = Some ps"
    with g[OF this] show "glist_ok ps" "\<forall>p\<in>set ps. \<exists>pr. proc_of pm0 p = Some pr \<and> p_pgid pr = q"
      by (auto simp: glist_ok_def)
  qed (simp add: pm0_def)
  moreover have "boot_ok pm0" by (simp add: boot_ok_def pm0_def hvals_def init_handles_def)
  ultimately show ?thesis by (simp add: pm_inv_def)
qed

end
