(* ===== verification/Procmgr_Signal_Props.thy ===== *)
theory Procmgr_Signal_Props
  imports Procmgr_Signal Procmgr_Example
begin

text \<open>
  Properties of signal delivery: who may signal whom, what SIGKILL, SIGSTOP and SIGCONT do to a
  process and to its parent, orphaned process groups, the real-time queues, and the depth of the
  self-call of \<open>on_send_sig\<close>.
\<close>

unbundle bit_operations_syntax

section \<open>Definitions\<close>

text \<open>What the code relies on of the signal numbers of the ABI.\<close>

definition signals_ok :: "ext \<Rightarrow> bool" where
  "signals_ok x \<longleftrightarrow>
     distinct [SIGKILL x, SIGCHLD x, SIGCONT x, SIGSTOP x, SIGTSTP x, SIGTTIN x, SIGTTOU x] \<and>
     (\<forall>g\<in>{SIGKILL x, SIGCHLD x, SIGCONT x, SIGSTOP x, SIGTSTP x, SIGTTIN x, SIGTTOU x}. 0 < g \<and> g \<le> 32)"

lemma signals_ok_ext0 [simp]: "signals_ok ext0"
  by (simp add: signals_ok_def)

text \<open>Statuses, wait maps, waiters and the wake-up queue are the same in both states.\<close>

definition quiet :: "proc_scheme \<Rightarrow> proc_scheme \<Rightarrow> bool" where
  "quiet s t \<longleftrightarrow>
     awoken t = awoken s \<and>
     (\<forall>p. map_option (\<lambda>pr. (p_status pr, p_waitpid pr, p_waitpid_waiting pr)) (proc_of t p) =
          map_option (\<lambda>pr. (p_status pr, p_waitpid pr, p_waitpid_waiting pr)) (proc_of s p))"

section \<open>The notification of the parent\<close>

lemma quiet_refl [simp]: "quiet s s"
  by (simp add: quiet_def)

lemma quiet_trans: "quiet s t \<Longrightarrow> quiet t u \<Longrightarrow> quiet s u"
  by (simp add: quiet_def)

lemma quiet_logk: "quiet s t \<Longrightarrow> quiet s (logk ks t)"
  by (simp add: quiet_def pm_frame)

lemma quiet_upd_proc:
  assumes "\<And>pr. (p_status (f pr), p_waitpid (f pr), p_waitpid_waiting (f pr)) =
                 (p_status pr, p_waitpid pr, p_waitpid_waiting pr)"
  shows "quiet s (upd_proc p f s)"
  using assms by (auto simp: quiet_def pm_frame option.map_comp comp_def)

lemma deliver_thread_quiet: "quiet s (final (deliver_thread x t p target sender sig is_self killed s))"
proof -
  have "quiet s (upd_proc p (set_thread t (\<lambda>h. h\<lparr>sig_ctrl := c\<rparr>)) s)" for c
    by (rule quiet_upd_proc) (simp add: set_thread_def)
  then show ?thesis by (simp add: deliver_thread_def Let_def quiet_logk split: option.split)
qed

lemma notify_proc_quiet: "quiet s (final (notify_proc x p target pctl sig is_self killed s))"
proof -
  have "quiet s (upd_proc p (\<lambda>q. q\<lparr>p_sig_pctl := c\<rparr>) s)" for c
    by (rule quiet_upd_proc) simp
  then show ?thesis by (simp add: notify_proc_def Let_def quiet_logk split: option.split)
qed

lemma deliver_proc_quiet: "quiet s (final (deliver_proc x p target pctl sender sig mode is_self killed s))"
proof -
  have "quiet s (upd_proc p (\<lambda>q. q\<lparr>p_rtqs := c\<rparr>) s)" for c
    by (rule quiet_upd_proc) simp
  then show ?thesis
    by (simp add: deliver_proc_def Let_def notify_proc_quiet quiet_trans[OF _ notify_proc_quiet]
        split: kill_mode.split)
qed

definition plain_result :: "fault + send_result \<Rightarrow> bool" where
  "plain_result r =
     (case r of Inr (SucceededSigchld _ _ _) \<Rightarrow> False | Inr (SucceededSigcont _ _) \<Rightarrow> False | _ \<Rightarrow> True)"

lemma deliver_plain:
  "plain_result (fst (deliver_thread x t p target sender sig is_self killed s))"
  "plain_result (fst (notify_proc x p target pctl sig is_self killed s))"
  by (simp_all add: deliver_thread_def notify_proc_def Let_def plain_result_def split: option.split)

lemma deliver_proc_plain: "plain_result (fst (deliver_proc x p target pctl sender sig mode is_self killed s))"
  using deliver_plain(2) by (simp add: deliver_proc_def Let_def plain_result_def split: kill_mode.split)

text \<open>A signal that is not a job-control signal changes no status and wakes nobody.\<close>

lemma closure_plain:
  assumes "unat sg \<noteq> SIGCONT x" "unat sg \<noteq> SIGSTOP x" "\<not> is_conditional_stop x (unat sg)"
  shows "plain_result (fst (send_sig_closure x eu ru sender target p tp sg is_self killed mode soc s)) \<and>
         quiet s (final (send_sig_closure x eu ru sender target p tp sg is_self killed mode soc s))"
proof -
  have kill: "plain_result (fst (send_kill x tp is_self killed s)) \<and> quiet s (final (send_kill x tp is_self killed s))"
    by (simp add: send_kill_def Let_def plain_result_def quiet_logk split: prod.split)
  have base: "plain_result (Inr Succeeded)" "plain_result (Inr Invalid)" "plain_result (Inr LacksPermission)"
    by (simp_all add: plain_result_def)
  show ?thesis
    using assms kill base
    by (simp add: send_sig_closure_def Let_def deliver_plain deliver_proc_plain deliver_thread_quiet
        deliver_proc_quiet split: option.split kill_target.split)
qed

lemma on_send_sig_plain:
  assumes "unat sg \<noteq> SIGCONT x" "unat sg \<noteq> SIGSTOP x" "\<not> is_conditional_stop x (unat sg)"
  shows "on_send_sig (Suc n) x caller target sg killed mode soc s =
           on_send_sig (Suc 0) x caller target sg killed mode soc s \<and>
         quiet s (final (on_send_sig (Suc n) x caller target sg killed mode soc s))"
proof (cases "proc_of s (target_pid_of target)"; cases "proc_of s caller")
  fix tp cp
  assume tp: "proc_of s (target_pid_of target) = Some tp" and cp: "proc_of s caller = Some cp"
  obtain r k u where cl: "send_sig_closure x (p_euid cp) (p_ruid cp)
      \<lparr>si_pid = of_nat caller, si_ruid = p_ruid cp\<rparr> target (target_pid_of target) tp sg
      (target_pid_of target = caller) killed mode soc s = (r, k, u)"
    by (rule prod_cases3)
  then have "plain_result r" "quiet s u" using closure_plain[OF assms] by (metis fst_conv, metis snd_conv)
  with tp cp cl show ?thesis
    by (auto simp: Let_def plain_result_def split: sum.splits send_result.splits)
qed (simp_all add: Let_def)

definition status_of :: "proc_scheme \<Rightarrow> pid \<Rightarrow> process_status option" where
  "status_of s p = map_option p_status (proc_of s p)"

text \<open>The status change of \<open>p\<close> that its parent \<open>q\<close> has on record, and the requests waiting at \<open>q\<close>.\<close>

definition recorded :: "proc_scheme \<Rightarrow> pid \<Rightarrow> pid \<Rightarrow> waitpid_status option" where
  "recorded s q p = (case proc_of s q of None \<Rightarrow> None | Some pr \<Rightarrow> wm_status (p_waitpid pr) p)"

definition waiters :: "proc_scheme \<Rightarrow> pid \<Rightarrow> virtual_id list" where
  "waiters s q = (case proc_of s q of None \<Rightarrow> [] | Some pr \<Rightarrow> p_waitpid_waiting pr)"

lemma status_of_upd_proc:
  "status_of (upd_proc p f s) q = (if q = p then map_option (\<lambda>pr. p_status (f pr)) (proc_of s p) else status_of s q)"
  by (simp add: status_of_def pm_frame option.map_comp comp_def)

lemma quiet_views:
  assumes "quiet s t"
  shows "status_of t p = status_of s p" "recorded t q p = recorded s q p" "waiters t q = waiters s q"
    "awoken t = awoken s"
proof -
  have eq: "map_option (\<lambda>pr. (p_status pr, p_waitpid pr, p_waitpid_waiting pr)) (proc_of t r) =
        map_option (\<lambda>pr. (p_status pr, p_waitpid pr, p_waitpid_waiting pr)) (proc_of s r)" for r
    using assms by (simp add: quiet_def)
  show "status_of t p = status_of s p"
    using eq[of p] by (cases "proc_of t p"; cases "proc_of s p") (simp_all add: status_of_def)
  show "recorded t q p = recorded s q p" "waiters t q = waiters s q"
    using eq[of q] by (cases "proc_of t q"; cases "proc_of s q"; simp add: recorded_def waiters_def)+
  show "awoken t = awoken s" using assms by (simp add: quiet_def)
qed

lemma signals_ok_sigchld:
  assumes "signals_ok x"
  shows "unat (of_nat (SIGCHLD x) :: u8) = SIGCHLD x"
    "SIGCHLD x \<noteq> SIGCONT x" "SIGCHLD x \<noteq> SIGSTOP x" "\<not> is_conditional_stop x (SIGCHLD x)"
proof -
  have "SIGCHLD x \<le> 32" using assms by (simp add: signals_ok_def)
  then show "unat (of_nat (SIGCHLD x) :: u8) = SIGCHLD x"
    by (simp add: unat_of_nat)
qed (use assms in \<open>auto simp: signals_ok_def is_conditional_stop_def\<close>)

lemma sigchld_plain:
  assumes "signals_ok x"
  shows "on_send_sig (Suc n) x caller target (of_nat (SIGCHLD x)) killed mode soc s =
           on_send_sig (Suc 0) x caller target (of_nat (SIGCHLD x)) killed mode soc s"
    "quiet s (final (on_send_sig (Suc n) x caller target (of_nat (SIGCHLD x)) killed mode soc s))"
proof -
  note c = signals_ok_sigchld[OF assms]
  have "unat (of_nat (SIGCHLD x) :: u8) \<noteq> SIGCONT x" "unat (of_nat (SIGCHLD x) :: u8) \<noteq> SIGSTOP x"
      "\<not> is_conditional_stop x (unat (of_nat (SIGCHLD x) :: u8))"
    using c by simp_all
  note p = on_send_sig_plain[OF this, of n caller target killed mode soc s]
  from p show "on_send_sig (Suc n) x caller target (of_nat (SIGCHLD x)) killed mode soc s =
      on_send_sig (Suc 0) x caller target (of_nat (SIGCHLD x)) killed mode soc s" by (rule conjunct1)
  from p show "quiet s (final (on_send_sig (Suc n) x caller target (of_nat (SIGCHLD x)) killed mode soc s))"
    by (rule conjunct2)
qed

lemma post_status_views:
  assumes "proc_of s q = Some parent" and "wm_ok (p_waitpid parent)"
  shows "status_of (post_status q p g st s) r = status_of s r"
    "recorded (post_status q p g st s) q p = Some st" "waiters (post_status q p g st s) q = []"
    "awoken (post_status q p g st s) = awoken s @ waiters s q"
  using assms
  by (auto simp: post_status_def status_of_def recorded_def waiters_def pm_frame wm_insert_status
      wake_waiters_def option.map_comp comp_def)

text \<open>
  Telling the parent: whatever the SIGCHLD does, the entry is there, every waiter is woken and no
  status changes.
\<close>

definition tell_parent ::
  "nat \<Rightarrow> ext \<Rightarrow> pid \<Rightarrow> pid \<Rightarrow> pid \<Rightarrow> waitpid_status \<Rightarrow> bool \<Rightarrow> proc_scheme \<Rightarrow> (fault + unit) \<times> bool \<times> proc_scheme" where
  "tell_parent fuel x ppid p pgid st killed s =
     (let s2 = post_status ppid p pgid st s in
      if ppid = INIT_PID then (Inr (), killed, s2)
      else
        (case on_send_sig fuel x INIT_PID (TProc ppid) (of_nat (SIGCHLD x)) killed Idempotent True s2 of
           (Inl Panic, killed2, s3) \<Rightarrow> (Inl Panic, killed2, s3)
         | (_, killed2, s3) \<Rightarrow> (Inr (), killed2, s3)))"

lemma tell_parent_final:
  "final (tell_parent fuel x ppid p pgid st killed s) =
     (if ppid = INIT_PID then post_status ppid p pgid st s
      else final (on_send_sig fuel x INIT_PID (TProc ppid) (of_nat (SIGCHLD x)) killed Idempotent True
                    (post_status ppid p pgid st s)))"
  by (auto simp: tell_parent_def Let_def split: prod.split sum.split fault.split)

lemma tell_parent_quiet:
  "signals_ok x \<Longrightarrow> quiet (post_status q p g st s) (final (tell_parent (Suc n) x q p g st killed s))"
  unfolding tell_parent_final by (simp only: sigchld_plain(2) quiet_refl if_split) simp

lemma tell_parent_views:
  assumes "signals_ok x" and "proc_of s q = Some parent" and "wm_ok (p_waitpid parent)"
  shows "status_of (final (tell_parent (Suc n) x q p g st killed s)) r = status_of s r"
    "recorded (final (tell_parent (Suc n) x q p g st killed s)) q p = Some st"
    "waiters (final (tell_parent (Suc n) x q p g st killed s)) q = []"
    "awoken (final (tell_parent (Suc n) x q p g st killed s)) = awoken s @ waiters s q"
  by (simp_all only: quiet_views[OF tell_parent_quiet[OF assms(1)]] post_status_views[OF assms(2,3)])

lemma on_send_sig_unfold:
  assumes "unat sg \<le> 64" and "proc_of s (target_pid_of target) = Some tp" and "proc_of s caller = Some cp"
  shows "on_send_sig (Suc fuel) x caller target sg killed mode soc s =
     (case send_sig_closure x (p_euid cp) (p_ruid cp) \<lparr>si_pid = of_nat caller, si_ruid = p_ruid cp\<rparr> target
             (target_pid_of target) tp sg (target_pid_of target = caller) killed mode soc s of
        (Inl f, k, s1) \<Rightarrow> (Inl f, k, s1)
      | (Inr LacksPermission, k, s1) \<Rightarrow> (Inl (Errno EPERM), k, s1)
      | (Inr Succeeded, k, s1) \<Rightarrow> (Inr (), k, s1)
      | (Inr FullQ, k, s1) \<Rightarrow> (Inl (Errno EAGAIN), k, s1)
      | (Inr Invalid, k, s1) \<Rightarrow> (Inl (Errno ESRCH), k, s1)
      | (Inr (SucceededSigchld g ppid pgid), k, s1) \<Rightarrow>
          (case proc_of s1 ppid of None \<Rightarrow> (Inl (Errno ESRCH), k, s1)
           | Some _ \<Rightarrow> tell_parent fuel x ppid (target_pid_of target) pgid (WStopped g) k s1)
      | (Inr (SucceededSigcont ppid pgid), k, s1) \<Rightarrow>
          (case proc_of s1 ppid of None \<Rightarrow> (Inl (Errno ESRCH), k, s1)
           | Some _ \<Rightarrow> tell_parent fuel x ppid (target_pid_of target) pgid Continued k s1))"
  using assms
  by (auto simp: Let_def tell_parent_def split: prod.split sum.split send_result.split option.split)

declare on_send_sig.simps [simp del]

lemma write_all_ok: "\<forall>h v. write_status x h v = None \<Longrightarrow>
   write_all_expect x v ths = (True, map (\<lambda>th. StatusWrite (status_hndl th) v) ths)"
  by (induction ths) simp_all

lemma closure_no_panic:
  assumes "\<forall>h v. write_status x h v = None"
  shows "fst (send_sig_closure x eu ru sender target p tp sg is_self killed mode soc s) \<noteq> Inl f"
  using assms
  by (simp add: send_sig_closure_def Let_def send_cont_def send_stop_def send_kill_def deliver_thread_def
      deliver_proc_def notify_proc_def write_all_ok split: option.split kill_target.split kill_mode.split)

lemma plain_no_panic:
  assumes w: "\<forall>h v. write_status x h v = None"
    and g: "unat sg \<noteq> SIGCONT x" "unat sg \<noteq> SIGSTOP x" "\<not> is_conditional_stop x (unat sg)"
  shows "fst (on_send_sig (Suc n) x caller target sg killed mode soc s) \<noteq> Inl Panic"
proof (cases "proc_of s (target_pid_of target)"; cases "proc_of s caller")
  fix tp cp
  assume tp: "proc_of s (target_pid_of target) = Some tp" and cp: "proc_of s caller = Some cp"
  obtain r k u where cl: "send_sig_closure x (p_euid cp) (p_ruid cp)
      \<lparr>si_pid = of_nat caller, si_ruid = p_ruid cp\<rparr> target (target_pid_of target) tp sg
      (target_pid_of target = caller) killed mode soc s = (r, k, u)"
    by (rule prod_cases3)
  have "plain_result r" using closure_plain[OF g] cl by (metis fst_conv)
  moreover have "r \<noteq> Inl f" for f using closure_no_panic[OF w] cl by (metis fst_conv)
  ultimately show ?thesis
    using on_send_sig_unfold[OF _ tp cp, of sg n x killed mode soc] cl
    by (cases "unat sg \<le> 64") (auto simp: on_send_sig.simps plain_result_def split: sum.splits send_result.splits)
qed (simp_all add: Let_def on_send_sig.simps)

lemma tell_parent_result:
  assumes "signals_ok x" and "\<forall>h v. write_status x h v = None"
  shows "fst (tell_parent (Suc n) x q p g st killed s) = Inr ()"
proof -
  have "fst (on_send_sig (Suc n) x INIT_PID (TProc q) (of_nat (SIGCHLD x)) killed Idempotent True u) \<noteq> Inl Panic" for u
    using signals_ok_sigchld[OF assms(1)] by (intro plain_no_panic[OF assms(2)]) simp_all
  from this[of "post_status q p g st s"] show ?thesis
    by (auto simp: tell_parent_def Let_def split: prod.splits sum.splits fault.splits)
qed

text \<open>The only fault of the closure is a panic, and it reports missing permission in one place.\<close>

definition granted :: "fault + send_result \<Rightarrow> bool" where
  "granted r = (case r of Inl (Errno _) \<Rightarrow> False | Inr LacksPermission \<Rightarrow> False | _ \<Rightarrow> True)"

lemma granted_simps [simp]:
  "granted (Inl Panic)" "granted (Inr Succeeded)" "granted (Inr Invalid)" "granted (Inr FullQ)"
  "granted (Inr (SucceededSigchld g p q))" "granted (Inr (SucceededSigcont p q))"
  by (simp_all add: granted_def)

lemma branches_granted:
  "granted (fst (send_cont x p tp pctl killed s))" "granted (fst (send_stop x p tp pctl sg killed s))"
  "granted (fst (send_kill x tp is_self killed s))"
  "granted (fst (deliver_thread x t p tp sender sig is_self killed s))"
  "granted (fst (notify_proc x p tp pctl sig is_self killed s))"
  by (simp_all add: send_cont_def send_stop_def send_kill_def deliver_thread_def notify_proc_def Let_def
      split: option.split prod.split)

lemma deliver_proc_granted: "granted (fst (deliver_proc x p tp pctl sender sig mode is_self killed s))"
  by (simp add: deliver_proc_def Let_def branches_granted split: kill_mode.split)

lemma closure_granted:
  "may_signal eu ru tp \<Longrightarrow> granted (fst (send_sig_closure x eu ru sender target p tp sg is_self killed mode soc s))"
  by (simp add: send_sig_closure_def Let_def branches_granted deliver_proc_granted
      split: option.split kill_target.split)

lemma closure_denied:
  "\<not> may_signal eu ru tp \<Longrightarrow>
   send_sig_closure x eu ru sender target p tp sg is_self killed mode soc s = (Inr LacksPermission, killed, s)"
  by (simp add: send_sig_closure_def)

lemma tell_parent_no_errno: "fst (tell_parent fuel x q p g st killed s) \<noteq> Inl (Errno e)"
  by (auto simp: tell_parent_def Let_def split: prod.split sum.split fault.split)

lemma tell_parent_frame: "\<not> is_term st \<Longrightarrow> sig_frame s (final (tell_parent n x q p g st k s))"
  unfolding tell_parent_final
  using post_status_frame sig_frame_trans[OF post_status_frame on_send_sig_frame] by simp

text \<open>A change of \<open>p\<close> that leaves its wait map alone, followed by telling its parent.\<close>

lemma tell_parent_after:
  fixes ks :: "kcall list" and k :: bool and st :: waitpid_status and g :: pid and n :: nat
  assumes x: "signals_ok x" and "pm_inv s" and p: "proc_of s p = Some tp" and "proc_of s q = Some parent"
    and st: "\<not> is_term st"
    and f: "\<And>pr. p_waitpid (f pr) = p_waitpid pr" "\<And>pr. p_waitpid_waiting (f pr) = p_waitpid_waiting pr"
  defines "t \<equiv> final (tell_parent (Suc n) x q p g st k (logk ks (upd_proc p f s)))"
  shows "\<forall>r. status_of t r = (if r = p then Some (p_status (f tp)) else status_of s r)"
    "recorded t q p = Some st \<and> waiters t q = [] \<and> awoken t = awoken s @ waiters s q"
    "\<exists>ks'. klog t = klog s @ ks @ ks'"
proof -
  let ?u = "logk ks (upd_proc p f s)"
  have "wm_ok (p_waitpid parent)" using assms(2,4) by (rule pm_invD)
  then obtain parent' where parent': "proc_of ?u q = Some parent'" "wm_ok (p_waitpid parent')"
    using assms(4) p f by (cases "q = p") (auto simp: pm_frame)
  note v = tell_parent_views[OF x parent', of n p g st k, folded t_def]
  have "status_of ?u r = (if r = p then Some (p_status (f tp)) else status_of s r)" for r
    using p by (simp add: status_of_def pm_frame)
  then show "\<forall>r. status_of t r = (if r = p then Some (p_status (f tp)) else status_of s r)" using v by simp
  have "waiters ?u q = waiters s q" "awoken ?u = awoken s"
    using assms(4) p f by (cases "q = p"; simp add: waiters_def pm_frame)+
  then show "recorded t q p = Some st \<and> waiters t q = [] \<and> awoken t = awoken s @ waiters s q" using v by simp
  have "\<exists>ks'. klog t = klog ?u @ ks'" using tell_parent_frame[OF st, of ?u "Suc n"] by (simp add: sig_frame_def t_def)
  then show "\<exists>ks'. klog t = klog s @ ks @ ks'" by (simp add: pm_frame)
qed

section \<open>Properties\<close>

text \<open>
  C13. Signal permission. A valid signal to an existing process is refused with EPERM exactly when the
  sender's effective user is not root and neither its effective nor its real user is the target's
  real user, and then nothing has changed.
\<close>

theorem on_send_sig_permission:
  assumes "unat sg \<le> 64" and "proc_of s (target_pid_of target) = Some tp" and "proc_of s caller = Some cp"
  defines "denied \<equiv> p_euid cp \<noteq> 0 \<and> p_euid cp \<noteq> p_ruid tp \<and> p_ruid cp \<noteq> p_ruid tp"
  shows "(fst (on_send_sig sig_fuel x caller target sg killed mode soc s) = Inl (Errno EPERM) \<longleftrightarrow> denied) \<and>
         (denied \<longrightarrow> final (on_send_sig sig_fuel x caller target sg killed mode soc s) = s)"
proof -
  obtain r k u where cl: "send_sig_closure x (p_euid cp) (p_ruid cp)
      \<lparr>si_pid = of_nat caller, si_ruid = p_ruid cp\<rparr> target (target_pid_of target) tp sg
      (target_pid_of target = caller) killed mode soc s = (r, k, u)"
    by (rule prod_cases3)
  have d: "denied \<longleftrightarrow> \<not> may_signal (p_euid cp) (p_ruid cp) tp" by (auto simp: denied_def may_signal_def)
  note eq = on_send_sig_unfold[OF assms(1-3), of "Suc 0" x killed mode soc]
  have "fst (on_send_sig (Suc (Suc 0)) x caller target sg killed mode soc s) \<noteq> Inl (Errno EPERM)" if "\<not> denied"
  proof -
    have "granted r" using closure_granted that d cl by (metis fst_conv)
    then show ?thesis
      unfolding eq cl
      by (auto simp: tell_parent_no_errno granted_def split: sum.splits send_result.splits option.split)
  qed
  then show ?thesis
    using closure_denied d by (auto simp: sig_fuel_def numeral_2_eq_2 eq)
qed

theorem on_send_sig_permission_witness:
  "unat (9 :: u8) \<le> 64 \<and> proc_of pm0 4 = Some (proc0 4 1 4 4 2000) \<and> proc_of pm0 3 = Some (proc0 3 2 3 2 1000) \<and>
   fst (on_send_sig sig_fuel ext0 3 (TProc 4) 9 False Idempotent False pm0) = Inl (Errno EPERM)"
  using on_send_sig_permission[of 9 pm0 "TProc 4" "proc0 4 1 4 4 2000" 3 "proc0 3 2 3 2 1000"]
  by (simp add: target_pid_of_def)

text \<open>
  Depth of the self-call. \<open>on_send_sig\<close> calls itself only to send SIGCHLD to the parent, and that
  call does not call itself again: any larger bound on the depth gives the result of depth two.
\<close>

theorem on_send_sig_depth:
  assumes "signals_ok x"
  shows "on_send_sig (sig_fuel + n) x caller target sg killed mode soc s =
         on_send_sig sig_fuel x caller target sg killed mode soc s"
proof -
  have tp: "tell_parent (Suc m) x q p g st k u = tell_parent (Suc 0) x q p g st k u" for m q p g st k u
    unfolding tell_parent_def Let_def sigchld_plain(1)[OF assms, of m] by (rule refl)
  have "on_send_sig (Suc (Suc n)) x caller target sg killed mode soc s =
        on_send_sig (Suc (Suc 0)) x caller target sg killed mode soc s"
  proof (cases "unat sg \<le> 64 \<and> proc_of s (target_pid_of target) \<noteq> None \<and> proc_of s caller \<noteq> None")
    case True
    then obtain tq cp where "unat sg \<le> 64" "proc_of s (target_pid_of target) = Some tq" "proc_of s caller = Some cp"
      by auto
    note u = on_send_sig_unfold[OF this]
    show ?thesis unfolding u tp[of n] by (rule refl)
  next
    case False
    then show ?thesis by (auto simp: on_send_sig.simps Let_def split: option.split)
  qed
  then show ?thesis by (simp add: sig_fuel_def numeral_2_eq_2)
qed

theorem on_send_sig_depth_witness:
  "signals_ok ext0 \<and>
   on_send_sig (sig_fuel + 5) ext0 1 (TProc 3) 19 False Idempotent False pm0 =
     on_send_sig sig_fuel ext0 1 (TProc 3) 19 False Idempotent False pm0"
  using on_send_sig_depth[of ext0 5 1 "TProc 3" 19 False Idempotent False pm0] by simp

text \<open>
  SIGKILL. A permitted SIGKILL to a process that is not exiting and has a signal page writes
  \<open>ForceKill\<close> to every thread of the process, in order, and changes nothing else in the manager; the
  caller is told to restart exactly when it killed itself.
\<close>

theorem sigkill_every_thread:
  assumes "signals_ok x" and "\<forall>h v. write_status x h v = None"
    and "proc_of s p = Some tp" and "proc_of s caller = Some cp"
    and "may_signal (p_euid cp) (p_ruid cp) tp"
    and "\<not> is_exiting (p_status tp)" and "p_sig_pctl tp \<noteq> None"
  shows "on_kill x caller (KSingleProc p) (of_nat (SIGKILL x)) Idempotent s =
     ((if p = caller then Inl (Errno ERESTART) else Inr ()),
      logk (map (\<lambda>th. StatusWrite (status_hndl th) VForceKill) (p_threads tp)) s)"
proof -
  have k: "SIGKILL x \<le> 32" "0 < SIGKILL x" "SIGKILL x \<noteq> SIGCONT x" "SIGKILL x \<noteq> SIGSTOP x"
      "\<not> is_conditional_stop x (SIGKILL x)"
    using assms(1) by (auto simp: signals_ok_def is_conditional_stop_def)
  then have u: "unat (of_nat (SIGKILL x) :: u8) = SIGKILL x" by (simp add: unat_of_nat)
  with k have nz: "(of_nat (SIGKILL x) :: u8) \<noteq> 0" by (metis less_numeral_extra(3) unat_0)
  have "send_sig_closure x (p_euid cp) (p_ruid cp) sender (TProc p) p tp (of_nat (SIGKILL x)) is_self False
      Idempotent False s = (Inr Succeeded, is_self, logk (map (\<lambda>th. StatusWrite (status_hndl th) VForceKill) (p_threads tp)) s)"
    for sender is_self
    using assms k nz by (auto simp: send_sig_closure_def Let_def u send_kill_def write_all_ok)
  then show ?thesis
    using on_send_sig_unfold[of "of_nat (SIGKILL x)" s "TProc p" tp caller cp] assms k u
    by (simp add: on_kill_def sig_fuel_def numeral_2_eq_2 target_pid_of_def)
qed

theorem sigkill_every_thread_witness:
  "signals_ok ext0 \<and> (\<forall>h v. write_status ext0 h v = None) \<and>
   on_kill ext0 2 (KSingleProc 3) (of_nat (SIGKILL ext0)) Idempotent pm0 = (Inr (), logk [StatusWrite 31 VForceKill] pm0)"
  using sigkill_every_thread[of ext0 pm0 3 "proc0 3 2 3 2 1000" 2]
  by (simp add: may_signal_def is_exiting_def)

text \<open>
  C27. Stopping a process. A permitted SIGSTOP to a live process puts it into the status
  \<open>Stopped SIGSTOP\<close>, writes \<open>Stop\<close> to each of its threads, records the stop for its parent under the
  process's identifier, and wakes every request that waits at the parent; no other status changes.
\<close>

theorem sigstop_stops_and_notifies:
  assumes "signals_ok x" and "\<forall>h v. write_status x h v = None" and "pm_inv s"
    and "proc_of s p = Some tp" and "proc_of s caller = Some cp" and "may_signal (p_euid cp) (p_ruid cp) tp"
    and "\<not> is_exiting (p_status tp)" and "p_sig_pctl tp \<noteq> None" and "proc_of s (p_ppid tp) \<noteq> None"
  defines "r \<equiv> on_send_sig sig_fuel x caller (TProc p) (of_nat (SIGSTOP x)) False Idempotent False s"
  shows "fst r = Inr () \<and>
    (\<forall>q. status_of (final r) q = (if q = p then Some (Stopped (SIGSTOP x)) else status_of s q)) \<and>
    (\<exists>ks. klog (final r) = klog s @ map (\<lambda>th. StatusWrite (status_hndl th) VStop) (p_threads tp) @ ks) \<and>
    recorded (final r) (p_ppid tp) p = Some (WStopped (of_nat (SIGSTOP x))) \<and>
    waiters (final r) (p_ppid tp) = [] \<and> awoken (final r) = awoken s @ waiters s (p_ppid tp)"
proof -
  obtain parent where pa: "proc_of s (p_ppid tp) = Some parent" using assms(9) by blast
  obtain pctl where pc: "p_sig_pctl tp = Some pctl" using assms(8) by blast
  have k: "SIGSTOP x \<le> 32" "0 < SIGSTOP x" "SIGSTOP x \<noteq> SIGCONT x" "\<not> is_conditional_stop x (SIGSTOP x)"
    using assms(1) by (auto simp: signals_ok_def is_conditional_stop_def)
  then have u: "unat (of_nat (SIGSTOP x) :: u8) = SIGSTOP x" by (simp add: unat_of_nat)
  with k have nz: "(of_nat (SIGSTOP x) :: u8) \<noteq> 0" by (metis less_numeral_extra(3) unat_0)
  let ?f = "\<lambda>q. q\<lparr>p_status := Stopped (SIGSTOP x), p_threads := map (stop_thread x) (p_threads q),
      p_sig_pctl := Some (pctl\<lparr>pending := pending pctl AND NOT (sig_bit x (SIGCONT x))\<rparr>)\<rparr>"
  let ?ks = "map (\<lambda>th. StatusWrite (status_hndl th) VStop) (p_threads tp)"
  have "send_sig_closure x (p_euid cp) (p_ruid cp) sender (TProc p) p tp (of_nat (SIGSTOP x)) is_self False
      Idempotent False s =
      (Inr (SucceededSigchld (of_nat (SIGSTOP x)) (p_ppid tp) (p_pgid tp)), False, logk ?ks (upd_proc p ?f s))"
    for sender is_self
    using assms k nz pc by (simp add: send_sig_closure_def Let_def u send_stop_def)
  then have "r = tell_parent (Suc 0) x (p_ppid tp) p (p_pgid tp) (WStopped (of_nat (SIGSTOP x))) False
      (logk ?ks (upd_proc p ?f s))"
    using on_send_sig_unfold[of "of_nat (SIGSTOP x)" s "TProc p" tp caller cp] assms(4,5) k u pa
    by (simp add: r_def sig_fuel_def numeral_2_eq_2 target_pid_of_def pm_frame split: option.split)
  then show ?thesis
    using tell_parent_after[OF assms(1,3,4) pa, where st = "WStopped (of_nat (SIGSTOP x))" and f = ?f and n = 0 and g = "p_pgid tp" and k = False and ks = ?ks]
      tell_parent_result[OF assms(1,2)]
    by (simp add: is_term_def)
qed

theorem sigstop_stops_and_notifies_witness:
  "signals_ok ext0 \<and> (\<forall>h v. write_status ext0 h v = None) \<and> pm_inv pm0 \<and> waiters pm0 2 = [KernelId 7] \<and>
   (let t = final (on_send_sig sig_fuel ext0 2 (TProc 3) (of_nat (SIGSTOP ext0)) False Idempotent False pm0) in
    status_of t 3 = Some (Stopped 19) \<and> recorded t 2 3 = Some (WStopped 19) \<and> awoken t = [KernelId 7])"
  using sigstop_stops_and_notifies[of ext0 pm0 3 "proc0 3 2 3 2 1000" 2 "(proc0 2 1 2 2 1000)\<lparr>p_waitpid_waiting := [KernelId 7]\<rparr>"]
  by (simp add: Let_def may_signal_def is_exiting_def waiters_def)

text \<open>
  Continuing a process. A permitted SIGCONT to a stopped process makes it runnable again, writes
  \<open>Unstop\<close> to each of its threads, records \<open>Continued\<close> for its parent and wakes every request that waits
  at the parent; no other status changes.
\<close>

theorem sigcont_continues_and_notifies:
  assumes "signals_ok x" and "\<forall>h v. write_status x h v = None" and "pm_inv s"
    and "proc_of s p = Some tp" and "proc_of s caller = Some cp" and "may_signal (p_euid cp) (p_ruid cp) tp"
    and "p_status tp = Stopped g" and "p_sig_pctl tp \<noteq> None" and "proc_of s (p_ppid tp) \<noteq> None"
  defines "r \<equiv> on_send_sig sig_fuel x caller (TProc p) (of_nat (SIGCONT x)) False Idempotent False s"
  shows "fst r = Inr () \<and>
    (\<forall>q. status_of (final r) q = (if q = p then Some PossiblyRunnable else status_of s q)) \<and>
    (\<exists>ks. klog (final r) = klog s @ map (\<lambda>th. StatusWrite (status_hndl th) VUnstop) (p_threads tp) @ ks) \<and>
    recorded (final r) (p_ppid tp) p = Some Continued \<and>
    waiters (final r) (p_ppid tp) = [] \<and> awoken (final r) = awoken s @ waiters s (p_ppid tp)"
proof -
  obtain parent where pa: "proc_of s (p_ppid tp) = Some parent" using assms(9) by blast
  obtain pctl where pc: "p_sig_pctl tp = Some pctl" using assms(8) by blast
  have k: "SIGCONT x \<le> 32" "0 < SIGCONT x" using assms(1) by (auto simp: signals_ok_def)
  then have u: "unat (of_nat (SIGCONT x) :: u8) = SIGCONT x" by (simp add: unat_of_nat)
  with k have nz: "(of_nat (SIGCONT x) :: u8) \<noteq> 0" by (metis less_numeral_extra(3) unat_0)
  let ?pc = "if signal_will_ign x pctl (SIGCONT x) False then pctl
             else pctl\<lparr>pending := pending pctl OR sig_bit x (SIGCONT x)\<rparr>"
  let ?f = "\<lambda>q. q\<lparr>p_status := PossiblyRunnable, p_sig_pctl := Some ?pc,
                 p_threads := map (cont_thread x) (p_threads q)\<rparr>"
  let ?ks = "map (\<lambda>th. StatusWrite (status_hndl th) VUnstop) (p_threads tp)"
  have "send_sig_closure x (p_euid cp) (p_ruid cp) sender (TProc p) p tp (of_nat (SIGCONT x)) is_self False
      Idempotent False s =
      (Inr (SucceededSigcont (p_ppid tp) (p_pgid tp)), False, logk ?ks (upd_proc p ?f s))"
    for sender is_self
    using assms k nz pc
    by (simp add: send_sig_closure_def Let_def u send_cont_def write_all_ok is_exiting_def is_stopped_def)
  then have "r = tell_parent (Suc 0) x (p_ppid tp) p (p_pgid tp) Continued False (logk ?ks (upd_proc p ?f s))"
    using on_send_sig_unfold[of "of_nat (SIGCONT x)" s "TProc p" tp caller cp] assms(4,5) k u pa
    by (simp add: r_def sig_fuel_def numeral_2_eq_2 target_pid_of_def pm_frame split: option.split)
  then show ?thesis
    using tell_parent_after[OF assms(1,3,4) pa, where st = Continued and f = ?f and n = 0 and g = "p_pgid tp" and k = False and ks = ?ks]
      tell_parent_result[OF assms(1,2)]
    by (simp add: is_term_def)
qed

theorem sigcont_continues_and_notifies_witness:
  "let s = upd_proc 3 (\<lambda>q. q\<lparr>p_status := Stopped 19\<rparr>) pm0;
       t = final (on_send_sig sig_fuel ext0 2 (TProc 3) (of_nat (SIGCONT ext0)) False Idempotent False s) in
    status_of s 3 = Some (Stopped 19) \<and> status_of t 3 = Some PossiblyRunnable \<and>
    recorded t 2 3 = Some Continued \<and> awoken t = [KernelId 7]"
proof -
  let ?s = "upd_proc 3 (\<lambda>q. q\<lparr>p_status := Stopped 19\<rparr>) pm0"
  have inv: "pm_inv ?s" by (rule pm_inv_upd_proc) (simp_all add: proc_ok_def exit_status_ok_def)
  show ?thesis
    using sigcont_continues_and_notifies[of ext0 ?s 3 "(proc0 3 2 3 2 1000)\<lparr>p_status := Stopped 19\<rparr>" 2
        "(proc0 2 1 2 2 1000)\<lparr>p_waitpid_waiting := [KernelId 7]\<rparr>"] inv
    by (simp add: Let_def pm_frame status_of_upd_proc may_signal_def waiters_def)
qed

text \<open>A process group without a member whose parent is outside the group and inside the session.\<close>

definition orphaned :: "proc_scheme \<Rightarrow> pid \<Rightarrow> bool" where
  "orphaned s g \<longleftrightarrow>
     (\<forall>q member parent. proc_of s q = Some member \<and> p_pgid member = g \<and> proc_of s (p_ppid member) = Some parent
        \<longrightarrow> p_pgid parent = g \<or> p_sid parent \<noteq> p_sid member)"

lemma pgrp_is_orphaned_correct:
  assumes "pm_inv s" and "proc_of s p = Some pr"
  shows "pgrp_is_orphaned s (p_pgid pr) = Some (orphaned s (p_pgid pr))"
proof -
  have gok: "groups_ok s" using assms(1) by (simp add: pm_inv_def)
  obtain ps where ps: "group_of s (p_pgid pr) = Some ps"
    using gok assms(2) unfolding groups_ok_def by blast
  have mem: "\<exists>qr. proc_of s q = Some qr \<and> p_pgid qr = p_pgid pr" if "q \<in> set ps" for q
    using gok ps that unfolding groups_ok_def by blast
  have mem': "q \<in> set ps" if q: "proc_of s q = Some qr" "p_pgid qr = p_pgid pr" for q qr
  proof -
    obtain ps' where "group_of s (p_pgid qr) = Some ps'" "q \<in> set ps'"
      using gok q unfolding groups_ok_def by blast
    with ps q show ?thesis by simp
  qed
  show ?thesis
    unfolding pgrp_is_orphaned_def ps orphaned_def list_all_iff option.map option.inject
    by (rule iffI; use mem mem' in \<open>fastforce split: option.splits\<close>)
qed

text \<open>
  C28. Orphaned process groups. A permitted terminal stop signal (SIGTSTP, SIGTTIN or SIGTTOU) whose
  disposition is to stop has no effect on a live process whose group is orphaned, and stops the
  process otherwise.
\<close>

theorem orphaned_group_not_stopped:
  assumes "signals_ok x" and "pm_inv s" and "unat sg = g" and "is_conditional_stop x g"
    and "proc_of s p = Some tp" and "proc_of s caller = Some cp" and "may_signal (p_euid cp) (p_ruid cp) tp"
    and "\<not> is_exiting (p_status tp)" and "p_sig_pctl tp = Some pctl" and "signal_will_stop x pctl g"
  shows "if orphaned s (p_pgid tp)
         then on_send_sig sig_fuel x caller (TProc p) sg killed mode soc s = (Inr (), killed, s)
         else status_of (final (on_send_sig sig_fuel x caller (TProc p) sg killed mode soc s)) p = Some (Stopped g)"
proof -
  have g: "g \<le> 32" "g \<noteq> SIGCONT x" "sg \<noteq> 0"
    using assms(1,3,4) by (auto simp: signals_ok_def is_conditional_stop_def)
  note un = on_send_sig_unfold[of sg s "TProc p" tp caller cp "Suc 0", unfolded target_pid_of_def kill_target.case,
      OF _ assms(5,6), of x killed mode soc]
  let ?f = "\<lambda>q. q\<lparr>p_status := Stopped g, p_threads := map (stop_thread x) (p_threads q),
      p_sig_pctl := Some (pctl\<lparr>pending := pending pctl AND NOT (sig_bit x (SIGCONT x))\<rparr>)\<rparr>"
  let ?ks = "map (\<lambda>th. StatusWrite (status_hndl th) VStop) (p_threads tp)"
  have cl: "send_sig_closure x (p_euid cp) (p_ruid cp) sender (TProc p) p tp sg is_self killed mode soc s =
      (if orphaned s (p_pgid tp) then (Inr Succeeded, killed, s)
       else (Inr (SucceededSigchld sg (p_ppid tp) (p_pgid tp)), killed, logk ?ks (upd_proc p ?f s)))"
    for sender is_self
    using assms g pgrp_is_orphaned_correct[OF assms(2,5)]
    by (simp add: send_sig_closure_def Let_def send_stop_def)
  show ?thesis
  proof (cases "orphaned s (p_pgid tp)")
    case True
    then show ?thesis using un g assms(3) by (simp add: cl sig_fuel_def numeral_2_eq_2)
  next
    case False
    have "status_of (logk ?ks (upd_proc p ?f s)) p = Some (Stopped g)"
      using assms(5) by (simp add: status_of_def pm_frame)
    moreover have "status_of (final (tell_parent (Suc 0) x (p_ppid tp) p (p_pgid tp) (WStopped sg) killed
        (logk ?ks (upd_proc p ?f s)))) p = Some (Stopped g)" if "proc_of s (p_ppid tp) = Some parent" for parent
      using tell_parent_after(1)[OF assms(1,2,5) that, where st = "WStopped sg" and f = ?f and n = 0 and g = "p_pgid tp" and k = killed and ks = ?ks]
      by (simp add: is_term_def)
    ultimately show ?thesis
      using un g assms(3) False
      by (cases "proc_of s (p_ppid tp)") (auto simp: cl sig_fuel_def numeral_2_eq_2 pm_frame)
  qed
qed

theorem orphaned_group_not_stopped_witness:
  "\<not> orphaned pm0 3 \<and> status_of (final (on_send_sig sig_fuel ext0 2 (TProc 3) 20 False Idempotent False pm0)) 3 = Some (Stopped 20)"
proof -
  have "\<not> orphaned pm0 3"
    unfolding orphaned_def not_all by (rule exI[of _ 3], rule exI[of _ "proc0 3 2 3 2 1000"]) simp
  then show ?thesis
    using orphaned_group_not_stopped[of ext0 pm0 20 20 3 "proc0 3 2 3 2 1000" 2
        "(proc0 2 1 2 2 1000)\<lparr>p_waitpid_waiting := [KernelId 7]\<rparr>" pctl0 False Idempotent False]
    by (simp add: may_signal_def is_exiting_def is_conditional_stop_def pctl0_def)
qed

text \<open>
  A process without a signal page cannot be killed. Although the comment at the end of the closure
  says that unset handlers leave SIGSTOP and SIGKILL effective, every signal, SIGKILL and SIGSTOP
  included, to a live process that has not registered its page fails with ESRCH and does nothing.
\<close>

theorem no_signal_page_no_kill:
  assumes "0 < sg" and "unat sg \<le> 64" and "proc_of s p = Some tp" and "proc_of s caller = Some cp"
    and "may_signal (p_euid cp) (p_ruid cp) tp" and "\<not> is_exiting (p_status tp)" and "p_sig_pctl tp = None"
  shows "on_kill x caller (KSingleProc p) sg mode s = (Inl (Errno ESRCH), s)"
proof -
  have "send_sig_closure x (p_euid cp) (p_ruid cp) sender (TProc p) p tp sg is_self False mode False s =
      (Inr Invalid, False, s)" for sender is_self
    using assms by (auto simp: send_sig_closure_def Let_def)
  then show ?thesis
    using on_send_sig_unfold[of sg s "TProc p" tp caller cp "Suc 0" x False mode False] assms
    by (simp add: on_kill_def target_pid_of_def sig_fuel_def numeral_2_eq_2)
qed

theorem no_signal_page_no_kill_witness:
  "let s = upd_proc 3 (\<lambda>q. q\<lparr>p_sig_pctl := None\<rparr>) pm0 in
   status_of s 3 = Some PossiblyRunnable \<and> on_kill ext0 1 (KSingleProc 3) 9 Idempotent s = (Inl (Errno ESRCH), s)"
  using no_signal_page_no_kill[of 9 "upd_proc 3 (\<lambda>q. q\<lparr>p_sig_pctl := None\<rparr>) pm0" 3
      "(proc0 3 2 3 2 1000)\<lparr>p_sig_pctl := None\<rparr>" 1 "proc0 1 1 1 1 0" ext0 Idempotent]
  by (simp add: Let_def pm_frame status_of_upd_proc may_signal_def is_exiting_def)

section \<open>Real-time signal queues\<close>

definition rtq :: "proc_scheme \<Rightarrow> pid \<Rightarrow> nat \<Rightarrow> bytes list" where
  "rtq s p i =
     (case proc_of s p of
        None \<Rightarrow> []
      | Some pr \<Rightarrow> if i < length (p_rtqs pr) then p_rtqs pr ! i else [])"

fun sigq_all :: "ext \<Rightarrow> pid \<Rightarrow> pid \<Rightarrow> u8 \<Rightarrow> bytes list \<Rightarrow> proc_scheme \<Rightarrow> proc_scheme" where
  "sigq_all x caller p sg [] s = s"
| "sigq_all x caller p sg (a # as) s =
     sigq_all x caller p sg as (snd (on_kill x caller (KSingleProc p) sg (Queued a) s))"

fun sigdeq_n :: "ext \<Rightarrow> pid \<Rightarrow> bytes \<Rightarrow> nat \<Rightarrow> proc_scheme \<Rightarrow> (fault + bytes) list" where
  "sigdeq_n x p payload 0 s = []"
| "sigdeq_n x p payload (Suc n) s =
     (let (r, t) = on_sigdeq x p payload s in r # sigdeq_n x p payload n t)"

text \<open>The process can receive queued signals from the caller; \<open>acts\<close> are its signal actions.\<close>

definition rt_ready :: "u64 list \<Rightarrow> pid \<Rightarrow> pid \<Rightarrow> proc_scheme \<Rightarrow> bool" where
  "rt_ready acts caller p s \<longleftrightarrow>
     (\<exists>tp cp. proc_of s p = Some tp \<and> proc_of s caller = Some cp \<and> may_signal (p_euid cp) (p_ruid cp) tp \<and>
        \<not> is_exiting (p_status tp) \<and> map_option pc_actions (p_sig_pctl tp) = Some acts)"

lemma rt_indices:
  assumes "33 \<le> sg" and "sg \<le> 64"
  shows "sig_group sg = 1" "sig_idx sg = sg - 33"
proof -
  obtain k where k: "sg = k + 33" "k < 32"
    using assms by (intro that[of "sg - 33"]) simp_all
  have e: "unat (of_nat sg - 1 :: u64) = k + 32"
  proof -
    have "(of_nat sg - 1 :: u64) = of_nat (k + 32)" by (simp add: k)
    moreover have "unat (of_nat (k + 32) :: u64) = k + 32"
      unfolding unat_of_nat using k(2) by (intro mod_less) simp
    ultimately show ?thesis by (rule ssubst[where P = "\<lambda>w. unat w = k + 32"])
  qed
  show "sig_group sg = 1" "sig_idx sg = sg - 33"
    unfolding sig_group_def sig_idx_def unat_div unat_mod e using k by simp_all
qed

lemma rtq_grow: "grow_rtqs i qs ! i = (if i < length qs then qs ! i else [])"
  by (simp add: grow_rtqs_def nth_append)

lemma notify_proc_rtq:
  assumes "\<forall>h v. write_status x h v = None"
  shows "fst (notify_proc x p tp pctl sig is_self killed s) = Inr Succeeded \<and>
         rtq (final (notify_proc x p tp pctl sig is_self killed s)) p i = rtq s p i \<and>
         (proc_of s p \<noteq> None \<longrightarrow> (\<exists>pr. proc_of (final (notify_proc x p tp pctl sig is_self killed s)) p = Some pr
            \<and> map_option pc_actions (p_sig_pctl pr) = Some (pc_actions pctl)))"
  using assms
  by (cases "proc_of s p") (auto simp: notify_proc_def Let_def rtq_def pm_frame split: option.split)

lemma sig_proc_relD:
  assumes "sig_proc_rel a b"
  shows "p_euid b = p_euid a" "p_ruid b = p_ruid a" "is_exiting (p_status b) = is_exiting (p_status a)"
  using assms unfolding sig_proc_rel_def exit_kept_def by (simp, simp, metis)

lemma sigq_step:
  fixes a :: bytes
  assumes w: "\<forall>h v. write_status x h v = None" and x: "signals_ok x"
    and sg: "33 \<le> unat sg" "unat sg \<le> 64" and ign: "\<forall>pc. pc_actions pc = acts \<longrightarrow> \<not> signal_will_ign x pc (unat sg) False"
    and "rt_ready acts caller p s" and room: "length (rtq s p (unat sg - 33)) < 32"
  defines "t \<equiv> snd (on_kill x caller (KSingleProc p) sg (Queued a) s)"
  shows "rt_ready acts caller p t \<and> rtq t p (unat sg - 33) = rtq s p (unat sg - 33) @ [a]"
proof -
  obtain tp cp pctl where tp: "proc_of s p = Some tp" and cp: "proc_of s caller = Some cp"
      and perm: "may_signal (p_euid cp) (p_ruid cp) tp" "\<not> is_exiting (p_status tp)" "p_sig_pctl tp = Some pctl"
        "pc_actions pctl = acts"
    using assms(6) by (auto simp: rt_ready_def)
  let ?i = "unat sg - 33"
  let ?qs = "grow_rtqs ?i (p_rtqs tp)"
  let ?u = "upd_proc p (\<lambda>q. q\<lparr>p_rtqs := ?qs[?i := ?qs ! ?i @ [a]]\<rparr>) s"
  have idx: "sig_group (unat sg) = 1" "sig_idx (unat sg) = ?i" using rt_indices[OF sg] .
  have g: "unat sg \<noteq> SIGCONT x" "unat sg \<noteq> SIGSTOP x" "\<not> is_conditional_stop x (unat sg)" "unat sg \<noteq> SIGKILL x" "sg \<noteq> 0"
    using x sg by (auto simp: signals_ok_def is_conditional_stop_def)
  have room': "length (?qs ! ?i) < 32" using room tp by (simp add: rtq_def rtq_grow split: if_splits)
  have cl: "send_sig_closure x (p_euid cp) (p_ruid cp) sender (TProc p) p tp sg is_self False (Queued a) False s =
      notify_proc x p tp pctl (unat sg) is_self False ?u" for sender is_self
    using g perm ign room' idx by (simp add: send_sig_closure_def deliver_proc_def Let_def)
  let ?n = "notify_proc x p tp pctl (unat sg) (p = caller) False ?u"
  have n: "fst ?n = Inr Succeeded" "rtq (final ?n) p ?i = rtq ?u p ?i"
      "\<exists>pr. proc_of (final ?n) p = Some pr \<and> map_option pc_actions (p_sig_pctl pr) = Some acts"
    using notify_proc_rtq[OF w, of p tp pctl "unat sg" "p = caller" False ?u] tp perm by (auto simp: pm_frame)
  have t: "t = final ?n"
    using on_send_sig_unfold[of sg s "TProc p" tp caller cp "Suc 0" x False "Queued a" False] tp cp sg n(1)
    by (cases ?n) (auto simp: t_def on_kill_def target_pid_of_def sig_fuel_def numeral_2_eq_2 cl)
  have fr: "sig_frame s t" by (simp add: t_def on_kill_frame)
  have "rtq ?u p ?i = rtq s p ?i @ [a]"
    using tp length_grow_rtqs[of "unat sg" "p_rtqs tp"] by (simp add: rtq_def pm_frame rtq_grow idx)
  moreover have "rt_ready acts caller p t"
  proof -
    obtain tp' where "proc_of t p = Some tp'" "sig_proc_rel tp tp'" by (rule sig_frame_proc_fwd[OF fr tp])
    moreover obtain cp' where "proc_of t caller = Some cp'" "sig_proc_rel cp cp'" by (rule sig_frame_proc_fwd[OF fr cp])
    ultimately show ?thesis
      using perm n(3) t unfolding rt_ready_def may_signal_def
      by (intro exI[of _ tp'] exI[of _ cp']) (auto simp: sig_proc_relD)
  qed
  ultimately show ?thesis using n(2) t by simp
qed

lemma sigq_all_rtq:
  assumes "\<forall>h v. write_status x h v = None" and "signals_ok x" and "33 \<le> unat sg" "unat sg \<le> 64"
    and "\<forall>pc. pc_actions pc = acts \<longrightarrow> \<not> signal_will_ign x pc (unat sg) False"
    and "rt_ready acts caller p s" and "length (rtq s p (unat sg - 33)) + length as \<le> 32"
  shows "rt_ready acts caller p (sigq_all x caller p sg as s) \<and>
         rtq (sigq_all x caller p sg as s) p (unat sg - 33) = rtq s p (unat sg - 33) @ as"
  using assms(6,7)
proof (induction as arbitrary: s)
  case (Cons a as)
  then show ?case
    using sigq_step[OF assms(1-5) Cons.prems(1), of a] by simp
qed simp

lemma sigdeq_step:
  assumes "length payload \<ge> 4" "length payload \<ge> rt_sig_info_size x" "u32_of_le payload < 32"
    and tp: "proc_of s p = Some tp" and pc: "p_sig_pctl tp \<noteq> None"
  shows "rtq s p (u32_of_le payload) = [] \<Longrightarrow> on_sigdeq x p payload s = (Inl (Errno EAGAIN), s)"
    and "rtq s p (u32_of_le payload) = a # as \<Longrightarrow> fst (on_sigdeq x p payload s) = Inr a \<and>
           rtq (snd (on_sigdeq x p payload s)) p (u32_of_le payload) = as \<and>
           (\<exists>tp'. proc_of (snd (on_sigdeq x p payload s)) p = Some tp' \<and> p_sig_pctl tp' \<noteq> None)"
  using assms by (auto simp: on_sigdeq_def Let_def rtq_def pm_frame split: if_splits list.split)

lemma sigdeq_n_rtq:
  assumes "length payload \<ge> 4" "length payload \<ge> rt_sig_info_size x" "u32_of_le payload < 32"
    and "\<exists>tp. proc_of s p = Some tp \<and> p_sig_pctl tp \<noteq> None" and "rtq s p (u32_of_le payload) = as"
  shows "sigdeq_n x p payload (Suc (length as)) s = map Inr as @ [Inl (Errno EAGAIN)]"
  using assms(4,5)
proof (induction as arbitrary: s)
  case Nil
  then obtain tp where "proc_of s p = Some tp" "p_sig_pctl tp \<noteq> None" by blast
  from sigdeq_step(1)[OF assms(1-3) this Nil(2)] show ?case by simp
next
  case (Cons a as)
  then obtain tp where "proc_of s p = Some tp" "p_sig_pctl tp \<noteq> None" by blast
  note st = sigdeq_step(2)[OF assms(1-3) this Cons.prems(2)]
  with Cons.IH[of "snd (on_sigdeq x p payload s)"]
  have "sigdeq_n x p payload (Suc (length as)) (snd (on_sigdeq x p payload s)) = map Inr as @ [Inl (Errno EAGAIN)]"
    by blast
  with st show ?case
    by (subst sigdeq_n.simps(2)) (simp add: case_prod_beta Let_def del: sigdeq_n.simps)
qed

text \<open>
  C29. Queued real-time signals arrive once each and in order. Up to 32 values queued with \<open>Sigq\<close> for one
  real-time signal of a process whose queue is empty come back from \<open>Sigdeq\<close> in the order they were
  sent, and the dequeue after the last one reports EAGAIN.
\<close>

theorem sigq_sigdeq_fifo:
  assumes "\<forall>h v. write_status x h v = None" and "signals_ok x" and "33 \<le> unat sg" and "unat sg \<le> 64"
    and "\<forall>pc. pc_actions pc = acts \<longrightarrow> \<not> signal_will_ign x pc (unat sg) False" and "rt_ready acts caller p s"
    and "rtq s p (unat sg - 33) = []" and "length as \<le> 32"
    and "length payload \<ge> 4" and "length payload \<ge> rt_sig_info_size x" and "u32_of_le payload = unat sg - 33"
  shows "sigdeq_n x p payload (Suc (length as)) (sigq_all x caller p sg as s) =
         map Inr as @ [Inl (Errno EAGAIN)]"
proof -
  let ?t = "sigq_all x caller p sg as s"
  have t: "rt_ready acts caller p ?t" "rtq ?t p (unat sg - 33) = as"
    using sigq_all_rtq[OF assms(1-6), of as] assms(7,8) by simp_all
  from t(1) have "\<exists>tp. proc_of ?t p = Some tp \<and> p_sig_pctl tp \<noteq> None" by (auto simp: rt_ready_def)
  with t(2) assms show ?thesis by (intro sigdeq_n_rtq) simp_all
qed

theorem sigq_sigdeq_fifo_witness:
  "sigdeq_n ext0 3 [1, 0, 0, 0] (Suc (Suc (Suc 0))) (sigq_all ext0 2 3 34 [[7, 7, 7, 7], [8, 8, 8, 8]] pm0) =
     [Inr [7, 7, 7, 7], Inr [8, 8, 8, 8], Inl (Errno EAGAIN)]"
proof -
  have "rt_ready (replicate 32 0) 2 3 pm0"
    by (simp add: rt_ready_def may_signal_def is_exiting_def pctl0_def)
  then show ?thesis
    using sigq_sigdeq_fifo[of ext0 34 "replicate 32 0" 2 3 pm0 "[[7, 7, 7, 7], [8, 8, 8, 8]]" "[1, 0, 0, 0]"]
    by (simp add: rtq_def u32_of_le_def del: sigdeq_n.simps sigq_all.simps)
qed

end
