(* ===== verification/Procmgr_Run.thy ===== *)
theory Procmgr_Run
  imports Procmgr_Scheme Procmgr_Signal_Props
begin

text \<open>
  The process manager as a transition system: the invariant of its state over all requests, thread
  events and writes of user processes to their signal pages; the life cycle of a process; and the
  truth of the exit statuses it reports.
\<close>

section \<open>Definitions\<close>

text \<open>
  The steps of the manager: a request, the death of a thread, the work on the next woken request, and
  a process that changes its own signal pages, which the manager shares.
\<close>

datatype pm_event =
    EvRequest ext request
  | EvThread ext nat
  | EvWork ext
  | EvProcPage pid sig_proc_control
  | EvThreadPage pid tid sigcontrol

definition pm_step :: "proc_scheme \<Rightarrow> pm_event \<Rightarrow> proc_scheme" where
  "pm_step s e =
     (case e of
        EvRequest x req \<Rightarrow> snd (handle_scheme x req s)
      | EvThread x data \<Rightarrow> snd (thread_event x data s)
      | EvWork x \<Rightarrow>
          (case awoken s of [] \<Rightarrow> s | v # vs \<Rightarrow> snd (work_on x v (s\<lparr>awoken := vs\<rparr>)))
      | EvProcPage p c \<Rightarrow> upd_proc p (\<lambda>q. q\<lparr>p_sig_pctl := map_option (\<lambda>_. c) (p_sig_pctl q)\<rparr>) s
      | EvThreadPage p t c \<Rightarrow>
          upd_proc p (set_thread t (\<lambda>h. h\<lparr>sig_ctrl := map_option (\<lambda>_. c) (sig_ctrl h)\<rparr>)) s)"

text \<open>The state the event loop starts in: the table is empty and the root handle exists.\<close>

definition pm_boot :: "ext \<Rightarrow> proc_scheme" where
  "pm_boot x = snd (insert_handle x HSchemeRoot pm_init)"

text \<open>
  Every termination on record is true: the process is gone, or it is in the table as exited with
  exactly this status.
\<close>

definition wm_true :: "proc_scheme \<Rightarrow> bool" where
  "wm_true s \<longleftrightarrow>
     (\<forall>q p g c. recorded s q p = Some (Terminated g c) \<longrightarrow>
        p < next_id s \<and> (\<forall>pr. proc_of s p = Some pr \<longrightarrow> p_status pr = Exited g c))"

definition exited_kept :: "process_status \<Rightarrow> process_status \<Rightarrow> bool" where
  "exited_kept a b \<longleftrightarrow>
     (case a of Exited _ _ \<Rightarrow> b = a | Exiting g c \<Rightarrow> b = a \<or> b = Exited g c | _ \<Rightarrow> True)"

text \<open>Process identifiers are not reused and no process comes back from the dead.\<close>

definition lives :: "proc_scheme \<Rightarrow> proc_scheme \<Rightarrow> bool" where
  "lives s t \<longleftrightarrow>
     next_id s \<le> next_id t \<and>
     (\<forall>p pr. p < next_id s \<longrightarrow> proc_of t p = Some pr \<longrightarrow>
        (\<exists>pr0. proc_of s p = Some pr0 \<and> exited_kept (p_status pr0) (p_status pr)))"

text \<open>No wait map reports a termination that was not already on record.\<close>

definition no_news :: "proc_scheme \<Rightarrow> proc_scheme \<Rightarrow> bool" where
  "no_news s t \<longleftrightarrow>
     (\<forall>q p g c. recorded t q p = Some (Terminated g c) \<longrightarrow> (\<exists>q'. recorded s q' p = Some (Terminated g c)))"

section \<open>Invariant\<close>

lemma hvals_update: "hvals (AList.update k h hs) \<subseteq> insert h (hvals hs)"
  unfolding hvals_def by (induction hs) auto

lemma hvals_delete: "hvals (AList.delete k hs) \<subseteq> hvals hs"
  by (auto simp: hvals_def AList.delete_eq)

lemma init_handles_zero: "init_handles hs = 0 \<longleftrightarrow> HInit \<notin> hvals hs"
  by (force simp: init_handles_def hvals_def filter_empty_conv)

lemma init_handles_update: "h \<noteq> HInit \<Longrightarrow> init_handles (AList.update k h hs) \<le> init_handles hs"
  unfolding init_handles_def by (induction hs) auto

lemma init_handles_delete: "init_handles (AList.delete k hs) \<le> init_handles hs"
  unfolding init_handles_def by (induction hs) auto

lemma init_handles_new: "init_handles hs = 0 \<Longrightarrow> init_handles (AList.update k h hs) \<le> 1"
  unfolding init_handles_def by (induction hs) (auto split: if_splits)

lemma init_handles_replace:
  "distinct (map fst hs) \<Longrightarrow> map_of hs k = Some HInit \<Longrightarrow> h \<noteq> HInit
   \<Longrightarrow> Suc (init_handles (AList.update k h hs)) = init_handles hs"
  unfolding init_handles_def by (induction hs) (auto split: if_splits)

lemma pm_inv_handles:
  "procs_ok (s\<lparr>handles := hs\<rparr>) = procs_ok s" "groups_ok (s\<lparr>handles := hs\<rparr>) = groups_ok s"
  "procs_ok (s\<lparr>init_claimed := b\<rparr>) = procs_ok s" "groups_ok (s\<lparr>init_claimed := b\<rparr>) = groups_ok s"
  by (simp_all add: procs_ok_def groups_ok_def)

lemma insert_handle_inv:
  assumes "pm_inv s" and "h \<noteq> HInit" and "is_proc_handle h \<Longrightarrow> processes s \<noteq> []"
  shows "pm_inv (snd (insert_handle x h s))"
proof -
  let ?hs = "AList.update (slab_vacant x (handles s)) h (handles s)"
  have b: "boot_ok s" using assms(1) by (simp add: pm_inv_def)
  have "init_handles ?hs \<le> 1"
    using init_handles_update[OF assms(2)] b unfolding boot_ok_def by (meson le_trans)
  then have "boot_ok (s\<lparr>handles := ?hs\<rparr>)"
    using b assms(2,3) hvals_update[of "slab_vacant x (handles s)" h "handles s"]
    by (auto simp: boot_ok_def)
  with assms(1) show ?thesis by (simp add: insert_handle_def Let_def pm_inv_def pm_inv_handles)
qed

lemma claim_init_inv:
  assumes "pm_inv s" and "\<not> init_claimed s"
  shows "pm_inv (snd (insert_handle x HInit (s\<lparr>init_claimed := True\<rparr>)))"
proof -
  let ?hs = "AList.update (slab_vacant x (handles s)) HInit (handles s)"
  have b: "boot_ok s" using assms(1) by (simp add: pm_inv_def)
  then have "init_handles ?hs \<le> 1"
    using assms(2) by (intro init_handles_new) (simp add: boot_ok_def init_handles_zero)
  then have "boot_ok (s\<lparr>init_claimed := True, handles := ?hs\<rparr>)"
    using b assms(2) hvals_update[of "slab_vacant x (handles s)" HInit "handles s"]
    by (auto simp: boot_ok_def is_proc_handle_def)
  with assms(1) show ?thesis by (simp add: insert_handle_def Let_def pm_inv_def pm_inv_handles)
qed

lemma on_close_inv [pm_inv_ops]:
  assumes "pm_inv s"
  shows "pm_inv (on_close i s)"
proof -
  have "init_handles (AList.delete i (handles s)) \<le> 1"
    using assms init_handles_delete unfolding pm_inv_def boot_ok_def by (meson le_trans)
  then have "boot_ok (on_close i s)"
    using assms hvals_delete[of i "handles s"] by (auto simp: pm_inv_def boot_ok_def on_close_def)
  with assms show ?thesis by (simp add: pm_inv_def on_close_def pm_inv_handles)
qed

lemma on_sendfd_inv [pm_inv_ops]:
  assumes inv: "pm_inv s"
  shows "pm_inv (snd (on_sendfd x i s))"
proof (cases "map_of (handles s) i = Some HInit")
  case True
  have b: "boot_ok s" using inv by (simp add: pm_inv_def)
  have hi: "HInit \<in> hvals (handles s)" using map_of_SomeD[OF True] by (force simp: hvals_def)
  then have empty: "processes s = []" "groups s = []" and cl: "init_claimed s" using b by (auto simp: boot_ok_def)
  have n: "INIT_PID < next_id s" using inv by (simp add: pm_inv_def procs_ok_def)
  have hs: "HInit \<notin> hvals (AList.update i (HProc INIT_PID) (handles s))"
    using init_handles_replace[OF _ True, of "HProc INIT_PID"] b
    by (simp add: boot_ok_def flip: init_handles_zero)
  define th where "th fd h = \<lparr>t_tid = next_tid s, t_fd = fd, status_hndl = h, t_pid = INIT_PID, sig_ctrl = None\<rparr>" for fd h
  have ok: "proc_ok INIT_PID (init_process (th fd h))" for fd h
    by (simp add: proc_ok_def init_process_def th_def exit_status_ok_def init_name_def NAME_CAPAC_def)
  have "pm_inv (s\<lparr>groups := [(INIT_PID, [INIT_PID])], processes := [(INIT_PID, init_process (th fd h))],
      handles := AList.update i (HProc INIT_PID) (handles s)\<rparr>)" for fd h
    using ok[of fd h] n b hs cl
    by (auto simp: pm_inv_def procs_ok_def groups_ok_def boot_ok_def proc_of_def group_of_def glist_ok_def
        init_process_def init_handles_zero[THEN iffD2] split: if_splits)
  then have "pm_inv (t\<lparr>groups := [(INIT_PID, [INIT_PID])], processes := [(INIT_PID, init_process (th fd h))],
      sessions := ss, thread_lookup := tl, handles := AList.update i (HProc INIT_PID) (handles s)\<rparr>)"
    if "next_id t = next_id s" "init_claimed t = init_claimed s" for t ss tl fd h
    by (rule pm_inv_cong[THEN iffD1, rotated -1]) (simp_all add: that)
  with inv empty show ?thesis
    unfolding on_sendfd_def True th_def by (simp add: Let_def pm_frame split: sum.split)
qed (use inv in \<open>simp add: on_sendfd_def split: option.split handle.split\<close>)

lemma out_states [simp]:
  "snd (answer tag r) = snd r" "snd (map_out f u) = snd u" "snd (as_reply g v) = snd v" "snd (with_data tag b) = snd b"
  by (simp_all add: answer_def map_out_def as_reply_def with_data_def split: prod.split sum.split fault.split)

lemma is_proc_handle_simps [simp]:
  "is_proc_handle (HProc p)" "\<not> is_proc_handle HInit" "\<not> is_proc_handle (HThread t)" "\<not> is_proc_handle (HPs b)"
  "\<not> is_proc_handle HProcCredsCapability" "\<not> is_proc_handle HSchemeRoot"
  by (simp_all add: is_proc_handle_def)

lemma insert_other_handle_inv:
  "pm_inv s \<Longrightarrow> h \<noteq> HInit \<Longrightarrow> \<not> is_proc_handle h \<Longrightarrow> pm_inv (snd (insert_handle x h s))"
  by (rule insert_handle_inv) simp_all

lemma on_openat_inv: "pm_inv s \<Longrightarrow> pm_inv (snd (on_openat x fd path flags uid s))"
  by (simp add: on_openat_def Let_def case_prod_beta claim_init_inv insert_other_handle_inv
      split: option.split handle.split)

lemma fork_nonempty: "fork x p s = (Inr c, t) \<Longrightarrow> processes t \<noteq> []"
  by (auto simp: fork_def new_id_def Let_def AList.update_nonempty split: option.splits sum.splits if_splits)

lemma on_dup_inv: "pm_inv s \<Longrightarrow> pm_inv (snd (on_dup x i buf s))"
  unfolding on_dup_def
  by (auto simp: case_prod_beta Let_def is_proc_handle_def intro!: pm_inv_bind insert_handle_inv fork_inv new_thread_inv
      dest: fork_nonempty split: option.split handle.split sum.split)

lemma on_read_state: "snd (on_read x i off len al s) = s"
  by (auto simp: on_read_def Let_def split: option.split handle.split sum.split)

lemma call_waitpid_inv: "pm_inv s \<Longrightarrow> pm_inv (snd (call_waitpid x rid tag p verb a s))"
  by (simp add: call_waitpid_def work_on_inv split: option.split)

lemma call_kill_inv: "pm_inv s \<Longrightarrow> pm_inv (snd (call_kill x tag p verb a s))"
  by (simp add: call_kill_def Let_def signal_inv)

lemma call_proc_inv: "pm_inv s \<Longrightarrow> pm_inv (snd (call_proc x rid tag p verb a s))"
  by (cases verb)
    (simp_all add: call_proc_def Let_def pm_inv_ops call_waitpid_inv call_kill_inv)

lemma call_creds_state: "snd (call_creds x tag a s) = s"
  by (auto simp: call_creds_def split: option.split proc_call.split sum.split)

lemma on_call_inv: "pm_inv s \<Longrightarrow> pm_inv (snd (on_call x rid tag i a s))"
  by (simp add: on_call_def call_proc_inv call_creds_state signal_inv
      split: option.split handle.split thread_call.split)

lemma cancel_inv: "pm_inv s \<Longrightarrow> pm_inv (snd (cancel rid s))"
  by (simp add: cancel_def Let_def split: option.split pending_state.split)

lemma handle_scheme_inv: "pm_inv s \<Longrightarrow> pm_inv (snd (handle_scheme x req s))"
  using cancel_inv[of s]
  by (cases req)
    (auto simp: handle_scheme_def Let_def case_prod_beta on_openat_inv on_dup_inv on_read_state on_call_inv
      on_sendfd_inv on_close_inv split: option.split handle.split)

lemma thread_event_inv:
  assumes inv: "pm_inv s"
  shows "pm_inv (snd (thread_event x data s))"
proof -
  have "pm_inv (upd_proc p (\<lambda>q. q\<lparr>p_threads := ths\<rparr>) (logk ks (s\<lparr>thread_lookup := tl\<rparr>)))"
    if "proc_of s p = Some proc" "set ths \<subseteq> set (p_threads proc)" for p proc ths ks tl
    by (rule pm_inv_upd_proc) (use inv that in \<open>auto simp: proc_ok_def\<close>)
  moreover have "pm_inv (upd_proc p (\<lambda>q. q\<lparr>p_awaiting_threads_term := []\<rparr>) (t\<lparr>awoken := a\<rparr>))"
    if "pm_inv t" for p t a
    by (rule pm_inv_upd_proc) (use that in \<open>simp_all add: proc_ok_def\<close>)
  ultimately show ?thesis
    using inv unfolding thread_event_def Let_def
    by (intro pm_inv_branch pm_inv_status_branch) (simp_all add: on_exit_start_inv)
qed

lemma pm_step_inv: "pm_inv s \<Longrightarrow> pm_inv (pm_step s e)"
proof (cases e)
  case (EvProcPage p c)
  assume "pm_inv s"
  then show ?thesis unfolding EvProcPage pm_step_def pm_event.case
    by (rule pm_inv_upd_proc) (simp_all add: proc_ok_def)
next
  case (EvThreadPage p t c)
  assume "pm_inv s"
  then show ?thesis unfolding EvThreadPage pm_step_def pm_event.case
    by (rule pm_inv_upd_proc) (auto simp: proc_ok_def set_thread_def)
qed (simp_all add: pm_step_def handle_scheme_inv thread_event_inv work_on_inv split: list.split)

lemma pm_boot_inv: "pm_inv (pm_boot x)"
proof -
  have "pm_inv pm_init"
    by (simp add: pm_init_def pm_inv_def procs_ok_def groups_ok_def boot_ok_def proc_of_def group_of_def
        INIT_PID_def hvals_def init_handles_def)
  then show ?thesis unfolding pm_boot_def by (rule insert_handle_inv) (simp_all add: is_proc_handle_def)
qed

interpretation pmd: daemon_invariant "pm_boot x" pm_step "\<lambda>_ _. True" pm_inv for x
  by unfold_locales (simp_all add: pm_boot_inv pm_step_inv)

section \<open>The life of a process and the truth of exit statuses\<close>

definition evolves :: "proc_scheme \<Rightarrow> proc_scheme \<Rightarrow> bool" where
  "evolves s t \<longleftrightarrow> lives s t \<and> no_news s t"

named_theorems evolve_ops \<open>operations after which processes have only evolved\<close>

lemma exited_kept_refl [simp]: "exited_kept a a"
  by (simp add: exited_kept_def split: process_status.split)

lemma exited_kept_trans: "exited_kept a b \<Longrightarrow> exited_kept b c \<Longrightarrow> exited_kept a c"
  by (cases a) (auto simp: exited_kept_def)

lemma evolves_refl [simp]: "evolves s s"
  by (auto simp: evolves_def lives_def no_news_def)

lemma lives_trans:
  assumes "lives s t" and "lives t u"
  shows "lives s u"
  unfolding lives_def
proof (intro conjI allI impI)
  fix p pr
  assume p: "p < next_id s" "proc_of u p = Some pr"
  with assms obtain pr1 where "proc_of t p = Some pr1" "exited_kept (p_status pr1) (p_status pr)"
    unfolding lives_def by (meson less_le_trans)
  moreover from this p assms(1) obtain pr0 where "proc_of s p = Some pr0" "exited_kept (p_status pr0) (p_status pr1)"
    unfolding lives_def by blast
  ultimately show "\<exists>pr0. proc_of s p = Some pr0 \<and> exited_kept (p_status pr0) (p_status pr)"
    using exited_kept_trans by blast
qed (use assms in \<open>simp add: lives_def\<close>)

lemma evolves_trans: "evolves s t \<Longrightarrow> evolves t u \<Longrightarrow> evolves s u"
  by (auto simp: evolves_def no_news_def intro: lives_trans) blast

lemma recorded_proc: "recorded s q p = Some st \<Longrightarrow> \<exists>pr. proc_of s q = Some pr \<and> wm_status (p_waitpid pr) p = Some st"
  by (simp add: recorded_def split: option.splits)

lemma recordedI:
  "proc_of s q = Some pr \<Longrightarrow> wm_status (p_waitpid pr) p = Some st \<Longrightarrow> \<exists>q'. recorded s q' p = Some st"
  by (auto simp: recorded_def intro!: exI[of _ q])

lemma exit_kept_exited: "exit_kept a b \<Longrightarrow> exited_kept a b"
  by (cases a) (auto simp: exit_kept_def exited_kept_def is_exiting_def)

lemma evolvesI:
  assumes "next_id s \<le> next_id t"
    and "\<And>p pr. p < next_id s \<Longrightarrow> proc_of t p = Some pr \<Longrightarrow>
           \<exists>pr0. proc_of s p = Some pr0 \<and> exited_kept (p_status pr0) (p_status pr)"
    and "\<And>q pr p g c. proc_of t q = Some pr \<Longrightarrow> wm_status (p_waitpid pr) p = Some (Terminated g c) \<Longrightarrow>
           \<exists>q'. recorded s q' p = Some (Terminated g c)"
  shows "evolves s t"
  unfolding evolves_def lives_def no_news_def
proof (intro conjI allI impI)
  fix q p g c
  assume "recorded t q p = Some (Terminated g c)"
  then obtain pr where "proc_of t q = Some pr" "wm_status (p_waitpid pr) p = Some (Terminated g c)"
    by (blast dest: recorded_proc)
  then show "\<exists>q'. recorded s q' p = Some (Terminated g c)" by (rule assms(3))
qed (use assms in auto)

lemma evolves_upd_proc:
  assumes "\<And>pr. proc_of s p = Some pr \<Longrightarrow>
      exited_kept (p_status pr) (p_status (f pr)) \<and> no_new_term (p_waitpid pr) (p_waitpid (f pr))"
  shows "evolves s (upd_proc p f s)"
proof (rule evolvesI)
  fix q pr r g c
  assume q: "proc_of (upd_proc p f s) q = Some pr" "wm_status (p_waitpid pr) r = Some (Terminated g c)"
  then obtain pr0 where "proc_of s q = Some pr0" "wm_status (p_waitpid pr0) r = Some (Terminated g c)"
    using assms by (auto simp: pm_frame no_new_term_def split: if_splits)
  then show "\<exists>q'. recorded s q' r = Some (Terminated g c)" by (rule recordedI)
qed (use assms in \<open>auto simp: pm_frame split: if_splits\<close>)

lemma evolves_frame:
  assumes "proc_of t = proc_of s" and "next_id s \<le> next_id t"
  shows "evolves s t"
  by (rule evolvesI) (use assms in \<open>auto intro: recordedI\<close>)

lemma evolves_sig_frame:
  assumes "pm_inv s" and "sig_frame s t"
  shows "evolves s t"
proof (rule evolvesI)
  show "next_id s \<le> next_id t" using assms(2) by (simp add: sig_frame_def)
next
  fix p pr
  assume pr: "proc_of t p = Some pr"
  obtain a where "proc_of s p = Some a" "sig_proc_rel a pr" by (rule sig_frame_proc[OF assms(2) pr])
  then show "\<exists>pr0. proc_of s p = Some pr0 \<and> exited_kept (p_status pr0) (p_status pr)"
    by (simp add: sig_proc_rel_def exit_kept_exited)
next
  fix q pr p g c
  assume pr: "proc_of t q = Some pr" and t: "wm_status (p_waitpid pr) p = Some (Terminated g c)"
  obtain a where a: "proc_of s q = Some a" "sig_proc_rel a pr" by (rule sig_frame_proc[OF assms(2) pr])
  have "no_new_term (p_waitpid a) (p_waitpid pr)"
    using a(2) pm_invD(4)[OF assms(1) a(1)] by (simp add: sig_proc_rel_def)
  with t have "wm_status (p_waitpid a) p = Some (Terminated g c)" by (simp add: no_new_term_def)
  with a(1) show "\<exists>q'. recorded s q' p = Some (Terminated g c)" by (rule recordedI)
qed

lemma evolves_bind:
  assumes "evolves s (snd r)" and "\<And>u t. r = (Inr u, t) \<Longrightarrow> evolves t (snd (k u t))"
  shows "evolves s (snd (bind_out r k))"
  using assms by (cases r) (auto simp: bind_out_def intro: evolves_trans split: sum.split)

lemma wm_true_evolves:
  assumes w: "wm_true s" and e: "evolves s t"
  shows "wm_true t"
  unfolding wm_true_def
proof (intro allI impI)
  fix q p g c
  assume "recorded t q p = Some (Terminated g c)"
  then obtain q' where r: "recorded s q' p = Some (Terminated g c)"
    using e unfolding evolves_def no_news_def by blast
  then have p: "p < next_id s" "\<forall>pr. proc_of s p = Some pr \<longrightarrow> p_status pr = Exited g c"
    using w unfolding wm_true_def by blast+
  have "p_status pr = Exited g c" if pr: "proc_of t p = Some pr" for pr
  proof -
    obtain pr0 where "proc_of s p = Some pr0" "exited_kept (p_status pr0) (p_status pr)"
      using e p(1) pr unfolding evolves_def lives_def by blast
    with p(2) show ?thesis by (simp add: exited_kept_def)
  qed
  with p(1) e show "p < next_id t \<and> (\<forall>pr. proc_of t p = Some pr \<longrightarrow> p_status pr = Exited g c)"
    by (auto simp: evolves_def lives_def)
qed

lemma evolves_fields [simp]:
  "evolves s (t\<lparr>groups := gs\<rparr>) = evolves s t" "evolves s (t\<lparr>sessions := ss\<rparr>) = evolves s t"
  "evolves s (t\<lparr>handles := hs\<rparr>) = evolves s t" "evolves s (t\<lparr>thread_lookup := tlk\<rparr>) = evolves s t"
  "evolves s (t\<lparr>next_internal_id := n\<rparr>) = evolves s t" "evolves s (t\<lparr>init_claimed := b\<rparr>) = evolves s t"
  "evolves s (t\<lparr>next_tid := m\<rparr>) = evolves s t" "evolves s (t\<lparr>states := st\<rparr>) = evolves s t"
  "evolves s (t\<lparr>awoken := a\<rparr>) = evolves s t" "evolves s (logk ks t) = evolves s t"
  "evolves s (set_state v p t) = evolves s t" "evolves s (remove_state v t) = evolves s t"
  by (simp_all add: evolves_def lives_def no_news_def recorded_def pm_frame set_state_def remove_state_def)

lemma evolves_start [simp]:
  "evolves (s\<lparr>awoken := a\<rparr>) t = evolves s t" "evolves (s\<lparr>states := st\<rparr>) t = evolves s t"
  "evolves (set_state v p s) t = evolves s t" "evolves (remove_state v s) t = evolves s t"
  by (simp_all add: evolves_def lives_def no_news_def recorded_def set_state_def remove_state_def)

lemma evolves_upd_after:
  assumes "evolves s t"
    and "\<And>pr. proc_of t p = Some pr \<Longrightarrow>
      exited_kept (p_status pr) (p_status (f pr)) \<and> no_new_term (p_waitpid pr) (p_waitpid (f pr))"
  shows "evolves s (upd_proc p f t)"
  using assms(1) by (rule evolves_trans) (rule evolves_upd_proc, rule assms(2))

lemma evolves_wake [evolve_ops]: "evolves s t \<Longrightarrow> evolves s (wake_waiters q t)"
  by (auto simp: wake_waiters_def intro!: evolves_upd_after split: option.split)

lemma set_pgid_evolves: "evolves s (snd (set_pgid p pr parent g s))"
  by (auto simp: set_pgid_def Let_def wake_parent_def intro!: evolves_upd_after evolve_ops split: option.split)

lemma on_setsid_evolves [evolve_ops]: "evolves s (snd (on_setsid c s))"
proof -
  have "evolves s t" if "set_pgid p pr parent g s = (r, t)" for p pr parent g r t
    using set_pgid_evolves[of s p pr parent g] that by simp
  then show ?thesis
    by (auto simp: on_setsid_def Let_def intro!: evolves_upd_after split: option.split prod.split sum.split)
qed

lemma evolves_upd_simple:
  assumes "\<And>pr. p_status (f pr) = p_status pr" and "\<And>pr. p_waitpid (f pr) = p_waitpid pr" and "evolves s t"
  shows "evolves s (upd_proc p f t)"
  using assms(3) by (rule evolves_upd_after) (simp add: assms)

lemma sync_logged_evolves: "evolves s t \<Longrightarrow> evolves s (sync_logged x p t)"
  by (simp add: sync_logged_def split: option.split)

lemma set_ids_status [simp]: "p_status (set_ids ids pr) = p_status pr" "p_waitpid (set_ids ids pr) = p_waitpid pr"
  by (simp_all add: set_ids_def split: list.split)

lemma evolves_branch:
  "(c \<Longrightarrow> evolves s (snd a)) \<Longrightarrow> (\<not> c \<Longrightarrow> evolves s (snd b)) \<Longrightarrow> evolves s (snd (if c then a else b))"
  "(v = None \<Longrightarrow> evolves s (snd a)) \<Longrightarrow> (\<And>y. v = Some y \<Longrightarrow> evolves s (snd (f y))) \<Longrightarrow>
     evolves s (snd (case v of None \<Rightarrow> a | Some y \<Rightarrow> f y))"
  by (simp_all split: option.split)

lemma on_setpgid_evolves [evolve_ops]: "evolves s (snd (on_setpgid c t g s))"
  unfolding on_setpgid_def by (intro evolves_branch) (simp_all add: set_pgid_evolves)

lemma on_setresugid_evolves [evolve_ops]: "evolves s (snd (on_setresugid x p ids s))"
  by (simp add: on_setresugid_def Let_def sync_logged_evolves evolves_upd_simple split: option.split)

lemma on_proc_rename_evolves [evolve_ops]: "evolves s (snd (on_proc_rename x p n s))"
  by (simp add: on_proc_rename_def Let_def sync_logged_evolves evolves_upd_simple split: option.split)

lemma on_setprocprio_evolves [evolve_ops]: "evolves s (snd (on_setprocprio x c t prio s))"
  by (simp add: on_setprocprio_def sync_logged_evolves evolves_upd_simple split: option.split)

lemma on_disable_setpgid_evolves [evolve_ops]: "evolves s (snd (on_disable_setpgid p s))"
  by (simp add: on_disable_setpgid_def evolves_upd_simple split: option.split)

lemma new_thread_evolves [evolve_ops]: "evolves s (snd (new_thread x p s))"
  by (simp add: new_thread_def Let_def evolves_upd_simple split: option.split sum.split)

lemma fork_evolves [evolve_ops]:
  assumes inv: "pm_inv s"
  shows "evolves s (snd (fork x p s))"
proof -
  have "evolves s t" if c: "proc_of t = (proc_of s)(next_id s \<mapsto> child)" "next_id t = Suc (next_id s)" "p_waitpid child = []"
    for t child
    by (rule evolvesI) (use c in \<open>auto simp: wm_status_def intro: recordedI split: if_splits\<close>)
  moreover have "evolves s (s\<lparr>next_id := Suc (next_id s)\<rparr>)" by (rule evolves_frame) simp_all
  ultimately show ?thesis
    by (auto simp: fork_def new_id_def Let_def push_group_def child_of_def proc_of_def fun_eq_iff alist_simps pm_frame
        split: option.split sum.split)
qed

lemma reap_evolves [evolve_ops]: "evolves s t \<Longrightarrow> evolves s (reap p t)"
proof -
  assume e: "evolves s t"
  have "evolves t u" if c: "proc_of u = (proc_of t)(p := None)" "next_id u = next_id t" for u
    by (rule evolvesI) (use c in \<open>auto intro: recordedI split: if_splits\<close>)
  then have "evolves t (reap p t)"
    by (auto simp: reap_def Let_def proc_of_def fun_eq_iff alist_simps split: option.split)
  with e show ?thesis by (rule evolves_trans)
qed

lemma no_new_term_remove:
  assumes "wm_ok m"
  shows "no_new_term m (bt_remove waitpid_key_cmp k m)"
  unfolding no_new_term_def
proof (intro allI impI)
  fix p g c
  assume "wm_status (bt_remove waitpid_key_cmp k m) p = Some (Terminated g c)"
  then have "(p, Terminated g c) \<in> snd ` set m"
    using bt_remove_subset[of waitpid_key_cmp k m] by (force simp: wm_status_def dest: map_of_SomeD)
  moreover have "distinct (map (fst \<circ> snd) m)"
    using assms by (auto simp: wm_ok_def comp_def strict_sorted_iff)
  ultimately show "wm_status m p = Some (Terminated g c)"
    unfolding wm_status_def by (intro map_of_is_SomeI) (auto simp: comp_def)
qed

lemma grim_reaper_evolves: "evolves s t \<Longrightarrow> evolves s (snd (grim_reaper flags w st t))"
  by (auto simp: grim_reaper_def intro: reap_evolves split: waitpid_status.split)

lemma set_waitpid_remove_evolves:
  assumes "pm_inv s" and "proc_of s p = Some proc"
  shows "evolves s (set_waitpid p (bt_remove waitpid_key_cmp k (p_waitpid proc)) s)"
  unfolding set_waitpid_def
  by (rule evolves_upd_proc) (use assms pm_invD(4)[OF assms] in \<open>simp add: no_new_term_remove\<close>)

lemma queue_waiter_evolves: "evolves s (queue_waiter p v s)"
  unfolding queue_waiter_def by (rule evolves_upd_proc) simp

lemma take_entry_evolves:
  assumes "pm_inv s" and "proc_of s p = Some proc"
  shows "evolves s (snd (take_entry flags p proc req found key s))"
  using set_waitpid_remove_evolves[OF assms]
  by (auto simp: take_entry_def queue_waiter_evolves intro!: grim_reaper_evolves split: option.split)

lemma on_waitpid_evolves [evolve_ops]:
  assumes "pm_inv s"
  shows "evolves s (snd (on_waitpid p target flags req s))"
  using assms unfolding on_waitpid_def Let_def
  by (auto intro!: take_entry_evolves grim_reaper_evolves set_waitpid_remove_evolves
      split: option.split waitpid_target.split process_status.split)

lemma transfer_child_evolves:
  assumes inv: "pm_inv s"
  shows "evolves s (transfer_child c s)"
proof (cases "proc_of s c")
  case (Some child)
  let ?u = "upd_proc c (\<lambda>q. q\<lparr>p_ppid := INIT_PID, p_waitpid := []\<rparr>) s"
  let ?t = "upd_proc INIT_PID (\<lambda>q. q\<lparr>p_waitpid := bt_append waitpid_key_cmp (p_waitpid q) (p_waitpid child)\<rparr>) ?u"
  have wc: "wm_ok (p_waitpid child)" using pm_invD(4)[OF inv Some] .
  have "evolves s ?t"
  proof (rule evolvesI)
    fix q pr p g c'
    assume q: "proc_of ?t q = Some pr" and w: "wm_status (p_waitpid pr) p = Some (Terminated g c')"
    obtain pr0 where pr0: "proc_of s q = Some pr0" and cases: "p_waitpid pr = (if q = c then [] else p_waitpid pr0) \<or>
        p_waitpid pr = bt_append waitpid_key_cmp (if q = c then [] else p_waitpid pr0) (p_waitpid child)"
      using q by (auto simp: pm_frame split: if_splits)
    have w0: "wm_ok (if q = c then [] else p_waitpid pr0)" using pm_invD(4)[OF inv pr0] by simp
    have "wm_status (if q = c then [] else p_waitpid pr0) p = Some (Terminated g c') \<or> wm_status (p_waitpid child) p = Some (Terminated g c')"
      using cases w wm_append_status[OF w0 wc] by (auto simp: map_add_def split: option.splits)
    then show "\<exists>q'. recorded s q' p = Some (Terminated g c')"
      using recordedI[OF pr0] recordedI[OF Some] by (auto simp: wm_status_def split: if_splits)
  qed (auto simp: pm_frame split: if_splits)
  then show ?thesis by (simp add: transfer_child_def Some)
qed (simp add: transfer_child_def)

lemma fold_transfer_evolves: "pm_inv s \<Longrightarrow> evolves s (fold transfer_child cs s)"
proof (induction cs arbitrary: s)
  case (Cons c cs)
  then show ?case
    using evolves_trans[OF transfer_child_evolves[of s c] Cons.IH[OF transfer_child_inv]] by simp
qed simp

lemma adopt_children_evolves:
  assumes "pm_inv s"
  shows "evolves s (snd (adopt_children x p g s))"
proof -
  let ?s1 = "wake_waiters INIT_PID s"
  have 1: "pm_inv ?s1" "evolves s ?s1" using assms by (simp_all add: pm_inv_wake_waiters evolves_wake)
  have "evolves ?s1 (snd (hup_groups x as (fold transfer_child cs ?s1)))" for as cs
    using evolves_trans[OF fold_transfer_evolves[OF 1(1)] evolves_sig_frame[OF fold_transfer_inv[OF 1(1)] hup_groups_frame]] .
  from evolves_trans[OF 1(2) this] show ?thesis
    by (simp add: adopt_children_def Let_def split: option.split)
qed

text \<open>A step that may also report the true end of a process.\<close>

definition truthful :: "proc_scheme \<Rightarrow> proc_scheme \<Rightarrow> bool" where
  "truthful s t \<longleftrightarrow> lives s t \<and> (wm_true s \<longrightarrow> wm_true t)"

lemma evolves_truthful: "evolves s t \<Longrightarrow> truthful s t"
  unfolding truthful_def using wm_true_evolves by (auto simp: evolves_def)

lemma truthful_trans: "truthful s t \<Longrightarrow> truthful t u \<Longrightarrow> truthful s u"
  unfolding truthful_def using lives_trans by blast

lemma post_status_truthful:
  assumes inv: "pm_inv s" and p: "p < next_id s" "\<forall>pr. proc_of s p = Some pr \<longrightarrow> p_status pr = Exited g c"
  shows "truthful s (post_status q p pg (Terminated g c) s)"
proof -
  let ?f = "\<lambda>r. r\<lparr>p_waitpid := bt_insert waitpid_key_cmp (stored_key p pg) (p, Terminated g c) (p_waitpid r)\<rparr>"
  let ?u = "upd_proc q ?f s"
  have lives: "lives s ?u" by (auto simp: lives_def pm_frame)
  have "wm_true ?u" if w: "wm_true s"
    unfolding wm_true_def
  proof (intro allI impI)
    fix r p' g' c'
    assume "recorded ?u r p' = Some (Terminated g' c')"
    then obtain pr where pr: "proc_of ?u r = Some pr" "wm_status (p_waitpid pr) p' = Some (Terminated g' c')"
      by (blast dest: recorded_proc)
    then obtain pr0 where pr0: "proc_of s r = Some pr0" by (auto simp: pm_frame split: if_splits)
    have "wm_ok (p_waitpid pr0)" by (rule pm_invD(4)[OF inv pr0])
    with pr pr0 have "wm_status (p_waitpid pr0) p' = Some (Terminated g' c') \<or> (p' = p \<and> g' = g \<and> c' = c)"
      by (auto simp: pm_frame wm_insert_status split: if_splits)
    then have "p' < next_id s \<and> (\<forall>pr. proc_of s p' = Some pr \<longrightarrow> p_status pr = Exited g' c')"
      using w pr0 p unfolding wm_true_def by (auto simp: recorded_def split: option.splits)
    then show "p' < next_id ?u \<and> (\<forall>pr. proc_of ?u p' = Some pr \<longrightarrow> p_status pr = Exited g' c')"
      by (auto simp: pm_frame split: if_splits)
  qed
  with lives have "truthful s ?u" by (simp add: truthful_def)
  moreover have "truthful ?u (wake_waiters q ?u)" by (rule evolves_truthful) (simp add: evolves_wake)
  ultimately show ?thesis unfolding post_status_def by (rule truthful_trans)
qed

lemma exit_done_truthful:
  assumes inv: "pm_inv s" and p: "proc_of s p = Some proc" "p_status proc = Exiting g c" "exit_status_ok (Exited g c)"
  shows "truthful s (snd (exit_done x p proc g c s))"
proof -
  let ?s1 = "upd_proc p (\<lambda>q. q\<lparr>p_status := Exited g c\<rparr>) s"
  have i1: "pm_inv ?s1" using inv by (rule pm_inv_upd_proc) (use p(3) in \<open>simp_all add: proc_ok_def\<close>)
  have e1: "evolves s ?s1" by (rule evolves_upd_proc) (use p in \<open>simp add: exited_kept_def\<close>)
  have st1: "\<forall>pr. proc_of ?s1 p = Some pr \<longrightarrow> p_status pr = Exited g c" by (auto simp: pm_frame)
  have lt: "p < next_id ?s1" using pm_invD(2)[OF inv p(1)] by (simp add: pm_frame)
  have e2: "evolves ?s1 (snd (send_logged x p (p_ppid proc) (SIGCHLD x) ?s1))"
    using i1 send_logged_frame by (rule evolves_sig_frame)
  have i2: "pm_inv (snd (send_logged x p (p_ppid proc) (SIGCHLD x) ?s1))"
    using send_logged_frame i1 by (rule sig_frame_inv)
  have keep: "p < next_id t \<and> (\<forall>pr. proc_of t p = Some pr \<longrightarrow> p_status pr = Exited g c)" if "evolves ?s1 t" for t
    using that st1 lt unfolding evolves_def lives_def exited_kept_def by fastforce
  have "truthful ?s1 (snd (bind_out (adopt_children x p (p_pgid proc) s2)
      (\<lambda>_ s3. ok () (post_status (p_ppid proc) p (p_pgid proc) (Terminated g c) s3))))"
    if s2: "evolves ?s1 s2" "pm_inv s2" for s2
  proof -
    have e3: "evolves ?s1 (snd (adopt_children x p (p_pgid proc) s2))"
      using s2(1) adopt_children_evolves[OF s2(2)] by (rule evolves_trans)
    have i3: "pm_inv (snd (adopt_children x p (p_pgid proc) s2))" using s2(2) by (rule adopt_children_inv)
    show ?thesis
      using truthful_trans[OF evolves_truthful[OF e3] post_status_truthful[OF i3]] evolves_truthful[OF e3] keep[OF e3]
      by (cases "adopt_children x p (p_pgid proc) s2") (auto simp: bind_out_def split: sum.split)
  qed
  note rest = this
  have "truthful ?s1 (snd (bind_out (send_logged x p (p_ppid proc) (SIGCHLD x) ?s1)
      (\<lambda>_ s2. bind_out (adopt_children x p (p_pgid proc) s2)
        (\<lambda>_ s3. ok () (post_status (p_ppid proc) p (p_pgid proc) (Terminated g c) s3)))))"
    using rest[OF e2 i2] evolves_truthful[OF e2]
    by (cases "send_logged x p (p_ppid proc) (SIGCHLD x) ?s1") (auto simp: bind_out_def split: sum.split)
  from truthful_trans[OF evolves_truthful[OF e1] this] show ?thesis
    using evolves_truthful[OF e1] by (simp add: exit_done_def Let_def split: option.split)
qed

lemma truthful_refl [simp]: "truthful s s"
  by (rule evolves_truthful) simp

lemma truthful_start [simp]:
  "truthful (s\<lparr>awoken := a\<rparr>) t = truthful s t" "truthful (set_state v p s) t = truthful s t"
  "truthful (remove_state v s) t = truthful s t" "truthful (s\<lparr>next_internal_id := n\<rparr>) t = truthful s t"
  by (simp_all add: truthful_def lives_def wm_true_def recorded_def set_state_def remove_state_def)

lemma truthful_fields [simp]:
  "truthful s (t\<lparr>handles := hs\<rparr>) = truthful s t" "truthful s (t\<lparr>init_claimed := b\<rparr>) = truthful s t"
  "truthful s (t\<lparr>awoken := a\<rparr>) = truthful s t" "truthful s (t\<lparr>next_internal_id := n\<rparr>) = truthful s t"
  "truthful s (set_state v p t) = truthful s t" "truthful s (remove_state v t) = truthful s t"
  by (simp_all add: truthful_def lives_def wm_true_def recorded_def set_state_def remove_state_def)

lemma truthful_bind:
  assumes "truthful s (snd r)" and "\<And>u t. r = (Inr u, t) \<Longrightarrow> truthful t (snd (k u t))"
  shows "truthful s (snd (bind_out r k))"
  using assms by (cases r) (auto simp: bind_out_def intro: truthful_trans split: sum.split)

lemma exit_reply_truthful [simp]: "truthful s (snd (exit_reply v tag r t)) = truthful s t"
  by (simp add: exit_reply_def split: option.split)

lemma work_on_truthful:
  assumes inv: "pm_inv s"
  shows "truthful s (snd (work_on x v s))"
proof (cases "map_of (states s) v")
  case (Some st)
  let ?s = "set_state v Placeholder s"
  have inv': "pm_inv ?s" using inv by simp
  show ?thesis
  proof (cases st)
    case (AwaitingStatusChange waiter target flags op)
    obtain r t where "on_waitpid waiter target flags v ?s = (r, t)" by fastforce
    moreover from this have "truthful ?s t"
      using evolves_truthful[OF on_waitpid_evolves[OF inv', of waiter target flags v]] by simp
    ultimately show ?thesis
      by (simp add: work_on_def Some AwaitingStatusChange Let_def split: poll.split sum.split)
  next
    case (AwaitingThreadsTermination p tag)
    show ?thesis
    proof (cases "proc_of s p")
      case (Some pr)
      note pr = this
      have ex: "truthful s (snd (exit_done x p pr g c (remove_state v ?s)))" if "p_status pr = Exiting g c" for g c
      proof -
        have "exit_status_ok (Exited g c)"
          using pm_invD(1)[OF inv pr] that by (auto simp: proc_ok_def exit_status_ok_def split: option.splits)
        then show ?thesis using exit_done_truthful[of "remove_state v ?s" p pr g c x] inv pr that by simp
      qed
      have up: "truthful s (upd_proc p (\<lambda>q. q\<lparr>p_awaiting_threads_term := p_awaiting_threads_term q @ [v]\<rparr>) ?s)"
        by (rule evolves_truthful) (simp add: evolves_upd_simple)
      show ?thesis
        unfolding work_on_def \<open>map_of (states s) v = Some st\<close> AwaitingThreadsTermination Let_def option.case
          pending_state.case state_frames pr
        using ex up by (cases "p_status pr") (auto simp: split: option.split intro!: truthful_bind)
    qed (simp add: work_on_def Some AwaitingThreadsTermination Let_def)
  qed (simp add: work_on_def Some Let_def)
qed (simp add: work_on_def)

lemma on_exit_start_truthful:
  assumes inv: "pm_inv s"
  shows "truthful s (snd (on_exit_start x p status v tag s))"
proof (cases "proc_of s p")
  case (Some pr)
  have "truthful s (snd (on_exit_start x p status v tag s))"
    if run: "\<not> is_exiting (p_status pr)" "decode_exit status = Some (g, c)" for g c
  proof -
    obtain failed ks where th: "exit_threads x tag (p_threads pr) = (failed, ks)" by fastforce
    let ?s1 = "logk ks (upd_proc p (\<lambda>q. q\<lparr>p_status := Exiting g c\<rparr>) s)"
    let ?s2 = "upd_proc p (\<lambda>q. q\<lparr>p_awaiting_threads_term := p_awaiting_threads_term q @ [v]\<rparr>) ?s1"
    have i1: "pm_inv ?s1"
      unfolding pm_inv_frame using inv by (rule pm_inv_upd_proc) (simp_all add: proc_ok_def decode_exit_ok[OF run(2)])
    then have i2: "pm_inv ?s2" by (rule pm_inv_upd_proc) (simp_all add: proc_ok_def)
    have e1: "evolves s ?s1"
      unfolding evolves_fields using run(1) Some
      by (intro evolves_upd_proc) (auto simp: exited_kept_def is_exiting_def split: process_status.splits)
    then have e2: "evolves s ?s2" by (intro evolves_upd_simple) simp_all
    have "truthful s (snd (work_on x v (set_state v st u)))" if "pm_inv u" "evolves s u" for u st
      using truthful_trans[OF evolves_truthful[OF that(2)]] work_on_truthful[of "set_state v st u" x v] that(1) by simp
    from this[OF i1 e1] this[OF i2 e2] evolves_truthful[OF e1] show ?thesis
      using run by (cases "p_status pr") (simp_all add: on_exit_start_def Some th is_exiting_def Let_def split: option.split)
  qed
  then show ?thesis
    by (cases "p_status pr"; cases "decode_exit status") (auto simp: on_exit_start_def Some is_exiting_def)
qed (simp add: on_exit_start_def)

lemma insert_handle_truthful [simp]: "truthful s (snd (insert_handle x h t)) = truthful s t"
  by (simp add: insert_handle_def Let_def)

lemma on_openat_truthful: "truthful s (snd (on_openat x fd path flags uid s))"
  by (simp add: on_openat_def Let_def case_prod_beta split: option.split handle.split)

lemma on_dup_truthful:
  assumes "pm_inv s"
  shows "truthful s (snd (on_dup x i buf s))"
proof -
  have "truthful s (snd (bind_out r (\<lambda>v u. let (n, w) = insert_handle x (h v) u in ok (ThisScheme n b) w)))"
    if "truthful s (snd r)" for r :: "(nat, proc_scheme) outcome" and h b
    by (rule truthful_bind[OF that]) (simp add: case_prod_beta)
  then show ?thesis
    using evolves_truthful[OF fork_evolves[OF assms]] evolves_truthful[OF new_thread_evolves]
    by (simp add: on_dup_def case_prod_beta split: option.split handle.split sum.split)
qed

lemma call_proc_truthful:
  assumes "pm_inv s"
  shows "truthful s (snd (call_proc x rid tag p verb a s))"
proof -
  have sig: "truthful s t" if "sig_frame s t" for t
    using evolves_truthful[OF evolves_sig_frame[OF assms that]] .
  have w: "truthful s (snd (call_waitpid x rid tag p vb a s))" for vb
    using work_on_truthful[of "set_state (KernelId rid) st s" x "KernelId rid" for st] assms
    by (simp add: call_waitpid_def split: option.split)
  have k: "truthful s (snd (call_kill x tag p vb a s))" for vb
    by (simp add: call_kill_def Let_def sig signal_frames)
  show ?thesis
    by (cases verb)
      (simp_all add: call_proc_def Let_def w k sig signal_frames on_exit_start_truthful assms evolves_truthful
        on_setpgid_evolves on_setsid_evolves on_setresugid_evolves on_proc_rename_evolves on_disable_setpgid_evolves
        on_setprocprio_evolves)
qed

lemma on_call_truthful:
  assumes "pm_inv s"
  shows "truthful s (snd (on_call x rid tag i a s))"
  using evolves_truthful[OF evolves_sig_frame[OF assms on_kill_thread_frame]]
    evolves_truthful[OF evolves_sig_frame[OF assms on_sync_sigtctl_frame]]
  by (simp add: on_call_def call_proc_truthful call_creds_state assms
      split: option.split handle.split thread_call.split)

lemma cancel_truthful: "truthful s (snd (cancel rid s))"
  by (simp add: cancel_def Let_def split: option.split pending_state.split)

lemma handle_scheme_truthful:
  assumes "pm_inv s" and "\<And>i. req \<noteq> RSendFd i"
  shows "truthful s (snd (handle_scheme x req s))"
  using assms cancel_truthful[of s] on_call_truthful[of "remove_state v s" for v]
  by (cases req)
    (auto simp: handle_scheme_def Let_def case_prod_beta on_openat_truthful on_dup_truthful on_read_state on_close_def
      split: option.split handle.split)

lemma on_sendfd_other: "map_of (handles s) i \<noteq> Some HInit \<Longrightarrow> snd (on_sendfd x i s) = s"
  unfolding on_sendfd_def by (cases "map_of (handles s) i"; cases "the (map_of (handles s) i)") simp_all

lemma on_sendfd_init:
  assumes "map_of (handles s) i = Some HInit" and "processes s = []"
  shows "snd (on_sendfd x i s) = s \<or> (\<exists>ks. snd (on_sendfd x i s) = logk ks s) \<or>
    (\<exists>th. processes (snd (on_sendfd x i s)) = [(INIT_PID, init_process th)] \<and>
          next_id (snd (on_sendfd x i s)) = next_id s)"
proof (cases "obtain_fd x")
  case (Inl e)
  then show ?thesis by (simp add: on_sendfd_def assms(1))
next
  case (Inr fd)
  have eq: "snd (on_sendfd x i s) =
     (if \<not> subscribe_ok x fd then logk [Subscribe fd] s
      else case dup_status x fd of Inl _ \<Rightarrow> logk [Subscribe fd] s | Inr h \<Rightarrow> snd (on_sendfd x i s))"
    unfolding on_sendfd_def assms(1) Inr by (simp add: Let_def split: sum.split)
  show ?thesis
  proof (cases "dup_status x fd")
    case (Inr h)
    then show ?thesis
      using eq assms by (cases "subscribe_ok x fd") (auto simp: on_sendfd_def \<open>obtain_fd x = Inr fd\<close> Let_def pm_frame)
  qed (use eq in \<open>auto split: if_splits\<close>)
qed

lemma on_sendfd_first:
  assumes inv: "pm_inv s"
  shows "truthful s (snd (on_sendfd x i s)) \<or>
         processes s = [] \<and> wm_true (snd (on_sendfd x i s)) \<and> next_id (snd (on_sendfd x i s)) = next_id s \<and>
         (\<forall>p. p \<noteq> INIT_PID \<longrightarrow> proc_of (snd (on_sendfd x i s)) p = None)"
proof (cases "map_of (handles s) i = Some HInit")
  case True
  then have empty: "processes s = []"
    using inv map_of_SomeD[OF True] by (force simp: pm_inv_def boot_ok_def hvals_def)
  let ?t = "snd (on_sendfd x i s)"
  have "truthful s (logk ks s)" for ks by (simp add: evolves_truthful)
  moreover have "wm_true ?t \<and> (\<forall>p. p \<noteq> INIT_PID \<longrightarrow> proc_of ?t p = None)"
    if "processes ?t = [(INIT_PID, init_process th)]" for th
    using that by (auto simp: wm_true_def recorded_def proc_of_def init_process_def wm_status_def
        split: option.splits if_splits)
  ultimately show ?thesis using on_sendfd_init[OF True empty, of x] empty by (metis truthful_refl)
qed (simp add: on_sendfd_other)

lemma truthful_branch:
  "(c \<Longrightarrow> truthful s (snd a)) \<Longrightarrow> (\<not> c \<Longrightarrow> truthful s (snd b)) \<Longrightarrow> truthful s (snd (if c then a else b))"
  "(v = None \<Longrightarrow> truthful s (snd a)) \<Longrightarrow> (\<And>y. v = Some y \<Longrightarrow> truthful s (snd (f y))) \<Longrightarrow>
     truthful s (snd (case v of None \<Rightarrow> a | Some y \<Rightarrow> f y))"
  by (simp_all split: option.split)

lemma truthful_status_branch:
  "(st = PossiblyRunnable \<Longrightarrow> truthful s (snd a)) \<Longrightarrow> (\<And>g. st = Stopped g \<Longrightarrow> truthful s (snd (b g))) \<Longrightarrow>
   (\<And>g v. st = Exiting g v \<Longrightarrow> truthful s (snd (c g v))) \<Longrightarrow> (\<And>g v. st = Exited g v \<Longrightarrow> truthful s (snd (d g v))) \<Longrightarrow>
   truthful s (snd (case st of PossiblyRunnable \<Rightarrow> a | Stopped g \<Rightarrow> b g | Exiting g v \<Rightarrow> c g v | Exited g v \<Rightarrow> d g v))"
  by (cases st) simp_all

lemma thread_event_truthful:
  assumes inv: "pm_inv s"
  shows "truthful s (snd (thread_event x data s))"
proof -
  have upd: "evolves s (upd_proc p (\<lambda>q. q\<lparr>p_threads := ths\<rparr>) (logk ks (s\<lparr>thread_lookup := tlk\<rparr>)))" for p ths ks tlk
    by (rule evolves_upd_simple) simp_all
  have wake: "evolves s (upd_proc p (\<lambda>q. q\<lparr>p_awaiting_threads_term := []\<rparr>) (t\<lparr>awoken := a\<rparr>))" if "evolves s t" for p t a
    by (rule evolves_upd_simple) (simp_all add: that)
  have ex: "truthful s (snd (on_exit_start x p status v None (upd_proc p (\<lambda>q. q\<lparr>p_threads := []\<rparr>)
      (logk ks (s\<lparr>thread_lookup := tlk\<rparr>))\<lparr>next_internal_id := n\<rparr>)))" for p status v ks tlk n
  proof -
    let ?t = "upd_proc p (\<lambda>q. q\<lparr>p_threads := []\<rparr>) (logk ks (s\<lparr>thread_lookup := tlk\<rparr>))"
    have "pm_inv ?t" by (rule pm_inv_upd_proc) (use inv in \<open>simp_all add: proc_ok_def\<close>)
    then have "truthful ?t (snd (on_exit_start x p status v None (?t\<lparr>next_internal_id := n\<rparr>)))"
      using on_exit_start_truthful[of "?t\<lparr>next_internal_id := n\<rparr>" x p status v None] by simp
    then show ?thesis by (rule truthful_trans[OF evolves_truthful[OF upd]])
  qed
  show ?thesis
    unfolding thread_event_def Let_def
    by (intro truthful_branch truthful_status_branch)
      (simp_all add: ex evolves_truthful upd wake)
qed

end
