(* ===== verification/Procmgr_Props.thy ===== *)
theory Procmgr_Props
  imports Procmgr_Run
begin

text \<open>
  Properties of the process manager: the invariant of every reachable state, the life cycle of processes,
  exit and wait, process groups, credentials, and the end of the wake-up loop.
\<close>

unbundle bit_operations_syntax

declare on_send_sig.simps [simp del]

section \<open>Reachable states\<close>

abbreviation pm_reach :: "ext \<Rightarrow> proc_scheme \<Rightarrow> bool" where
  "pm_reach x s \<equiv> reach (pm_boot x) pm_step (\<lambda>_ _. True) s"

text \<open>Every step is truthful, except that the first process may appear in an empty table.\<close>

lemma pm_step_truthful:
  assumes "pm_inv s"
  shows "truthful s (pm_step s e) \<or>
         processes s = [] \<and> wm_true (pm_step s e) \<and> next_id (pm_step s e) = next_id s \<and>
         (\<forall>p. p \<noteq> INIT_PID \<longrightarrow> proc_of (pm_step s e) p = None)"
proof (cases e)
  case (EvRequest x req)
  show ?thesis
  proof (cases "\<exists>i. req = RSendFd i")
    case True
    then obtain i where "req = RSendFd i" ..
    then show ?thesis
      using on_sendfd_first[OF assms, of x i] by (simp add: pm_step_def EvRequest handle_scheme_def)
  next
    case False
    then show ?thesis
      using handle_scheme_truthful[OF assms, of req x] by (simp add: pm_step_def EvRequest)
  qed
next
  case (EvThread x data)
  then show ?thesis using thread_event_truthful[OF assms] by (simp add: pm_step_def)
next
  case (EvWork x)
  have "truthful s (snd (work_on x v (s\<lparr>awoken := vs\<rparr>)))" for v vs
    using work_on_truthful[of "s\<lparr>awoken := vs\<rparr>" x v] assms by simp
  then show ?thesis by (simp add: pm_step_def EvWork split: list.split)
next
  case (EvProcPage p c)
  then show ?thesis using evolves_truthful[OF evolves_upd_simple[OF _ _ evolves_refl]] by (simp add: pm_step_def)
next
  case (EvThreadPage p t c)
  then show ?thesis
    using evolves_truthful[OF evolves_upd_simple[OF _ _ evolves_refl]] by (simp add: pm_step_def set_thread_def)
qed

lemma pm_step_true: "pm_inv s \<Longrightarrow> wm_true s \<Longrightarrow> wm_true (pm_step s e)"
  using pm_step_truthful[of s e] by (auto simp: truthful_def)

definition pm_good :: "proc_scheme \<Rightarrow> bool" where
  "pm_good s \<longleftrightarrow> pm_inv s \<and> wm_true s"

lemma pm_boot_good: "pm_good (pm_boot x)"
proof -
  have "processes (pm_boot x) = []" by (simp add: pm_boot_def insert_handle_def pm_init_def Let_def)
  then show ?thesis by (simp add: pm_good_def pm_boot_inv wm_true_def recorded_def proc_of_def)
qed

interpretation pmg: daemon_invariant "pm_boot x" pm_step "\<lambda>_ _. True" pm_good for x
  by unfold_locales (use pm_boot_good in \<open>simp_all add: pm_good_def pm_step_inv pm_step_true\<close>)

text \<open>
  C1. In every state the process manager can reach, by any sequence of requests, thread deaths, woken
  requests and writes of processes to their signal pages, the table is well formed: identifiers are the
  keys and below the counter, every process is in exactly the group its \<open>pgid\<close> names and groups are not
  empty, wait maps are sorted, real-time queues are bounded, priorities and names are in range, an exit
  status is a code or a signal between 1 and 64, at most one process can claim to be init; and every
  termination on record is the true status of a process that is exited or gone.
\<close>

theorem reachable_well_formed:
  assumes "pm_reach x s"
  shows "pm_inv s \<and> wm_true s"
  using pmg.reach_inv[OF assms] by (simp add: pm_good_def)

theorem reachable_well_formed_witness:
  "pm_inv (pm_step (pm_boot ext0) (EvRequest ext0 (ROpenAt 1 [0x69, 0x6e, 0x69, 0x74] 0 0)))"
proof -
  have "pm_reach ext0 (pm_step (pm_boot ext0) (EvRequest ext0 (ROpenAt 1 [0x69, 0x6e, 0x69, 0x74] 0 0)))"
    by (rule reach_step) (rule reach_init, simp)
  from reachable_well_formed[OF this] show ?thesis by simp
qed

text \<open>
  C2. No process comes back from the dead. Whatever happens next, a process that has exited keeps exactly
  its exit status until it disappears, one that is exiting can only become exited with the status it
  announced, and a process identifier that was handed out and is gone stays unused.
\<close>

theorem no_resurrection:
  assumes "pm_inv s"
  shows "(status_of s p = Some (Exited g c) \<longrightarrow> status_of (pm_step s e) p \<in> {None, Some (Exited g c)}) \<and>
         (status_of s p = Some (Exiting g c) \<longrightarrow>
            status_of (pm_step s e) p \<in> {None, Some (Exiting g c), Some (Exited g c)}) \<and>
         (p < next_id s \<and> p \<noteq> INIT_PID \<and> proc_of s p = None \<longrightarrow> proc_of (pm_step s e) p = None)"
proof (cases "lives s (pm_step s e)")
  case True
  note l = this
  have prev: "\<exists>pr0. proc_of s p = Some pr0 \<and> exited_kept (p_status pr0) (p_status pr)"
    if "p < next_id s" "proc_of (pm_step s e) p = Some pr" for pr
    using l that unfolding lives_def by blast
  have "p < next_id s" if "status_of s p = Some st" for st
    using that pm_invD(2)[OF assms, of p] by (auto simp: status_of_def)
  with prev show ?thesis
    by (cases "proc_of (pm_step s e) p") (fastforce simp: status_of_def exited_kept_def)+
next
  case False
  then have "processes s = []" and gone: "p \<noteq> INIT_PID \<longrightarrow> proc_of (pm_step s e) p = None"
    using pm_step_truthful[OF assms, of e] by (auto simp: truthful_def)
  then show ?thesis by (simp add: status_of_def proc_of_def)
qed

theorem no_resurrection_witness:
  "let s = upd_proc 4 (\<lambda>q. q\<lparr>p_status := Exited None 7\<rparr>) pm0 in
   status_of s 4 = Some (Exited None 7) \<and>
   status_of (pm_step s (EvRequest ext0 (RClose 4))) 4 \<in> {None, Some (Exited None 7)}"
proof -
  let ?s = "upd_proc 4 (\<lambda>q. q\<lparr>p_status := Exited None 7\<rparr>) pm0"
  have "pm_inv ?s" by (rule pm_inv_upd_proc) (simp_all add: proc_ok_def exit_status_ok_def)
  from no_resurrection[OF this, of 4 None 7 "EvRequest ext0 (RClose 4)"] show ?thesis
    by (simp add: Let_def status_of_upd_proc)
qed

section \<open>Waiting\<close>

lemma entry_recorded:
  assumes "pm_inv s" and "proc_of s q = Some pr" and "(k, p, st) \<in> set (p_waitpid pr)"
  shows "recorded s q p = Some st"
proof -
  have "distinct (map (fst \<circ> snd) (p_waitpid pr))"
    using pm_invD(4)[OF assms(1,2)] by (auto simp: wm_ok_def comp_def strict_sorted_iff)
  then have "wm_status (p_waitpid pr) p = Some st"
    unfolding wm_status_def using assms(3) by (intro map_of_is_SomeI) (force simp: comp_def)+
  with assms(2) show ?thesis by (simp add: recorded_def)
qed

lemma grim_ready:
  assumes "grim_reaper flags c st s = (Ready (Inr (p, w)), t)" and "\<not> wuntraced flags" and "\<not> wcontinued flags"
  shows "is_term st \<and> p = c \<and> w = status_word st \<and> t = reap c s"
  using assms by (auto simp: grim_reaper_def is_term_def split: waitpid_status.splits)

lemma reap_gone: "proc_of s p = Some pr \<Longrightarrow> p_threads pr = [] \<Longrightarrow> proc_of (reap p s) p = None"
  by (auto simp: reap_def Let_def split: option.split)

lemma first_in: "bt_first m = Some e \<Longrightarrow> e \<in> set m"
  by (cases m) (auto simp: bt_first_def)

lemma take_entry_ready:
  assumes "take_entry flags q pr v found key s = (Ready (Inr (p, w)), t)" and "p \<noteq> 0"
    and "\<not> wuntraced flags" and "\<not> wcontinued flags" and "found \<noteq> None \<longrightarrow> the found \<in> set (p_waitpid pr)"
  obtains k g c where "(k, p, Terminated g c) \<in> set (p_waitpid pr)" and "w = status_word (Terminated g c)"
    and "t = reap p (set_waitpid q (bt_remove waitpid_key_cmp key (p_waitpid pr)) s)"
proof -
  obtain k st where e: "found = Some (k, p, st)" and st: "is_term st" "w = status_word st"
      "t = reap p (set_waitpid q (bt_remove waitpid_key_cmp key (p_waitpid pr)) s)"
    using assms by (auto simp: take_entry_def dest!: grim_ready split: option.splits if_splits prod.splits)
  from st(1) obtain g c where "st = Terminated g c" by (auto simp: is_term_def split: waitpid_status.splits)
  with e st assms(5) show thesis by (intro that[of k g c]) auto
qed

lemma set_waitpid_proc: "proc_of (set_waitpid q m s) p = (if p = q then map_option (\<lambda>r. r\<lparr>p_waitpid := m\<rparr>) (proc_of s q) else proc_of s p)"
  by (simp add: set_waitpid_def pm_frame)


definition zomb0 :: proc_scheme where
  "zomb0 = upd_proc 3 (\<lambda>q. q\<lparr>p_status := Exited None 5, p_threads := []\<rparr>) pm0"

lemma zomb0_inv: "pm_inv zomb0"
  unfolding zomb0_def by (rule pm_inv_upd_proc) (simp_all add: proc_ok_def exit_status_ok_def)

lemma zomb0_procs [simp]:
  "proc_of zomb0 3 = Some ((proc0 3 2 3 2 1000)\<lparr>p_status := Exited None 5, p_threads := []\<rparr>)"
  "p \<noteq> 3 \<Longrightarrow> proc_of zomb0 p = proc_of pm0 p"
  by (simp_all add: zomb0_def pm_frame)

lemma zomb0_true: "wm_true zomb0"
proof -
  have "proc_of pm0 q = Some pr \<Longrightarrow> p_waitpid pr = []" for q pr
    by (auto simp: pm0_def proc_of_def split: if_splits)
  then have "proc_of zomb0 q = Some pr \<Longrightarrow> p_waitpid pr = []" for q pr
    by (cases "q = 3") auto
  then show ?thesis by (auto simp: wm_true_def recorded_def wm_status_def split: option.splits)
qed

abbreviation plain_wait :: wait_flags where
  "plain_wait \<equiv> \<lparr>wnohang = False, wuntraced = False, wcontinued = False\<rparr>"


section \<open>Exit\<close>

definition ppid_of :: "proc_scheme \<Rightarrow> pid \<Rightarrow> pid option" where
  "ppid_of s p = map_option p_ppid (proc_of s p)"

lemma sig_frame_ppid: "sig_frame s t \<Longrightarrow> ppid_of t p = ppid_of s p"
  unfolding sig_frame_def ppid_of_def by (elim conjE allE[of _ p]) (auto simp: option_rel_Some1 sig_proc_rel_def elim!: option.rel_cases)

lemma wake_ppid [simp]: "ppid_of (wake_waiters q s) p = ppid_of s p"
  by (auto simp: wake_waiters_def ppid_of_def pm_frame split: option.split)

lemma post_ppid [simp]: "ppid_of (post_status q p g st s) r = ppid_of s r"
  by (auto simp: post_status_def ppid_of_def pm_frame option.map_comp comp_def wake_waiters_def split: option.split)

lemma transfer_ppid:
  "ppid_of (fold transfer_child cs s) c = (if c \<in> set cs \<and> ppid_of s c \<noteq> None then Some INIT_PID else ppid_of s c)"
proof (induction cs arbitrary: s)
  case (Cons d cs)
  have "ppid_of (transfer_child d s) c = (if c = d \<and> ppid_of s c \<noteq> None then Some INIT_PID else ppid_of s c)"
    by (auto simp: transfer_child_def ppid_of_def pm_frame option.map_comp comp_def split: option.split)
  with Cons show ?case by auto
qed simp

lemma in_children_of:
  "distinct (map fst (processes s)) \<Longrightarrow> c \<in> set (children_of p s) \<longleftrightarrow> c \<noteq> INIT_PID \<and> ppid_of s c = Some p"
  by (auto simp: children_of_def ppid_of_def proc_of_def image_iff) (auto dest: map_of_SomeD)

lemma adopt_children_ppid:
  assumes "pm_inv s" and "proc_of s INIT_PID \<noteq> None"
  shows "ppid_of (snd (adopt_children x p g s)) c =
           (if c \<noteq> INIT_PID \<and> ppid_of s c = Some p then Some INIT_PID else ppid_of s c)"
proof -
  have "distinct (map fst (processes (wake_waiters INIT_PID s)))"
    using pm_inv_wake_waiters[OF assms(1)] by (simp add: pm_inv_def procs_ok_def)
  from in_children_of[OF this] show ?thesis
    using assms(2) by (auto simp: adopt_children_def Let_def sig_frame_ppid[OF hup_groups_frame] transfer_ppid)
qed

text \<open>With a kernel that takes every status write, nothing in the exit path panics.\<close>

lemma on_send_sig_no_panic:
  assumes "signals_ok x" and "\<forall>h v. write_status x h v = None"
  shows "fst (on_send_sig (Suc (Suc n)) x caller target sg killed mode soc s) \<noteq> Inl Panic"
proof (cases "unat sg \<le> 64 \<and> proc_of s (target_pid_of target) \<noteq> None \<and> proc_of s caller \<noteq> None")
  case True
  then obtain tq cp where "unat sg \<le> 64" "proc_of s (target_pid_of target) = Some tq" "proc_of s caller = Some cp"
    by auto
  note u = on_send_sig_unfold[OF this, of "Suc n" x killed mode soc]
  show ?thesis
    unfolding u using closure_no_panic[OF assms(2)] tell_parent_result[OF assms]
    by (auto split: prod.splits sum.splits send_result.splits option.splits) (metis fst_conv)+
next
  case False
  then show ?thesis by (auto simp: on_send_sig.simps Let_def split: option.split)
qed

lemma send_logged_total:
  assumes "signals_ok x" and "\<forall>h v. write_status x h v = None"
  shows "fst (send_logged x from to sig s) = Inr ()"
  using on_send_sig_no_panic[OF assms, of 0 "from" "TProc to" "of_nat sig" False Idempotent False s]
  by (auto simp: send_logged_def sig_fuel_def numeral_2_eq_2 split: prod.splits sum.splits fault.splits)

lemma bind_out_total: "fst r = Inr u \<Longrightarrow> (\<And>s. fst (k u s) = Inr w) \<Longrightarrow> fst (bind_out r k) = Inr w"
  by (cases r) (simp add: bind_out_def)

lemma hup_total:
  assumes "signals_ok x" and "\<forall>h v. write_status x h v = None"
  shows "fst (hup_members x qs s) = Inr ()" "fst (hup_groups x as s) = Inr ()"
proof -
  show m: "fst (hup_members x qs s) = Inr ()" for qs s
    by (induction qs arbitrary: s) (auto intro!: bind_out_total send_logged_total[OF assms] split: option.split)
  show "fst (hup_groups x as s) = Inr ()"
    by (induction as arbitrary: s) (auto intro!: bind_out_total m split: option.split)
qed

lemma adopt_children_total:
  assumes "signals_ok x" and "\<forall>h v. write_status x h v = None"
  shows "fst (adopt_children x p g s) = Inr ()"
  by (simp add: adopt_children_def Let_def hup_total[OF assms] split: option.split)

lemma adopt_children_states: "states (snd (adopt_children x p g s)) = states s"
proof -
  have "states (fold transfer_child cs u) = states u" for cs u
    by (induction cs arbitrary: u) (simp_all add: transfer_child_def pm_frame split: option.split)
  moreover have "states (snd (hup_groups x as u)) = states u" for as u
    using hup_groups_frame[of u x as] by (simp add: sig_frame_def)
  ultimately show ?thesis
    by (simp add: adopt_children_def Let_def wake_waiters_def pm_frame split: option.split)
qed

lemma exited_stays:
  assumes "evolves s t" and "status_of s p = Some (Exited g c)" and "p < next_id s" and "ppid_of t p \<noteq> None"
  shows "status_of t p = Some (Exited g c)"
  using assms unfolding evolves_def lives_def status_of_def ppid_of_def by (fastforce simp: exited_kept_def)


definition exit0 :: proc_scheme where
  "exit0 = (upd_proc 3 (\<lambda>q. q\<lparr>p_status := Exiting None 5, p_threads := []\<rparr>) pm0)\<lparr>states := [(KernelId 9, AwaitingThreadsTermination 3 None)]\<rparr>"

lemma exit0_inv: "pm_inv exit0"
  unfolding exit0_def
  by (simp, intro pm_inv_upd_proc) (auto simp: proc_ok_def exit_status_ok_def rtqs_ok_def)


section \<open>The end of the wake-up loop\<close>

definition exiting :: "proc_scheme \<Rightarrow> pid set" where
  "exiting s = {p. \<exists>g c. status_of s p = Some (Exiting g c)}"

lemma exiting_finite: "finite (exiting s)"
proof -
  have "exiting s \<subseteq> fst ` set (processes s)"
    by (auto simp: exiting_def status_of_def proc_of_def dest: map_of_SomeD intro!: image_eqI)
  then show ?thesis by (rule finite_subset) simp
qed

lemma exiting_mono: "(\<And>p. status_of t p \<noteq> None \<Longrightarrow> status_of t p = status_of s p) \<Longrightarrow> exiting t \<subseteq> exiting s"
  unfolding exiting_def by force

lemma exiting_upd:
  assumes "\<And>q. p_status (f q) = p_status q"
  shows "exiting (upd_proc p f s) = exiting s"
proof -
  have "status_of (upd_proc p f s) q = status_of s q" for q
    using assms by (simp add: status_of_upd_proc) (simp add: status_of_def)
  then show ?thesis by (simp add: exiting_def)
qed

lemma exiting_fields [simp]:
  "exiting (s\<lparr>states := st\<rparr>) = exiting s" "exiting (s\<lparr>awoken := aw\<rparr>) = exiting s"
  by (simp_all add: exiting_def status_of_def proc_of_def)

lemma exiting_sig_frame:
  assumes "sig_frame s t"
  shows "exiting t \<subseteq> exiting s"
proof
  fix p
  assume "p \<in> exiting t"
  then obtain pr g c where pr: "proc_of t p = Some pr" "p_status pr = Exiting g c" by (auto simp: exiting_def status_of_def)
  with assms obtain pr0 where "proc_of s p = Some pr0" "sig_proc_rel pr0 pr"
    unfolding sig_frame_def by (metis option_rel_Some2)
  then have "proc_of s p = Some pr0" "exit_kept (p_status pr0) (p_status pr)" by (simp_all add: sig_proc_rel_def)
  moreover from this pr have "p_status pr0 = Exiting g c" by (simp add: exit_kept_def is_exiting_def)
  ultimately show "p \<in> exiting s" by (simp add: exiting_def status_of_def)
qed

lemma exiting_wake [simp]: "exiting (wake_waiters q s) = exiting s"
  by (auto simp: wake_waiters_def exiting_upd split: option.split)

lemma exiting_transfer: "exiting (fold transfer_child cs s) = exiting s"
  by (induction cs arbitrary: s) (simp_all add: transfer_child_def exiting_upd split: option.split)

lemma exiting_post [simp]: "exiting (post_status q p g st s) = exiting s"
  by (simp add: post_status_def exiting_upd)

lemma exiting_adopt: "exiting (snd (adopt_children x p g s)) \<subseteq> exiting s"
  using exiting_sig_frame[OF hup_groups_frame]
  by (simp add: adopt_children_def Let_def split: option.split) (metis exiting_transfer exiting_wake)

lemma exiting_bind:
  assumes "exiting (snd r) \<subseteq> A" and "\<And>u t. exiting t \<subseteq> A \<Longrightarrow> exiting (snd (k u t)) \<subseteq> A"
  shows "exiting (snd (bind_out r k)) \<subseteq> A"
  using assms by (cases r) (auto simp: bind_out_def split: sum.split)

lemma exit_done_exiting:
  assumes "proc_of s p = Some pr" and "p_status pr = Exiting g c"
  shows "exiting (snd (exit_done x p pr g c s)) \<subset> exiting s"
proof -
  let ?s1 = "upd_proc p (\<lambda>q. q\<lparr>p_status := Exited g c\<rparr>) s"
  have s1: "exiting ?s1 = exiting s - {p}"
    by (auto simp: exiting_def status_of_upd_proc)
  have "exiting (snd (exit_done x p pr g c s)) \<subseteq> exiting s - {p}"
  proof (cases "proc_of ?s1 (p_ppid pr)")
    case None
    then show ?thesis by (simp add: exit_done_def Let_def s1)
  next
    case (Some par)
    show ?thesis
      unfolding exit_done_def Let_def Some option.case s1[symmetric]
      by (intro exiting_bind exiting_sig_frame[OF send_logged_frame] subset_trans[OF exiting_adopt]) simp_all
  qed
  moreover have "p \<in> exiting s" using assms by (simp add: exiting_def status_of_def)
  ultimately show ?thesis by blast
qed

lemma exiting_reap: "exiting (reap p s) \<subseteq> exiting s"
  by (rule exiting_mono) (auto simp: reap_def Let_def status_of_def proc_of_def alist_simps split: option.splits if_splits)

lemma reap_awoken [simp]: "awoken (reap p s) = awoken s"
  by (simp add: reap_def Let_def split: option.split)

text \<open>A wait wakes nobody.\<close>

lemma on_waitpid_measure:
  "exiting (snd (on_waitpid q target flags v s)) \<subseteq> exiting s \<and> awoken (snd (on_waitpid q target flags v s)) = awoken s"
proof -
  let ?ok = "\<lambda>t. exiting t \<subseteq> exiting s \<and> awoken t = awoken s"
  have set: "?ok (set_waitpid q m s)" "?ok (queue_waiter q v s)" for m
    by (simp_all add: set_waitpid_def queue_waiter_def exiting_upd pm_frame)
  have grim: "?ok (snd (grim_reaper flags c st (set_waitpid q m s)))" for c st m
    using subset_trans[OF exiting_reap] set(1) by (simp add: grim_reaper_def split: waitpid_status.split)
  have "?ok (snd (take_entry flags q pr v found key s))" for pr found key
    using grim set by (simp add: take_entry_def split: option.split prod.split)
  with grim show ?thesis
    by (simp add: on_waitpid_def Let_def split: option.split waitpid_target.split process_status.split)
qed

lemma set_state_exiting [simp]:
  "exiting (set_state v st s) = exiting s" "exiting (remove_state v s) = exiting s"
  "awoken (set_state v st s) = awoken s" "awoken (remove_state v s) = awoken s"
  "proc_of (set_state v st s) = proc_of s" "proc_of (remove_state v s) = proc_of s"
  by (simp_all add: set_state_def remove_state_def proc_of_def fun_eq_iff)

lemma work_on_measure:
  assumes "work_on x v s = (Inr r, t)"
  shows "exiting t \<subset> exiting s \<or> exiting t \<subseteq> exiting s \<and> awoken t = awoken s"
proof (cases "map_of (states s) v")
  case (Some st)
  show ?thesis
  proof (cases st)
    case (AwaitingStatusChange q target flags op)
    have "t = snd (on_waitpid q target flags v (set_state v Placeholder s)) \<or>
          (\<exists>st'. t = set_state v st' (snd (on_waitpid q target flags v (set_state v Placeholder s))))"
      using assms Some AwaitingStatusChange by (auto simp: work_on_def split: prod.splits poll.splits sum.splits)
    then show ?thesis
      using on_waitpid_measure[of q target flags v "set_state v Placeholder s"] by auto
  next
    case (AwaitingThreadsTermination p tag)
    show ?thesis
    proof (cases "\<exists>pr g c. proc_of s p = Some pr \<and> p_threads pr = [] \<and> p_status pr = Exiting g c")
      case True
      then obtain pr g c where pr: "proc_of s p = Some pr" "p_threads pr = []" "p_status pr = Exiting g c" by blast
      then have "t = snd (exit_done x p pr g c (remove_state v (set_state v Placeholder s)))"
        using assms Some AwaitingThreadsTermination
        by (auto simp: work_on_def bind_out_def split: sum.splits option.splits prod.splits)
      then show ?thesis
        using exit_done_exiting[of "remove_state v (set_state v Placeholder s)" p pr g c x] pr by simp
    next
      case False
      then show ?thesis
        using assms Some AwaitingThreadsTermination
        by (auto simp: work_on_def exit_reply_def exiting_upd pm_frame Let_def
            split: option.splits process_status.splits if_splits)
    qed
  qed (use assms Some in \<open>auto simp: work_on_def\<close>)
qed (use assms in \<open>simp add: work_on_def\<close>)

lemma run_awoken_enough: "\<exists>n. \<forall>m\<ge>n. run_awoken m x out s \<noteq> None"
proof (induction "(card (exiting s), length (awoken s))" arbitrary: s out
    rule: wf_induct_rule[OF wf_lex_prod[OF wf_less wf_less]])
  case (1 s out)
  show ?case
  proof (cases "awoken s")
    case Nil
    then have "run_awoken m x out s \<noteq> None" for m by (cases m) simp_all
    then show ?thesis by blast
  next
    case (Cons v vs)
    obtain r t where w: "work_on x v (s\<lparr>awoken := vs\<rparr>) = (r, t)" by (rule prod.exhaust)
    show ?thesis
    proof (cases r)
      case (Inl f)
      have "run_awoken m x out s \<noteq> None" if "m \<ge> 1" for m
        using that Cons w Inl by (cases m) simp_all
      then show ?thesis by blast
    next
      case (Inr u)
      have "exiting t \<subset> exiting s \<or> exiting t \<subseteq> exiting s \<and> awoken t = vs"
        using work_on_measure[OF w[unfolded Inr]] by simp
      then have "((card (exiting t), length (awoken t)), (card (exiting s), length (awoken s)))
          \<in> {(a, b). a < b} <*lex*> {(a, b). a < b}"
        using psubset_card_mono[OF exiting_finite, of "exiting t" s] card_mono[OF exiting_finite, of "exiting t" s] Cons
        by auto
      from "1"[OF this] obtain n where
          n: "\<forall>m\<ge>n. run_awoken m x (case u of Ready a \<Rightarrow> out @ [a] | Pending \<Rightarrow> out) t \<noteq> None" by blast
      have "run_awoken m x out s \<noteq> None" if "m \<ge> Suc n" for m
        using that Cons w Inr n by (cases m) (auto split: poll.split)
      then show ?thesis by blast
    qed
  qed
qed

text \<open>
  C10. The wake-up loop of the event loop ends. Whatever requests are woken and whatever they wake in
  turn, the loop runs only finitely many of them: each wake-up that wakes others completes the exit of a
  process, and a process exits once.
\<close>

theorem run_awoken_terminates: "\<exists>n. \<forall>m. run_awoken (n + m) x out s \<noteq> None"
  using run_awoken_enough[of x out s] le_add1 by blast

section \<open>What the wait map promises and where the code misses it\<close>

text \<open>
  C26. The wait map of a process is a finite map. In a well-formed map, recording a status makes it the
  status of exactly this process, taking an entry out by process number removes exactly this process,
  appending another map overrides with its entries, and a lookup by process number finds exactly what is
  recorded.
\<close>

theorem wait_map_refines_finite_map:
  assumes "wm_ok m" and "wm_ok m'"
  shows "wm_status (bt_insert waitpid_key_cmp (stored_key p g) (p, st) m) = (wm_status m)(p \<mapsto> st) \<and>
         wm_status (bt_remove waitpid_key_cmp (key_of_pid p) m) = (wm_status m)(p := None) \<and>
         wm_status (bt_append waitpid_key_cmp m m') = wm_status m ++ wm_status m' \<and>
         map_option snd (bt_get waitpid_key_cmp (key_of_pid p) m) = map_option (Pair p) (wm_status m p)"
  using assms wm_get_pid[OF assms(1), of "key_of_pid p" p] by (simp add: wm_simps)

theorem wait_map_refines_finite_map_witness:
  "wm_status (bt_insert waitpid_key_cmp (stored_key 5 2) (5, Continued) [(stored_key 3 2, 3, WStopped 19)]) 5 = Some Continued"
  using wait_map_refines_finite_map[of "[(stored_key 3 2, 3, WStopped 19)]" "[]" 5 2 Continued]
  by (simp add: wm_ok_def wm_key_ok_def)

text \<open>
  A lookup by process group can miss an entry that is there. The map is sorted by process number;
  with entries for process 3 of group 7 and process 4 of group 2, a wait for any member of group 2 finds
  nothing, blocks, and the order of the keys is not transitive.
\<close>

theorem wait_by_group_misses_entry:
  "wm_ok [(stored_key 3 7, 3, Terminated None 1), (stored_key 4 2, 4, Terminated None 2)] \<and>
   bt_get waitpid_key_cmp (key_of_pgid 2) [(stored_key 3 7, 3, Terminated None 1), (stored_key 4 2, 4, Terminated None 2)] = None \<and>
   waitpid_key_cmp (key_of_pgid 2) (stored_key 4 2) = Equal \<and>
   waitpid_key_cmp (key_of_pgid 2) (stored_key 3 7) = Less \<and>
   waitpid_key_cmp (stored_key 3 7) (stored_key 4 2) = Less"
  by (simp add: wm_ok_def wm_key_ok_def waitpid_key_cmp_def lin_cmp_def)

text \<open>
  C38. A wait for any child that does not ask for stopped children drops its request when it meets the
  entry of a stopped child: the entry is taken out, the caller is told to wait, and its request is not
  among the waiters of the process, so the status change of another child does not wake it.
\<close>

theorem wait_drops_request:
  assumes "proc_of s q = Some pr" and "p_waitpid pr = (k, c, WStopped g) # rest" and "has_child q s"
    and "waitpid_key_cmp k k = Equal" and "\<not> wuntraced flags" and "v \<notin> set (waiters s q)"
  shows "\<exists>t. on_waitpid q AnyChild flags v s = (Pending, t) \<and> v \<notin> set (waiters t q) \<and>
             map_option p_waitpid (proc_of t q) = Some rest"
proof -
  have "on_waitpid q AnyChild flags v s = (Pending, set_waitpid q rest s)"
    using assms by (simp add: on_waitpid_def take_entry_def bt_first_def grim_reaper_def)
  then show ?thesis using assms by (simp add: set_waitpid_proc waiters_def)
qed

definition stop0 :: proc_scheme where
  "stop0 = upd_proc 2 (\<lambda>q. q\<lparr>p_waitpid := [(stored_key 3 3, 3, WStopped 19)]\<rparr>) pm0"

theorem wait_drops_request_witness:
  "\<exists>t. on_waitpid 2 AnyChild plain_wait (KernelId 8) stop0 = (Pending, t) \<and> KernelId 8 \<notin> set (waiters t 2)"
proof -
  have "proc_of stop0 2 = Some ((proc0 2 1 2 2 1000)\<lparr>p_waitpid_waiting := [KernelId 7], p_waitpid := [(stored_key 3 3, 3, WStopped 19)]\<rparr>)"
    by (simp add: stop0_def pm_frame)
  moreover have "has_child 2 stop0" by (simp add: has_child_def stop0_def upd_proc_def pm0_def)
  ultimately show ?thesis
    using wait_drops_request[of stop0 2 _ "stored_key 3 3" 3 19 "[]" plain_wait "KernelId 8"]
    by (auto simp: waiters_def waitpid_key_cmp_def lin_cmp_def)
qed

lemma recorded_sig_frame:
  assumes "pm_inv s" and "sig_frame s t" and "recorded t q d = Some (Terminated g c)"
  shows "recorded s q d = Some (Terminated g c)"
proof -
  obtain pr where pr: "proc_of t q = Some pr" "wm_status (p_waitpid pr) d = Some (Terminated g c)"
    using recorded_proc[OF assms(3)] by blast
  with assms(2) obtain pr0 where p0: "proc_of s q = Some pr0" "sig_proc_rel pr0 pr"
    unfolding sig_frame_def by (metis option_rel_Some2)
  then have "no_new_term (p_waitpid pr0) (p_waitpid pr)"
    using pm_invD(4)[OF assms(1) p0(1)] by (simp add: sig_proc_rel_def)
  with pr p0 show ?thesis by (simp add: no_new_term_def recorded_def)
qed

lemma transfer_recorded:
  assumes "pm_inv s" and "recorded (fold transfer_child cs s) INIT_PID d = Some st"
  shows "\<exists>q\<in>insert INIT_PID (set cs). recorded s q d = Some st"
  using assms
proof (induction cs arbitrary: s)
  case (Cons c cs)
  then obtain q where q: "q \<in> insert INIT_PID (set cs)" "recorded (transfer_child c s) q d = Some st"
    using transfer_child_inv by fastforce
  show ?case
  proof (cases "proc_of s c")
    case (Some child)
    obtain pr where pr: "proc_of (transfer_child c s) q = Some pr" "wm_status (p_waitpid pr) d = Some st"
      using recorded_proc[OF q(2)] by blast
    then obtain pr0 where p0: "proc_of s q = Some pr0"
      by (auto simp: transfer_child_def Some pm_frame split: if_splits)
    have ok: "wm_ok (p_waitpid child)" "wm_ok (p_waitpid pr0)" using pm_invD(4)[OF Cons.prems(1)] Some p0 by blast+
    have "wm_status (p_waitpid pr0) d = Some st \<or> wm_status (p_waitpid child) d = Some st"
      using pr p0 Some ok by (auto simp: transfer_child_def pm_frame wm_append_status map_add_def wm_status_def[of "[]"]
          split: if_splits option.splits)
    then have "recorded s q d = Some st \<or> recorded s c d = Some st" using Some p0 by (simp add: recorded_def)
    with q(1) show ?thesis by auto
  qed (use q in \<open>auto simp: transfer_child_def\<close>)
qed simp


definition zomb1 :: proc_scheme where
  "zomb1 = upd_proc 2 (\<lambda>q. q\<lparr>p_waitpid := [(stored_key 3 3, 3, Terminated None 5)]\<rparr>) zomb0"


section \<open>Fork, sessions and credentials\<close>

text \<open>
  C11. Fork. When the kernel gives a context, the child has a process number no process had, is a runnable
  child of the caller with one fresh thread, with the caller's group, session, credentials, name and
  priority, but with no signal page, no queued signals and nothing to wait for; it joins the caller's
  group, and no other process changes.
\<close>

theorem fork_child:
  assumes inv: "pm_inv s" and p: "proc_of s p = Some parent"
    and kernel: "new_context x = Inr fd" "dup_status x fd = Inr sfd" "subscribe_ok x fd"
  shows "\<exists>t. fork x p s = ok (next_id s) t \<and> proc_of s (next_id s) = None \<and>
    (\<forall>q. q \<noteq> next_id s \<longrightarrow> proc_of t q = proc_of s q) \<and>
    proc_of t (next_id s) =
      Some (parent\<lparr>p_threads := [\<lparr>t_tid = next_tid s, t_fd = fd, status_hndl = sfd, t_pid = next_id s, sig_ctrl = None\<rparr>],
              p_pid := next_id s, p_ppid := p, p_status := PossiblyRunnable, p_disabled_setpgid := False,
              p_awaiting_threads_term := [], p_waitpid := [], p_waitpid_waiting := [], p_sig_pctl := None, p_rtqs := []\<rparr>) \<and>
    members (groups t) (p_pgid parent) = insert (next_id s) (members (groups s) (p_pgid parent)) \<and>
    next_id t = Suc (next_id s)"
proof -
  obtain ps where ps: "group_of s (p_pgid parent) = Some ps" using inv p by (rule pm_inv_group_of_proc)
  note f = fork_ok[OF inv p kernel ps]
  show ?thesis
    unfolding f using ps pm_inv_fresh[OF inv]
    by (auto simp: proc_of_def alist_simps child_of_def members_def group_of_def)
qed

theorem fork_child_witness:
  "\<exists>t. fork ext0 2 pm0 = ok 5 t \<and> ppid_of t 5 = Some 2"
proof -
  have k: "new_context ext0 = Inr 80" "dup_status ext0 80 = Inr 81" "subscribe_ok ext0 80" by (simp_all add: ext0_def)
  from fork_child[OF pm0_inv pm0_procs(3) k] obtain t where
      "fork ext0 2 pm0 = ok 5 t" "map_option p_ppid (proc_of t 5) = Some 2" by auto
  then show ?thesis by (auto simp: ppid_of_def)
qed

text \<open>
  C12. A process without privilege cannot gain one by \<open>setresugid\<close>: after a successful call its user
  identifiers are among the three it had, its group identifiers are among the three it had, and no other
  process changes. Only an effective user 0 sets anything else.
\<close>

theorem setresugid_no_escalation:
  assumes "proc_of s p = Some pr" and "p_euid pr \<noteq> 0" and "on_setresugid x p raw s = (Inr (), t)"
  shows "\<exists>pr'. proc_of t p = Some pr' \<and>
           {p_ruid pr', p_euid pr', p_suid pr'} \<subseteq> {p_ruid pr, p_euid pr, p_suid pr} \<and>
           {p_rgid pr', p_egid pr', p_sgid pr'} \<subseteq> {p_rgid pr, p_egid pr, p_sgid pr} \<and>
           (\<forall>q. q \<noteq> p \<longrightarrow> proc_of t q = proc_of s q)"
proof -
  obtain ids where ids: "raw = Some ids" "length ids = 6"
      "ids_allowed (take 3 (map id_opt ids)) [p_ruid pr, p_euid pr, p_suid pr]"
      "ids_allowed (drop 3 (map id_opt ids)) [p_rgid pr, p_egid pr, p_sgid pr]"
      "t = sync_logged x p (upd_proc p (set_ids (map id_opt ids)) s)"
    using assms by (auto simp: on_setresugid_def Let_def split: option.splits if_splits)
  from ids(2) obtain a b c d e f where abc: "ids = [a, b, c, d, e, f]"
    by (auto simp: length_Suc_conv numeral_eq_Suc)
  have "proc_of t = proc_of (upd_proc p (set_ids (map id_opt ids)) s)"
    by (simp add: ids(5) sync_logged_def fun_eq_iff split: option.split)
  with assms(1) ids(3,4) show ?thesis
    unfolding abc by (auto simp: pm_frame set_ids_def new_or_def ids_allowed_def numeral_3_eq_3 split: option.splits)
qed

theorem setresugid_no_escalation_witness:
  "\<exists>t pr. on_setresugid ext0 2 (Some [1000, 1000, 1000, 1000, 1000, 1000]) pm0 = (Inr (), t) \<and> proc_of t 2 = Some pr \<and> p_euid pr = 1000"
proof -
  obtain t where t: "on_setresugid ext0 2 (Some [1000, 1000, 1000, 1000, 1000, 1000]) pm0 = (Inr (), t)"
    by (simp add: on_setresugid_def ids_allowed_def id_opt_def Let_def)
  from setresugid_no_escalation[OF pm0_procs(3) _ t] show ?thesis using t by auto
qed

text \<open>
  C25. A process that is not a group leader and not its own parent, and whose number no other process
  uses as its group, becomes with \<open>setsid\<close> the leader of a new session and the only member of a new group,
  and it leaves its old group.
\<close>

theorem setsid_new_session:
  assumes inv: "pm_inv s" and p: "proc_of s p = Some pr" and lone: "members (groups s) p = {}"
    and parent: "p_ppid pr \<noteq> p"
  shows "\<exists>t pr'. on_setsid p s = (Inr (), t) \<and> proc_of t p = Some pr' \<and> p_sid pr' = p \<and> p_pgid pr' = p \<and>
           members (groups t) p = {p} \<and>
           members (groups t) (p_pgid pr) = members (groups s) (p_pgid pr) - {p}"
proof -
  note mem = pm_inv_members[OF inv]
  have ne: "p_pgid pr \<noteq> p" using lone p unfolding mem by auto
  have "\<not> list_ex (\<lambda>(q, qr). q \<noteq> p \<and> p_pgid qr = p) (processes s)"
  proof
    assume "list_ex (\<lambda>(q, qr). q \<noteq> p \<and> p_pgid qr = p) (processes s)"
    then obtain q qr where "(q, qr) \<in> set (processes s)" "p_pgid qr = p" by (auto simp: list_ex_iff)
    then have "proc_of s q = Some qr" using inv by (auto simp: proc_of_def pm_inv_def procs_ok_def)
    with \<open>p_pgid qr = p\<close> lone show False unfolding mem by auto
  qed
  moreover obtain ps where ps: "group_of s (p_pgid pr) = Some ps" using inv p by (rule pm_inv_group_of_proc)
  ultimately show ?thesis
    using p ne parent lone
    by (auto simp: on_setsid_def set_pgid_eq[OF inv p] Let_def move_group_def pm_frame wake_parent_def wake_waiters_def
        enter_group_members leave_group_members group_of_def split: option.splits)
qed

theorem setsid_new_session_witness:
  "\<exists>t. on_setsid 5 (snd (fork ext0 2 pm0)) = (Inr (), t) \<and> members (groups t) 5 = {5}"
proof -
  let ?s = "snd (fork ext0 2 pm0)"
  have k: "new_context ext0 = Inr 80" "dup_status ext0 80 = Inr 81" "subscribe_ok ext0 80" by (simp_all add: ext0_def)
  have ps: "group_of pm0 (p_pgid ((proc0 2 1 2 2 1000)\<lparr>p_waitpid_waiting := [KernelId 7]\<rparr>)) = Some [2]" by simp
  note f = fork_ok[OF pm0_inv pm0_procs(3) k ps]
  obtain pr where pr: "proc_of ?s 5 = Some pr" "p_ppid pr = 2"
    unfolding f by (simp add: proc_of_def child_of_def)
  have "members (groups ?s) 5 = {}" unfolding f by (simp add: members_def pm0_def)
  from setsid_new_session[OF fork_inv[OF pm0_inv] pr(1) this] pr(2) show ?thesis by fastforce
qed

end
