(* ===== verification/Bytes.thy ===== *)
theory Bytes
  imports Prelude
begin

text \<open>
  Words as bytes. The machines the system runs on are little-endian, so \<open>to_ne_bytes\<close>, \<open>to_le_bytes\<close> and
  the field order of packed structures are all the encoding of this theory.
\<close>

section \<open>Definitions\<close>

definition le_bytes :: "nat \<Rightarrow> 'a::len word \<Rightarrow> bytes" where
  "le_bytes n w = map (\<lambda>i. ucast (drop_bit (8 * i) w)) [0..<n]"

primrec le_nat :: "bytes \<Rightarrow> nat" where
  "le_nat [] = 0"
| "le_nat (b # bs) = unat b + 256 * le_nat bs"

definition le_word :: "bytes \<Rightarrow> 'a::len word" where
  "le_word bs = of_nat (le_nat bs)"

text \<open>Big-endian, the order of network headers.\<close>

definition be_bytes :: "nat \<Rightarrow> 'a::len word \<Rightarrow> bytes" where
  "be_bytes n w = rev (le_bytes n w)"

definition be_word :: "bytes \<Rightarrow> 'a::len word" where
  "be_word bs = le_word (rev bs)"

section \<open>Round trips\<close>

lemma length_le_bytes [simp]: "length (le_bytes n w) = n"
  by (simp add: le_bytes_def)

lemma length_be_bytes [simp]: "length (be_bytes n w) = n"
  by (simp add: be_bytes_def)

lemma le_bytes_Suc: "le_bytes (Suc n) w = ucast w # le_bytes n (drop_bit 8 w)"
  by (simp add: le_bytes_def upt_conv_Cons map_Suc_upt[symmetric] del: upt_Suc) (simp add: add.commute)

lemma unat_low_byte: "unat (ucast (w :: 'a::len word) :: u8) = unat w mod 256"
  by (simp add: unsigned_ucast_eq take_bit_eq_mod)

lemma unat_high_bytes: "unat (drop_bit 8 (w :: 'a::len word)) = unat w div 256"
  by (simp add: unat_drop_bit_eq drop_bit_eq_div[where ?'a = nat])

lemma le_nat_le_bytes: "le_nat (le_bytes n w) = unat w mod 256 ^ n"
proof (induction n arbitrary: w)
  case 0
  then show ?case by (simp add: le_bytes_def)
next
  case (Suc n)
  then show ?case by (simp add: le_bytes_Suc unat_low_byte unat_high_bytes mod_mult2_eq)
qed

lemma le_word_bytes:
  fixes w :: "'a::len word"
  assumes "LENGTH('a) \<le> 8 * n"
  shows "le_word (le_bytes n w) = w"
proof -
  have "unat w < 2 ^ LENGTH('a)" by (rule unsigned_less)
  also have "\<dots> \<le> 256 ^ n" using power_increasing[OF assms, of "2 :: nat"] by (simp add: power_mult)
  finally show ?thesis by (simp add: le_word_def le_nat_le_bytes)
qed

lemma be_word_bytes: "LENGTH('a) \<le> 8 * n \<Longrightarrow> be_word (be_bytes n w) = (w :: 'a::len word)"
  by (simp add: be_word_def be_bytes_def le_word_bytes)

lemma le_nat_less: "le_nat bs < 256 ^ length bs"
proof (induction bs)
  case (Cons b bs)
  have "unat b < 256" using unsigned_less[of b, where 'a = nat] by simp
  with Cons show ?case by simp
qed simp

lemma le_bytes_word:
  assumes "8 * length bs \<le> LENGTH('a)"
  shows "le_bytes (length bs) (le_word bs :: 'a::len word) = bs"
  using assms
proof (induction bs)
  case Nil
  then show ?case by (simp add: le_bytes_def)
next
  case (Cons b bs)
  have "(256 :: nat) ^ length (b # bs) \<le> 2 ^ LENGTH('a)"
    using power_increasing[OF Cons.prems, of "2 :: nat"] by (simp add: power_mult power_add)
  then have u: "unat (le_word (b # bs) :: 'a word) = unat b + 256 * le_nat bs"
    using le_nat_less[of "b # bs"] unfolding le_word_def unat_of_nat by simp
  have lb: "unat b < 256" using unsigned_less[of b, where 'a = nat] by simp
  have "(256 :: nat) ^ length bs \<le> 256 ^ length (b # bs)" by simp
  then have u': "unat (le_word bs :: 'a word) = le_nat bs"
    using le_nat_less[of bs] \<open>256 ^ length (b # bs) \<le> 2 ^ LENGTH('a)\<close> by (simp add: le_word_def unat_of_nat)
  have "unat (ucast (le_word (b # bs) :: 'a word) :: u8) = unat b" using lb by (simp add: unat_low_byte u)
  then have 1: "(ucast (le_word (b # bs) :: 'a word) :: u8) = b" by (simp add: word_unat_eq_iff)
  have "unat (drop_bit 8 (le_word (b # bs) :: 'a word)) = unat (le_word bs :: 'a word)"
    using lb by (simp add: unat_high_bytes u u')
  then have "drop_bit 8 (le_word (b # bs) :: 'a word) = le_word bs" by (simp add: word_unat_eq_iff)
  with 1 Cons show ?case by (simp add: le_bytes_Suc)
qed

end
