(* ===== verification/Namespace.thy ===== *)
theory Namespace
  imports Bytes Utf8 "HOL-Library.Sublist"
begin

text \<open>
  The namespace manager (\<open>bootstrap/src/initnsmgr.rs\<close>): a namespace maps names of schemes to descriptors, and
  programs only reach schemes through a handle on a namespace. A handle carries permissions; it can be
  narrowed, it can be used to make a new namespace out of a part of the old one, and it can give out a
  capability to register one name.

  Namespaces are shared between handles (\<open>Rc\<close>), so they live in a store. Parameters (\<open>nsx\<close>): the bits of the
  permissions and the numbers of the requests (\<open>libredox\<close>), how a path is split and which names of schemes are
  valid (\<open>redox_path\<close>), and the kernel's answers to the calls the manager makes on descriptors.
\<close>

unbundle bit_operations_syntax

section \<open>Definitions\<close>

datatype ns_dup_kind = ForkNs | ShrinkPermissions | IssueRegister

record nsx =
  nx_ALL :: u64
  nx_LIST :: u64
  nx_INSERT :: u64
  nx_DELETE :: u64
  nx_SCHEME_CREATE :: u64
  nx_kind :: "u64 \<Rightarrow> ns_dup_kind option"
  nx_kind_size :: nat
  nx_parts :: "bytes \<Rightarrow> (bytes \<times> bytes) option"
  nx_scheme :: "bytes \<Rightarrow> bytes option"
  nx_dup :: "u64 \<Rightarrow> errno + u64"
  nx_openat :: "u64 \<Rightarrow> bytes \<Rightarrow> u64 \<Rightarrow> u32 \<Rightarrow> u32 \<times> u32 \<Rightarrow> errno + u64"
  nx_unlinkat :: "u64 \<Rightarrow> bytes \<Rightarrow> u64 \<Rightarrow> u32 \<times> u32 \<Rightarrow> errno + unit"
  nx_dirent_fits :: "(bytes \<times> u64) list \<Rightarrow> bytes \<times> u64 \<Rightarrow> errno option"
  nx_MODE_DIR :: u16
  nx_MODE_FILE :: u16

subsection \<open>Namespaces\<close>

type_synonym namespace = "(bytes \<times> u64) list"

definition read_num :: "bytes \<Rightarrow> errno + u64" where
  "read_num buf = (if length buf \<ge> 8 then Inr (le_word (take 8 buf)) else Inl EINVAL)"

text \<open>A name that ends in a star stands for all registered names that start with the rest of it.\<close>

definition fork_name :: "namespace \<Rightarrow> bytes \<Rightarrow> namespace \<Rightarrow> namespace" where
  "fork_name schemes name acc =
     (if name \<noteq> [] \<and> last name = 0x2a
      then fold (\<lambda>(n, fd) acc. if prefix (butlast name) n then AList.update n fd acc else acc) schemes acc
      else case map_of schemes name of None \<Rightarrow> acc | Some fd \<Rightarrow> AList.update name fd acc)"

text \<open>
  The loop over the buffer, on what is left of it: each name comes after its length. A length that reaches
  past the end of the buffer is a slice out of range.
\<close>

function fork_loop :: "namespace \<Rightarrow> bytes \<Rightarrow> namespace \<Rightarrow> fault + namespace" where
  "fork_loop schemes buf acc =
     (if buf = [] then Inr acc
      else
        case read_num buf of
          Inl e \<Rightarrow> Inl (Errno e)
        | Inr len \<Rightarrow>
           if unat len > length buf - 8 then Inl Panic
           else
             let name = take (unat len) (drop 8 buf) in
             if \<not> utf8_valid name then Inl (Errno EINVAL)
             else fork_loop schemes (drop (8 + unat len) buf) (fork_name schemes name acc))"
  by pat_completeness auto
termination
  by (relation "measure (\<lambda>(_, buf, _). length buf)") (auto simp: read_num_def split: if_splits)

declare fork_loop.simps [simp del]


definition ns_fork :: "namespace \<Rightarrow> bytes \<Rightarrow> fault + namespace" where
  "ns_fork schemes buf = fork_loop schemes buf []"

subsection \<open>The scheme\<close>

record ns_access =
  na_namespace :: nat
  na_permission :: u64

definition has_permission :: "ns_access \<Rightarrow> u64 \<Rightarrow> bool" where
  "has_permission a p \<longleftrightarrow> na_permission a AND p = p"

record scheme_register =
  sr_target :: nat
  sr_name :: bytes

datatype nhandle = NAccess ns_access | NRegister scheme_register | NList ns_access

record nsmgr =
  ns_handles :: "(u64 \<times> nhandle) list"
  ns_store :: "(nat \<times> namespace) list"
  ns_store_next :: nat
  ns_root :: namespace
  ns_next_id :: u64
  ns_creation_cap :: u64

definition nsmgr_new :: "namespace \<Rightarrow> u64 \<Rightarrow> nsmgr" where
  "nsmgr_new schemes cap =
     \<lparr>ns_handles = [], ns_store = [], ns_store_next = 0, ns_root = schemes, ns_next_id = 0, ns_creation_cap = cap\<rparr>"

text \<open>The schemes of a namespace in the store.\<close>

definition schemes_of :: "nsmgr \<Rightarrow> nat \<Rightarrow> namespace" where
  "schemes_of s a = (case map_of (ns_store s) a of None \<Rightarrow> [] | Some ns \<Rightarrow> ns)"

definition add_namespace :: "u64 \<Rightarrow> namespace \<Rightarrow> u64 \<Rightarrow> nsmgr \<Rightarrow> nsmgr" where
  "add_namespace i schemes perm s =
     (let a = ns_store_next s in
      s\<lparr>ns_store := AList.update a schemes (ns_store s), ns_store_next := Suc a,
        ns_handles := AList.update i (NAccess \<lparr>na_namespace = a, na_permission = perm\<rparr>) (ns_handles s)\<rparr>)"

definition get_ns_access :: "u64 \<Rightarrow> nsmgr \<Rightarrow> ns_access option" where
  "get_ns_access i s = (case map_of (ns_handles s) i of Some (NAccess a) \<Rightarrow> Some a | _ \<Rightarrow> None)"

definition ns_register :: "scheme_register \<Rightarrow> u64 \<Rightarrow> nsmgr \<Rightarrow> (unit, nsmgr) outcome" where
  "ns_register r fd s =
     (let ns = schemes_of s (sr_target r) in
      if map_of ns (sr_name r) \<noteq> None then fail EEXIST s
      else ok () (s\<lparr>ns_store := AList.update (sr_target r) (AList.update (sr_name r) fd ns) (ns_store s)\<rparr>))"

definition open_namespace_resource :: "nsx \<Rightarrow> ns_access \<Rightarrow> bytes \<Rightarrow> nsmgr \<Rightarrow> errno + u64" where
  "open_namespace_resource x a reference s =
     (if reference = map (of_nat \<circ> of_char) ''scheme-creation-cap'' then
        (if \<not> has_permission a (nx_SCHEME_CREATE x) then Inl EACCES else nx_dup x (ns_creation_cap s))
      else Inl EINVAL)"

definition open_scheme_resource ::
  "nsx \<Rightarrow> namespace \<Rightarrow> bytes \<Rightarrow> bytes \<Rightarrow> u64 \<Rightarrow> u32 \<Rightarrow> u32 \<times> u32 \<Rightarrow> errno + u64" where
  "open_scheme_resource x ns scheme reference flags fcntl_flags ctx =
     (case map_of ns scheme of None \<Rightarrow> Inl ENODEV | Some cap_fd \<Rightarrow> nx_openat x cap_fd reference flags fcntl_flags ctx)"

definition fork_namespace :: "nsx \<Rightarrow> nat \<Rightarrow> bytes \<Rightarrow> nsmgr \<Rightarrow> (u64, nsmgr) outcome" where
  "fork_namespace x a names s =
     (case ns_fork (schemes_of s a) names of
        Inl f \<Rightarrow> (Inl f, s)
      | Inr ns \<Rightarrow>
         let i = ns_next_id s in
         ok i ((add_namespace i ns (nx_ALL x AND NOT (nx_SCHEME_CREATE x)) s)\<lparr>ns_next_id := i + 1\<rparr>))"

definition shrink_permissions :: "ns_access \<Rightarrow> u64 \<Rightarrow> nsmgr \<Rightarrow> (u64, nsmgr) outcome" where
  "shrink_permissions a perm s =
     (let i = ns_next_id s in
      ok i (s\<lparr>ns_handles := AList.update i (NAccess (a\<lparr>na_permission := na_permission a AND perm\<rparr>)) (ns_handles s), ns_next_id := i + 1\<rparr>))"

datatype ns_open_result = ThisScheme u64 | OtherScheme u64

definition ns_openat :: "nsx \<Rightarrow> u64 \<Rightarrow> bytes \<Rightarrow> u64 \<Rightarrow> u32 \<Rightarrow> u32 \<times> u32 \<Rightarrow> nsmgr \<Rightarrow> (ns_open_result, nsmgr) outcome" where
  "ns_openat x fd path flags fcntl_flags ctx s =
     (let other = (\<lambda>r. case r of Inl e \<Rightarrow> fail e s | Inr f \<Rightarrow> ok (OtherScheme f) s) in
      case get_ns_access fd s of
        None \<Rightarrow> fail ENOENT s
      | Some a \<Rightarrow>
         (case nx_parts x path of
            None \<Rightarrow> fail EINVAL s
          | Some (scheme, reference) \<Rightarrow>
             if scheme = map (of_nat \<circ> of_char) ''namespace'' then other (open_namespace_resource x a reference s)
             else if scheme = [] then
               (if \<not> has_permission a (nx_LIST x) then fail EACCES s
                else
                  let i = ns_next_id s in
                  ok (ThisScheme i) (s\<lparr>ns_next_id := i + 1, ns_handles := AList.update i (NList a) (ns_handles s)\<rparr>))
             else other (open_scheme_resource x (schemes_of s (na_namespace a)) scheme reference flags fcntl_flags ctx)))"

definition issue_register :: "nsx \<Rightarrow> ns_access \<Rightarrow> bytes \<Rightarrow> nsmgr \<Rightarrow> (u64, nsmgr) outcome" where
  "issue_register x a payload s =
     (if \<not> utf8_valid payload then fail EINVAL s
      else
        case nx_scheme x payload of
          None \<Rightarrow> fail EINVAL s
        | Some name \<Rightarrow>
           if \<not> has_permission a (nx_INSERT x) then fail EACCES s
           else
             let i = ns_next_id s in
             ok i (s\<lparr>ns_handles := AList.update i (NRegister \<lparr>sr_target = na_namespace a, sr_name = name\<rparr>) (ns_handles s), ns_next_id := i + 1\<rparr>))"

text \<open>The payload is what follows the size of a \<open>NsDup\<close>; a shorter buffer is a slice out of range.\<close>

definition ns_dup :: "nsx \<Rightarrow> u64 \<Rightarrow> bytes \<Rightarrow> nsmgr \<Rightarrow> (u64, nsmgr) outcome" where
  "ns_dup x i buf s =
     (case get_ns_access i s of
        None \<Rightarrow> fail ENOENT s
      | Some a \<Rightarrow>
         (case read_num buf of
            Inl e \<Rightarrow> fail e s
          | Inr raw \<Rightarrow>
             (case nx_kind x raw of
                None \<Rightarrow> fail EINVAL s
              | Some kind \<Rightarrow>
                 if length buf < nx_kind_size x then panic s
                 else
                   let payload = drop (nx_kind_size x) buf in
                   case kind of
                     ForkNs \<Rightarrow> fork_namespace x (na_namespace a) payload s
                   | ShrinkPermissions \<Rightarrow>
                       (case read_num payload of
                          Inl e \<Rightarrow> fail e s
                        | Inr bits \<Rightarrow> shrink_permissions a (bits AND nx_ALL x) s)
                   | IssueRegister \<Rightarrow> issue_register x a payload s)))"

definition ns_unlinkat :: "nsx \<Rightarrow> u64 \<Rightarrow> bytes \<Rightarrow> u64 \<Rightarrow> u32 \<times> u32 \<Rightarrow> nsmgr \<Rightarrow> (unit, nsmgr) outcome" where
  "ns_unlinkat x fd path flags ctx s =
     (case get_ns_access fd s of
        None \<Rightarrow> fail ENOENT s
      | Some a \<Rightarrow>
         (case nx_parts x path of
            None \<Rightarrow> fail EINVAL s
          | Some (scheme, reference) \<Rightarrow>
             (let ns = schemes_of s (na_namespace a) in
              if reference = [] then
                (if \<not> has_permission a (nx_DELETE x) then fail EACCES s
                 else if map_of ns scheme = None then fail ENODEV s
                 else ok () (s\<lparr>ns_store := AList.update (na_namespace a) (AList.delete scheme ns) (ns_store s)\<rparr>))
              else
                case map_of ns scheme of
                  None \<Rightarrow> fail ENODEV s
                | Some cap_fd \<Rightarrow> (case nx_unlinkat x cap_fd reference flags ctx of Inl e \<Rightarrow> fail e s | Inr _ \<Rightarrow> ok () s))))"

definition ns_on_close :: "u64 \<Rightarrow> nsmgr \<Rightarrow> nsmgr" where
  "ns_on_close i s = s\<lparr>ns_handles := AList.delete i (ns_handles s)\<rparr>"

text \<open>\<open>got\<close> is the descriptor the kernel hands over, or its error.\<close>

definition ns_on_sendfd :: "u64 \<Rightarrow> nat \<Rightarrow> errno + u64 \<Rightarrow> nsmgr \<Rightarrow> (nat, nsmgr) outcome" where
  "ns_on_sendfd i num_fds got s =
     (case map_of (ns_handles s) i of
        None \<Rightarrow> fail ENOENT s
      | Some (NRegister r) \<Rightarrow>
         if num_fds = 0 then ok 0 s
         else if num_fds > 1 then fail EINVAL s
         else
           (case got of
              Inl e \<Rightarrow> fail e s
            | Inr fd \<Rightarrow> (case ns_register r fd s of (Inl f, t) \<Rightarrow> (Inl f, t) | (Inr _, t) \<Rightarrow> ok num_fds t))
      | Some _ \<Rightarrow> fail EACCES s)"

text \<open>The loop of \<open>getdents\<close> from entry \<open>i\<close> on; \<open>start\<close> is the first entry asked for.\<close>

fun ns_dirents :: "nsx \<Rightarrow> nat \<Rightarrow> nat \<Rightarrow> (bytes \<times> u64) list \<Rightarrow> bytes list \<Rightarrow> errno + (bytes \<times> u64) list" where
  "ns_dirents x start i buf [] = Inr buf"
| "ns_dirents x start i buf (name # names) =
     (if name = [] then ns_dirents x start (Suc i) buf names
      else
        case nx_dirent_fits x buf (name, of_nat i + 1) of
          Some e \<Rightarrow> if e = EINVAL \<and> i > start then Inr buf else Inl e
        | None \<Rightarrow> ns_dirents x start (Suc i) (buf @ [(name, of_nat i + 1)]) names)"

definition ns_getdents :: "nsx \<Rightarrow> u64 \<Rightarrow> (bytes \<times> u64) list \<Rightarrow> u64 \<Rightarrow> nsmgr \<Rightarrow> errno + (bytes \<times> u64) list" where
  "ns_getdents x i buf opaque_offset s =
     (case map_of (ns_handles s) i of
        None \<Rightarrow> Inl EBADF
      | Some (NList a) \<Rightarrow>
         if \<not> has_permission a (nx_LIST x) then Inl EACCES
         else ns_dirents x (unat opaque_offset) (unat opaque_offset) buf
                (drop (unat opaque_offset) (map fst (schemes_of s (na_namespace a))))
      | Some _ \<Rightarrow> Inl ENOTDIR)"

text \<open>The mode of the \<open>Stat\<close>; its other fields are zero.\<close>

definition ns_fstat :: "nsx \<Rightarrow> u64 \<Rightarrow> nsmgr \<Rightarrow> errno + u16" where
  "ns_fstat x i s =
     (case map_of (ns_handles s) i of
        None \<Rightarrow> Inl EBADF
      | Some (NList _) \<Rightarrow> Inr (0x124 OR nx_MODE_DIR x)
      | Some _ \<Rightarrow> Inr (0x1b6 OR nx_MODE_FILE x))"

text \<open>The start of \<open>run\<close>: the first handle has all permissions on a namespace with the given schemes.\<close>

definition ns_start :: "nsx \<Rightarrow> namespace \<Rightarrow> u64 \<Rightarrow> nsmgr" where
  "ns_start x schemes cap =
     (let s = nsmgr_new schemes cap; i = ns_next_id s in (add_namespace i (ns_root s) (nx_ALL x) s)\<lparr>ns_next_id := i + 1\<rparr>)"

text \<open>One turn of the loop of \<open>run\<close>: a request to the manager, and the manager after it.\<close>

datatype ns_request =
    NsOpenat u64 bytes u64 u32 "u32 \<times> u32"
  | NsDup u64 bytes
  | NsUnlinkat u64 bytes u64 "u32 \<times> u32"
  | NsGetdents u64 "(bytes \<times> u64) list" u64
  | NsFstat u64
  | NsOnClose u64
  | NsSendFd u64 nat "errno + u64"

primrec ns_handle_request :: "nsx \<Rightarrow> ns_request \<Rightarrow> nsmgr \<Rightarrow> (unit, nsmgr) outcome" where
  "ns_handle_request x (NsOpenat fd path flags fcntl_flags ctx) s =
     bind_out (ns_openat x fd path flags fcntl_flags ctx s) (\<lambda>_. ok ())"
| "ns_handle_request x (NsDup i buf) s = bind_out (ns_dup x i buf s) (\<lambda>_. ok ())"
| "ns_handle_request x (NsUnlinkat fd path flags ctx) s = ns_unlinkat x fd path flags ctx s"
| "ns_handle_request x (NsGetdents i buf offset) s = (case ns_getdents x i buf offset s of Inl e \<Rightarrow> fail e s | Inr _ \<Rightarrow> ok () s)"
| "ns_handle_request x (NsFstat i) s = (case ns_fstat x i s of Inl e \<Rightarrow> fail e s | Inr _ \<Rightarrow> ok () s)"
| "ns_handle_request x (NsOnClose i) s = ok () (ns_on_close i s)"
| "ns_handle_request x (NsSendFd i n got) s = bind_out (ns_on_sendfd i n got s) (\<lambda>_. ok ())"

text \<open>The loop: errors go back to the caller, a panic ends the manager.\<close>

fun ns_run :: "nsx \<Rightarrow> ns_request list \<Rightarrow> nsmgr \<Rightarrow> nsmgr option" where
  "ns_run x [] s = Some s"
| "ns_run x (q # qs) s =
     (case ns_handle_request x q s of
        (Inl Panic, _) \<Rightarrow> None
      | (_, t) \<Rightarrow> ns_run x qs t)"

end
