(* ===== verification/Namespace_Props.thy ===== *)
theory Namespace_Props
  imports Namespace
begin

text \<open>
  What the namespace manager guarantees: which handles a request can create out of which, who can change the
  binding of a name, and what a forked namespace holds.
\<close>

section \<open>Every operation, on handles and on the store\<close>

text \<open>
  A handle that request \<open>q\<close> may put into the table: it names the same namespace as the handle the request was
  made on and has no more permissions, or it is on the namespace that was made by this request out of the old one.
\<close>

inductive ns_derived :: "nsx \<Rightarrow> nsmgr \<Rightarrow> nsmgr \<Rightarrow> ns_access \<Rightarrow> nhandle \<Rightarrow> bool" for x s t a where
  derived_shrunk: "p AND NOT (na_permission a) = 0 \<Longrightarrow> ns_derived x s t a (NAccess (a\<lparr>na_permission := p\<rparr>))"
| derived_list: "has_permission a (nx_LIST x) \<Longrightarrow> ns_derived x s t a (NList a)"
| derived_register: "has_permission a (nx_INSERT x) \<Longrightarrow> ns_derived x s t a (NRegister \<lparr>sr_target = na_namespace a, sr_name = n\<rparr>)"
| derived_fork: "na_namespace b = ns_store_next s \<Longrightarrow> na_permission b = nx_ALL x AND NOT (nx_SCHEME_CREATE x) \<Longrightarrow>
    map_of (schemes_of t (na_namespace b)) \<subseteq>\<^sub>m map_of (schemes_of s (na_namespace a)) \<Longrightarrow> ns_derived x s t a (NAccess b)"

text \<open>The handle a request is made on.\<close>

primrec request_handle :: "ns_request \<Rightarrow> u64" where
  "request_handle (NsOpenat fd _ _ _ _) = fd"
| "request_handle (NsDup i _) = i"
| "request_handle (NsUnlinkat fd _ _ _) = fd"
| "request_handle (NsGetdents i _ _) = i"
| "request_handle (NsFstat i) = i"
| "request_handle (NsOnClose i) = i"
| "request_handle (NsSendFd i _ _) = i"

section \<open>Forking\<close>

text \<open>Which registered names a name in the list stands for.\<close>

definition name_matches :: "bytes \<Rightarrow> bytes \<Rightarrow> bool" where
  "name_matches name n \<longleftrightarrow> (if name \<noteq> [] \<and> last name = 0x2a then prefix (butlast name) n else n = name)"

lemma map_of_fold_update_if:
  assumes "distinct (map fst xs)"
  shows "map_of (fold (\<lambda>(n, fd) acc. if P n then AList.update n fd acc else acc) xs acc) k =
    (if P k \<and> map_of xs k \<noteq> None then map_of xs k else map_of acc k)"
  using assms
proof (induction xs arbitrary: acc)
  case (Cons e xs)
  obtain n fd where e: "e = (n, fd)" by force
  then have "map_of xs n = None" using Cons.prems by (simp add: map_of_eq_None_iff)
  then show ?case using Cons by (auto simp: e alist_simps)
qed simp

lemma map_of_fork_name:
  assumes "distinct (map fst schemes)"
  shows "map_of (fork_name schemes name acc) k =
    (if name_matches name k \<and> map_of schemes k \<noteq> None then map_of schemes k else map_of acc k)"
  using assms
  by (auto simp: fork_name_def name_matches_def map_of_fold_update_if alist_simps split: option.splits)

lemma fork_name_below:
  assumes "map_of acc \<subseteq>\<^sub>m map_of schemes" "distinct (map fst schemes)"
  shows "map_of (fork_name schemes name acc) \<subseteq>\<^sub>m map_of schemes"
  using assms by (auto simp: map_le_def map_of_fork_name dom_def split: if_splits)

lemma fork_loop_below:
  assumes "fork_loop schemes buf acc = Inr ns" "map_of acc \<subseteq>\<^sub>m map_of schemes" "distinct (map fst schemes)"
  shows "map_of ns \<subseteq>\<^sub>m map_of schemes"
  using assms
proof (induction schemes buf acc rule: fork_loop.induct)
  case (1 schemes buf acc)
  show ?case
  proof (cases "buf = []")
    case True
    then show ?thesis using 1 by (simp add: fork_loop.simps)
  next
    case False
    with 1(2) obtain len where len: "read_num buf = Inr len" and small: "\<not> length buf - 8 < unat len"
      and valid: "utf8_valid (take (unat len) (drop 8 buf))"
      and rest: "fork_loop schemes (drop (8 + unat len) buf) (fork_name schemes (take (unat len) (drop 8 buf)) acc) = Inr ns"
      by (subst (asm) fork_loop.simps) (auto simp: Let_def split: sum.splits if_splits)
    show ?thesis
      by (rule 1(1)[OF False len small refl _ rest]) (use valid fork_name_below 1(3,4) in auto)
  qed
qed

lemma fork_loop_distinct:
  assumes "fork_loop schemes buf acc = Inr ns" "distinct (map fst acc)"
  shows "distinct (map fst ns)"
  using assms
proof (induction schemes buf acc rule: fork_loop.induct)
  case (1 schemes buf acc)
  have keep: "distinct (map fst (fold (\<lambda>(n, fd) acc. if P n then AList.update n fd acc else acc) xs acc))"
    if "distinct (map fst acc)" for P and xs acc :: namespace
    using that by (induction xs arbitrary: acc) (auto simp: distinct_update)
  have name: "distinct (map fst (fork_name schemes name acc))" for name
    using 1(3) keep by (auto simp: fork_name_def distinct_update split: option.splits)
  show ?case
    using 1(1)[OF _ _ _ refl] 1(2,3) name
    by (subst (asm) (2) fork_loop.simps) (auto simp: Let_def split: sum.splits if_splits)
qed

lemma ns_fork_below:
  assumes "ns_fork schemes buf = Inr ns" "distinct (map fst schemes)"
  shows "map_of ns \<subseteq>\<^sub>m map_of schemes"
  using fork_loop_below[of schemes buf "[]" ns] assms by (simp add: ns_fork_def)

lemma ns_fork_distinct:
  assumes "ns_fork schemes buf = Inr ns"
  shows "distinct (map fst ns)"
  using fork_loop_distinct[of schemes buf "[]" ns] assms by (simp add: ns_fork_def)

text \<open>What a client sends: the names, each after its length.\<close>

definition encode_names :: "bytes list \<Rightarrow> bytes" where
  "encode_names names = concat (map (\<lambda>n. le_bytes 8 (of_nat (length n) :: u64) @ n) names)"

lemma fork_loop_encode:
  assumes "\<forall>n \<in> set names. utf8_valid n \<and> length n < 2 ^ 64"
  shows "fork_loop schemes (encode_names names) acc = Inr (fold (fork_name schemes) names acc)"
  using assms
proof (induction names arbitrary: acc)
  case Nil
  then show ?case by (simp add: encode_names_def fork_loop.simps)
next
  case (Cons n names)
  let ?l = "of_nat (length n) :: u64"
  have len: "unat ?l = length n" using Cons.prems by (simp add: unat_of_nat)
  have "le_word (le_bytes 8 ?l) = ?l" by (rule le_word_bytes) simp
  then have num: "read_num (le_bytes 8 ?l @ n @ encode_names names) = Inr ?l"
    by (simp add: read_num_def)
  have enc: "encode_names (n # names) = le_bytes 8 ?l @ n @ encode_names names" by (simp add: encode_names_def)
  have ne: "le_bytes 8 ?l @ n @ encode_names names \<noteq> []" by (metis length_le_bytes append_is_Nil_conv list.size(3) zero_neq_numeral)
  have valid: "utf8_valid n" using Cons.prems by simp
  show ?case
    using Cons.IH[of "fork_name schemes n acc"] Cons.prems
    by (subst fork_loop.simps) (simp add: enc ne num len valid del: append_is_Nil_conv)
qed

lemma map_of_fold_fork_name:
  assumes "distinct (map fst schemes)"
  shows "map_of (fold (fork_name schemes) names acc) k =
    (if (\<exists>name \<in> set names. name_matches name k) \<and> map_of schemes k \<noteq> None then map_of schemes k else map_of acc k)"
proof (induction names arbitrary: acc)
  case (Cons name names)
  then show ?case using assms by (auto simp: map_of_fork_name)
qed simp



section \<open>The invariant\<close>

definition handle_ns :: "nhandle \<Rightarrow> nat" where
  "handle_ns h = (case h of NAccess a \<Rightarrow> na_namespace a | NRegister r \<Rightarrow> sr_target r | NList a \<Rightarrow> na_namespace a)"

text \<open>
  Names are bound once in a namespace, handles are on namespaces that exist, and only the first namespace has
  handles with the permission to create schemes.
\<close>

definition ns_ok :: "nsx \<Rightarrow> nsmgr \<Rightarrow> bool" where
  "ns_ok x s \<longleftrightarrow>
     (\<forall>a ns. map_of (ns_store s) a = Some ns \<longrightarrow> distinct (map fst ns)) \<and>
     (\<forall>i h. map_of (ns_handles s) i = Some h \<longrightarrow> handle_ns h < ns_store_next s) \<and>
     (\<forall>i a. map_of (ns_handles s) i = Some (NAccess a) \<longrightarrow> has_permission a (nx_SCHEME_CREATE x) \<longrightarrow> na_namespace a = 0) \<and>
     0 < ns_store_next s"

lemma ns_okD:
  assumes "ns_ok x s"
  shows "distinct (map fst (schemes_of s a))" "0 < ns_store_next s"
    and "map_of (ns_handles s) i = Some h \<Longrightarrow> handle_ns h < ns_store_next s"
    and "map_of (ns_handles s) i = Some (NAccess b) \<Longrightarrow> has_permission b (nx_SCHEME_CREATE x) \<Longrightarrow> na_namespace b = 0"
  using assms by (auto simp: ns_ok_def schemes_of_def split: option.splits)

lemma get_ns_access_Some: "get_ns_access i s = Some a \<longleftrightarrow> map_of (ns_handles s) i = Some (NAccess a)"
  by (auto simp: get_ns_access_def split: option.splits nhandle.splits)

text \<open>What a request does, by cases: the facts the proofs about all requests share.\<close>

inductive ns_effect :: "nsx \<Rightarrow> ns_request \<Rightarrow> nsmgr \<Rightarrow> nsmgr \<Rightarrow> bool" for x q s where
  eff_none: "ns_effect x q s s"
| eff_close: "q = NsOnClose i \<Longrightarrow> ns_effect x q s (s\<lparr>ns_handles := AList.delete i (ns_handles s)\<rparr>)"
| eff_handle: "map_of (ns_handles s) (request_handle q) = Some (NAccess a) \<Longrightarrow>
    ns_derived x s s a h \<Longrightarrow> handle_ns h = na_namespace a \<Longrightarrow>
    ns_effect x q s (s\<lparr>ns_handles := AList.update (ns_next_id s) h (ns_handles s), ns_next_id := ns_next_id s + 1\<rparr>)"
| eff_fork: "map_of (ns_handles s) (request_handle q) = Some (NAccess a) \<Longrightarrow>
    ns_fork (schemes_of s (na_namespace a)) names = Inr ns \<Longrightarrow>
    ns_effect x q s ((add_namespace (ns_next_id s) ns (nx_ALL x AND NOT (nx_SCHEME_CREATE x)) s)\<lparr>ns_next_id := ns_next_id s + 1\<rparr>)"
| eff_register: "q = NsSendFd i 1 (Inr fd) \<Longrightarrow> map_of (ns_handles s) i = Some (NRegister r) \<Longrightarrow>
    map_of (schemes_of s (sr_target r)) (sr_name r) = None \<Longrightarrow>
    ns_effect x q s (s\<lparr>ns_store := AList.update (sr_target r) (AList.update (sr_name r) fd (schemes_of s (sr_target r))) (ns_store s)\<rparr>)"
| eff_unlink: "q = NsUnlinkat fd path flags ctx \<Longrightarrow> map_of (ns_handles s) fd = Some (NAccess a) \<Longrightarrow>
    has_permission a (nx_DELETE x) \<Longrightarrow> nx_parts x path = Some (n, []) \<Longrightarrow>
    ns_effect x q s (s\<lparr>ns_store := AList.update (na_namespace a) (AList.delete n (schemes_of s (na_namespace a))) (ns_store s)\<rparr>)"

lemma next_id_handles_swap: "s\<lparr>ns_next_id := i, ns_handles := h\<rparr> = s\<lparr>ns_handles := h, ns_next_id := i\<rparr>"
  by simp

lemma openat_effect: "ns_effect x (NsOpenat fd path flags fl ctx) s (snd (ns_openat x fd path flags fl ctx s))"
  by (auto simp: ns_openat_def Let_def get_ns_access_Some handle_ns_def next_id_handles_swap
      split: option.splits sum.splits intro: eff_none intro!: eff_handle derived_list)

lemma and_and_not: "(a AND b) AND NOT a = (0 :: 'a::len word)"
  by (simp add: bit_eq_iff bit_simps)

lemma dup_effect: "ns_effect x (NsDup i buf) s (snd (ns_dup x i buf s))"
  by (auto simp: ns_dup_def Let_def get_ns_access_Some fork_namespace_def shrink_permissions_def issue_register_def
      handle_ns_def and_and_not
      split: option.splits sum.splits ns_dup_kind.splits
      intro: eff_none eff_fork intro!: eff_handle derived_shrunk derived_register)

lemma unlinkat_effect: "ns_effect x (NsUnlinkat fd path flags ctx) s (snd (ns_unlinkat x fd path flags ctx s))"
  by (auto simp: ns_unlinkat_def Let_def get_ns_access_Some
      split: option.splits sum.splits intro: eff_none intro!: eff_unlink)

lemma sendfd_effect: "ns_effect x (NsSendFd i n got) s (snd (ns_on_sendfd i n got s))"
proof -
  have "n = 1" if "\<not> n > 1" "n \<noteq> 0" using that by simp
  then show ?thesis
    by (auto simp: ns_on_sendfd_def ns_register_def Let_def
        split: option.splits sum.splits nhandle.splits intro: eff_none intro!: eff_register)
qed

lemma bind_out_ok_state: "snd (bind_out r (\<lambda>_. ok ())) = snd r"
  by (auto simp: bind_out_def split: prod.splits sum.splits)

lemma request_effect: "ns_effect x q s (snd (ns_handle_request x q s))"
  by (cases q)
    (auto simp: bind_out_ok_state openat_effect dup_effect unlinkat_effect sendfd_effect ns_on_close_def
      split: sum.splits intro: eff_none eff_close)

lemma permission_mono:
  fixes p :: "'a::len word"
  assumes "p AND NOT q = 0" "p AND r = r"
  shows "q AND r = r"
  using assms by (auto simp: bit_eq_iff bit_simps)

lemma no_scheme_create: "(w AND NOT c) AND c = (0 :: 'a::len word)"
  by (simp add: bit_eq_iff bit_simps)

lemma derived_create:
  assumes "ns_derived x s t a (NAccess b)" "has_permission b (nx_SCHEME_CREATE x)" "nx_SCHEME_CREATE x \<noteq> 0"
  shows "has_permission a (nx_SCHEME_CREATE x) \<and> na_namespace b = na_namespace a"
  using assms
  by (cases rule: ns_derived.cases) (auto simp: has_permission_def no_scheme_create intro: permission_mono)

lemma schemes_of_update:
  "schemes_of (s\<lparr>ns_store := AList.update a ns (ns_store s)\<rparr>) b = (if b = a then ns else schemes_of s b)"
  by (simp add: schemes_of_def alist_simps)

lemma schemes_of_handles [simp]:
  "schemes_of (s\<lparr>ns_handles := h\<rparr>) a = schemes_of s a" "schemes_of (s\<lparr>ns_next_id := i\<rparr>) a = schemes_of s a"
  by (simp_all add: schemes_of_def)

lemma schemes_of_add:
  "schemes_of (add_namespace i ns p s) b = (if b = ns_store_next s then ns else schemes_of s b)"
  by (simp add: schemes_of_def add_namespace_def Let_def alist_simps)

lemma ns_ok_store:
  assumes "ns_ok x s" "distinct (map fst ns)"
  shows "ns_ok x (s\<lparr>ns_store := AList.update a ns (ns_store s)\<rparr>)"
  using assms by (auto simp: ns_ok_def alist_simps split: if_splits)

lemma effect_ok:
  assumes s: "ns_ok x s" and e: "ns_effect x q s t" and c: "nx_SCHEME_CREATE x \<noteq> 0"
  shows "ns_ok x t"
  using e
proof cases
  case (eff_close i)
  then show ?thesis using s by (auto simp: ns_ok_def alist_simps)
next
  case (eff_handle a h)
  have "na_namespace b = 0" if "h = NAccess b" "has_permission b (nx_SCHEME_CREATE x)" for b
    using derived_create[of x s s a b] ns_okD(4)[OF s eff_handle(2)] eff_handle(3) that c by simp
  moreover have "handle_ns h < ns_store_next s" using ns_okD(3)[OF s eff_handle(2)] eff_handle(4) by (simp add: handle_ns_def)
  ultimately show ?thesis using s eff_handle(1) by (auto simp: ns_ok_def alist_simps)
next
  case (eff_fork a names ns)
  have "\<not> has_permission \<lparr>na_namespace = b, na_permission = nx_ALL x AND NOT (nx_SCHEME_CREATE x)\<rparr> (nx_SCHEME_CREATE x)" for b
    using c by (simp add: has_permission_def no_scheme_create)
  moreover have "distinct (map fst ns)" by (rule ns_fork_distinct[OF eff_fork(3)])
  ultimately show ?thesis
    using s eff_fork(1) by (auto simp: ns_ok_def add_namespace_def Let_def alist_simps handle_ns_def less_SucI split: if_splits)
next
  case (eff_register i fd r)
  then show ?thesis using ns_ok_store[OF s] ns_okD(1)[OF s] by (simp add: distinct_update)
next
  case (eff_unlink fd path flags ctx a n)
  then show ?thesis using ns_ok_store[OF s] ns_okD(1)[OF s] by (simp add: distinct_delete)
qed (use s in simp)

lemma start_ok: "distinct (map fst schemes) \<Longrightarrow> ns_ok x (ns_start x schemes cap)"
  by (auto simp: ns_ok_def ns_start_def nsmgr_new_def add_namespace_def Let_def handle_ns_def alist_simps split: if_splits)

lemma run_cons:
  "ns_run x (q # qs) s = Some t \<longleftrightarrow>
     fst (ns_handle_request x q s) \<noteq> Inl Panic \<and> ns_run x qs (snd (ns_handle_request x q s)) = Some t"
  by (cases "ns_handle_request x q s") (auto split: sum.splits fault.splits)

lemma run_ok: "ns_run x qs s = Some t \<Longrightarrow> ns_ok x s \<Longrightarrow> nx_SCHEME_CREATE x \<noteq> 0 \<Longrightarrow> ns_ok x t"
proof (induction qs arbitrary: s)
  case (Cons q qs)
  then show ?case using effect_ok[OF _ request_effect] unfolding run_cons by blast
qed simp

section \<open>Properties\<close>

text \<open>
  C6. No request gives out more than the handle it was made on: after any history, every handle that a request
  adds comes from a handle on a namespace that the caller already had. It is on the same namespace with no
  further permission, or lists it (needs LIST), or registers one name in it (needs INSERT), or it is on the
  namespace made by this very request, which only has bindings of the old one and not the permission to create
  schemes.
\<close>

theorem ns_no_amplification:
  assumes run: "ns_run x qs (ns_start x schemes cap) = Some s" and d: "distinct (map fst schemes)"
    and c: "nx_SCHEME_CREATE x \<noteq> 0"
    and t: "t = snd (ns_handle_request x q s)"
    and new: "map_of (ns_handles t) i = Some h" "map_of (ns_handles s) i \<noteq> Some h"
  shows "\<exists>a. map_of (ns_handles s) (request_handle q) = Some (NAccess a) \<and> i = ns_next_id s \<and> ns_derived x s t a h"
proof -
  have s: "ns_ok x s" by (rule run_ok[OF run start_ok[OF d] c])
  have lift: "ns_derived x s t a h" if "ns_derived x s s a h" "handle_ns h = na_namespace a" "ns_ok x s"
    "map_of (ns_handles s) k = Some (NAccess a)" for a h k
    using that(1)
  proof cases
    case (derived_fork b)
    then show ?thesis using that(2) ns_okD(3)[OF s that(4)] by (simp add: handle_ns_def)
  qed (auto intro: ns_derived.intros)
  have "ns_effect x q s t" unfolding t by (rule request_effect)
  then show ?thesis
  proof cases
    case (eff_handle a h')
    then have "h = h'" "i = ns_next_id s" using new by (auto simp: alist_simps split: if_splits)
    then show ?thesis using eff_handle(2) lift[OF eff_handle(3,4) s eff_handle(2)] by blast
  next
    case (eff_fork a names ns)
    let ?b = "\<lparr>na_namespace = ns_store_next s, na_permission = nx_ALL x AND NOT (nx_SCHEME_CREATE x)\<rparr>"
    have h: "h = NAccess ?b" "i = ns_next_id s"
      using new eff_fork(1) by (auto simp: add_namespace_def Let_def alist_simps split: if_splits)
    have "map_of (schemes_of t (na_namespace ?b)) \<subseteq>\<^sub>m map_of (schemes_of s (na_namespace a))"
      using ns_fork_below[OF eff_fork(3) ns_okD(1)[OF s]] by (simp add: eff_fork(1) schemes_of_add)
    then have "ns_derived x s t a (NAccess ?b)" by (intro derived_fork) simp_all
    then show ?thesis using h eff_fork(2) by blast
  qed (use new in \<open>auto simp: alist_simps split: if_splits\<close>)
qed

text \<open>
  After any history, a handle with the permission to create schemes is on the first namespace: forked
  namespaces never hand out the capability to create schemes.
\<close>

theorem ns_creation_confined:
  assumes "ns_run x qs (ns_start x schemes cap) = Some s" "distinct (map fst schemes)" "nx_SCHEME_CREATE x \<noteq> 0"
    and "get_ns_access i s = Some a" "open_namespace_resource x a reference s = Inr fd"
  shows "na_namespace a = 0"
proof -
  have "ns_ok x s" using run_ok[OF assms(1) start_ok] assms(2,3) .
  moreover have "has_permission a (nx_SCHEME_CREATE x)"
    using assms(5) by (auto simp: open_namespace_resource_def split: if_splits)
  ultimately show ?thesis using ns_okD(4) assms(4) by (simp add: get_ns_access_Some)
qed

text \<open>
  C16. The binding of a name in a namespace changes in two ways only: a registration through a capability for
  that name, when it was free, and a removal through a handle on that namespace with the permission DELETE.
  In particular no request replaces the descriptor a name is bound to.
\<close>

theorem ns_bindings_stable:
  assumes "a < ns_store_next s" "t = snd (ns_handle_request x q s)"
    and "map_of (schemes_of t a) n \<noteq> map_of (schemes_of s a) n"
  shows "(\<exists>i fd. q = NsSendFd i 1 (Inr fd) \<and> map_of (ns_handles s) i = Some (NRegister \<lparr>sr_target = a, sr_name = n\<rparr>) \<and>
       map_of (schemes_of s a) n = None \<and> map_of (schemes_of t a) n = Some fd) \<or>
    (\<exists>i path flags ctx b. q = NsUnlinkat i path flags ctx \<and> get_ns_access i s = Some b \<and> na_namespace b = a \<and>
       has_permission b (nx_DELETE x) \<and> nx_parts x path = Some (n, []) \<and> map_of (schemes_of t a) n = None)"
proof -
  have "ns_effect x q s t" unfolding assms(2) by (rule request_effect)
  then show ?thesis
  proof cases
    case (eff_register i fd r)
    then have "sr_target r = a" "sr_name r = n"
      using assms(3) by (auto simp: schemes_of_update alist_simps split: if_splits)
    then have "r = \<lparr>sr_target = a, sr_name = n\<rparr>" by simp
    then show ?thesis using eff_register by (intro disjI1 exI) (simp add: schemes_of_update alist_simps)
  next
    case (eff_unlink i path flags ctx b m)
    then have "na_namespace b = a" "m = n"
      using assms(3) by (auto simp: schemes_of_update alist_simps split: if_splits)
    then show ?thesis
      using eff_unlink by (intro disjI2 exI) (simp add: schemes_of_update alist_simps get_ns_access_Some)
  qed (use assms in \<open>auto simp: schemes_of_add\<close>)
qed

text \<open>
  C17. Forking with a list of names sent in the encoding of the clients gives a namespace that has exactly the
  bindings of the old one whose name is in the list, or starts with a name of the list that ends in a star.
\<close>

theorem ns_fork_selects:
  assumes "\<forall>n \<in> set names. utf8_valid n \<and> length n < 2 ^ 64" "distinct (map fst schemes)"
  shows "\<exists>ns. ns_fork schemes (encode_names names) = Inr ns \<and>
    (\<forall>k. map_of ns k = (if \<exists>name \<in> set names. name_matches name k then map_of schemes k else None))"
  using fork_loop_encode[OF assms(1), of schemes "[]"] map_of_fold_fork_name[OF assms(2), of names "[]"]
  by (auto simp: ns_fork_def)

text \<open>
  C39. A program that holds any handle on a namespace can end the manager: a fork request whose length of a name
  reaches past the end of the buffer is a slice out of range.
\<close>

theorem ns_fork_length_panics:
  assumes "get_ns_access i s = Some a" "nx_kind x raw = Some ForkNs" "nx_kind_size x = 8"
    and "length rest < unat (len :: u64)"
  shows "ns_run x (NsDup i (le_bytes 8 raw @ le_bytes 8 len @ rest) # qs) s = None"
proof -
  have w: "le_word (le_bytes 8 v) = v" for v :: u64 by (rule le_word_bytes) simp
  have r: "read_num (le_bytes 8 v @ bs) = Inr v" for v bs using w by (simp add: read_num_def)
  have ne: "le_bytes 8 len @ rest \<noteq> []" by (metis length_le_bytes append_is_Nil_conv list.size(3) zero_neq_numeral)
  have "ns_fork schemes (le_bytes 8 len @ rest) = Inl Panic" for schemes
    unfolding ns_fork_def
    by (subst fork_loop.simps) (simp add: ne r assms(4) del: append_is_Nil_conv)
  then show ?thesis using assms(1-3) by (simp add: ns_dup_def r fork_namespace_def)
qed

section \<open>Examples\<close>

text \<open>Two schemes, \<open>a\<close> and \<open>ab\<close>; paths of the form \<open>/scheme/x\<close> with names of one letter.\<close>

definition nsx_example :: nsx where
  "nsx_example = \<lparr>nx_ALL = 15, nx_LIST = 1, nx_INSERT = 2, nx_DELETE = 4, nx_SCHEME_CREATE = 8,
     nx_kind = (\<lambda>k. if k = 0 then Some ForkNs else if k = 1 then Some ShrinkPermissions else if k = 2 then Some IssueRegister else None),
     nx_kind_size = 8, nx_parts = (\<lambda>p. if p = [] then None else Some (p, [])), nx_scheme = Some,
     nx_dup = Inr, nx_openat = (\<lambda>fd _ _ _ _. Inr fd), nx_unlinkat = (\<lambda>_ _ _ _. Inr ()), nx_dirent_fits = (\<lambda>_ _. None),
     nx_MODE_DIR = 0x4000, nx_MODE_FILE = 0x8000\<rparr>"

definition ns_schemes_example :: namespace where
  "ns_schemes_example = [([97], 3), ([97, 98], 4)]"

definition ns_example :: nsmgr where
  "ns_example = ns_start nsx_example ns_schemes_example 9"

lemma ns_example_ok:
  "ns_run nsx_example [] (ns_start nsx_example ns_schemes_example 9) = Some ns_example" "distinct (map fst ns_schemes_example)"
  "nx_SCHEME_CREATE nsx_example \<noteq> 0"
  by (simp_all add: ns_example_def ns_schemes_example_def nsx_example_def)

theorem ns_no_amplification_witness:
  "ns_derived nsx_example ns_example
     (snd (ns_handle_request nsx_example (NsDup 0 (le_bytes 8 (1 :: u64) @ le_bytes 8 (5 :: u64))) ns_example))
     \<lparr>na_namespace = 0, na_permission = 15\<rparr> (NAccess \<lparr>na_namespace = 0, na_permission = 5\<rparr>)"
proof -
  let ?q = "NsDup 0 (le_bytes 8 (1 :: u64) @ le_bytes 8 (5 :: u64))"
  let ?h = "NAccess \<lparr>na_namespace = 0, na_permission = 5\<rparr>"
  have h: "map_of (ns_handles ns_example) 0 = Some (NAccess \<lparr>na_namespace = 0, na_permission = 15\<rparr>)" by code_simp
  have "map_of (ns_handles (snd (ns_handle_request nsx_example ?q ns_example))) 1 = Some ?h" by code_simp
  moreover have "map_of (ns_handles ns_example) 1 \<noteq> Some ?h" by code_simp
  ultimately show ?thesis
    using ns_no_amplification[OF ns_example_ok refl, of ?q 1 ?h] h by simp
qed

theorem ns_creation_confined_witness:
  "open_namespace_resource nsx_example \<lparr>na_namespace = 0, na_permission = 15\<rparr> (map (of_nat \<circ> of_char) ''scheme-creation-cap'') ns_example = Inr 9 \<and>
   na_namespace \<lparr>na_namespace = 0, na_permission = 15\<rparr> = 0"
proof -
  let ?a = "\<lparr>na_namespace = 0, na_permission = 15\<rparr>"
  let ?r = "map (of_nat \<circ> of_char) ''scheme-creation-cap''"
  have "get_ns_access 0 ns_example = Some ?a" by code_simp
  moreover have r: "open_namespace_resource nsx_example ?a ?r ns_example = Inr 9" by code_simp
  ultimately have "na_namespace ?a = 0" by (rule ns_creation_confined[OF ns_example_ok])
  then show ?thesis using r by blast
qed

theorem ns_bindings_stable_witness:
  "\<exists>i path flags ctx b. NsUnlinkat 0 [97] 0 (0, 0) = NsUnlinkat i path flags ctx \<and> get_ns_access i ns_example = Some b \<and>
     has_permission b (nx_DELETE nsx_example)"
proof -
  let ?q = "NsUnlinkat 0 [97] 0 (0, 0)"
  have "0 < ns_store_next ns_example" by code_simp
  moreover have "map_of (schemes_of (snd (ns_handle_request nsx_example ?q ns_example)) 0) [97] \<noteq> map_of (schemes_of ns_example 0) [97]"
    by code_simp
  ultimately show ?thesis using ns_bindings_stable[OF _ refl, of 0 ns_example nsx_example ?q "[97]"] by blast
qed

theorem ns_fork_selects_witness:
  "\<exists>ns. ns_fork ns_schemes_example (encode_names [[97, 42]]) = Inr ns \<and> map_of ns [97, 98] = Some 4"
proof -
  have "utf8_valid [97, 42]" by code_simp
  then have "\<forall>n \<in> set [[97, 42]]. utf8_valid n \<and> length n < 2 ^ 64" by simp
  then obtain ns where "ns_fork ns_schemes_example (encode_names [[97, 42]]) = Inr ns"
    "map_of ns [97, 98] = (if \<exists>name \<in> set [[97, 42]]. name_matches name [97, 98] then map_of ns_schemes_example [97, 98] else None)"
    using ns_fork_selects[OF _ ns_example_ok(2)] by blast
  then show ?thesis by (auto simp: name_matches_def ns_schemes_example_def)
qed

theorem ns_fork_length_panics_witness:
  "ns_run nsx_example [NsDup 0 (le_bytes 8 (0 :: u64) @ le_bytes 8 (1 :: u64) @ [])] ns_example = None"
proof -
  have "get_ns_access 0 ns_example = Some \<lparr>na_namespace = 0, na_permission = 15\<rparr>" by code_simp
  moreover have "nx_kind nsx_example 0 = Some ForkNs" "nx_kind_size nsx_example = 8" by (simp_all add: nsx_example_def)
  ultimately show ?thesis by (rule ns_fork_length_panics) simp
qed

end
