(* ===== verification/Handle_Map.thy ===== *)
theory Handle_Map
  imports BTree_Map
begin

text \<open>
  The table of open handles every daemon of the base system uses (\<^verbatim>\<open>scheme-utils/src/lib.rs\<close>): \<open>HandleMap\<close>
  with its search for the next free number, and \<open>FpathWriter\<close>, which writes a path into a buffer of fixed
  size.

  \<open>usize\<close> is \<open>u64\<close>. The search for a free number runs until it finds one; it is given one probe more than
  there are handles, which is enough as long as not all \<open>2 ^ 64\<close> numbers are taken (\<open>hm_probe_free\<close>); with
  all numbers taken the code does not return. The locale \<open>handle_table\<close> is what the daemons rely on; the
  number of handles with a property, \<open>users\<close>, is what their reference counts must be.
\<close>

section \<open>Definitions\<close>

record 'h handle_map =
  hm_handles :: "(u64 \<times> 'h) list"
  hm_next :: u64

definition hm_new :: "'h handle_map" where
  "hm_new = \<lparr>hm_handles = [], hm_next = 1\<rparr>"

fun hm_probe :: "nat \<Rightarrow> u64 \<Rightarrow> (u64 \<times> 'h) list \<Rightarrow> u64" where
  "hm_probe 0 n hs = n"
| "hm_probe (Suc fuel) n hs = (if bm_get n hs = None then n else hm_probe fuel (n + 1) hs)"

definition hm_insert :: "'h \<Rightarrow> 'h handle_map \<Rightarrow> u64 \<times> 'h handle_map" where
  "hm_insert h m =
     (let i = hm_next m; hs = hm_handles m
      in (i, \<lparr>hm_handles = bm_insert i h hs, hm_next = hm_probe (Suc (length hs)) (i + 1) hs\<rparr>))"

definition hm_remove :: "u64 \<Rightarrow> 'h handle_map \<Rightarrow> 'h option \<times> 'h handle_map" where
  "hm_remove i m = (bm_get i (hm_handles m), m\<lparr>hm_handles := bm_remove i (hm_handles m)\<rparr>)"

definition hm_get :: "'h handle_map \<Rightarrow> u64 \<Rightarrow> errno + 'h" where
  "hm_get m i = (case bm_get i (hm_handles m) of None \<Rightarrow> Inl EBADF | Some h \<Rightarrow> Inr h)"

text \<open>A change through the reference of \<open>get_mut\<close>.\<close>

definition hm_modify :: "u64 \<Rightarrow> ('h \<Rightarrow> 'h) \<Rightarrow> 'h handle_map \<Rightarrow> 'h handle_map" where
  "hm_modify i f m = m\<lparr>hm_handles := bm_modify i f (hm_handles m)\<rparr>"

definition hm_lookup :: "'h handle_map \<Rightarrow> u64 \<Rightarrow> 'h option" where
  "hm_lookup m i = bm_get i (hm_handles m)"

text \<open>A table as the operations leave it: sorted, with a free number ready.\<close>

definition hm_ok :: "'h handle_map \<Rightarrow> bool" where
  "hm_ok m \<longleftrightarrow> bm_ok (hm_handles m) \<and> bm_get (hm_next m) (hm_handles m) = None"

definition hm_room :: "'h handle_map \<Rightarrow> bool" where
  "hm_room m \<longleftrightarrow> length (hm_handles m) + 1 < 2 ^ 64"

text \<open>The buffer of \<open>FpathWriter\<close> and the bytes written so far; what does not fit is dropped.\<close>

record fpath_writer =
  fw_buf :: bytes
  fw_written :: nat

definition push_str :: "bytes \<Rightarrow> fpath_writer \<Rightarrow> fpath_writer" where
  "push_str s w =
     (let count = min (length s) (length (fw_buf w) - fw_written w)
      in w\<lparr>fw_buf := take (fw_written w) (fw_buf w) @ take count s @ drop (fw_written w + count) (fw_buf w),
           fw_written := fw_written w + count\<rparr>)"

definition ascii_bytes :: "string \<Rightarrow> bytes" where
  "ascii_bytes cs = map (\<lambda>c. of_nat (of_char c)) cs"

definition fpath_with :: "bytes \<Rightarrow> bytes \<Rightarrow> (fpath_writer \<Rightarrow> errno + fpath_writer) \<Rightarrow> errno + fpath_writer" where
  "fpath_with buf scheme_name f =
     f (push_str (ascii_bytes ''/'')
         (push_str scheme_name (push_str (ascii_bytes ''/scheme/'') \<lparr>fw_buf = buf, fw_written = 0\<rparr>)))"

definition fpath_with_legacy :: "bytes \<Rightarrow> bytes \<Rightarrow> (fpath_writer \<Rightarrow> errno + fpath_writer) \<Rightarrow> errno + fpath_writer" where
  "fpath_with_legacy buf scheme_name f =
     f (push_str (ascii_bytes '':'') (push_str scheme_name \<lparr>fw_buf = buf, fw_written = 0\<rparr>))"

section \<open>The search for a free number\<close>

lemma hm_probe_form: "\<exists>j\<le>fuel. hm_probe fuel n hs = n + of_nat j \<and> (\<forall>i<j. bm_get (n + of_nat i) hs \<noteq> None) \<and>
    (j < fuel \<longrightarrow> bm_get (n + of_nat j) hs = None)"
proof (induction fuel arbitrary: n)
  case (Suc fuel)
  show ?case
  proof (cases "bm_get n hs")
    case None
    then show ?thesis by (intro exI[of _ 0]) simp
  next
    case (Some h)
    obtain j where j: "j \<le> fuel" "hm_probe fuel (n + 1) hs = n + 1 + of_nat j"
        "\<forall>i<j. bm_get (n + 1 + of_nat i) hs \<noteq> None" "j < fuel \<longrightarrow> bm_get (n + 1 + of_nat j) hs = None"
      using Suc by blast
    have "bm_get (n + of_nat i) hs \<noteq> None" if "i < Suc j" for i
      using that j(3) Some by (cases i) (auto simp: add.assoc)
    with j Some show ?thesis by (intro exI[of _ "Suc j"]) (auto simp: add.assoc)
  qed
qed simp

lemma taken_le_length:
  assumes "bm_ok hs" and "\<forall>i<j. bm_get ((n :: u64) + of_nat i) hs \<noteq> None" and "j \<le> 2 ^ 64"
  shows "j \<le> length hs"
proof -
  have "inj_on (\<lambda>i. n + of_nat i :: u64) {..<j}"
  proof (rule inj_onI)
    fix x y
    assume xy: "x \<in> {..<j}" "y \<in> {..<j}" and eq: "n + of_nat x = n + of_nat y"
    have "unat (of_nat x :: u64) = unat (of_nat y :: u64)" using eq by simp
    with xy assms(3) show "x = y" by (simp add: unat_of_nat)
  qed
  then have "j = card ((\<lambda>i. n + of_nat i :: u64) ` {..<j})" by (simp add: card_image)
  also have "\<dots> \<le> card (set (map fst hs))"
    using assms(1,2) by (intro card_mono) (force simp: bm_get_map dest: map_of_Some_in_keys)+
  also have "\<dots> \<le> length hs" using card_length[of "map fst hs"] by simp
  finally show ?thesis .
qed

text \<open>One probe more than there are handles is enough, and the number found is not the next one again.\<close>

lemma hm_probe_free:
  assumes "bm_ok hs" and "length hs + 1 < 2 ^ 64"
  shows "bm_get (hm_probe (Suc (length hs)) (i + 1) hs) hs = None \<and> hm_probe (Suc (length hs)) (i + 1) hs \<noteq> i"
proof -
  obtain j where j: "j \<le> Suc (length hs)" "hm_probe (Suc (length hs)) (i + 1) hs = i + 1 + of_nat j"
      "\<forall>k<j. bm_get (i + 1 + of_nat k) hs \<noteq> None" "j < Suc (length hs) \<longrightarrow> bm_get (i + 1 + of_nat j) hs = None"
    using hm_probe_form by blast
  have "j \<le> length hs" using taken_le_length[OF assms(1) j(3)] j(1) assms(2) by simp
  moreover have "i + 1 + of_nat j \<noteq> i"
  proof
    assume "i + 1 + of_nat j = i"
    then have "(of_nat (Suc j) :: u64) = 0" by (simp add: algebra_simps)
    then have "(2 ^ 64 :: nat) dvd Suc j" by (simp only: word_of_nat_eq_0_iff) simp
    with \<open>j \<le> length hs\<close> assms(2) show False by (auto dest: dvd_imp_le)
  qed
  ultimately show ?thesis using j by simp
qed

section \<open>The contract of a handle table\<close>

locale handle_table =
  fixes hins :: "'h \<Rightarrow> 't \<Rightarrow> u64 \<times> 't" and hrem :: "u64 \<Rightarrow> 't \<Rightarrow> 'h option \<times> 't"
    and hget :: "'t \<Rightarrow> u64 \<Rightarrow> 'h option" and hmod :: "u64 \<Rightarrow> ('h \<Rightarrow> 'h) \<Rightarrow> 't \<Rightarrow> 't"
    and hok :: "'t \<Rightarrow> bool" and room :: "'t \<Rightarrow> bool"
  assumes ins_fresh: "hok t \<Longrightarrow> hget t (fst (hins h t)) = None"
    and ins_get: "hok t \<Longrightarrow> hget (snd (hins h t)) = (hget t)(fst (hins h t) \<mapsto> h)"
    and ins_ok: "hok t \<Longrightarrow> room t \<Longrightarrow> hok (snd (hins h t))"
    and rem_val: "fst (hrem i t) = hget t i"
    and rem_get: "hok t \<Longrightarrow> hget (snd (hrem i t)) = (hget t)(i := None)"
    and rem_ok: "hok t \<Longrightarrow> hok (snd (hrem i t))"
    and mod_get: "hok t \<Longrightarrow> hget (hmod i f t) = (hget t)(i := map_option f (hget t i))"
    and mod_ok: "hok t \<Longrightarrow> hok (hmod i f t)"
    and finite_open: "hok t \<Longrightarrow> finite (dom (hget t))"
begin

definition users :: "('h \<Rightarrow> bool) \<Rightarrow> 't \<Rightarrow> nat" where
  "users P t = card {i. \<exists>h. hget t i = Some h \<and> P h}"

lemma users_finite: "hok t \<Longrightarrow> finite {i. \<exists>h. hget t i = Some h \<and> P h}"
  by (rule finite_subset[OF _ finite_open[of t]]) auto

lemma users_ins:
  assumes "hok t"
  shows "users P (snd (hins h t)) = (if P h then Suc (users P t) else users P t)"
proof -
  have "{i. \<exists>h'. hget (snd (hins h t)) i = Some h' \<and> P h'} =
      (if P h then insert (fst (hins h t)) {i. \<exists>h. hget t i = Some h \<and> P h} else {i. \<exists>h. hget t i = Some h \<and> P h})"
    using ins_fresh[OF assms, of h] by (auto simp: ins_get[OF assms])
  then show ?thesis
    using ins_fresh[OF assms, of h] by (simp add: users_def users_finite[OF assms])
qed

lemma users_rem:
  assumes "hok t"
  shows "users P (snd (hrem i t)) =
           users P t - (case hget t i of None \<Rightarrow> 0 | Some h \<Rightarrow> if P h then 1 else 0)"
proof -
  have "{k. \<exists>h. hget (snd (hrem i t)) k = Some h \<and> P h} = {k. \<exists>h. hget t k = Some h \<and> P h} - {i}"
    by (auto simp: rem_get[OF assms])
  then show ?thesis
    by (auto simp: users_def card_Diff_singleton_if split: option.split)
qed

lemma users_mod:
  assumes "hok t" and "\<And>h. hget t i = Some h \<Longrightarrow> P (f h) = P h"
  shows "users P (hmod i f t) = users P t"
proof -
  have "{k. \<exists>h. hget (hmod i f t) k = Some h \<and> P h} = {k. \<exists>h. hget t k = Some h \<and> P h}"
    using assms(2) by (auto simp: mod_get[OF assms(1)])
  then show ?thesis by (simp add: users_def)
qed

lemma users_pos: "hok t \<Longrightarrow> hget t i = Some h \<Longrightarrow> P h \<Longrightarrow> 0 < users P t"
  by (auto simp: users_def card_gt_0_iff users_finite)

end

interpretation ht: handle_table hm_insert hm_remove hm_lookup hm_modify hm_ok hm_room
proof unfold_locales
  show "hm_ok (snd (hm_insert h t))" if "hm_ok t" "hm_room t" for h :: 'h and t
    using that hm_probe_free[of "hm_handles t" "hm_next t"]
    by (auto simp: hm_ok_def hm_room_def hm_insert_def Let_def bm_simps)
  show "finite (dom (hm_lookup t))" if "hm_ok t" for t :: "'h handle_map"
    using that by (simp add: hm_lookup_def[abs_def] hm_ok_def bm_get_map finite_dom_map_of)
qed (auto simp: hm_ok_def hm_lookup_def hm_insert_def hm_remove_def hm_modify_def Let_def bm_simps fun_eq_iff)

lemma hm_get_lookup: "hm_get m i = (case hm_lookup m i of None \<Rightarrow> Inl EBADF | Some h \<Rightarrow> Inr h)"
  by (simp add: hm_get_def hm_lookup_def)

text \<open>There is always a number that is not in use, so a count of handles fits into \<open>usize\<close>.\<close>

lemma users_bound: "hm_ok t \<Longrightarrow> ht.users P t < 2 ^ 64"
proof -
  assume t: "hm_ok t"
  have "hm_next t \<notin> {i. \<exists>h. hm_lookup t i = Some h \<and> P h}"
    using t by (simp add: hm_ok_def hm_lookup_def)
  then have "{i. \<exists>h. hm_lookup t i = Some h \<and> P h} \<subset> UNIV" by blast
  then have "ht.users P t < card (UNIV :: u64 set)" unfolding ht.users_def by (intro psubset_card_mono) simp_all
  then show ?thesis by (simp add: card_word)
qed

lemma hm_new_simps [simp]: "hm_ok hm_new" "hm_lookup hm_new i = None"
  by (simp_all add: hm_new_def hm_ok_def hm_lookup_def bm_get_def)

lemma users_hm_new [simp]: "ht.users P hm_new = 0"
  by (simp add: ht.users_def)

section \<open>Properties\<close>

text \<open>
  Handle numbers are never handed out twice. With fewer than \<open>2 ^ 64 - 1\<close> handles open, in whatever
  state earlier insertions and removals and the wrap-around of the counter left the table, a new handle
  gets a number that is not in use, the number leads to the handle, all other numbers lead where they led
  before, and the table is ready for the next insertion.
\<close>

theorem hm_insert_fresh:
  assumes "hm_ok t" and "hm_room t" and "hm_insert h t = (i, t')"
  shows "hm_get t i = Inl EBADF \<and> hm_get t' i = Inr h \<and> (\<forall>k. k \<noteq> i \<longrightarrow> hm_get t' k = hm_get t k) \<and> hm_ok t'"
  using ht.ins_fresh[OF assms(1), of h] ht.ins_get[OF assms(1), of h] ht.ins_ok[OF assms(1,2), of h] assms(3)
  by (simp add: hm_get_lookup)

theorem hm_insert_fresh_witness:
  "\<exists>t'. hm_insert CHR ''b'' \<lparr>hm_handles = [(0, CHR ''a'')], hm_next = - 1\<rparr> = (- 1, t') \<and>
        hm_get t' 0 = Inr CHR ''a'' \<and> hm_get t' (- 1) = Inr CHR ''b'' \<and> hm_ok t' \<and> hm_next t' = 1"
proof -
  let ?t = "\<lparr>hm_handles = [(0, CHR ''a'')], hm_next = - 1\<rparr>"
  have t: "hm_ok ?t" "hm_room ?t"
    by (simp_all add: hm_ok_def hm_room_def bm_get_def lin_cmp_def)
  obtain t' where ins: "hm_insert CHR ''b'' ?t = (- 1, t')" "hm_next t' = 1" "hm_get ?t 0 = Inr CHR ''a''"
    by (simp add: hm_insert_def Let_def hm_get_def bm_get_def lin_cmp_def)
  from hm_insert_fresh[OF t ins(1)] ins show ?thesis by auto
qed

text \<open>
  \<open>FpathWriter\<close> never writes past the buffer it was given: it writes the parts pushed one after the other,
  cut off at the end of the buffer.
\<close>

definition fw_ok :: "bytes \<Rightarrow> fpath_writer \<Rightarrow> bool" where
  "fw_ok s w \<longleftrightarrow> fw_written w = min (length s) (length (fw_buf w)) \<and> take (fw_written w) (fw_buf w) = take (fw_written w) s"

lemma push_str_ok:
  assumes "fw_ok s w"
  shows "fw_ok (s @ p) (push_str p w)" "length (fw_buf (push_str p w)) = length (fw_buf w)"
proof -
  let ?n = "fw_written w" and ?c = "min (length p) (length (fw_buf w) - fw_written w)"
  have n: "?n = min (length s) (length (fw_buf w))" "take ?n (fw_buf w) = take ?n s" using assms unfolding fw_ok_def by blast+
  have l: "length (take ?n (fw_buf w)) = ?n" using n(1) by simp
  show len: "length (fw_buf (push_str p w)) = length (fw_buf w)" using n(1) by (simp add: push_str_def Let_def)
  have w: "fw_written (push_str p w) = ?n + ?c" by (simp add: push_str_def Let_def)
  have "take (?n + ?c) (fw_buf (push_str p w)) = take ?n s @ take ?c p"
    using n l by (simp add: push_str_def Let_def)
  moreover have "take (?n + ?c) (s @ p) = take ?n s @ take ?c p"
    using n(1) by (auto simp: min_def)
  moreover have "?n + ?c = min (length (s @ p)) (length (fw_buf w))" using n(1) by (auto simp: min_def)
  ultimately show "fw_ok (s @ p) (push_str p w)" using len w by (simp add: fw_ok_def)
qed

lemma fpath_start_ok:
  "fw_ok (ascii_bytes ''/scheme/'' @ name @ ascii_bytes ''/'')
     (push_str (ascii_bytes ''/'') (push_str name (push_str (ascii_bytes ''/scheme/'') \<lparr>fw_buf = buf, fw_written = 0\<rparr>)))"
proof -
  have "fw_ok [] \<lparr>fw_buf = buf, fw_written = 0\<rparr>" by (simp add: fw_ok_def)
  from push_str_ok(1)[OF push_str_ok(1)[OF push_str_ok(1)[OF this]]] show ?thesis by simp
qed

end
