(* ===== verification/Shm.thy ===== *)
theory Shm
  imports Handle_Map
begin

text \<open>
  The shared memory scheme (\<^verbatim>\<open>ipcd/src/shm.rs\<close>): named objects, their buffers (\<open>MmapGuard\<close>) and the handles
  that refer to them.

  \<^item> The kernel calls \<open>fmap\<close> and \<open>mremap\<close> are fields of \<open>shm_ext\<close>: they fail or give an address and the
    bytes of the region. \<open>shm_ext_ok\<close> says what the code relies on: the region has the size asked for and
    \<open>mremap\<close> keeps the old bytes. The bytes mapped at \<open>base\<close> are the field \<open>mg_mem\<close>; processes that mapped the
    object may change them at any time (\<open>ShPoke\<close>).
  \<^item> Arithmetic on \<open>usize\<close> wraps, as in a build without overflow checks; \<open>checked_add\<close> does not.
\<close>

unbundle bit_operations_syntax

section \<open>Definitions\<close>

record shm_ext =
  sx_fmap :: "u64 \<Rightarrow> errno + u64 \<times> bytes"
  sx_mremap :: "u64 \<Rightarrow> bytes \<Rightarrow> u64 \<Rightarrow> u64 \<Rightarrow> errno + u64 \<times> bytes"
  sx_page :: u64
  sx_O_CREAT :: u64
  sx_O_EXCL :: u64
  sx_MODE_FILE :: u16

datatype shm_hnd = HShm bytes | HShmRoot

record mmap_guard =
  mg_base :: u64
  mg_len :: u64
  mg_mem :: bytes

record shm_handle =
  sh_buffer :: mmap_guard
  sh_refs :: u64
  sh_unlinked :: bool

record shm_scheme =
  sh_maps :: "(bytes \<times> shm_handle) list"
  sh_handles :: "shm_hnd handle_map"

definition AT_REMOVEDIR :: u64 where
  "AT_REMOVEDIR = 0x200"

definition shm_new :: shm_scheme where
  "shm_new = \<lparr>sh_maps = [], sh_handles = hm_new\<rparr>"

definition as_shm :: "shm_hnd \<Rightarrow> errno + bytes" where
  "as_shm h = (case h of HShm path \<Rightarrow> Inr path | HShmRoot \<Rightarrow> Inl EBADF)"

subsection \<open>Buffers\<close>

definition next_multiple_of :: "u64 \<Rightarrow> u64 \<Rightarrow> u64" where
  "next_multiple_of a b = (if a mod b = 0 then a else a + (b - a mod b))"

definition div_ceil :: "u64 \<Rightarrow> u64 \<Rightarrow> u64" where
  "div_ceil a b = (if a mod b = 0 then a div b else a div b + 1)"

definition mg_new :: mmap_guard where
  "mg_new = \<lparr>mg_base = 0, mg_len = 0, mg_mem = []\<rparr>"

definition total_capacity :: "shm_ext \<Rightarrow> mmap_guard \<Rightarrow> u64" where
  "total_capacity x g = next_multiple_of (mg_len g) (sx_page x)"

definition grow_to :: "shm_ext \<Rightarrow> u64 \<Rightarrow> mmap_guard \<Rightarrow> (unit, mmap_guard) outcome" where
  "grow_to x new_len g =
     (if new_len \<le> total_capacity x g then ok () (g\<lparr>mg_len := new_len\<rparr>)
      else
        let needed = new_len - total_capacity x g;
            alloc_size = div_ceil needed (sx_page x) * sx_page x
        in case (if mg_base g = 0 then sx_fmap x alloc_size
                 else sx_mremap x (mg_base g) (mg_mem g) (next_multiple_of (mg_len g) (sx_page x))
                        (next_multiple_of new_len (sx_page x))) of
             Inl e \<Rightarrow> fail e g
           | Inr (new_base, mem) \<Rightarrow> ok () \<lparr>mg_base = new_base, mg_len = new_len, mg_mem = mem\<rparr>)"

definition mg_mmap :: "shm_ext \<Rightarrow> u64 \<Rightarrow> u64 \<Rightarrow> mmap_guard \<Rightarrow> errno + u64" where
  "mg_mmap x offset sz g =
     (if offset + sz > next_multiple_of (mg_len g) (sx_page x) then Inl ERANGE
      else if sz = 0 then Inr 0
      else Inr (mg_base g + offset))"

text \<open>The bytes that are copied to the caller's buffer of length \<open>n\<close>.\<close>

definition mg_read :: "u64 \<Rightarrow> nat \<Rightarrow> mmap_guard \<Rightarrow> bytes" where
  "mg_read offset n g =
     (if offset \<ge> mg_len g then []
      else take (min (unat (mg_len g - offset)) n) (drop (unat offset) (mg_mem g)))"

definition mg_write :: "shm_ext \<Rightarrow> u64 \<Rightarrow> bytes \<Rightarrow> mmap_guard \<Rightarrow> (nat, mmap_guard) outcome" where
  "mg_write x offset buf g =
     (if unat offset + length buf \<ge> 2 ^ 64 then fail ERANGE g
      else
        bind_out (grow_to x (offset + of_nat (length buf)) g)
          (\<lambda>_ g1.
            let to_write = min (unat (mg_len g1 - offset)) (length buf); o' = unat offset
            in ok to_write
                 (g1\<lparr>mg_mem := take o' (mg_mem g1) @ take to_write buf @ drop (o' + to_write) (mg_mem g1)\<rparr>)))"

subsection \<open>The scheme\<close>

definition shm_path :: "shm_scheme \<Rightarrow> u64 \<Rightarrow> errno + bytes" where
  "shm_path s i = (case hm_get (sh_handles s) i of Inl e \<Rightarrow> Inl e | Inr h \<Rightarrow> as_shm h)"

definition shm_root :: "shm_scheme \<Rightarrow> (u64, shm_scheme) outcome" where
  "shm_root s = (let (i, hs) = hm_insert HShmRoot (sh_handles s) in ok i (s\<lparr>sh_handles := hs\<rparr>))"

definition shm_openat :: "shm_ext \<Rightarrow> u64 \<Rightarrow> bytes \<Rightarrow> u64 \<Rightarrow> shm_scheme \<Rightarrow> (u64, shm_scheme) outcome" where
  "shm_openat x dirfd path flags s =
     (case hm_get (sh_handles s) dirfd of
        Inl e \<Rightarrow> fail e s
      | Inr (HShm _) \<Rightarrow> fail EACCES s
      | Inr HShmRoot \<Rightarrow>
         (case map_of (sh_maps s) path of
            Some e \<Rightarrow>
              if flags AND sx_O_EXCL x \<noteq> 0 \<and> flags AND sx_O_CREAT x \<noteq> 0 then fail EEXIST s
              else
                let (i, hs) = hm_insert (HShm path) (sh_handles s)
                in ok i (s\<lparr>sh_maps := AList.update path (e\<lparr>sh_refs := sh_refs e + 1\<rparr>) (sh_maps s), sh_handles := hs\<rparr>)
          | None \<Rightarrow>
              if flags AND sx_O_CREAT x = 0 then fail ENOENT s
              else
                let (i, hs) = hm_insert (HShm path) (sh_handles s)
                in ok i (s\<lparr>sh_maps := AList.update path \<lparr>sh_buffer = mg_new, sh_refs = 1, sh_unlinked = False\<rparr> (sh_maps s),
                           sh_handles := hs\<rparr>)))"

definition shm_fpath :: "u64 \<Rightarrow> bytes \<Rightarrow> shm_scheme \<Rightarrow> errno + fpath_writer" where
  "shm_fpath i buf s =
     fpath_with buf (ascii_bytes ''shm'')
       (\<lambda>w. case shm_path s i of Inl e \<Rightarrow> Inl e | Inr path \<Rightarrow> Inr (push_str path w))"

definition shm_on_close :: "u64 \<Rightarrow> shm_scheme \<Rightarrow> (unit, shm_scheme) outcome" where
  "shm_on_close i s =
     (case hm_remove i (sh_handles s) of
        (None, _) \<Rightarrow> panic s
      | (Some HShmRoot, hs) \<Rightarrow> ok () (s\<lparr>sh_handles := hs\<rparr>)
      | (Some (HShm path), hs) \<Rightarrow>
         (case map_of (sh_maps s) path of
            None \<Rightarrow> panic (s\<lparr>sh_handles := hs\<rparr>)
          | Some e \<Rightarrow>
             let e' = e\<lparr>sh_refs := sh_refs e - 1\<rparr>
             in ok () (s\<lparr>sh_maps := (if sh_refs e' = 0 \<and> sh_unlinked e' then AList.delete path (sh_maps s)
                                     else AList.update path e' (sh_maps s)),
                         sh_handles := hs\<rparr>)))"

definition shm_unlinkat :: "u64 \<Rightarrow> bytes \<Rightarrow> u64 \<Rightarrow> shm_scheme \<Rightarrow> (unit, shm_scheme) outcome" where
  "shm_unlinkat dirfd path flags s =
     (case hm_get (sh_handles s) dirfd of
        Inl e \<Rightarrow> fail e s
      | Inr (HShm _) \<Rightarrow> fail EACCES s
      | Inr HShmRoot \<Rightarrow>
         if flags AND AT_REMOVEDIR = AT_REMOVEDIR then fail ENOTDIR s
         else
           case map_of (sh_maps s) path of
             None \<Rightarrow> fail ENOENT s
           | Some e \<Rightarrow>
              ok () (s\<lparr>sh_maps := (if sh_refs e = 0 then AList.delete path (sh_maps s)
                                   else AList.update path (e\<lparr>sh_unlinked := True\<rparr>) (sh_maps s))\<rparr>))"

text \<open>An operation on the buffer a handle refers to; \<open>expect\<close> panics when the object is missing.\<close>

definition with_buffer :: "u64 \<Rightarrow> (mmap_guard \<Rightarrow> ('a, mmap_guard) outcome) \<Rightarrow> shm_scheme \<Rightarrow> ('a, shm_scheme) outcome" where
  "with_buffer i f s =
     (case shm_path s i of
        Inl e \<Rightarrow> fail e s
      | Inr path \<Rightarrow>
         (case map_of (sh_maps s) path of
            None \<Rightarrow> panic s
          | Some e \<Rightarrow>
             (case f (sh_buffer e) of
                (r, g) \<Rightarrow> (r, s\<lparr>sh_maps := AList.update path (e\<lparr>sh_buffer := g\<rparr>) (sh_maps s)\<rparr>))))"

definition shm_fstat :: "shm_ext \<Rightarrow> u64 \<Rightarrow> shm_scheme \<Rightarrow> (u16 \<times> u64, shm_scheme) outcome" where
  "shm_fstat x i s = with_buffer i (\<lambda>g. ok (sx_MODE_FILE x, mg_len g) g) s"

definition shm_fsize :: "u64 \<Rightarrow> shm_scheme \<Rightarrow> (u64, shm_scheme) outcome" where
  "shm_fsize i s = with_buffer i (\<lambda>g. ok (mg_len g) g) s"

definition shm_ftruncate :: "shm_ext \<Rightarrow> u64 \<Rightarrow> u64 \<Rightarrow> shm_scheme \<Rightarrow> (unit, shm_scheme) outcome" where
  "shm_ftruncate x i len s = with_buffer i (grow_to x len) s"

definition shm_mmap_prep :: "shm_ext \<Rightarrow> u64 \<Rightarrow> u64 \<Rightarrow> u64 \<Rightarrow> shm_scheme \<Rightarrow> (u64, shm_scheme) outcome" where
  "shm_mmap_prep x i offset sz s =
     with_buffer i (\<lambda>g. case mg_mmap x offset sz g of Inl e \<Rightarrow> fail e g | Inr a \<Rightarrow> ok a g) s"

definition shm_read :: "u64 \<Rightarrow> nat \<Rightarrow> u64 \<Rightarrow> shm_scheme \<Rightarrow> (bytes, shm_scheme) outcome" where
  "shm_read i n offset s = with_buffer i (\<lambda>g. ok (mg_read offset n g) g) s"

definition shm_write :: "shm_ext \<Rightarrow> u64 \<Rightarrow> bytes \<Rightarrow> u64 \<Rightarrow> shm_scheme \<Rightarrow> (nat, shm_scheme) outcome" where
  "shm_write x i buf offset s = with_buffer i (mg_write x offset buf) s"

section \<open>Buffers stay inside their mapping\<close>

text \<open>What the code relies on: the page size, and regions of the size that was asked for, never empty.\<close>

definition shm_ext_ok :: "shm_ext \<Rightarrow> bool" where
  "shm_ext_ok x \<longleftrightarrow>
     sx_page x = 4096 \<and>
     (\<forall>sz b mem. sx_fmap x sz = Inr (b, mem) \<longrightarrow> b \<noteq> 0 \<and> sz \<noteq> 0 \<and> length mem = unat sz) \<and>
     (\<forall>a old n n' b mem. sx_mremap x a old n n' = Inr (b, mem) \<longrightarrow>
        b \<noteq> 0 \<and> n' \<noteq> 0 \<and> length mem = unat n' \<and>
        (n \<le> n' \<and> unat n \<le> length old \<longrightarrow> take (unat n) mem = take (unat n) old))"

definition mg_ok :: "mmap_guard \<Rightarrow> bool" where
  "mg_ok g \<longleftrightarrow>
     unat (mg_len g) \<le> length (mg_mem g) \<and> 4096 dvd length (mg_mem g) \<and> length (mg_mem g) < 2 ^ 64 \<and>
     (mg_base g = 0 \<longrightarrow> mg_mem g = [])"

definition ceil_page :: "nat \<Rightarrow> nat" where
  "ceil_page n = (n + 4095) div 4096 * 4096"

lemma ceil_page_cases:
  obtains (whole) "n mod 4096 = 0" "ceil_page n = n" "(n + 4095) div 4096 = n div 4096"
  | (part) "n mod 4096 \<noteq> 0" "ceil_page n = n + (4096 - n mod 4096)" "(n + 4095) div 4096 = n div 4096 + 1"
proof -
  define q r where "q = n div 4096" and "r = n mod 4096"
  have n: "n = 4096 * q + r" "r < 4096" by (simp_all add: q_def r_def)
  have d: "(n + 4095) div 4096 = q + (r + 4095) div 4096" by (simp add: n(1) add.assoc)
  show thesis
  proof (cases r)
    case 0
    with n d show ?thesis by (intro whole) (simp_all add: ceil_page_def q_def r_def)
  next
    case (Suc k)
    then have "(r + 4095) div 4096 = 1" using n(2) by (simp add: div_add_self2)
    with n d Suc show ?thesis by (intro part) (simp_all add: ceil_page_def flip: q_def r_def)
  qed
qed

lemma ceil_page_ge: "n \<le> ceil_page n"
  by (rule ceil_page_cases[of n]) simp_all

lemma ceil_page_dvd: "4096 dvd ceil_page n"
  by (simp add: ceil_page_def)

lemma ceil_page_least: "n \<le> k \<Longrightarrow> 4096 dvd k \<Longrightarrow> ceil_page n \<le> k"
  by (auto simp: ceil_page_def elim!: dvdE)

lemma unat_mod_page: "unat ((a :: u64) mod 4096) = unat a mod 4096"
  by (simp add: unat_mod)

lemma mod_page_zero: "(a :: u64) mod 4096 = 0 \<longleftrightarrow> unat a mod 4096 = 0"
  using unat_mod_page[of a] by (metis unat_0 unat_eq_zero)

lemma unat_less_64: "unat (a :: u64) < 2 ^ 64"
  using unsigned_less[of a] by simp

lemma next_multiple_unat: "unat (next_multiple_of a 4096) = ceil_page (unat a) mod 2 ^ 64"
proof (rule ceil_page_cases[of "unat a"])
  assume "unat a mod 4096 = 0" "ceil_page (unat a) = unat a"
  then show ?thesis using unat_less_64[of a] by (simp add: next_multiple_of_def mod_page_zero)
next
  assume r: "unat a mod 4096 \<noteq> 0" "ceil_page (unat a) = unat a + (4096 - unat a mod 4096)"
  have "a mod 4096 \<le> 4096" by (simp add: word_le_nat_alt unat_mod_page)
  then have "unat (4096 - a mod 4096) = 4096 - unat a mod 4096" by (simp add: unat_sub unat_mod_page)
  then show ?thesis using r by (simp add: next_multiple_of_def mod_page_zero unat_word_ariths)
qed

lemma div_ceil_unat: "unat (div_ceil a 4096 * 4096) = ceil_page (unat a) mod 2 ^ 64"
proof (rule ceil_page_cases[of "unat a"])
  assume r: "unat a mod 4096 = 0" "ceil_page (unat a) = unat a"
  then have "unat a div 4096 * 4096 = unat a" using div_mult_mod_eq[of "unat a" 4096] by linarith
  with r show ?thesis using unat_less_64[of a] by (simp add: div_ceil_def mod_page_zero unat_word_ariths unat_div)
next
  assume r: "unat a mod 4096 \<noteq> 0" "(unat a + 4095) div 4096 = unat a div 4096 + 1"
  have "unat (div_ceil a 4096) = unat a div 4096 + 1"
    using r(1) unat_less_64[of a] by (simp add: div_ceil_def mod_page_zero unat_word_ariths unat_div)
  then show ?thesis by (simp add: unat_word_ariths ceil_page_def r(2))
qed

text \<open>A rounding that does not come out as 0 did not wrap.\<close>

lemma rounded_bounds:
  assumes "unat m = ceil_page n mod 2 ^ 64" and "n < 2 ^ 64" and "(m :: u64) \<noteq> 0 \<or> n = 0"
  shows "n \<le> unat m" "4096 dvd unat m"
proof -
  have le: "ceil_page n \<le> 2 ^ 64" by (rule ceil_page_least) (use assms(2) in simp_all)
  have "ceil_page n \<noteq> 2 ^ 64"
  proof
    assume c: "ceil_page n = 2 ^ 64"
    then have "unat m = 0" using assms(1) by simp
    with assms(3) c show False by (auto simp: unat_eq_zero ceil_page_def)
  qed
  with le assms(1) have "unat m = ceil_page n" by simp
  then show "n \<le> unat m" "4096 dvd unat m" using ceil_page_ge ceil_page_dvd by simp_all
qed

lemma capacity_mapped:
  assumes "sx_page x = 4096" and "mg_ok g"
  shows "unat (total_capacity x g) \<le> length (mg_mem g)"
proof -
  have "ceil_page (unat (mg_len g)) \<le> length (mg_mem g)" "length (mg_mem g) < 2 ^ 64"
    using assms(2) ceil_page_least by (auto simp: mg_ok_def)
  then show ?thesis using assms(1) by (simp add: total_capacity_def next_multiple_unat)
qed

lemma mg_new_ok [simp]: "mg_ok mg_new"
  by (simp add: mg_ok_def mg_new_def)

lemma grow_to_ok:
  assumes x: "shm_ext_ok x" and g: "mg_ok g"
  shows "mg_ok (snd (grow_to x n g))"
proof (cases "n \<le> total_capacity x g")
  case True
  have "unat n \<le> length (mg_mem g)"
    using True capacity_mapped[OF _ g, of x] x by (simp add: word_le_nat_alt shm_ext_ok_def)
  with True g show ?thesis by (simp add: grow_to_def mg_ok_def)
next
  case False
  have page: "sx_page x = 4096" using x by (simp add: shm_ext_ok_def)
  show ?thesis
  proof (cases "mg_base g = 0")
    case True
    then have "mg_len g = 0" using g by (simp add: mg_ok_def) (metis le_zero_eq list.size(3) unat_eq_zero)
    then have cap: "total_capacity x g = 0" by (simp add: total_capacity_def next_multiple_of_def)
    show ?thesis
    proof (cases "sx_fmap x (div_ceil n 4096 * 4096)")
      case (Inr r)
      obtain b mem where r: "r = (b, mem)" by (cases r)
      have m: "b \<noteq> 0" "div_ceil n 4096 * 4096 \<noteq> 0" "length mem = unat (div_ceil n 4096 * 4096)"
        using x Inr r unfolding shm_ext_ok_def by blast+
      note bounds = rounded_bounds[OF div_ceil_unat unat_less_64, of n] m(2)
      have "mg_ok \<lparr>mg_base = b, mg_len = n, mg_mem = mem\<rparr>"
        using bounds m(1,3) unat_less_64[of "div_ceil n 4096 * 4096"] by (simp add: mg_ok_def)
      then show ?thesis using False True cap page Inr r by (simp add: grow_to_def)
    qed (use False True cap page g in \<open>simp add: grow_to_def\<close>)
  next
    case nz: False
    let ?call = "sx_mremap x (mg_base g) (mg_mem g) (next_multiple_of (mg_len g) 4096) (next_multiple_of n 4096)"
    show ?thesis
    proof (cases ?call)
      case (Inr r)
      obtain b mem where r: "r = (b, mem)" by (cases r)
      have m: "b \<noteq> 0" "next_multiple_of n 4096 \<noteq> 0" "length mem = unat (next_multiple_of n 4096)"
        using x Inr r unfolding shm_ext_ok_def by blast+
      note bounds = rounded_bounds[OF next_multiple_unat unat_less_64, of n] m(2)
      have "mg_ok \<lparr>mg_base = b, mg_len = n, mg_mem = mem\<rparr>"
        using bounds m(1,3) unat_less_64[of "next_multiple_of n 4096"] by (simp add: mg_ok_def)
      then show ?thesis using False nz page Inr r by (simp add: grow_to_def)
    qed (use False nz page g in \<open>simp add: grow_to_def\<close>)
  qed
qed

lemma grow_to_len: "grow_to x n g = (Inr u, g1) \<Longrightarrow> mg_len g1 = n"
  by (auto simp: grow_to_def Let_def split: if_splits sum.splits)

text \<open>A write that succeeds writes everything, inside the mapping, and ends the object there.\<close>

lemma mg_write_effect:
  assumes x: "shm_ext_ok x" and g: "mg_ok g" and w: "mg_write x off buf g = (Inr n, g1)"
  shows "n = length buf" "mg_ok g1" "mg_len g1 = off + of_nat (length buf)" "mg_read off (length buf) g1 = buf"
proof -
  let ?e = "off + of_nat (length buf)"
  obtain g0 where g0: "grow_to x ?e g = (Inr (), g0)" and fit: "unat off + length buf < 2 ^ 64"
      and res: "n = min (unat (mg_len g0 - off)) (length buf)"
        "g1 = g0\<lparr>mg_mem := take (unat off) (mg_mem g0) @ take n buf @ drop (unat off + n) (mg_mem g0)\<rparr>"
    using w by (auto simp: mg_write_def bind_out_def Let_def split: if_splits sum.splits prod.splits)
  have len: "mg_len g0 = ?e" using g0 by (rule grow_to_len)
  have "length buf < 2 ^ 64" using fit by simp
  then have u: "unat (of_nat (length buf) :: u64) = length buf" by (simp add: unat_of_nat)
  then show n: "n = length buf" using res(1) by (simp add: len)
  have ok0: "mg_ok g0" using grow_to_ok[OF x g, of ?e] g0 by simp
  have e: "unat ?e = unat off + length buf" using fit u by (simp add: unat_word_ariths)
  then have room: "unat off + length buf \<le> length (mg_mem g0)" using ok0 len by (simp add: mg_ok_def)
  then have same: "length (mg_mem g1) = length (mg_mem g0)" using n by (simp add: res(2))
  have b: "mg_base g0 = 0 \<Longrightarrow> mg_mem g1 = []" using ok0 same by (auto simp: mg_ok_def)
  show "mg_len g1 = ?e" using len by (simp add: res(2))
  then show "mg_ok g1" using ok0 same b len by (auto simp: mg_ok_def res(2))
  have "drop (unat off) (mg_mem g1) = buf @ drop (unat off + length buf) (mg_mem g0)"
    using room n by (simp add: res(2))
  moreover have "off \<ge> ?e \<longleftrightarrow> buf = []" using e by (auto simp: word_le_nat_alt)
  ultimately show "mg_read off (length buf) g1 = buf"
    using u by (simp add: mg_read_def \<open>mg_len g1 = ?e\<close>)
qed

lemma mg_write_ok:
  assumes "shm_ext_ok x" and "mg_ok g"
  shows "mg_ok (snd (mg_write x off buf g))"
proof (cases "mg_write x off buf g")
  case (Pair r g1)
  show ?thesis
  proof (cases r)
    case (Inl e)
    then show ?thesis
      using Pair assms(2) grow_to_ok[OF assms, of "off + of_nat (length buf)"]
      by (auto simp: mg_write_def bind_out_def Let_def split: if_splits sum.splits prod.splits)
  next
    case (Inr n)
    then show ?thesis using mg_write_effect(2)[OF assms] Pair by simp
  qed
qed

section \<open>Reference counts\<close>

abbreviation shm_users :: "bytes \<Rightarrow> shm_scheme \<Rightarrow> nat" where
  "shm_users p s \<equiv> ht.users (\<lambda>h. h = HShm p) (sh_handles s)"

text \<open>
  Every object counts exactly the handles open on it, an unlinked object has one, no handle is without
  its object, and no buffer ends after its mapping.
\<close>

definition shm_obj_ok :: "nat \<Rightarrow> shm_handle option \<Rightarrow> bool" where
  "shm_obj_ok n e =
     (case e of
        None \<Rightarrow> n = 0
      | Some e \<Rightarrow> sh_refs e = of_nat n \<and> mg_ok (sh_buffer e) \<and> (sh_unlinked e \<longrightarrow> 0 < n))"

definition shm_inv :: "shm_scheme \<Rightarrow> bool" where
  "shm_inv s \<longleftrightarrow> hm_ok (sh_handles s) \<and> (\<forall>p. shm_obj_ok (shm_users p s) (map_of (sh_maps s) p))"

datatype shm_req =
    ShRoot
  | ShOpen u64 bytes u64
  | ShClose u64
  | ShUnlink u64 bytes u64
  | ShStat u64
  | ShSize u64
  | ShTruncate u64 u64
  | ShMmap u64 u64 u64
  | ShRead u64 nat u64
  | ShWrite u64 bytes u64
  | ShPoke bytes "bytes \<Rightarrow> bytes"

text \<open>A process that mapped the object overwrites some of its bytes.\<close>

definition poke :: "(bytes \<Rightarrow> bytes) \<Rightarrow> bytes \<Rightarrow> bytes" where
  "poke f mem = take (length mem) (f mem @ mem)"

lemma length_poke [simp]: "length (poke f mem) = length mem"
  by (simp add: poke_def min_absorb1)

definition shm_step :: "shm_ext \<Rightarrow> shm_scheme \<Rightarrow> shm_req \<Rightarrow> shm_scheme" where
  "shm_step x s r =
     (case r of
        ShRoot \<Rightarrow> snd (shm_root s)
      | ShOpen d p f \<Rightarrow> snd (shm_openat x d p f s)
      | ShClose i \<Rightarrow> snd (shm_on_close i s)
      | ShUnlink d p f \<Rightarrow> snd (shm_unlinkat d p f s)
      | ShStat i \<Rightarrow> snd (shm_fstat x i s)
      | ShSize i \<Rightarrow> snd (shm_fsize i s)
      | ShTruncate i n \<Rightarrow> snd (shm_ftruncate x i n s)
      | ShMmap i off n \<Rightarrow> snd (shm_mmap_prep x i off n s)
      | ShRead i n off \<Rightarrow> snd (shm_read i n off s)
      | ShWrite i b off \<Rightarrow> snd (shm_write x i b off s)
      | ShPoke p f \<Rightarrow>
          s\<lparr>sh_maps := AList.map_entry p
              (\<lambda>e. e\<lparr>sh_buffer := (sh_buffer e)\<lparr>mg_mem := poke f (mg_mem (sh_buffer e))\<rparr>\<rparr>) (sh_maps s)\<rparr>)"

lemma shm_inv_entry:
  assumes "shm_inv s" and "hm_ok hs" and "\<And>q. q \<noteq> p \<Longrightarrow> ht.users (\<lambda>h. h = HShm q) hs = shm_users q s"
    and "shm_obj_ok (ht.users (\<lambda>h. h = HShm p) hs) e" and "map_of m = (map_of (sh_maps s))(p := e)"
  shows "shm_inv (s\<lparr>sh_maps := m, sh_handles := hs\<rparr>)"
  using assms by (auto simp: shm_inv_def)

lemma shm_invD:
  assumes "shm_inv s"
  shows "hm_ok (sh_handles s)" "shm_obj_ok (shm_users p s) (map_of (sh_maps s) p)"
  using assms by (simp_all add: shm_inv_def)

lemma shm_inv_maps:
  assumes "shm_inv s" and "shm_obj_ok (shm_users p s) e" and "map_of m = (map_of (sh_maps s))(p := e)"
  shows "shm_inv (s\<lparr>sh_maps := m\<rparr>)"
  using assms by (auto simp: shm_inv_def)

lemma with_buffer_inv:
  assumes "shm_inv s" and "\<And>g. mg_ok g \<Longrightarrow> mg_ok (snd (f g))"
  shows "shm_inv (snd (with_buffer i f s))"
proof (cases "shm_path s i")
  case (Inr p)
  show ?thesis
  proof (cases "map_of (sh_maps s) p")
    case (Some e)
    obtain r g where g: "f (sh_buffer e) = (r, g)" by fastforce
    have "shm_obj_ok (shm_users p s) (Some (e\<lparr>sh_buffer := g\<rparr>))"
      using shm_invD(2)[OF assms(1), of p] assms(2)[of "sh_buffer e"] Some g by (simp add: shm_obj_ok_def)
    from shm_inv_maps[OF assms(1) this] show ?thesis
      using Inr Some g by (simp add: with_buffer_def AList.update_conv')
  qed (use Inr assms(1) in \<open>simp add: with_buffer_def\<close>)
qed (use assms(1) in \<open>simp add: with_buffer_def\<close>)

lemma shm_openat_inv:
  assumes "shm_inv s" and "hm_room (sh_handles s)"
  shows "shm_inv (snd (shm_openat x d p f s))"
proof -
  have h: "hm_ok (sh_handles s)" using assms(1) by (rule shm_invD)
  obtain i hs where ins: "hm_insert (HShm p) (sh_handles s) = (i, hs)" by fastforce
  have hs: "hm_ok hs" and u: "ht.users (\<lambda>h. h = HShm q) hs = (if q = p then Suc (shm_users q s) else shm_users q s)" for q
    using ht.ins_ok[OF h assms(2), of "HShm p"] ht.users_ins[OF h, of "\<lambda>h. h = HShm q" "HShm p"] ins by auto
  have "shm_inv (s\<lparr>sh_maps := AList.update p e (sh_maps s), sh_handles := hs\<rparr>)"
    if "shm_obj_ok (Suc (shm_users p s)) (Some e)" for e
    by (rule shm_inv_entry[OF assms(1) hs]) (use that u in \<open>simp_all add: AList.update_conv'\<close>)
  moreover have "shm_obj_ok (Suc (shm_users p s)) (Some (e\<lparr>sh_refs := sh_refs e + 1\<rparr>))" if "map_of (sh_maps s) p = Some e" for e
    using shm_invD(2)[OF assms(1), of p] that by (simp add: shm_obj_ok_def add.commute)
  moreover have "shm_obj_ok (Suc (shm_users p s)) (Some \<lparr>sh_buffer = mg_new, sh_refs = 1, sh_unlinked = False\<rparr>)"
    if "map_of (sh_maps s) p = None"
    using shm_invD(2)[OF assms(1), of p] that by (simp add: shm_obj_ok_def)
  ultimately show ?thesis
    using assms(1) ins by (auto simp: shm_openat_def split: sum.split shm_hnd.split option.split)
qed

lemma shm_root_inv:
  assumes "shm_inv s" and "hm_room (sh_handles s)"
  shows "shm_inv (snd (shm_root s))"
proof -
  have h: "hm_ok (sh_handles s)" using assms(1) by (rule shm_invD)
  obtain i hs where ins: "hm_insert HShmRoot (sh_handles s) = (i, hs)" by fastforce
  have "hm_ok hs" "ht.users (\<lambda>h. h = HShm q) hs = shm_users q s" for q
    using ht.ins_ok[OF h assms(2), of HShmRoot] ht.users_ins[OF h, of "\<lambda>h. h = HShm q" HShmRoot] ins by auto
  with assms(1) ins show ?thesis by (simp add: shm_root_def shm_inv_def)
qed

text \<open>Closing an open handle never finds its object missing.\<close>

lemma shm_on_close_ok:
  assumes "shm_inv s" and "hm_lookup (sh_handles s) i \<noteq> None"
  shows "\<exists>t. shm_on_close i s = (Inr (), t) \<and> shm_inv t"
proof -
  have h: "hm_ok (sh_handles s)" using assms(1) by (rule shm_invD)
  obtain v hs where rem: "hm_remove i (sh_handles s) = (v, hs)" by fastforce
  have v: "v = hm_lookup (sh_handles s) i" using ht.rem_val[of i "sh_handles s"] rem by simp
  have hs: "hm_ok hs" using ht.rem_ok[OF h, of i] rem by simp
  have u: "ht.users P hs = ht.users P (sh_handles s) - (case v of None \<Rightarrow> 0 | Some h \<Rightarrow> if P h then 1 else 0)" for P
    using ht.users_rem[OF h, of P i] rem v by simp
  from assms(2) v obtain w where w: "v = Some w" by blast
  show ?thesis
  proof (cases w)
    case HShmRoot
    with u w assms(1) hs rem show ?thesis by (simp add: shm_on_close_def shm_inv_def)
  next
    case (HShm p)
    have pos: "0 < shm_users p s" using ht.users_pos[OF h, of i w] w v HShm by simp
    then obtain e where e: "map_of (sh_maps s) p = Some e" "sh_refs e = of_nat (shm_users p s)" "mg_ok (sh_buffer e)"
      using shm_invD(2)[OF assms(1), of p] by (auto simp: shm_obj_ok_def split: option.splits)
    have up: "ht.users (\<lambda>h. h = HShm p) hs = shm_users p s - 1" using u w HShm by simp
    have refs: "sh_refs e - 1 = of_nat (shm_users p s - 1)" using e(2) pos by (simp add: of_nat_diff)
    have zero: "sh_refs e - 1 = 0 \<longleftrightarrow> shm_users p s - 1 = 0"
      using users_bound[OF hs, of "\<lambda>h. h = HShm p"] up unfolding refs by (simp add: word_of_nat_eq_0_iff) (auto dest: dvd_imp_le)
    have other: "ht.users (\<lambda>h. h = HShm q) hs = shm_users q s" if "q \<noteq> p" for q using u w HShm that by simp
    let ?e = "if sh_refs e - 1 = 0 \<and> sh_unlinked e then None else Some (e\<lparr>sh_refs := sh_refs e - 1\<rparr>)"
    have obj: "shm_obj_ok (ht.users (\<lambda>h. h = HShm p) hs) ?e"
      using up refs zero e(3) by (auto simp: shm_obj_ok_def)
    have "shm_inv (s\<lparr>sh_maps := (if sh_refs e - 1 = 0 \<and> sh_unlinked e then AList.delete p (sh_maps s)
        else AList.update p (e\<lparr>sh_refs := sh_refs e - 1\<rparr>) (sh_maps s)), sh_handles := hs\<rparr>)"
      by (rule shm_inv_entry[OF assms(1) hs other obj]) (simp_all add: AList.update_conv' AList.delete_conv')
    then show ?thesis using rem w HShm e(1) by (simp add: shm_on_close_def Let_def)
  qed
qed

lemma shm_on_close_inv: "shm_inv s \<Longrightarrow> shm_inv (snd (shm_on_close i s))"
proof (cases "hm_lookup (sh_handles s) i = None")
  case True
  assume "shm_inv s"
  then show ?thesis using True ht.rem_val[of i "sh_handles s"] by (cases "hm_remove i (sh_handles s)") (simp add: shm_on_close_def)
next
  case False
  assume "shm_inv s"
  from shm_on_close_ok[OF this False] show ?thesis by fastforce
qed

lemma shm_unlinkat_inv:
  assumes "shm_inv s"
  shows "shm_inv (snd (shm_unlinkat d p f s))"
proof (cases "map_of (sh_maps s) p")
  case (Some e)
  have ok: "sh_refs e = of_nat (shm_users p s)" "mg_ok (sh_buffer e)"
    using shm_invD(2)[OF assms, of p] Some by (simp_all add: shm_obj_ok_def)
  have zero: "sh_refs e = 0 \<longleftrightarrow> shm_users p s = 0"
    using users_bound[OF shm_invD(1)[OF assms], of "\<lambda>h. h = HShm p"] unfolding ok(1)
    by (simp add: word_of_nat_eq_0_iff) (auto dest: dvd_imp_le)
  have "shm_inv (s\<lparr>sh_maps := (if sh_refs e = 0 then AList.delete p (sh_maps s)
      else AList.update p (e\<lparr>sh_unlinked := True\<rparr>) (sh_maps s))\<rparr>)"
    by (rule shm_inv_maps[OF assms, where p = p and e = "if sh_refs e = 0 then None else Some (e\<lparr>sh_unlinked := True\<rparr>)"])
      (use ok zero in \<open>simp_all add: shm_obj_ok_def AList.update_conv' AList.delete_conv'\<close>)
  then show ?thesis using Some assms by (auto simp: shm_unlinkat_def split: sum.split shm_hnd.split)
qed (use assms in \<open>auto simp: shm_unlinkat_def split: sum.split shm_hnd.split\<close>)

lemma shm_poke_inv:
  assumes "shm_inv s"
  shows "shm_inv (shm_step x s (ShPoke p f))"
proof -
  have "poke f m = [] \<longleftrightarrow> m = []" for m by (metis length_0_conv length_poke)
  then have "shm_obj_ok n e \<Longrightarrow> shm_obj_ok n (map_option (\<lambda>e. e\<lparr>sh_buffer := (sh_buffer e)\<lparr>mg_mem := poke f (mg_mem (sh_buffer e))\<rparr>\<rparr>) e)" for n e
    by (auto simp: shm_obj_ok_def mg_ok_def split: option.splits)
  from this[OF shm_invD(2)[OF assms, of p]] show ?thesis
    unfolding shm_step_def shm_req.case by (rule shm_inv_maps[OF assms]) (simp add: AList.map_of_map_entry split: option.split)
qed

lemma shm_step_inv:
  assumes x: "shm_ext_ok x" and s: "shm_inv s" and room: "hm_room (sh_handles s)"
  shows "shm_inv (shm_step x s r)"
proof (cases r)
  case (ShPoke p f)
  then show ?thesis using shm_poke_inv[OF s] by simp
qed (use s room grow_to_ok[OF x] mg_write_ok[OF x] in
    \<open>simp_all add: shm_step_def shm_root_inv shm_openat_inv shm_on_close_inv shm_unlinkat_inv shm_fstat_def
      shm_fsize_def shm_ftruncate_def shm_mmap_prep_def shm_read_def shm_write_def with_buffer_inv split: sum.split\<close>)

text \<open>The environment never has all handle numbers in use.\<close>

abbreviation shm_env :: "shm_scheme \<Rightarrow> shm_req \<Rightarrow> bool" where
  "shm_env s r \<equiv> hm_room (sh_handles s)"

lemma shm_new_inv: "shm_inv shm_new"
  by (simp add: shm_new_def shm_inv_def shm_obj_ok_def)

definition shm_good :: "shm_ext \<Rightarrow> shm_scheme \<Rightarrow> bool" where
  "shm_good x s \<longleftrightarrow> (shm_ext_ok x \<longrightarrow> shm_inv s)"

interpretation shmd: daemon_invariant shm_new "shm_step x" shm_env "shm_good x" for x
  by unfold_locales (simp_all add: shm_good_def shm_new_inv shm_step_inv)

section \<open>Properties\<close>


text \<open>
  C36. What is written can be read. After a successful write through a handle, all bytes were taken, a
  read through the same handle at the same offset gives exactly these bytes, and the object ends with
  the last byte written, even where it was longer before.
\<close>

theorem shm_write_read:
  assumes "shm_ext_ok x" and "shm_inv s" and "shm_write x i buf off s = (Inr n, t)"
  shows "n = length buf \<and> fst (shm_read i (length buf) off t) = Inr buf \<and>
         fst (shm_fsize i t) = Inr (off + of_nat (length buf))"
proof -
  obtain p where p: "shm_path s i = Inr p" using assms(3) by (auto simp: shm_write_def with_buffer_def split: sum.splits)
  then obtain e where e: "map_of (sh_maps s) p = Some e" using assms(3)
    by (auto simp: shm_write_def with_buffer_def split: option.splits)
  obtain g where g: "mg_write x off buf (sh_buffer e) = (Inr n, g)"
      and t: "t = s\<lparr>sh_maps := AList.update p (e\<lparr>sh_buffer := g\<rparr>) (sh_maps s)\<rparr>"
    using assms(3) p e by (auto simp: shm_write_def with_buffer_def split: prod.splits)
  have "mg_ok (sh_buffer e)" using shm_invD(2)[OF assms(2), of p] e by (simp add: shm_obj_ok_def)
  note eff = mg_write_effect[OF assms(1) this g]
  have "shm_path t i = Inr p" using p by (simp add: t shm_path_def)
  then show ?thesis using eff by (simp add: shm_read_def shm_fsize_def with_buffer_def t AList.update_conv')
qed

text \<open>Growing keeps what is there.\<close>

lemma grow_to_keeps:
  assumes x: "shm_ext_ok x" and g: "mg_ok g" and n: "grow_to x n g = (Inr u, g1)"
  shows "take (min (unat n) (unat (mg_len g))) (mg_mem g1) = take (min (unat n) (unat (mg_len g))) (mg_mem g)"
proof (cases "n \<le> total_capacity x g \<or> mg_base g = 0")
  case True
  then show ?thesis
    using n g by (auto simp: grow_to_def Let_def mg_ok_def split: if_splits sum.splits)
next
  case False
  have page: "sx_page x = 4096" using x by (simp add: shm_ext_ok_def)
  obtain b mem where m: "sx_mremap x (mg_base g) (mg_mem g) (next_multiple_of (mg_len g) 4096) (next_multiple_of n 4096) = Inr (b, mem)"
      "g1 = \<lparr>mg_base = b, mg_len = n, mg_mem = mem\<rparr>"
    using False n page by (auto simp: grow_to_def Let_def split: if_splits sum.splits)
  let ?c = "next_multiple_of (mg_len g) 4096"
  have cap: "unat ?c \<le> length (mg_mem g)" using capacity_mapped[OF page g] page by (simp add: total_capacity_def)
  have len: "unat (mg_len g) \<le> length (mg_mem g)" using g by (simp add: mg_ok_def)
  have "ceil_page (unat (mg_len g)) \<le> length (mg_mem g)" "length (mg_mem g) < 2 ^ 64"
    using g ceil_page_least by (auto simp: mg_ok_def)
  then have "unat ?c = ceil_page (unat (mg_len g))" by (simp add: next_multiple_unat)
  then have ge: "unat (mg_len g) \<le> unat ?c" using ceil_page_ge by simp
  have "next_multiple_of n 4096 \<noteq> 0" using x m(1) unfolding shm_ext_ok_def by blast
  then have "unat n \<le> unat (next_multiple_of n 4096)"
    using rounded_bounds(1)[OF next_multiple_unat unat_less_64, of n] by simp
  moreover have "?c < n" using False page by (simp add: total_capacity_def not_le)
  ultimately have "?c \<le> next_multiple_of n 4096" by (simp add: word_le_nat_alt word_less_nat_alt)
  with x m(1) cap have "take (unat ?c) mem = take (unat ?c) (mg_mem g)" unfolding shm_ext_ok_def by blast
  then have "take k (take (unat ?c) mem) = take k (take (unat ?c) (mg_mem g))" for k by simp
  from this[of "min (unat n) (unat (mg_len g))"] ge show ?thesis by (simp add: m(2) min.absorb1 min.coboundedI2)
qed

text \<open>
  Truncation. After a successful \<open>ftruncate\<close> the object has exactly the new size and the bytes
  before the old and the new end are unchanged.
\<close>

theorem shm_ftruncate_keeps:
  assumes "shm_ext_ok x" and "shm_inv s" and "shm_path s i = Inr p" and "map_of (sh_maps s) p = Some e"
    and "shm_ftruncate x i n s = (Inr u, t)"
  shows "\<exists>e'. map_of (sh_maps t) p = Some e' \<and> mg_len (sh_buffer e') = n \<and> sh_refs e' = sh_refs e \<and>
           take (min (unat n) (unat (mg_len (sh_buffer e)))) (mg_mem (sh_buffer e')) =
           take (min (unat n) (unat (mg_len (sh_buffer e)))) (mg_mem (sh_buffer e))"
proof -
  obtain g where g: "grow_to x n (sh_buffer e) = (Inr u, g)"
      and t: "t = s\<lparr>sh_maps := AList.update p (e\<lparr>sh_buffer := g\<rparr>) (sh_maps s)\<rparr>"
    using assms(3-5) by (auto simp: shm_ftruncate_def with_buffer_def split: prod.splits)
  have "mg_ok (sh_buffer e)" using shm_invD(2)[OF assms(2), of p] assms(4) by (simp add: shm_obj_ok_def)
  from grow_to_keeps[OF assms(1) this g] grow_to_len[OF g] show ?thesis by (simp add: t AList.update_conv')
qed

text \<open>
  The range check of a mapping. A request whose end does not exceed \<open>2 ^ 64\<close> gives an address inside
  the memory mapped for the object; but the sum of offset and size wraps, and for an object of one page
  the request for 8192 bytes at offset \<open>2 ^ 64 - 4096\<close> is granted with an address before the object.
\<close>

theorem shm_mmap_bounds:
  assumes "shm_ext_ok x" and "mg_ok g" and "mg_mmap x off sz g = Inr a" and "sz \<noteq> 0"
    and "unat off + unat sz < 2 ^ 64"
  shows "a = mg_base g + off \<and> unat off + unat sz \<le> length (mg_mem g) \<and>
         mg_mmap x (- 4096) 8192 \<lparr>mg_base = b, mg_len = 4096, mg_mem = m\<rparr> = Inr (b - 4096)"
proof -
  have page: "sx_page x = 4096" using assms(1) by (simp add: shm_ext_ok_def)
  have a: "a = mg_base g + off" "off + sz \<le> total_capacity x g"
    using assms(3,4) by (auto simp: mg_mmap_def total_capacity_def split: if_splits)
  have "unat (off + sz) = unat off + unat sz" using assms(5) by (simp add: unat_word_ariths)
  then have "unat off + unat sz \<le> length (mg_mem g)"
    using a(2) capacity_mapped[OF page assms(2)] by (simp add: word_le_nat_alt)
  with a(1) show ?thesis by (simp add: mg_mmap_def page next_multiple_of_def)
qed

section \<open>Examples\<close>

definition shm_x0 :: shm_ext where
  "shm_x0 = \<lparr>sx_fmap = (\<lambda>sz. if sz = 0 then Inl EINVAL else Inr (0x10000, replicate (unat sz) 0)),
     sx_mremap = (\<lambda>a old n n'. if n' = 0 then Inl EINVAL
                    else Inr (0x20000, take (unat n') (take (unat n) old @ replicate (unat n') 0))),
     sx_page = 4096, sx_O_CREAT = 0x02000000, sx_O_EXCL = 0x08000000, sx_MODE_FILE = 0x8000\<rparr>"

lemma shm_x0_ok [simp]: "shm_ext_ok shm_x0"
  by (auto simp: shm_ext_ok_def shm_x0_def word_le_nat_alt min_absorb1 min_absorb2 split: if_splits)

definition shm_s1 :: shm_scheme where
  "shm_s1 = shm_step shm_x0 (shm_step shm_x0 shm_new ShRoot) (ShOpen 1 [0x61] 0x02000000)"

lemma shm_s1_reach: "reach shm_new (shm_step shm_x0) shm_env shm_s1"
proof -
  have "reach shm_new (shm_step shm_x0) shm_env (shm_step shm_x0 shm_new ShRoot)"
    by (rule reach_step[OF reach_init]) (simp add: shm_new_def hm_new_def hm_room_def)
  then show ?thesis
    unfolding shm_s1_def
    by (rule reach_step) (simp add: shm_step_def shm_root_def shm_new_def hm_new_def hm_insert_def hm_room_def bm_insert_def)
qed

lemma shm_s1_eval [simp]:
  "sh_maps shm_s1 = [([0x61], \<lparr>sh_buffer = mg_new, sh_refs = 1, sh_unlinked = False\<rparr>)]"
  "sh_handles shm_s1 = \<lparr>hm_handles = [(1, HShmRoot), (2, HShm [0x61])], hm_next = 3\<rparr>"
  by (simp_all add: shm_s1_def shm_step_def shm_root_def shm_openat_def shm_new_def hm_new_def hm_insert_def hm_get_def
      bm_insert_def bm_get_def lin_cmp_def shm_x0_def)

lemma shm_s1_inv: "shm_inv shm_s1"
  using shmd.reach_inv[OF shm_s1_reach] by (simp add: shm_good_def)


theorem shm_write_read_witness:
  "\<exists>t. shm_write shm_x0 2 [7, 8] 0 shm_s1 = (Inr 2, t) \<and> fst (shm_read 2 2 0 t) = Inr [7, 8]"
proof -
  obtain t where t: "shm_write shm_x0 2 [7, 8] 0 shm_s1 = (Inr 2, t)"
    by (simp add: shm_write_def with_buffer_def shm_path_def hm_get_def bm_get_def lin_cmp_def as_shm_def mg_write_def
        grow_to_def total_capacity_def next_multiple_of_def mg_new_def shm_x0_def Let_def div_ceil_def)
  from shm_write_read[OF shm_x0_ok shm_s1_inv t] t show ?thesis by (simp add: numeral_2_eq_2)
qed

theorem shm_ftruncate_keeps_witness:
  "\<exists>t e. shm_ftruncate shm_x0 2 0 shm_s1 = (Inr (), t) \<and> map_of (sh_maps t) [0x61] = Some e \<and> mg_len (sh_buffer e) = 0"
proof -
  have p: "shm_path shm_s1 2 = Inr [0x61]"
    by (simp add: shm_path_def hm_get_def bm_get_def lin_cmp_def as_shm_def)
  obtain t where t: "shm_ftruncate shm_x0 2 0 shm_s1 = (Inr (), t)"
    using p by (simp add: shm_ftruncate_def with_buffer_def grow_to_def)
  from shm_ftruncate_keeps[OF shm_x0_ok shm_s1_inv p _ t] t show ?thesis by fastforce
qed

theorem shm_mmap_bounds_witness:
  "mg_mmap shm_x0 (- 4096) 8192 \<lparr>mg_base = 0x10000, mg_len = 4096, mg_mem = replicate 4096 0\<rparr> = Inr 0xF000"
proof -
  let ?g = "\<lparr>mg_base = 0x10000, mg_len = 4096, mg_mem = replicate 4096 0\<rparr>"
  have g: "mg_ok ?g" by (simp add: mg_ok_def)
  have m: "mg_mmap shm_x0 16 32 ?g = Inr 0x10010"
    by (simp add: mg_mmap_def next_multiple_of_def shm_x0_def)
  from shm_mmap_bounds[OF shm_x0_ok g m, where b = "0x10000" and m = "replicate 4096 0"] show ?thesis by simp
qed

end
