(* ===== verification/Ramfs.thy ===== *)
theory Ramfs
  imports Handle_Map
begin

text \<open>
  The in-memory file system (\<^verbatim>\<open>ramfs/src/filesystem.rs\<close>, \<^verbatim>\<open>ramfs/src/scheme.rs\<close>): inodes, path resolution and
  the operations of the scheme.

  \<^item> \<open>ramfs\<close> joins \<open>Filesystem\<close> and \<open>Scheme\<close>. Inodes are a \<open>BTreeMap\<close>; the entries of a directory, an
    \<open>IndexMap\<close>, are its list of entries in insertion order, where \<open>insert\<close> replaces the value of a key in
    place or appends and \<open>shift_remove\<close> keeps the order. Paths are the bytes of a \<open>str\<close>.
  \<^item> \<open>rx\<close> holds what is not in the repository: the flags and mode bits of the system call ABI, the clock,
    whether memory can be reserved, the block size, the answers of the process manager about credentials,
    and the buffer of directory entries, which accepts an entry or fails.
  \<^item> Counters and inode numbers are \<open>u64\<close> and wrap, except where the code checks.
\<close>

unbundle bit_operations_syntax

section \<open>Definitions\<close>

record timespec =
  tv_sec :: int
  tv_nsec :: int

record dirent =
  de_inode :: u64
  de_next :: u64
  de_name :: bytes

record rx =
  MODE_TYPE :: u16
  MODE_DIR :: u16
  MODE_FILE :: u16
  MODE_PERM :: u16
  O_STAT :: u64
  O_DIRECTORY :: u64
  O_CREAT :: u64
  O_EXCL :: u64
  O_TRUNC :: u64
  O_ACCMODE :: u64
  O_RDONLY :: u64
  O_WRONLY :: u64
  O_RDWR :: u64
  AT_REMOVEDIR :: u64
  now :: timespec
  can_reserve :: "nat \<Rightarrow> bool"
  f_bsize :: "u32 option"
  proc_creds :: "u64 \<Rightarrow> bytes option"
  dirent_fits :: "dirent list \<Rightarrow> dirent \<Rightarrow> errno option"

datatype file_data = FFile bytes | FDir "(bytes \<times> u64) list"

record rfile =
  mode :: u16
  uid :: u32
  gid :: u32
  nlink :: u64
  parent :: u64
  open_handles :: u64
  atime :: timespec
  ctime :: timespec
  mtime :: timespec
  fdata :: file_data

datatype rhandle = HInode u64

record ramfs =
  scheme_name :: bytes
  files :: "(u64 \<times> rfile) list"
  last_inode_number :: u64
  rhandles :: "rhandle handle_map"

record caller_ctx =
  cx_pid :: u64
  cx_uid :: u32
  cx_gid :: u32

definition ROOT_INODE :: u64 where
  "ROOT_INODE = 1"

definition as_inode :: "rhandle \<Rightarrow> u64" where
  "as_inode h = (case h of HInode i \<Rightarrow> i)"

definition data_size :: "file_data \<Rightarrow> nat" where
  "data_size d = (case d of FFile bs \<Rightarrow> length bs | FDir _ \<Rightarrow> 0)"

definition create_root_inode :: "rx \<Rightarrow> rfile" where
  "create_root_inode x =
     \<lparr>mode = MODE_DIR x OR 0x1ED, uid = 0, gid = 0, nlink = 1, parent = ROOT_INODE, open_handles = 0,
      atime = now x, ctime = now x, mtime = now x, fdata = FDir []\<rparr>"

definition ramfs_new :: "rx \<Rightarrow> bytes \<Rightarrow> ramfs" where
  "ramfs_new x name =
     \<lparr>scheme_name = name, files = [(ROOT_INODE, create_root_inode x)], last_inode_number = ROOT_INODE,
      rhandles = hm_new\<rparr>"

definition block_size :: "rx \<Rightarrow> u32" where
  "block_size x = (case f_bsize x of Some b \<Rightarrow> b | None \<Rightarrow> 4096)"

definition next_inode_number :: "ramfs \<Rightarrow> (u64, ramfs) outcome" where
  "next_inode_number s =
     (if last_inode_number s = - 1 then fail ENFILE s
      else let n = last_inode_number s + 1 in ok n (s\<lparr>last_inode_number := n\<rparr>))"

subsection \<open>Permissions\<close>

definition current_perm :: "rx \<Rightarrow> rfile \<Rightarrow> u32 \<Rightarrow> u32 \<Rightarrow> u16" where
  "current_perm x f u g =
     (let perm = mode f AND MODE_PERM x in
      if u = 0 then 7
      else if u = uid f then drop_bit 6 (perm AND 0x1C0)
      else if g = gid f then drop_bit 3 (perm AND 0x38)
      else perm AND 7)"

definition check_permissions :: "rx \<Rightarrow> u64 \<Rightarrow> u16 \<Rightarrow> bool" where
  "check_permissions x flags single_mode \<longleftrightarrow>
     (if flags AND O_ACCMODE x = O_RDONLY x \<and> single_mode AND 4 = 0 then False
      else if flags AND O_ACCMODE x = O_WRONLY x \<and> single_mode AND 2 = 0 then False
      else if flags AND O_ACCMODE x = O_RDWR x \<and> single_mode AND 6 \<noteq> 6 then False
      else True)"

subsection \<open>Path resolution\<close>

abbreviation slash :: u8 where
  "slash \<equiv> 0x2f"

abbreviation dot :: bytes where
  "dot \<equiv> [0x2e]"

abbreviation dotdot :: bytes where
  "dotdot \<equiv> [0x2e, 0x2e]"

fun split_slash :: "bytes \<Rightarrow> bytes list" where
  "split_slash [] = [[]]"
| "split_slash (b # bs) =
     (if b = slash then [] # split_slash bs
      else case split_slash bs of [] \<Rightarrow> [[b]] | c # cs \<Rightarrow> (b # c) # cs)"

definition path_components :: "bytes \<Rightarrow> bytes list" where
  "path_components bs = filter (\<lambda>c. c \<noteq> []) (split_slash bs)"

definition trim_slashes :: "bytes \<Rightarrow> bytes" where
  "trim_slashes = dropWhile (\<lambda>b. b = slash)"

text \<open>\<open>Vec::remove\<close>\<close>

definition remove_at :: "nat \<Rightarrow> 'a list \<Rightarrow> 'a list" where
  "remove_at i xs = take i xs @ drop (Suc i) xs"

text \<open>
  The loop of \<open>resolve_generic\<close>. A missing component after a removal is the failed \<open>unwrap\<close>.
\<close>

function resolve_loop ::
  "rx \<Rightarrow> (u64 \<times> rfile) list \<Rightarrow> u32 \<Rightarrow> u32 \<Rightarrow> bytes list \<Rightarrow> nat \<Rightarrow> u64 \<Rightarrow> rfile \<Rightarrow> fault + u64" where
  "resolve_loop x fs u g parts i current_inode current_file =
     (if length parts \<le> i then Inr current_inode
      else
        case fdata current_file of
          FFile _ \<Rightarrow> Inl (Errno ENOENT)
        | FDir dentries \<Rightarrow>
           if current_perm x current_file u g AND 1 = 0 then Inl (Errno EACCES)
           else
             let parts1 = (if parts ! i = dot \<or> parts ! i = dotdot then remove_at i parts else parts) in
             if length parts1 \<le> i then Inl Panic
             else
               let back = parts1 ! i = dotdot \<and> i > 0;
                   i2 = (if back then i - 1 else i);
                   parts2 = (if back then remove_at (i - 1) parts1 else parts1)
               in case map_of dentries (parts2 ! i2) of
                    None \<Rightarrow> Inl (Errno ENOENT)
                  | Some n \<Rightarrow>
                     (case bm_get n fs of
                        None \<Rightarrow> Inl (Errno EIO)
                      | Some f \<Rightarrow> resolve_loop x fs u g parts2 (Suc i2) n f))"
  by pat_completeness auto

termination
  by (relation "measure (\<lambda>(x, fs, u, g, parts, i, c, f). length parts - i)")
    (auto simp: remove_at_def min_def split: if_splits)

declare resolve_loop.simps [simp del]

definition resolve_generic :: "rx \<Rightarrow> ramfs \<Rightarrow> bytes list \<Rightarrow> u32 \<Rightarrow> u32 \<Rightarrow> fault + u64" where
  "resolve_generic x s parts u g =
     (case bm_get ROOT_INODE (files s) of
        None \<Rightarrow> Inl (Errno ENOENT)
      | Some root \<Rightarrow> resolve_loop x (files s) u g parts 0 ROOT_INODE root)"

definition resolve_except_last :: "rx \<Rightarrow> ramfs \<Rightarrow> bytes \<Rightarrow> u32 \<Rightarrow> u32 \<Rightarrow> fault + u64 \<times> bytes option" where
  "resolve_except_last x s path u g =
     (let parts = path_components (trim_slashes path);
          last_part = (if parts = [] then None else Some (last parts))
      in case resolve_generic x s (if parts = [] then [] else butlast parts) u g of
           Inl e \<Rightarrow> Inl e
         | Inr i \<Rightarrow> Inr (i, last_part))"

definition resolve :: "rx \<Rightarrow> ramfs \<Rightarrow> bytes \<Rightarrow> u32 \<Rightarrow> u32 \<Rightarrow> fault + u64" where
  "resolve x s path u g = resolve_generic x s (path_components (trim_slashes path)) u g"

subsection \<open>Opening and removing\<close>

definition set_file :: "u64 \<Rightarrow> rfile \<Rightarrow> ramfs \<Rightarrow> ramfs" where
  "set_file i f s = s\<lparr>files := bm_insert i f (files s)\<rparr>"

definition remove_dentry :: "rx \<Rightarrow> bytes \<Rightarrow> u32 \<Rightarrow> u32 \<Rightarrow> bool \<Rightarrow> ramfs \<Rightarrow> (unit, ramfs) outcome" where
  "remove_dentry x path u g directory s =
     (case resolve_except_last x s path u g of
        Inl e \<Rightarrow> (Inl e, s)
      | Inr (_, None) \<Rightarrow> fail EINVAL s
      | Inr (parent_dir_inode, Some name_to_delete) \<Rightarrow>
         (case bm_get parent_dir_inode (files s) of
            None \<Rightarrow> fail EIO s
          | Some par \<Rightarrow>
             if current_perm x par u g AND 2 = 0 then fail EACCES s
             else
               (case fdata par of
                  FFile _ \<Rightarrow> fail ENOTDIR s
                | FDir dentries \<Rightarrow>
                   (case map_of dentries name_to_delete of
                      None \<Rightarrow> fail ENOENT s
                    | Some entry_inode \<Rightarrow>
                       let par1 = par\<lparr>fdata := FDir (AList.delete name_to_delete dentries)\<rparr>;
                           s1 = set_file parent_dir_inode par1 s
                       in case bm_get entry_inode (files s1) of
                            None \<Rightarrow> fail EIO s1
                          | Some info \<Rightarrow>
                             (case fdata info of
                                FDir ents \<Rightarrow>
                                  if \<not> directory then fail EISDIR s1
                                  else if ents \<noteq> [] then fail ENOTEMPTY s1
                                  else
                                    let s2 = s1\<lparr>files := bm_modify parent_dir_inode (\<lambda>f. f\<lparr>nlink := nlink f - 1\<rparr>) (files s1)\<rparr>;
                                        s3 = s2\<lparr>files := bm_modify entry_inode (\<lambda>f. f\<lparr>nlink := nlink f - 2\<rparr>) (files s2)\<rparr>
                                    in ok () (if (case bm_get entry_inode (files s3) of None \<Rightarrow> False
                                                  | Some f \<Rightarrow> nlink f = 0 \<and> open_handles f = 0)
                                              then s3\<lparr>files := bm_remove entry_inode (files s3)\<rparr> else s3)
                              | FFile _ \<Rightarrow>
                                  if directory then fail EISDIR s1
                                  else
                                    let s2 = s1\<lparr>files := bm_modify entry_inode (\<lambda>f. f\<lparr>nlink := nlink f - 1\<rparr>) (files s1)\<rparr>
                                    in ok () (if nlink info - 1 = 0 \<and> open_handles info = 0
                                              then s2\<lparr>files := bm_remove entry_inode (files s2)\<rparr> else s2))))))"

definition open_existing :: "rx \<Rightarrow> bytes \<Rightarrow> u64 \<Rightarrow> u32 \<Rightarrow> u32 \<Rightarrow> ramfs \<Rightarrow> (u64, ramfs) outcome" where
  "open_existing x path flags u g s =
     (case resolve x s path u g of
        Inl e \<Rightarrow> (Inl e, s)
      | Inr inode \<Rightarrow>
         (case bm_get inode (files s) of
            None \<Rightarrow> fail EIO s
          | Some f \<Rightarrow>
             if flags AND O_STAT x = 0 \<and> flags AND O_DIRECTORY x \<noteq> 0 \<and> mode f AND MODE_TYPE x \<noteq> MODE_DIR x
             then fail ENOTDIR s
             else if flags AND O_STAT x = 0 \<and> flags AND O_DIRECTORY x = 0 \<and> mode f AND MODE_TYPE x = MODE_DIR x
             then fail EISDIR s
             else if \<not> check_permissions x flags (current_perm x f u g) then fail EACCES s
             else
               let opened_as_write = (flags AND O_ACCMODE x = O_WRONLY x \<or> flags AND O_ACCMODE x = O_RDWR x);
                   trunc = (flags AND O_TRUNC x = O_TRUNC x \<and> opened_as_write)
               in case (trunc, fdata f) of
                    (True, FDir _) \<Rightarrow> fail EBADFD s
                  | (True, FFile _) \<Rightarrow> ok inode (set_file inode (f\<lparr>fdata := FFile [], open_handles := open_handles f + 1\<rparr>) s)
                  | (False, _) \<Rightarrow> ok inode (set_file inode (f\<lparr>open_handles := open_handles f + 1\<rparr>) s)))"

definition ramfs_root :: "ramfs \<Rightarrow> (u64, ramfs) outcome" where
  "ramfs_root s = (let (i, hs) = hm_insert (HInode ROOT_INODE) (rhandles s) in ok i (s\<lparr>rhandles := hs\<rparr>))"

text \<open>The file a create makes; \<open>None\<close> is a mode whose type does not fit.\<close>

definition new_file :: "rx \<Rightarrow> u64 \<Rightarrow> caller_ctx \<Rightarrow> u64 \<Rightarrow> rfile option" where
  "new_file x flags cx parent_dir_inode =
     (let m = ucast flags :: u16;
          base = \<lparr>mode = 0, uid = cx_uid cx, gid = cx_gid cx, nlink = 0, parent = parent_dir_inode, open_handles = 1,
                  atime = now x, ctime = now x, mtime = now x, fdata = FFile []\<rparr>
      in if flags AND O_DIRECTORY x \<noteq> 0 then
           let m' = (if m AND MODE_TYPE x = 0 then m OR MODE_DIR x else m)
           in if m' AND MODE_TYPE x \<noteq> MODE_DIR x then None
              else Some (base\<lparr>mode := m', nlink := 2, fdata := FDir []\<rparr>)
         else
           let m' = (if m AND MODE_TYPE x = 0 then m OR MODE_FILE x else m)
           in if m' AND MODE_TYPE x = MODE_DIR x then None
              else Some (base\<lparr>mode := m', nlink := 1, fdata := FFile []\<rparr>))"

definition create :: "rx \<Rightarrow> bytes \<Rightarrow> u64 \<Rightarrow> caller_ctx \<Rightarrow> ramfs \<Rightarrow> (u64, ramfs) outcome" where
  "create x path flags cx s =
     (if flags AND O_STAT x \<noteq> 0 then fail EINVAL s
      else
        case resolve_except_last x s path (cx_uid cx) (cx_gid cx) of
          Inl e \<Rightarrow> (Inl e, s)
        | Inr (_, None) \<Rightarrow> fail EINVAL s
        | Inr (parent_dir_inode, Some new_name) \<Rightarrow>
           bind_out (next_inode_number s)
             (\<lambda>n s1.
               case new_file x flags cx parent_dir_inode of
                 None \<Rightarrow> fail EINVAL s1
               | Some f \<Rightarrow>
                  if \<not> check_permissions x flags (current_perm x f (cx_uid cx) (cx_gid cx)) then fail EACCES s1
                  else
                    let s2 = set_file n f s1 in
                    case bm_get parent_dir_inode (files s2) of
                      None \<Rightarrow> fail EIO s2
                    | Some par \<Rightarrow>
                       (case fdata par of
                          FFile _ \<Rightarrow> fail EIO s2
                        | FDir entries \<Rightarrow>
                           ok n (set_file parent_dir_inode (par\<lparr>fdata := FDir (AList.update new_name n entries)\<rparr>) s2))))"

definition ramfs_openat :: "rx \<Rightarrow> u64 \<Rightarrow> bytes \<Rightarrow> u64 \<Rightarrow> u32 \<Rightarrow> caller_ctx \<Rightarrow> ramfs \<Rightarrow> (u64, ramfs) outcome" where
  "ramfs_openat x dirfd path flags fcntl_flags cx s =
     (case hm_get (rhandles s) dirfd of
        Inl e \<Rightarrow> fail e s
      | Inr h \<Rightarrow>
         if as_inode h \<noteq> ROOT_INODE then fail EACCES s
         else
           case resolve x s path 0 0 of
             Inl Panic \<Rightarrow> panic s
           | r \<Rightarrow>
              let exists = (case r of Inr _ \<Rightarrow> True | Inl _ \<Rightarrow> False) in
              if flags AND O_CREAT x \<noteq> 0 \<and> flags AND O_EXCL x \<noteq> 0 \<and> exists then fail EEXIST s
              else
                bind_out
                  (if flags AND O_CREAT x \<noteq> 0 \<and> exists then open_existing x path flags (cx_uid cx) (cx_gid cx) s
                   else if flags AND O_CREAT x \<noteq> 0 then create x path flags cx s
                   else open_existing x path (flags OR ucast fcntl_flags) (cx_uid cx) (cx_gid cx) s)
                  (\<lambda>inode s1.
                    let (i, hs) = hm_insert (HInode inode) (rhandles s1) in ok i (s1\<lparr>rhandles := hs\<rparr>)))"

definition ramfs_unlinkat :: "rx \<Rightarrow> u64 \<Rightarrow> bytes \<Rightarrow> u64 \<Rightarrow> caller_ctx \<Rightarrow> ramfs \<Rightarrow> (unit, ramfs) outcome" where
  "ramfs_unlinkat x dirfd path flags cx s =
     (case hm_get (rhandles s) dirfd of
        Inl e \<Rightarrow> fail e s
      | Inr h \<Rightarrow>
         if NOT (as_inode h) \<noteq> ROOT_INODE then fail EACCES s
         else remove_dentry x path (cx_uid cx) (cx_gid cx) (flags AND AT_REMOVEDIR x = AT_REMOVEDIR x) s)"

definition ramfs_on_close :: "u64 \<Rightarrow> ramfs \<Rightarrow> ramfs" where
  "ramfs_on_close fd s =
     (case hm_remove fd (rhandles s) of
        (None, hs) \<Rightarrow> s\<lparr>rhandles := hs\<rparr>
      | (Some h, hs) \<Rightarrow>
         (let s1 = s\<lparr>rhandles := hs\<rparr>; inode = as_inode h in
          case bm_get inode (files s1) of
            None \<Rightarrow> s1
          | Some f \<Rightarrow>
             let f1 = f\<lparr>open_handles := open_handles f - 1\<rparr>
             in if nlink f1 = 0 \<and> open_handles f1 = 0 then s1\<lparr>files := bm_remove inode (files s1)\<rparr>
                else set_file inode f1 s1))"

subsection \<open>Operations on open files\<close>

text \<open>The file behind a handle.\<close>

definition handle_file :: "ramfs \<Rightarrow> u64 \<Rightarrow> errno + u64 \<times> rfile" where
  "handle_file s fd =
     (case hm_get (rhandles s) fd of
        Inl e \<Rightarrow> Inl e
      | Inr h \<Rightarrow> (case bm_get (as_inode h) (files s) of None \<Rightarrow> Inl EBADFD | Some f \<Rightarrow> Inr (as_inode h, f)))"

definition ramfs_read :: "rx \<Rightarrow> u64 \<Rightarrow> nat \<Rightarrow> u64 \<Rightarrow> u32 \<Rightarrow> ramfs \<Rightarrow> errno + bytes" where
  "ramfs_read x fd len offset fcntl_flags s =
     (case handle_file s fd of
        Inl e \<Rightarrow> Inl e
      | Inr (_, f) \<Rightarrow>
         if \<not> (ucast fcntl_flags AND O_ACCMODE x = O_RDONLY x \<or> ucast fcntl_flags AND O_ACCMODE x = O_RDWR x)
         then Inl EBADF
         else
           (case fdata f of
              FFile bs \<Rightarrow> if mode f AND MODE_TYPE x = MODE_DIR x then Inl EBADFD else Inr (take len (drop (unat offset) bs))
            | FDir _ \<Rightarrow> Inl EISDIR))"

fun push_dirents :: "rx \<Rightarrow> dirent list \<Rightarrow> dirent list \<Rightarrow> errno + dirent list" where
  "push_dirents x buf [] = Inr buf"
| "push_dirents x buf (d # ds) =
     (case dirent_fits x buf d of Some e \<Rightarrow> Inl e | None \<Rightarrow> push_dirents x (buf @ [d]) ds)"

definition ramfs_getdents :: "rx \<Rightarrow> u64 \<Rightarrow> dirent list \<Rightarrow> u64 \<Rightarrow> ramfs \<Rightarrow> errno + dirent list" where
  "ramfs_getdents x fd buf offset s =
     (case handle_file s fd of
        Inl e \<Rightarrow> Inl e
      | Inr (_, f) \<Rightarrow>
         (case fdata f of
            FFile _ \<Rightarrow> Inl ENOTDIR
          | FDir dir \<Rightarrow>
             push_dirents x buf
               (drop (unat offset)
                  (map (\<lambda>(i, name, n). \<lparr>de_inode = n, de_next = of_nat i + 1, de_name = name\<rparr>) (enumerate 0 dir)))))"

definition ramfs_write :: "rx \<Rightarrow> u64 \<Rightarrow> bytes \<Rightarrow> u64 \<Rightarrow> ramfs \<Rightarrow> (nat, ramfs) outcome" where
  "ramfs_write x fd buf offset s =
     (case handle_file s fd of
        Inl e \<Rightarrow> fail e s
      | Inr (inode, f) \<Rightarrow>
         (case fdata f of
            FDir _ \<Rightarrow> fail EISDIR s
          | FFile bs \<Rightarrow>
             if mode f AND MODE_TYPE x = MODE_DIR x then fail EBADFD s
             else
               let off = unat offset; end_off = off + length buf in
               if end_off \<ge> 2 ^ 64 then fail EOVERFLOW s
               else if end_off > length bs \<and> \<not> can_reserve x (end_off - length bs) then fail ENOMEM s
               else
                 let bs1 = bs @ replicate (end_off - length bs) 0
                 in ok (length buf)
                      (set_file inode (f\<lparr>fdata := FFile (take off bs1 @ buf @ drop end_off bs1)\<rparr>) s)))"

definition ramfs_fchmod :: "rx \<Rightarrow> u64 \<Rightarrow> u16 \<Rightarrow> ramfs \<Rightarrow> (unit, ramfs) outcome" where
  "ramfs_fchmod x fd m s =
     (case handle_file s fd of
        Inl e \<Rightarrow> fail e s
      | Inr (inode, f) \<Rightarrow> ok () (set_file inode (f\<lparr>mode := m OR (mode f AND MODE_TYPE x)\<rparr>) s))"

definition ramfs_fchown :: "u64 \<Rightarrow> u32 \<Rightarrow> u32 \<Rightarrow> ramfs \<Rightarrow> (unit, ramfs) outcome" where
  "ramfs_fchown inode u g s =
     (case bm_get inode (files s) of
        None \<Rightarrow> fail EBADFD s
      | Some f \<Rightarrow> ok () (set_file inode (f\<lparr>uid := u, gid := g\<rparr>) s))"

definition ramfs_ftruncate :: "rx \<Rightarrow> u64 \<Rightarrow> u64 \<Rightarrow> ramfs \<Rightarrow> (unit, ramfs) outcome" where
  "ramfs_ftruncate x fd sz s =
     (case handle_file s fd of
        Inl e \<Rightarrow> fail e s
      | Inr (inode, f) \<Rightarrow>
         if mode f AND MODE_TYPE x = MODE_DIR x then fail EISDIR s
         else
           (case fdata f of
              FDir _ \<Rightarrow> fail EBADFD s
            | FFile bs \<Rightarrow>
               if unat sz > length bs \<and> \<not> can_reserve x (unat sz - length bs) then fail ENOMEM s
               else ok () (set_file inode (f\<lparr>fdata := FFile (take (unat sz) bs @ replicate (unat sz - length bs) 0)\<rparr>) s)))"

definition ramfs_futimens :: "u64 \<Rightarrow> timespec list \<Rightarrow> ramfs \<Rightarrow> (unit, ramfs) outcome" where
  "ramfs_futimens fd ts s =
     (case handle_file s fd of
        Inl e \<Rightarrow> fail e s
      | Inr (inode, f) \<Rightarrow>
         (case ts of
            a # m # _ \<Rightarrow> ok () (set_file inode (f\<lparr>atime := a, mtime := m\<rparr>) s)
          | _ \<Rightarrow> fail EINVAL s))"

subsection \<open>Status and paths\<close>

record stat =
  st_mode :: u16
  st_uid :: u32
  st_gid :: u32
  st_ino :: u64
  st_nlink :: u32
  st_size :: u64
  st_blksize :: u32
  st_blocks :: u64
  st_times :: "timespec list"

definition time_ok :: "timespec \<Rightarrow> bool" where
  "time_ok t \<longleftrightarrow> 0 \<le> tv_sec t \<and> 0 \<le> tv_nsec t"

definition ramfs_fstat :: "rx \<Rightarrow> u64 \<Rightarrow> ramfs \<Rightarrow> fault + stat" where
  "ramfs_fstat x fd s =
     (case handle_file s fd of
        Inl e \<Rightarrow> Inl (Errno e)
      | Inr (inode, f) \<Rightarrow>
         if unat (nlink f) \<ge> 2 ^ 32 then Inl (Errno EOVERFLOW)
         else
           let b = ucast (block_size x) :: u64; sz = of_nat (data_size (fdata f)) :: u64 in
           if b = 0 then Inl Panic
           else if \<not> (time_ok (atime f) \<and> time_ok (ctime f) \<and> time_ok (mtime f)) then Inl (Errno EOVERFLOW)
           else Inr \<lparr>st_mode = mode f, st_uid = uid f, st_gid = gid f, st_ino = inode, st_nlink = ucast (nlink f),
                     st_size = sz, st_blksize = block_size x,
                     st_blocks = (if sz mod b = 0 then sz else sz + (b - sz mod b)),
                     st_times = [atime f, ctime f, mtime f]\<rparr>)"

text \<open>
  The names on the way from a file up to \<open>stop\<close> or the root, innermost first; a chain of parents that
  never gets there has no value.
\<close>

partial_function (option) parent_chain ::
  "(u64 \<times> rfile) list \<Rightarrow> u64 \<Rightarrow> u64 \<Rightarrow> rfile \<Rightarrow> bytes list \<Rightarrow> (errno + bytes list) option" where
  "parent_chain fs stop current_inode current_info chain =
     (if current_inode = stop \<or> current_inode = ROOT_INODE then Some (Inr chain)
      else
        case bm_get (parent current_info) fs of
          None \<Rightarrow> Some (Inl EBADFD)
        | Some parent_info \<Rightarrow>
           (case fdata parent_info of
              FFile _ \<Rightarrow> Some (Inl EBADFD)
            | FDir dir \<Rightarrow>
               (case find (\<lambda>e. snd e = current_inode) dir of
                  None \<Rightarrow> Some (Inl ENOENT)
                | Some e \<Rightarrow> parent_chain fs stop (parent current_info) parent_info (chain @ [fst e]))))"

fun push_components :: "nat \<Rightarrow> bytes list \<Rightarrow> fpath_writer \<Rightarrow> fpath_writer" where
  "push_components i [] w = w"
| "push_components i (c # cs) w = push_components (Suc i) cs (push_str c (if i = 0 then w else push_str [slash] w))"

definition ramfs_fpath :: "u64 \<Rightarrow> bytes \<Rightarrow> ramfs \<Rightarrow> (errno + fpath_writer) option" where
  "ramfs_fpath fd buf s =
     (case handle_file s fd of
        Inl e \<Rightarrow> Some (Inl e)
      | Inr (inode, f) \<Rightarrow>
         (case parent_chain (files s) ROOT_INODE inode f [] of
            None \<Rightarrow> None
          | Some (Inl e) \<Rightarrow> Some (Inl e)
          | Some (Inr chain) \<Rightarrow> Some (fpath_with buf (scheme_name s) (\<lambda>w. Inr (push_components 0 (rev chain) w)))))"

text \<open>The loop of \<open>relpathat\<close> that copies the components into the caller's buffer.\<close>

fun copy_components :: "nat \<Rightarrow> bytes list \<Rightarrow> nat \<Rightarrow> bytes \<Rightarrow> errno + nat \<times> bytes" where
  "copy_components i [] off path = Inr (off, path)"
| "copy_components i (c # cs) off path =
     (if i \<noteq> 0 \<and> off \<ge> length path then Inl ERANGE
      else
        let path1 = (if i = 0 then path else path[off := slash]);
            off1 = (if i = 0 then off else Suc off)
        in if off1 + length c > length path1 then Inl ERANGE
           else copy_components (Suc i) cs (off1 + length c)
                  (take off1 path1 @ c @ drop (off1 + length c) path1))"

definition ramfs_relpathat :: "u64 \<Rightarrow> u64 \<Rightarrow> bytes \<Rightarrow> ramfs \<Rightarrow> (errno + nat \<times> bytes) option" where
  "ramfs_relpathat dir_id fd path s =
     (case hm_get (rhandles s) dir_id of
        Inl e \<Rightarrow> Some (Inl e)
      | Inr d \<Rightarrow>
         (case handle_file s fd of
            Inl e \<Rightarrow> Some (Inl e)
          | Inr (inode, f) \<Rightarrow>
             (case parent_chain (files s) (as_inode d) inode f [] of
                None \<Rightarrow> None
              | Some (Inl e) \<Rightarrow> Some (Inl e)
              | Some (Inr chain) \<Rightarrow> Some (copy_components 0 (rev chain) 0 path))))"

subsection \<open>Ownership by a call\<close>

definition read_u32 :: "bytes \<Rightarrow> nat \<Rightarrow> errno + u32" where
  "read_u32 buffer off =
     (if off + 4 \<le> length buffer then
        Inr (ucast (buffer ! off) OR push_bit 8 (ucast (buffer ! (off + 1)))
             OR push_bit 16 (ucast (buffer ! (off + 2))) OR push_bit 24 (ucast (buffer ! (off + 3))))
      else Inl EINVAL)"

definition get_uid_gid_from_pid :: "rx \<Rightarrow> u64 \<Rightarrow> errno + u32 \<times> u32 \<times> u32" where
  "get_uid_gid_from_pid x target_pid =
     (case proc_creds x target_pid of
        None \<Rightarrow> Inl EINVAL
      | Some buffer \<Rightarrow>
         (case (read_u32 buffer 0, read_u32 buffer 12, read_u32 buffer 24) of
            (Inr p, Inr u, Inr g) \<Rightarrow> Inr (p, u, g)
          | _ \<Rightarrow> Inl EINVAL))"

definition fchown_call :: "rx \<Rightarrow> u64 \<Rightarrow> u64 \<Rightarrow> caller_ctx \<Rightarrow> ramfs \<Rightarrow> (nat, ramfs) outcome" where
  "fchown_call x fd arg1 cx s =
     (case get_uid_gid_from_pid x (cx_pid cx) of
        Inl e \<Rightarrow> fail e s
      | Inr (_, u, g) \<Rightarrow>
         if u \<noteq> 0 \<and> (u \<noteq> cx_uid cx \<or> g \<noteq> cx_gid cx) then fail EPERM s
         else bind_out (ramfs_fchown fd (ucast arg1) (ucast (drop_bit 32 arg1)) s) (\<lambda>_ t. ok 0 t))"

end
