(* ===== verification/Ramfs_Example.thy ===== *)
theory Ramfs_Example
  imports Ramfs
begin

text \<open>
  A small instance for the witnesses: the constants of the system call interface, a file system with one
  directory and one file in it, and the states on the way there.
\<close>

unbundle bit_operations_syntax

definition rx0 :: rx where
  "rx0 =
     \<lparr>MODE_TYPE = 0xF000, MODE_DIR = 0x4000, MODE_FILE = 0x8000, MODE_PERM = 0xFFF,
      O_STAT = 0x20000000, O_DIRECTORY = 0x10000000, O_CREAT = 0x2000000, O_EXCL = 0x8000000, O_TRUNC = 0x4000000,
      O_ACCMODE = 0x30000, O_RDONLY = 0x10000, O_WRONLY = 0x20000, O_RDWR = 0x30000, AT_REMOVEDIR = 0x200,
      now = \<lparr>tv_sec = 0, tv_nsec = 0\<rparr>, can_reserve = (\<lambda>n. n \<le> 4096), f_bsize = Some 4096,
      proc_creds = (\<lambda>_. None), dirent_fits = (\<lambda>ds _. if length ds < 16 then None else Some EINVAL)\<rparr>"

definition cx0 :: caller_ctx where
  "cx0 = \<lparr>cx_pid = 1, cx_uid = 0, cx_gid = 0\<rparr>"

text \<open>The paths \<open>/d\<close> and \<open>/d/f\<close>.\<close>

definition path_d :: bytes where
  "path_d = [0x2f, 0x64]"

definition path_df :: bytes where
  "path_df = [0x2f, 0x64, 0x2f, 0x66]"

definition fs0 :: ramfs where
  "fs0 = ramfs_new rx0 (ascii_bytes ''memory'')"

definition fs1 :: ramfs where
  "fs1 = snd (ramfs_root fs0)"

definition fs2 :: ramfs where
  "fs2 = snd (ramfs_openat rx0 1 path_d 0x120101ED 0 cx0 fs1)"

definition fs3 :: ramfs where
  "fs3 = snd (ramfs_openat rx0 1 path_df 0x20301A4 0 cx0 fs2)"

lemma fs1_rhandles: "rhandles fs1 = \<lparr>hm_handles = [(1, HInode 1)], hm_next = 2\<rparr>" "last_inode_number fs1 = 1"
  by code_simp+

lemma fs2_rhandles: "rhandles fs2 = \<lparr>hm_handles = [(1, HInode 1), (2, HInode 2)], hm_next = 3\<rparr>" "last_inode_number fs2 = 2"
  by code_simp+

definition t0 :: timespec where
  "t0 = \<lparr>tv_sec = 0, tv_nsec = 0\<rparr>"

lemma fs3_val:
  "files fs3 =
     [(1, \<lparr>mode = 0x41ED, uid = 0, gid = 0, nlink = 1, parent = 1, open_handles = 0, atime = t0, ctime = t0, mtime = t0,
           fdata = FDir [([0x64], 2)]\<rparr>),
      (2, \<lparr>mode = 0x41ED, uid = 0, gid = 0, nlink = 2, parent = 1, open_handles = 1, atime = t0, ctime = t0, mtime = t0,
           fdata = FDir [([0x66], 3)]\<rparr>),
      (3, \<lparr>mode = 0x81A4, uid = 0, gid = 0, nlink = 1, parent = 2, open_handles = 1, atime = t0, ctime = t0, mtime = t0,
           fdata = FFile []\<rparr>)]"
  "last_inode_number fs3 = 3"
  "rhandles fs3 = \<lparr>hm_handles = [(1, HInode 1), (2, HInode 2), (3, HInode 3)], hm_next = 4\<rparr>"
  "scheme_name fs3 = ascii_bytes ''memory''"
  by code_simp+

end
