(* ===== verification/Ramfs_Props.thy ===== *)
theory Ramfs_Props
  imports Ramfs_Example
begin

text \<open>
  Properties of the in-memory file system: path resolution against a plain walk of the tree, the
  invariant of every reachable state, and the round trips between creating, opening, naming, writing and
  reading.
\<close>

unbundle bit_operations_syntax

section \<open>Resolution\<close>

text \<open>The walk that resolution should be: each component is looked up in a directory the user may search.\<close>

fun walk :: "rx \<Rightarrow> (u64 \<times> rfile) list \<Rightarrow> u32 \<Rightarrow> u32 \<Rightarrow> bytes list \<Rightarrow> u64 \<Rightarrow> rfile \<Rightarrow> fault + u64" where
  "walk x fs u g [] c f = Inr c"
| "walk x fs u g (p # ps) c f =
     (case fdata f of
        FFile _ \<Rightarrow> Inl (Errno ENOENT)
      | FDir d \<Rightarrow>
         if current_perm x f u g AND 1 = 0 then Inl (Errno EACCES)
         else
           (case map_of d p of
              None \<Rightarrow> Inl (Errno ENOENT)
            | Some n \<Rightarrow> (case bm_get n fs of None \<Rightarrow> Inl (Errno EIO) | Some f' \<Rightarrow> walk x fs u g ps n f')))"

definition clean :: "bytes \<Rightarrow> bool" where
  "clean c \<longleftrightarrow> c \<noteq> dot \<and> c \<noteq> dotdot"

lemma nth_pre: "(pre @ c # rest) ! length pre = c"
  by simp

lemma resolve_clean_step:
  assumes "clean c"
  shows "resolve_loop x fs u g (pre @ c # rest) (length pre) cur f =
     (case fdata f of
        FFile _ \<Rightarrow> Inl (Errno ENOENT)
      | FDir d \<Rightarrow>
         if current_perm x f u g AND 1 = 0 then Inl (Errno EACCES)
         else
           (case map_of d c of
              None \<Rightarrow> Inl (Errno ENOENT)
            | Some n \<Rightarrow>
               (case bm_get n fs of None \<Rightarrow> Inl (Errno EIO)
                | Some f' \<Rightarrow> resolve_loop x fs u g (pre @ c # rest) (Suc (length pre)) n f')))"
  using assms by (subst resolve_loop.simps) (simp add: clean_def Let_def split: file_data.split)

lemma resolve_walk:
  "list_all clean rest \<Longrightarrow> resolve_loop x fs u g (pre @ rest) (length pre) c f = walk x fs u g rest c f"
proof (induction rest arbitrary: pre c f)
  case Nil
  then show ?case by (simp add: resolve_loop.simps)
next
  case (Cons p rest)
  have "resolve_loop x fs u g (pre @ p # rest) (Suc (length pre)) n f' = walk x fs u g rest n f'" for n f'
    using Cons.IH[of "pre @ [p]" n f'] Cons.prems by simp
  with Cons.prems show ?case by (simp add: resolve_clean_step split: file_data.split option.split)
qed

text \<open>A single dot component is skipped, and so is a double one.\<close>

lemma resolve_dot_step:
  assumes "d = dot \<or> d = dotdot" and "clean c"
  shows "resolve_loop x fs u g (pre @ d # c # rest) (length pre) cur f =
         resolve_loop x fs u g (pre @ c # rest) (length pre) cur f"
  unfolding resolve_clean_step[OF assms(2)]
  by (subst resolve_loop.simps) (use assms in \<open>auto simp: clean_def remove_at_def Let_def split: file_data.split\<close>)

lemma resolve_dot_end:
  assumes "d = dot \<or> d = dotdot" and "fdata f = FDir ds" and "current_perm x f u g AND 1 \<noteq> 0"
  shows "resolve_loop x fs u g (pre @ [d]) (length pre) cur f = Inl Panic"
  using assms by (subst resolve_loop.simps) (simp add: remove_at_def Let_def)
lemma resolve_prefix:
  assumes "list_all clean cs" and "bm_get c fs = Some f"
  shows "resolve_loop x fs u g (pre @ cs @ rest) (length pre) c f =
     (case walk x fs u g cs c f of
        Inl e \<Rightarrow> Inl e
      | Inr n \<Rightarrow> resolve_loop x fs u g (pre @ cs @ rest) (length (pre @ cs)) n (the (bm_get n fs)))"
  using assms
proof (induction cs arbitrary: pre c f)
  case (Cons p cs)
  have "resolve_loop x fs u g (pre @ p # cs @ rest) (Suc (length pre)) n f' =
      (case walk x fs u g cs n f' of Inl e \<Rightarrow> Inl e
       | Inr m \<Rightarrow> resolve_loop x fs u g (pre @ p # cs @ rest) (Suc (length (pre @ cs))) m (the (bm_get m fs)))"
    if "bm_get n fs = Some f'" for n f'
    using Cons.IH[of n f' "pre @ [p]"] Cons.prems that by (simp split: sum.split)
  with Cons.prems show ?case
    using resolve_clean_step[of p x fs u g pre "cs @ rest" c f] by (auto split: file_data.split option.split sum.split)
qed simp

lemma walk_append:
  assumes "bm_get c fs = Some f"
  shows "walk x fs u g (cs @ ds) c f =
     (case walk x fs u g cs c f of Inl e \<Rightarrow> Inl e | Inr n \<Rightarrow> walk x fs u g ds n (the (bm_get n fs)))"
  using assms by (induction cs arbitrary: c f) (auto split: file_data.split option.split)

lemma walk_in_files: "bm_get c fs = Some f \<Longrightarrow> walk x fs u g cs c f = Inr n \<Longrightarrow> bm_get n fs \<noteq> None"
  by (induction cs arbitrary: c f) (auto split: file_data.splits option.splits if_splits)

text \<open>
  C34. Path resolution is a walk of the tree. For a path without the components \<open>.\<close> and \<open>..\<close>, resolution
  ends at the file the walk from the root along the components ends at, and fails as the walk fails: with
  EACCES at the first directory the user may not search, and with ENOENT where a name is missing or a
  file is used as a directory.
\<close>

theorem resolve_is_walk:
  assumes "list_all clean (path_components (trim_slashes path))" and "bm_get ROOT_INODE (files s) = Some root"
  shows "resolve x s path u g = walk x (files s) u g (path_components (trim_slashes path)) ROOT_INODE root"
  using resolve_walk[OF assms(1), of x "files s" u g "[]"] assms(2)
  by (simp add: resolve_def resolve_generic_def)

text \<open>
  Dots in paths. A component \<open>..\<close> before another component is skipped like \<open>.\<close>, so a path that should
  lead to a sibling leads to a child; and a path that ends in \<open>.\<close> or \<open>..\<close> below a directory the user may
  search makes the daemon panic.
\<close>

theorem resolve_dots:
  assumes "d = dot \<or> d = dotdot" and "list_all clean cs" and "bm_get ROOT_INODE (files s) = Some root"
  shows "(list_all clean (c # ds) \<and> path_components (trim_slashes path) = cs @ d # c # ds \<longrightarrow>
            resolve x s path u g = walk x (files s) u g (cs @ c # ds) ROOT_INODE root) \<and>
         (path_components (trim_slashes path) = cs @ [d] \<and>
            walk x (files s) u g cs ROOT_INODE root = Inr n \<and> bm_get n (files s) = Some f \<and>
            fdata f = FDir ents \<and> current_perm x f u g AND 1 \<noteq> 0 \<longrightarrow>
            resolve x s path u g = Inl Panic)"
proof (intro conjI impI; elim conjE)
  assume cl: "list_all clean (c # ds)" and p: "path_components (trim_slashes path) = cs @ d # c # ds"
  have "resolve_loop x (files s) u g (cs @ d # c # ds) (length cs) n f' =
      walk x (files s) u g (c # ds) n f'" for n f'
    using resolve_dot_step[OF assms(1), of c x "files s" u g cs ds n f'] resolve_walk[OF cl, of x "files s" u g cs n f'] cl
    by simp
  then show "resolve x s path u g = walk x (files s) u g (cs @ c # ds) ROOT_INODE root"
    using resolve_prefix[OF assms(2,3), of x u g "[]" "d # c # ds"] walk_append[OF assms(3)]
    by (simp add: resolve_def resolve_generic_def p assms(3) del: walk.simps split: sum.split)
next
  assume p: "path_components (trim_slashes path) = cs @ [d]" and w: "walk x (files s) u g cs ROOT_INODE root = Inr n"
    and f: "bm_get n (files s) = Some f" "fdata f = FDir ents" "current_perm x f u g AND 1 \<noteq> 0"
  from resolve_dot_end[OF assms(1) f(2,3), of "files s" cs n] show "resolve x s path u g = Inl Panic"
    using resolve_prefix[OF assms(2,3), of x u g "[]" "[d]"] w f(1)
    by (simp add: resolve_def resolve_generic_def p assms(3))
qed

section \<open>The invariant\<close>

definition entries :: "rfile \<Rightarrow> (bytes \<times> u64) list" where
  "entries f = (case fdata f of FFile _ \<Rightarrow> [] | FDir d \<Rightarrow> d)"

definition is_dir :: "rfile \<Rightarrow> bool" where
  "is_dir f = (case fdata f of FFile _ \<Rightarrow> False | FDir _ \<Rightarrow> True)"

definition linked :: "ramfs \<Rightarrow> u64 \<Rightarrow> bool" where
  "linked s n \<longleftrightarrow> (\<exists>p f name. map_of (files s) p = Some f \<and> (name, n) \<in> set (entries f))"

abbreviation openers :: "u64 \<Rightarrow> rhandle handle_map \<Rightarrow> nat" where
  "openers i hs \<equiv> ht.users (\<lambda>h. h = HInode i) hs"

definition name_ok :: "bytes \<Rightarrow> bool" where
  "name_ok c \<longleftrightarrow> clean c \<and> c \<noteq> [] \<and> slash \<notin> set c"

text \<open>An entry leads to a younger file that names the directory as its parent.\<close>

definition entry_ok :: "(u64 \<times> rfile) list \<Rightarrow> u64 \<Rightarrow> bytes \<times> u64 \<Rightarrow> bool" where
  "entry_ok fs i e \<longleftrightarrow>
     name_ok (fst e) \<and> i < snd e \<and> (case map_of fs (snd e) of None \<Rightarrow> False | Some f \<Rightarrow> parent f = i)"

text \<open>
  The counts: a file that is in the tree has been opened as often as it has handles; one that is not
  has none.
\<close>

definition count_ok :: "bool \<Rightarrow> nat \<Rightarrow> u64 \<Rightarrow> bool" where
  "count_ok l n oh \<longleftrightarrow> (if l then oh = of_nat n else n = 0)"

definition file_ok :: "ramfs \<Rightarrow> u64 \<Rightarrow> rfile \<Rightarrow> bool" where
  "file_ok s i f \<longleftrightarrow>
     ROOT_INODE \<le> i \<and> i \<le> last_inode_number s \<and> nlink f \<noteq> 0 \<and> distinct (map fst (entries f)) \<and>
     (\<forall>e\<in>set (entries f). entry_ok (files s) i e) \<and>
     (i = ROOT_INODE \<or> (entries f = [] \<or> linked s i) \<and> count_ok (linked s i) (openers i (rhandles s)) (open_handles f))"

definition ramfs_inv :: "ramfs \<Rightarrow> bool" where
  "ramfs_inv s \<longleftrightarrow>
     bm_ok (files s) \<and> hm_ok (rhandles s) \<and>
     (case map_of (files s) ROOT_INODE of None \<Rightarrow> False | Some r \<Rightarrow> is_dir r) \<and>
     (\<forall>i f. map_of (files s) i = Some f \<longrightarrow> file_ok s i f) \<and>
     (\<forall>h i. hm_lookup (rhandles s) h = Some (HInode i) \<longrightarrow> map_of (files s) i \<noteq> None)"

lemma ramfs_invD:
  assumes "ramfs_inv s"
  shows "bm_ok (files s)" "hm_ok (rhandles s)" "map_of (files s) i = Some f \<Longrightarrow> file_ok s i f"
    "hm_lookup (rhandles s) h = Some (HInode i) \<Longrightarrow> \<exists>f. map_of (files s) i = Some f"
    "\<exists>r. map_of (files s) ROOT_INODE = Some r \<and> is_dir r"
  using assms unfolding ramfs_inv_def by (auto split: option.splits)

text \<open>A file changes its contents, its times or its count of handles, and the table of handles changes with it.\<close>

definition same_place :: "rfile \<Rightarrow> rfile \<Rightarrow> bool" where
  "same_place f f' \<longleftrightarrow> nlink f' = nlink f \<and> parent f' = parent f \<and> entries f' = entries f \<and> is_dir f' = is_dir f"

lemma linked_update:
  assumes "bm_ok (files s)" and "map_of (files s) i = Some f" and "entries f' = entries f"
  shows "linked (s\<lparr>files := bm_insert i f' (files s), rhandles := hs\<rparr>) n = linked s n"
  using assms by (simp add: linked_def bm_insert_map) (metis option.inject)

lemma entry_ok_update:
  assumes "bm_ok fs" and "map_of fs i = Some f" and "parent f' = parent f"
  shows "entry_ok (bm_insert i f' fs) j e = entry_ok fs j e"
  using assms by (auto simp: entry_ok_def bm_insert_map split: option.splits)

lemma ramfs_inv_update:
  assumes inv: "ramfs_inv s" and f: "map_of (files s) i = Some f" and same: "same_place f f'" and hs: "hm_ok hs"
    and others: "\<And>j. j \<noteq> i \<Longrightarrow> openers j hs = openers j (rhandles s)"
    and open_files: "\<And>h j. hm_lookup hs h = Some (HInode j) \<Longrightarrow> map_of (files s) j \<noteq> None"
    and count: "i = ROOT_INODE \<or> count_ok (linked s i) (openers i hs) (open_handles f')"
  shows "ramfs_inv (s\<lparr>files := bm_insert i f' (files s), rhandles := hs\<rparr>)"
proof -
  let ?t = "s\<lparr>files := bm_insert i f' (files s), rhandles := hs\<rparr>"
  note ok = ramfs_invD[OF inv]
  have eq: "entries f' = entries f" "parent f' = parent f" "nlink f' = nlink f" "is_dir f' = is_dir f"
    using same by (simp_all add: same_place_def)
  have lk: "linked ?t n = linked s n" for n by (rule linked_update[OF ok(1) f eq(1)])
  have en: "entry_ok (files ?t) j e = entry_ok (files s) j e" for j e
    using entry_ok_update[OF ok(1) f eq(2)] by simp
  have "file_ok ?t j g" if g: "map_of (files ?t) j = Some g" for j g
  proof (cases "j = i")
    case True
    then have "g = f'" using g ok(1) by (simp add: bm_insert_map)
    then show ?thesis using ok(3)[OF f] count True eq unfolding file_ok_def lk en by auto
  next
    case False
    then have "map_of (files s) j = Some g" using g ok(1) by (simp add: bm_insert_map)
    from ok(3)[OF this] show ?thesis using others[OF False] unfolding file_ok_def lk en by simp
  qed
  moreover obtain r where "map_of (files ?t) ROOT_INODE = Some r" "is_dir r"
    using ok(5) f eq(4) ok(1) by (cases "i = ROOT_INODE") (auto simp: bm_insert_map)
  moreover have "map_of (files ?t) j \<noteq> None" if "hm_lookup hs h = Some (HInode j)" for h j
    using open_files[OF that] ok(1) by (simp add: bm_insert_map)
  ultimately show ?thesis using ok(1) hs by (simp add: ramfs_inv_def)
qed

lemma ramfs_inv_contents:
  assumes "ramfs_inv s" and "map_of (files s) i = Some f" and "same_place f f'" and "open_handles f' = open_handles f"
  shows "ramfs_inv (set_file i f' s)"
proof -
  have "ramfs_inv (s\<lparr>files := bm_insert i f' (files s), rhandles := rhandles s\<rparr>)"
    by (rule ramfs_inv_update[OF assms(1-3)])
      (use ramfs_invD[OF assms(1)] assms(2,4) in \<open>auto simp: file_ok_def\<close>)
  then show ?thesis by (simp add: set_file_def)
qed

lemma ramfs_inv_open:
  assumes inv: "ramfs_inv s" and f: "map_of (files s) i = Some f" and "i = ROOT_INODE \<or> linked s i"
    and room: "hm_room (rhandles s)" and same: "same_place f f'" and oh: "open_handles f' = open_handles f + 1"
  shows "ramfs_inv (s\<lparr>files := bm_insert i f' (files s), rhandles := snd (hm_insert (HInode i) (rhandles s))\<rparr>)"
proof (rule ramfs_inv_update[OF inv f same])
  note ok = ramfs_invD[OF inv]
  show "hm_ok (snd (hm_insert (HInode i) (rhandles s)))" using ht.ins_ok[OF ok(2) room] .
  show "openers j (snd (hm_insert (HInode i) (rhandles s))) = openers j (rhandles s)" if "j \<noteq> i" for j
    using ht.users_ins[OF ok(2), of "\<lambda>h. h = HInode j" "HInode i"] that by simp
  show "map_of (files s) j \<noteq> None" if "hm_lookup (snd (hm_insert (HInode i) (rhandles s))) h = Some (HInode j)" for h j
    using that f ok(4) by (auto simp: ht.ins_get[OF ok(2)] split: if_splits)
  have "openers i (snd (hm_insert (HInode i) (rhandles s))) = Suc (openers i (rhandles s))"
    using ht.users_ins[OF ok(2), of "\<lambda>h. h = HInode i" "HInode i"] by simp
  then show "i = ROOT_INODE \<or> count_ok (linked s i) (openers i (snd (hm_insert (HInode i) (rhandles s)))) (open_handles f')"
    using ok(3)[OF f] assms(3) oh by (auto simp: file_ok_def count_ok_def add.commute)
qed

text \<open>A close undoes an open.\<close>

lemma count_ok_dec: "count_ok l n oh \<Longrightarrow> 0 < n \<Longrightarrow> count_ok l (n - 1) (oh - 1)"
  by (auto simp: count_ok_def of_nat_diff split: if_splits)

lemma fields_comm [simp]: "s\<lparr>rhandles := hs, files := fs\<rparr> = s\<lparr>files := fs, rhandles := hs\<rparr>"
  by simp

lemma ramfs_inv_handles:
  assumes "ramfs_inv s" and "hm_ok hs" and "hm_lookup hs = hm_lookup (rhandles s)"
  shows "ramfs_inv (s\<lparr>rhandles := hs\<rparr>)"
proof -
  have "openers i hs = openers i (rhandles s)" for i using assms(3) by (simp add: ht.users_def)
  with assms show ?thesis by (simp add: ramfs_inv_def file_ok_def linked_def)
qed

lemma ramfs_on_close_inv:
  assumes inv: "ramfs_inv s"
  shows "ramfs_inv (ramfs_on_close fd s)"
proof -
  note ok = ramfs_invD[OF inv]
  obtain v hs where rem: "hm_remove fd (rhandles s) = (v, hs)" by (rule prod.exhaust)
  have v: "v = hm_lookup (rhandles s) fd" using ht.rem_val[of fd "rhandles s"] by (simp add: rem)
  have hs: "hm_ok hs" "hm_lookup hs = (hm_lookup (rhandles s))(fd := None)"
    using ht.rem_ok[OF ok(2), of fd] ht.rem_get[OF ok(2), of fd] by (simp_all add: rem)
  show ?thesis
  proof (cases v)
    case None
    have "hm_lookup hs = hm_lookup (rhandles s)" unfolding hs(2) using None v by (auto intro: fun_upd_idem)
    from ramfs_inv_handles[OF inv hs(1) this] show ?thesis by (simp add: ramfs_on_close_def rem None)
  next
    case (Some h)
    obtain i where i: "h = HInode i" by (cases h)
    have h: "hm_lookup (rhandles s) fd = Some (HInode i)" using v Some i by simp
    obtain f where f: "map_of (files s) i = Some f" using ok(4)[OF h] by blast
    have pos: "0 < openers i (rhandles s)" using ht.users_pos[OF ok(2) h] by simp
    have u: "openers j hs = openers j (rhandles s) - (if j = i then 1 else 0)" for j
      using ht.users_rem[OF ok(2), of "\<lambda>h. h = HInode j" fd] h by (auto simp: rem)
    let ?f = "f\<lparr>open_handles := open_handles f - 1\<rparr>"
    have "ramfs_inv (s\<lparr>files := bm_insert i ?f (files s), rhandles := hs\<rparr>)"
    proof (rule ramfs_inv_update[OF inv f _ hs(1)])
      show "map_of (files s) j \<noteq> None" if "hm_lookup hs k = Some (HInode j)" for k j
        using that ok(4)[of k j] by (auto simp: hs(2) split: if_splits)
      show "i = ROOT_INODE \<or> count_ok (linked s i) (openers i hs) (open_handles ?f)"
        using ok(3)[OF f] count_ok_dec[OF _ pos] u[of i] by (auto simp: file_ok_def)
    qed (use u in \<open>simp_all add: same_place_def entries_def is_dir_def\<close>)
    moreover have "nlink f \<noteq> 0" using ok(3)[OF f] by (simp add: file_ok_def)
    ultimately show ?thesis
      using f ok(1) by (simp add: ramfs_on_close_def rem Some i Let_def as_inode_def bm_get_map set_file_def)
  qed
qed

text \<open>What the loop does with dots at its position, as functions of the components.\<close>

definition dot_skip :: "bytes list \<Rightarrow> nat \<Rightarrow> bytes list" where
  "dot_skip parts i = (if parts ! i = dot \<or> parts ! i = dotdot then remove_at i parts else parts)"

definition dot_back :: "bytes list \<Rightarrow> nat \<Rightarrow> bytes list \<times> nat" where
  "dot_back parts i = (if parts ! i = dotdot \<and> i > 0 then (remove_at (i - 1) parts, i - 1) else (parts, i))"

lemma resolve_step:
  assumes "i < length parts" and "dot_back (dot_skip parts i) i = (parts2, i2)"
  shows "resolve_loop x fs u g parts i c f =
     (case fdata f of
        FFile _ \<Rightarrow> Inl (Errno ENOENT)
      | FDir d \<Rightarrow>
         if current_perm x f u g AND 1 = 0 then Inl (Errno EACCES)
         else if length (dot_skip parts i) \<le> i then Inl Panic
         else (case map_of d (parts2 ! i2) of
                 None \<Rightarrow> Inl (Errno ENOENT)
               | Some m \<Rightarrow> (case bm_get m fs of None \<Rightarrow> Inl (Errno EIO)
                             | Some f' \<Rightarrow> resolve_loop x fs u g parts2 (Suc i2) m f')))"
proof -
  have "parts2 = (if dot_skip parts i ! i = dotdot \<and> i > 0 then remove_at (i - 1) (dot_skip parts i) else dot_skip parts i)"
    "i2 = (if dot_skip parts i ! i = dotdot \<and> i > 0 then i - 1 else i)"
    using assms(2) by (auto simp: dot_back_def split: if_splits)
  with assms(1) show ?thesis
    by (subst resolve_loop.simps) (simp only: Let_def dot_skip_def[symmetric] not_le if_False if_not_P simp_thms)
qed

lemma dot_progress:
  assumes "i < length parts" and "i < length (dot_skip parts i)" and "dot_back (dot_skip parts i) i = (parts2, i2)"
  shows "i2 < length parts2" "length parts2 - Suc i2 < length parts - i"
  using assms by (auto simp: dot_skip_def dot_back_def remove_at_def min_def split: if_splits)

text \<open>A successful resolution is at its end, or enters a file through an entry and goes on with less to do.\<close>

lemma resolve_loop_elim:
  assumes "resolve_loop x fs u g parts i c f = Inr n"
  obtains (stop) "length parts \<le> i" "n = c"
  | (enter) d parts2 i2 m f' where "i < length parts" "i < length (dot_skip parts i)"
      "dot_back (dot_skip parts i) i = (parts2, i2)" "fdata f = FDir d" "map_of d (parts2 ! i2) = Some m"
      "bm_get m fs = Some f'" "resolve_loop x fs u g parts2 (Suc i2) m f' = Inr n"
      "i2 < length parts2" "length parts2 - Suc i2 < length parts - i"
proof (cases "length parts \<le> i")
  case True
  then have "n = c" using assms by (subst (asm) resolve_loop.simps) simp
  with True show ?thesis by (rule stop)
next
  case False
  obtain parts2 i2 where b: "dot_back (dot_skip parts i) i = (parts2, i2)" by (rule prod.exhaust)
  have i: "i < length parts" using False by simp
  note eq = resolve_step[OF i b, of x fs u g c f]
  from eq assms have l: "i < length (dot_skip parts i)" by (auto split: file_data.splits if_splits)
  show ?thesis
    using eq assms i l b dot_progress[OF i l b]
    by (auto intro!: enter split: file_data.splits option.splits if_splits)
qed

text \<open>What resolution finds is in the tree.\<close>

lemma linkedI: "map_of (files s) c = Some f \<Longrightarrow> fdata f = FDir d \<Longrightarrow> map_of d nm = Some n \<Longrightarrow> linked s n"
  unfolding linked_def by (intro exI[of _ c] exI[of _ f] exI[of _ nm]) (auto simp: entries_def dest: map_of_SomeD)

lemma resolve_loop_found:
  assumes "bm_ok (files s)" and "map_of (files s) c = Some f" and "c = ROOT_INODE \<or> linked s c"
    and "resolve_loop x (files s) u g parts i c f = Inr n"
  shows "\<exists>f'. map_of (files s) n = Some f' \<and> (n = ROOT_INODE \<or> linked s n)"
  using assms
proof (induction "length parts - i" arbitrary: parts i c f rule: less_induct)
  case less
  from less.prems(4) show ?case
  proof (cases rule: resolve_loop_elim)
    case stop
    with less.prems show ?thesis by auto
  next
    case (enter d parts2 i2 m f')
    have "linked s m" using linkedI[OF less.prems(2) enter(4,5)] .
    moreover have "map_of (files s) m = Some f'" using enter(6) less.prems(1) by (simp add: bm_get_map)
    ultimately show ?thesis using less.hyps[OF enter(9) less.prems(1) _ _ enter(7)] by blast
  qed
qed

lemma resolve_generic_found:
  assumes "ramfs_inv s" and "resolve_generic x s parts u g = Inr n"
  shows "\<exists>f. map_of (files s) n = Some f \<and> (n = ROOT_INODE \<or> linked s n)"
  using assms resolve_loop_found[OF ramfs_invD(1)[OF assms(1)], of ROOT_INODE]
  by (auto simp: resolve_generic_def bm_get_map ramfs_invD(1) split: option.splits)

text \<open>The root user searches every directory.\<close>

lemma root_perm [simp]: "current_perm x f 0 g = 7"
  by (simp add: current_perm_def)

lemma resolve_append:
  assumes "bm_get c fs = Some f" and "i \<le> length parts" and "resolve_loop x fs u g parts i c f = Inr p"
  shows "\<exists>parts' fp. bm_get p fs = Some fp \<and>
    resolve_loop x fs 0 0 (parts @ [l]) i c f = resolve_loop x fs 0 0 (parts' @ [l]) (length parts') p fp"
  using assms
proof (induction "length parts - i" arbitrary: parts i c f rule: less_induct)
  case less
  from less.prems(3) show ?case
  proof (cases rule: resolve_loop_elim)
    case stop
    with less.prems show ?thesis by (metis le_antisym)
  next
    case (enter d parts2 i2 m f')
    have skip: "dot_skip (parts @ [l]) i = dot_skip parts i @ [l]"
      using enter(1) by (simp add: dot_skip_def nth_append remove_at_def)
    have bk: "dot_back (dot_skip (parts @ [l]) i) i = (parts2 @ [l], i2)"
      using enter(2,3) unfolding skip by (auto simp: dot_back_def nth_append remove_at_def split: if_splits)
    have "i < length (parts @ [l])" using enter(1) by simp
    from resolve_step[OF this bk, of x fs 0 0 c f]
    have "resolve_loop x fs 0 0 (parts @ [l]) i c f = resolve_loop x fs 0 0 (parts2 @ [l]) (Suc i2) m f'"
      using enter(2,4,5,6,8) by (simp add: skip nth_append)
    with less.hyps[OF enter(9,6) _ enter(7)] enter(8) show ?thesis by simp
  qed
qed

lemma split_slash_no_slash: "c \<in> set (split_slash bs) \<Longrightarrow> slash \<notin> set c"
  by (induction bs arbitrary: c) (auto split: if_splits list.splits)

lemma component_name: "c \<in> set (path_components bs) \<Longrightarrow> c \<noteq> [] \<and> slash \<notin> set c"
  using split_slash_no_slash by (auto simp: path_components_def)

lemma seven_and_one [simp]: "(7 :: u16) AND 1 = 1"
  by simp

text \<open>A name that is created is not there yet.\<close>

lemma create_name_fresh:
  assumes inv: "ramfs_inv s" and none: "resolve x s path 0 0 = Inl (Errno e)"
    and p: "resolve_except_last x s path u g = Inr (p, Some nm)"
    and fp: "map_of (files s) p = Some fp" "fdata fp = FDir d"
  shows "name_ok nm \<and> map_of d nm = None"
proof -
  note ok = ramfs_invD[OF inv]
  let ?parts = "path_components (trim_slashes path)"
  have parts: "?parts \<noteq> []" "nm = last ?parts" "resolve_generic x s (butlast ?parts) u g = Inr p"
    using p by (auto simp: resolve_except_last_def Let_def split: if_splits sum.splits)
  then have snoc: "?parts = butlast ?parts @ [nm]" by simp
  obtain root where root: "bm_get ROOT_INODE (files s) = Some root"
    using ok(5) by (auto simp: bm_get_map[OF ok(1)])
  have "resolve_loop x (files s) u g (butlast ?parts) 0 ROOT_INODE root = Inr p"
    using parts(3) root by (simp add: resolve_generic_def)
  from resolve_append[OF root _ this, of nm] obtain parts' where
      "resolve_loop x (files s) 0 0 ?parts 0 ROOT_INODE root = resolve_loop x (files s) 0 0 (parts' @ [nm]) (length parts') p fp"
    using fp(1) by (auto simp: bm_get_map[OF ok(1)] simp flip: snoc)
  then have end_step: "resolve_loop x (files s) 0 0 (parts' @ [nm]) (length parts') p fp = Inl (Errno e)"
    using none root by (simp add: resolve_def resolve_generic_def)
  have cl: "clean nm"
  proof (rule ccontr)
    assume "\<not> clean nm"
    then have "resolve_loop x (files s) 0 0 (parts' @ [nm]) (length parts') p fp = Inl Panic"
      using fp(2) by (intro resolve_dot_end) (auto simp: clean_def)
    with end_step show False by simp
  qed
  have "map_of d nm = None"
  proof (rule ccontr)
    assume "map_of d nm \<noteq> None"
    then obtain n where n: "map_of d nm = Some n" by blast
    then have "(nm, n) \<in> set (entries fp)" using fp(2) by (auto simp: entries_def dest: map_of_SomeD)
    then have "entry_ok (files s) p (nm, n)" using ok(3)[OF fp(1)] by (auto simp: file_ok_def)
    then obtain f' where "bm_get n (files s) = Some f'" by (auto simp: entry_ok_def bm_get_map[OF ok(1)] split: option.splits)
    then show False
      using resolve_clean_step[OF cl, of x "files s" 0 0 parts' "[]" p fp] end_step n fp(2)
      by (simp add: resolve_loop.simps)
  qed
  moreover have "nm \<in> set ?parts" using parts(1,2) by simp
  ultimately show ?thesis using cl component_name by (auto simp: name_ok_def)
qed

lemma ramfs_inv_last:
  assumes "ramfs_inv s" and "last_inode_number s \<le> n"
  shows "ramfs_inv (s\<lparr>last_inode_number := n\<rparr>)"
  using assms by (auto simp: ramfs_inv_def file_ok_def linked_def intro: order_trans split: option.splits)

lemma ramfs_inv_new_file:
  assumes inv: "ramfs_inv s" and n: "last_inode_number s < n" and f: "nlink f \<noteq> 0" "entries f = []"
  shows "ramfs_inv (set_file n f (s\<lparr>last_inode_number := n\<rparr>))"
    "\<not> linked (set_file n f (s\<lparr>last_inode_number := n\<rparr>)) n" "map_of (files s) n = None" "openers n (rhandles s) = 0"
proof -
  let ?t = "set_file n f (s\<lparr>last_inode_number := n\<rparr>)"
  note ok = ramfs_invD[OF inv]
  have fresh: "map_of (files s) n = None"
  proof (rule ccontr)
    assume "map_of (files s) n \<noteq> None"
    then obtain g where "map_of (files s) n = Some g" by blast
    with ok(3) have "n \<le> last_inode_number s" by (auto simp: file_ok_def)
    with n show False by simp
  qed
  then show "map_of (files s) n = None" .
  have files: "map_of (files ?t) = (map_of (files s))(n \<mapsto> f)" using ok(1) by (simp add: set_file_def bm_insert_map)
  have lk: "linked ?t i = linked s i" for i
    using f(2) fresh unfolding linked_def files
    by (metis (no_types) empty_iff fun_upd_apply list.set(1) option.distinct(1) option.inject)
  have nl: "\<not> linked s n"
  proof
    assume "linked s n"
    then obtain p g nm where "map_of (files s) p = Some g" "(nm, n) \<in> set (entries g)" by (auto simp: linked_def)
    with ok(3) have "entry_ok (files s) p (nm, n)" by (auto simp: file_ok_def)
    with fresh show False by (simp add: entry_ok_def)
  qed
  with lk show "\<not> linked ?t n" by simp
  have no: "hm_lookup (rhandles s) h \<noteq> Some (HInode n)" for h using ok(4) fresh by fastforce
  then show u: "openers n (rhandles s) = 0" by (simp add: ht.users_def)
  have en: "entry_ok (files s) i e \<Longrightarrow> entry_ok (files ?t) i e" for i e
    using fresh by (auto simp: entry_ok_def files split: option.splits)
  have "file_ok ?t i g" if "map_of (files ?t) i = Some g" for i g
  proof (cases "i = n")
    case True
    have "ROOT_INODE \<le> last_inode_number s" using ok(3,5) by (auto simp: file_ok_def)
    then have "ROOT_INODE \<le> n" using n by simp
    then show ?thesis using that f nl u True unfolding file_ok_def lk by (simp add: files count_ok_def) (simp add: set_file_def)
  next
    case False
    then have "file_ok s i g" using that ok(3) by (simp add: files)
    then show ?thesis using n en unfolding file_ok_def lk by (auto simp: set_file_def)
  qed
  moreover have "\<exists>r. map_of (files ?t) ROOT_INODE = Some r \<and> is_dir r"
    using ok(5) fresh by (auto simp: files)
  moreover have "map_of (files ?t) i \<noteq> None" if "hm_lookup (rhandles s) h = Some (HInode i)" for h i
    using ok(4)[OF that] by (auto simp: files)
  moreover have "bm_ok (files ?t)" "rhandles ?t = rhandles s" using ok(1) by (simp_all add: set_file_def)
  ultimately show "ramfs_inv ?t"
    using ok(2) unfolding ramfs_inv_def by (auto split: option.splits)
qed

lemma update_fresh_set: "map_of d k = None \<Longrightarrow> set (AList.update k v d) = insert (k, v) (set d)"
  by (induction d) (auto split: if_splits)

text \<open>The new file is entered into its directory and gets its first handle.\<close>

lemma ramfs_inv_link:
  assumes inv: "ramfs_inv s" and p: "map_of (files s) p = Some par" "fdata par = FDir d" "p = ROOT_INODE \<or> linked s p"
    and n: "map_of (files s) n = Some f" "parent f = p" "p < n" "\<not> linked s n" "entries f = []" "open_handles f = 1"
    and nm: "name_ok nm" "map_of d nm = None" and room: "hm_room (rhandles s)"
  shows "ramfs_inv (s\<lparr>files := bm_insert p (par\<lparr>fdata := FDir (AList.update nm n d)\<rparr>) (files s),
           rhandles := snd (hm_insert (HInode n) (rhandles s))\<rparr>)"
proof -
  let ?par = "par\<lparr>fdata := FDir (AList.update nm n d)\<rparr>"
  define hs where "hs = snd (hm_insert (HInode n) (rhandles s))"
  define t where "t = s\<lparr>files := bm_insert p ?par (files s), rhandles := hs\<rparr>"
  note ok = ramfs_invD[OF inv]
  have files: "map_of (files t) = (map_of (files s))(p \<mapsto> ?par)" and t: "rhandles t = hs"
      "last_inode_number t = last_inode_number s" "bm_ok (files t)"
    using ok(1) by (simp_all add: t_def bm_insert_map)
  have pn: "p \<noteq> n" using n(3) by auto
  have u: "openers i hs = (if i = n then Suc (openers i (rhandles s)) else openers i (rhandles s))" for i
    using ht.users_ins[OF ok(2), of "\<lambda>h. h = HInode i" "HInode n"] by (auto simp: hs_def)
  have "distinct (map fst d)" using ok(3)[OF p(1)] p(2) by (simp add: file_ok_def entries_def)
  then have d': "distinct (map fst (AList.update nm n d))" "set (AList.update nm n d) = insert (nm, n) (set d)"
    using nm(2) by (simp_all add: update_fresh_set)
  have ents: "entries ?par = AList.update nm n d" "entries par = d" using p(2) by (simp_all add: entries_def)
  have lk: "linked t i \<longleftrightarrow> linked s i \<or> i = n" for i
  proof -
    have "(\<exists>g m. map_of (files t) q = Some g \<and> (m, i) \<in> set (entries g)) \<longleftrightarrow>
        (\<exists>g m. map_of (files s) q = Some g \<and> (m, i) \<in> set (entries g)) \<or> q = p \<and> i = n" for q
      by (cases "q = p") (auto simp: files ents d'(2) p(1))
    then show ?thesis unfolding linked_def by (simp add: ex_disj_distrib)
  qed
  have en: "entry_ok (files s) i e \<Longrightarrow> entry_ok (files t) i e" for i e
    using p(1) by (auto simp: entry_ok_def files split: option.splits if_splits)
  have new: "entry_ok (files t) p (nm, n)" using nm(1) n(1-3) pn by (simp add: entry_ok_def files)
  have "ROOT_INODE \<le> p" using ok(3)[OF p(1)] by (simp add: file_ok_def)
  then have "n \<noteq> ROOT_INODE" using n(3) by auto
  then have un: "openers n (rhandles s) = 0" using ok(3)[OF n(1)] n(4) by (simp add: file_ok_def count_ok_def)
  have "file_ok t i g" if at: "map_of (files t) i = Some g" for i g
  proof -
    consider (par) "i = p" "g = ?par" | (new) "i = n" "g = f" | (old) "i \<noteq> p" "i \<noteq> n" "map_of (files s) i = Some g"
      using at n(1) by (cases "i = n") (auto simp: files split: if_splits)
    then show ?thesis
    proof cases
      case par
      then show ?thesis using ok(3)[OF p(1)] p(3) d' ents en new pn unfolding file_ok_def lk by (auto simp: u t)
    next
      case new
      then show ?thesis using ok(3)[OF n(1)] un n(5,6) unfolding file_ok_def lk by (simp add: u t count_ok_def)
    next
      case old
      then show ?thesis using ok(3)[OF old(3)] en unfolding file_ok_def lk by (auto simp: u t)
    qed
  qed
  moreover have "map_of (files t) i \<noteq> None" if "hm_lookup hs h = Some (HInode i)" for h i
    using that ok(4)[of h i] n(1) by (auto simp: hs_def ht.ins_get[OF ok(2)] files split: if_splits)
  moreover have "\<exists>r. map_of (files t) ROOT_INODE = Some r \<and> is_dir r"
    using ok(5) by (cases "p = ROOT_INODE") (auto simp: files is_dir_def)
  moreover have "hm_ok hs" using ht.ins_ok[OF ok(2) room] by (simp add: hs_def)
  ultimately have "ramfs_inv t" using t unfolding ramfs_inv_def by (auto split: option.splits)
  then show ?thesis by (simp add: t_def hs_def)
qed

definition with_handle :: "u64 \<Rightarrow> ramfs \<Rightarrow> ramfs" where
  "with_handle i s = s\<lparr>rhandles := snd (hm_insert (HInode i) (rhandles s))\<rparr>"

lemma open_existing_inv:
  assumes inv: "ramfs_inv s" and room: "hm_room (rhandles s)"
  shows "open_existing x path flags u g s = (Inr i, t) \<Longrightarrow> ramfs_inv (with_handle i t)"
    "open_existing x path flags u g s = (Inl e, t) \<Longrightarrow> t = s"
proof -
  note ok = ramfs_invD[OF inv]
  show "t = s" if "open_existing x path flags u g s = (Inl e, t)"
    using that by (auto simp: open_existing_def Let_def split: sum.splits option.splits if_splits file_data.splits bool.splits prod.splits)
  assume o: "open_existing x path flags u g s = (Inr i, t)"
  then obtain f f' where f: "bm_get i (files s) = Some f" "resolve x s path u g = Inr i" "t = set_file i f' s"
      "same_place f f'" "open_handles f' = open_handles f + 1"
    by (auto simp: open_existing_def Let_def same_place_def entries_def is_dir_def
        split: sum.splits option.splits if_splits file_data.splits bool.splits prod.splits)
  have "map_of (files s) i = Some f" using f(1) ok(1) by (simp add: bm_get_map)
  moreover have "i = ROOT_INODE \<or> linked s i" using resolve_generic_found[OF inv] f(2) unfolding resolve_def by blast
  ultimately have "ramfs_inv (s\<lparr>files := bm_insert i f' (files s), rhandles := snd (hm_insert (HInode i) (rhandles s))\<rparr>)"
    using ramfs_inv_open[OF inv _ _ room f(4,5)] by blast
  then show "ramfs_inv (with_handle i t)" by (simp add: f(3) with_handle_def set_file_def)
qed

lemma new_file_ok:
  assumes "new_file x flags cx p = Some f"
  shows "nlink f \<noteq> 0" "entries f = []" "parent f = p" "open_handles f = 1"
  using assms by (auto simp: new_file_def Let_def entries_def split: if_splits)

lemma next_inode_number_ok:
  assumes "next_inode_number s = (Inr n, t)"
  shows "t = s\<lparr>last_inode_number := n\<rparr>" "last_inode_number s < n" "n = last_inode_number s + 1"
proof -
  have ne: "last_inode_number s \<noteq> - 1" and n: "n = last_inode_number s + 1" "t = s\<lparr>last_inode_number := n\<rparr>"
    using assms by (auto simp: next_inode_number_def Let_def split: if_splits)
  show "t = s\<lparr>last_inode_number := n\<rparr>" "n = last_inode_number s + 1" using n by simp_all
  show "last_inode_number s < n" 
    using ne unatSuc[of "last_inode_number s"] unfolding n(1) word_less_nat_alt
    by (metis add.commute add_eq_0_iff lessI minus_minus)
qed

lemma create_inv:
  assumes inv: "ramfs_inv s" and room: "hm_room (rhandles s)" and none: "resolve x s path 0 0 = Inl (Errno e)"
    and c: "create x path flags cx s = (r, t)"
  shows "case r of Inr i \<Rightarrow> ramfs_inv (with_handle i t) | Inl _ \<Rightarrow> ramfs_inv t"
proof -
  note ok = ramfs_invD[OF inv]
  show ?thesis
  proof (cases "\<exists>p nm n s1 f. resolve_except_last x s path (cx_uid cx) (cx_gid cx) = Inr (p, Some nm) \<and>
      next_inode_number s = (Inr n, s1) \<and> new_file x flags cx p = Some f \<and> t = t \<and> flags AND O_STAT x = 0 \<and>
      check_permissions x flags (current_perm x f (cx_uid cx) (cx_gid cx))")
    case False
    then have "(\<exists>e. r = Inl e) \<and> (t = s \<or> (\<exists>n. next_inode_number s = (Inr n, t)))"
      using c by (auto simp: create_def bind_out_def next_inode_number_def Let_def split: sum.splits option.splits if_splits prod.splits)
    then show ?thesis
      using inv ramfs_inv_last[OF inv] next_inode_number_ok(1,2) by (metis less_imp_le old.sum.simps(5))
  next
    case True
    then obtain p nm n s1 f where r: "resolve_except_last x s path (cx_uid cx) (cx_gid cx) = Inr (p, Some nm)"
        and n: "next_inode_number s = (Inr n, s1)" and f: "new_file x flags cx p = Some f" and st: "flags AND O_STAT x = 0"
        and perm: "check_permissions x flags (current_perm x f (cx_uid cx) (cx_gid cx))" by blast
    note n1 = next_inode_number_ok[OF n] and f1 = new_file_ok[OF f]
    have "resolve_generic x s (butlast (path_components (trim_slashes path))) (cx_uid cx) (cx_gid cx) = Inr p"
      using r by (auto simp: resolve_except_last_def Let_def split: if_splits sum.splits)
    then obtain par where par: "map_of (files s) p = Some par" "p = ROOT_INODE \<or> linked s p"
      using resolve_generic_found[OF inv] by blast
    have pn: "p < n" using ok(3)[OF par(1)] n1(2) unfolding file_ok_def by (blast intro: le_less_trans)
    define s2 where "s2 = set_file n f s1"
    note new = ramfs_inv_new_file[OF inv n1(2), of f] f1
    have inv2: "ramfs_inv s2" "\<not> linked s2 n" using new by (simp_all add: s2_def n1(1))
    have files2: "map_of (files s2) = (map_of (files s))(n \<mapsto> f)" using ok(1) by (simp add: s2_def n1(1) set_file_def bm_insert_map)
    have h2: "rhandles s2 = rhandles s" by (simp add: s2_def n1(1) set_file_def)
    have par2: "map_of (files s2) p = Some par" "p = ROOT_INODE \<or> linked s2 p"
      using par pn by (auto simp: files2 linked_def)
        (metis (no_types, lifting) domIff fun_upd_other map_upd_Some_unfold new(3) f1 not_None_eq option.inject)+
    have bm2: "bm_get p (files s2) = Some par" using par2(1) ramfs_invD(1)[OF inv2(1)] by (simp add: bm_get_map)
    have res: "create x path flags cx s =
        (case fdata par of FFile _ \<Rightarrow> fail EIO s2
         | FDir d \<Rightarrow> ok n (set_file p (par\<lparr>fdata := FDir (AList.update nm n d)\<rparr>) s2))"
      using st r n f perm bm2 by (simp add: create_def Let_def flip: s2_def)
    show ?thesis
    proof (cases "fdata par")
      case (FFile bs)
      then show ?thesis using c res inv2 by auto
    next
      case (FDir d)
      have nm: "name_ok nm" "map_of d nm = None" using create_name_fresh[OF inv none r par(1) FDir] by simp_all
      have "ramfs_inv (s2\<lparr>files := bm_insert p (par\<lparr>fdata := FDir (AList.update nm n d)\<rparr>) (files s2),
          rhandles := snd (hm_insert (HInode n) (rhandles s2))\<rparr>)"
        by (rule ramfs_inv_link[OF inv2(1) par2(1) FDir par2(2) _ _ pn inv2(2) _ _ nm]) (use f1 room h2 files2 in simp_all)
      moreover have "r = Inr n" "t = set_file p (par\<lparr>fdata := FDir (AList.update nm n d)\<rparr>) s2" using c res FDir by simp_all
      ultimately show ?thesis by (simp add: with_handle_def set_file_def)
    qed
  qed
qed

lemma ramfs_openat_inv:
  assumes inv: "ramfs_inv s" and room: "hm_room (rhandles s)"
  shows "ramfs_inv (snd (ramfs_openat x fd path flags ff cx s))"
proof -
  have bind: "ramfs_inv (snd (bind_out (r, t) (\<lambda>i s1. let (n, hs) = hm_insert (HInode i) (rhandles s1) in ok n (s1\<lparr>rhandles := hs\<rparr>))))"
    if "case r of Inr i \<Rightarrow> ramfs_inv (with_handle i t) | Inl _ \<Rightarrow> ramfs_inv t" for r and t
    using that by (auto simp: with_handle_def Let_def split: sum.splits prod.split)
  have old: "case r of Inr i \<Rightarrow> ramfs_inv (with_handle i t) | Inl _ \<Rightarrow> ramfs_inv t"
    if "open_existing x path fl (cx_uid cx) (cx_gid cx) s = (r, t)" for fl r t
    using open_existing_inv[OF inv room, of x path fl "cx_uid cx" "cx_gid cx"] that inv by (auto split: sum.split)
  have fresh: "case r of Inr i \<Rightarrow> ramfs_inv (with_handle i t) | Inl _ \<Rightarrow> ramfs_inv t"
    if "create x path flags cx s = (r, t)" "resolve x s path 0 0 = Inl (Errno e)" for r t e
    using create_inv[OF inv room that(2,1)] .
  let ?r = "if flags AND O_CREAT x \<noteq> 0 \<and> (case resolve x s path 0 0 of Inr _ \<Rightarrow> True | Inl _ \<Rightarrow> False)
      then open_existing x path flags (cx_uid cx) (cx_gid cx) s
      else if flags AND O_CREAT x \<noteq> 0 then create x path flags cx s
      else open_existing x path (flags OR ucast ff) (cx_uid cx) (cx_gid cx) s"
  have "case fst ?r of Inr i \<Rightarrow> ramfs_inv (with_handle i (snd ?r)) | Inl _ \<Rightarrow> ramfs_inv (snd ?r)"
    if np: "resolve x s path 0 0 \<noteq> Inl Panic"
  proof (cases "resolve x s path 0 0")
    case (Inr n)
    then show ?thesis using old by simp
  next
    case (Inl f)
    then obtain e where "resolve x s path 0 0 = Inl (Errno e)" using np by (cases f) auto
    with fresh old show ?thesis by simp
  qed
  note core = bind[OF this, unfolded prod.collapse]
  show ?thesis
  proof (cases "hm_get (rhandles s) fd")
    case (Inr h)
    show ?thesis
    proof (cases "resolve x s path 0 0")
      case (Inl f)
      then show ?thesis using Inr core inv by (cases f) (simp_all add: ramfs_openat_def)
    next
      case (Inr n)
      then show ?thesis using \<open>hm_get (rhandles s) fd = Inr h\<close> core inv by (simp add: ramfs_openat_def)
    qed
  qed (use inv in \<open>simp add: ramfs_openat_def\<close>)
qed

lemma handle_file_at: "ramfs_inv s \<Longrightarrow> handle_file s fd = Inr (i, f) \<Longrightarrow> map_of (files s) i = Some f"
  by (auto simp: handle_file_def bm_get_map ramfs_invD(1) split: sum.splits option.splits)

lemma file_ops_inv:
  assumes inv: "ramfs_inv s"
  shows "ramfs_inv (snd (ramfs_write x fd buf off s))" "ramfs_inv (snd (ramfs_fchmod x fd m s))"
    "ramfs_inv (snd (ramfs_fchown n u g s))" "ramfs_inv (snd (ramfs_ftruncate x fd sz s))"
    "ramfs_inv (snd (ramfs_futimens fd ts s))"
proof -
  note c = ramfs_inv_contents[OF inv] and at = handle_file_at[OF inv, of fd] and bm = bm_get_map[OF ramfs_invD(1)[OF inv]]
  show "ramfs_inv (snd (ramfs_write x fd buf off s))" "ramfs_inv (snd (ramfs_ftruncate x fd sz s))"
    using inv by (auto simp: ramfs_write_def ramfs_ftruncate_def Let_def same_place_def entries_def is_dir_def
        intro!: c[OF at] split: sum.split file_data.split)
  show "ramfs_inv (snd (ramfs_fchmod x fd m s))" "ramfs_inv (snd (ramfs_futimens fd ts s))"
    using inv by (auto simp: ramfs_fchmod_def ramfs_futimens_def same_place_def entries_def is_dir_def
        intro!: c[OF at] split: sum.split list.split)
  show "ramfs_inv (snd (ramfs_fchown n u g s))"
    using inv by (auto simp: ramfs_fchown_def bm same_place_def entries_def is_dir_def intro!: c split: option.split)
qed

lemma ramfs_root_inv:
  assumes inv: "ramfs_inv s" and room: "hm_room (rhandles s)"
  shows "ramfs_inv (snd (ramfs_root s))"
proof -
  note ok = ramfs_invD[OF inv]
  obtain r where r: "map_of (files s) ROOT_INODE = Some r" using ok(5) by blast
  let ?hs = "snd (hm_insert (HInode ROOT_INODE) (rhandles s))"
  have "ramfs_inv (s\<lparr>files := bm_insert ROOT_INODE r (files s), rhandles := ?hs\<rparr>)"
  proof (rule ramfs_inv_update[OF inv r])
    show "openers j ?hs = openers j (rhandles s)" if "j \<noteq> ROOT_INODE" for j
      using ht.users_ins[OF ok(2), of "\<lambda>h. h = HInode j" "HInode ROOT_INODE"] that by simp
    show "map_of (files s) j \<noteq> None" if "hm_lookup ?hs h = Some (HInode j)" for h j
      using that r ok(4)[of h j] by (auto simp: ht.ins_get[OF ok(2)] split: if_splits)
  qed (use ht.ins_ok[OF ok(2) room] in \<open>simp_all add: same_place_def\<close>)
  then show ?thesis
    using bm_insert_same[OF ok(1) r] by (cases "hm_insert (HInode ROOT_INODE) (rhandles s)") (simp add: ramfs_root_def)
qed

section \<open>Reachable states\<close>

datatype ramfs_req =
    RfRoot
  | RfOpen rx u64 bytes u64 u32 caller_ctx
  | RfUnlink rx u64 bytes u64 caller_ctx
  | RfClose u64
  | RfWrite rx u64 bytes u64
  | RfChmod rx u64 u16
  | RfChown u64 u32 u32
  | RfChownCall rx u64 u64 caller_ctx
  | RfTruncate rx u64 u64
  | RfTimes u64 "timespec list"

definition ramfs_step :: "ramfs \<Rightarrow> ramfs_req \<Rightarrow> ramfs" where
  "ramfs_step s r =
     (case r of
        RfRoot \<Rightarrow> snd (ramfs_root s)
      | RfOpen x fd path flags ff cx \<Rightarrow> snd (ramfs_openat x fd path flags ff cx s)
      | RfUnlink x fd path flags cx \<Rightarrow> snd (ramfs_unlinkat x fd path flags cx s)
      | RfClose fd \<Rightarrow> ramfs_on_close fd s
      | RfWrite x fd buf off \<Rightarrow> snd (ramfs_write x fd buf off s)
      | RfChmod x fd m \<Rightarrow> snd (ramfs_fchmod x fd m s)
      | RfChown n u g \<Rightarrow> snd (ramfs_fchown n u g s)
      | RfChownCall x fd a cx \<Rightarrow> snd (fchown_call x fd a cx s)
      | RfTruncate x fd sz \<Rightarrow> snd (ramfs_ftruncate x fd sz s)
      | RfTimes fd ts \<Rightarrow> snd (ramfs_futimens fd ts s))"

text \<open>Handle numbers and inode numbers have not run out.\<close>

definition ramfs_env :: "ramfs \<Rightarrow> ramfs_req \<Rightarrow> bool" where
  "ramfs_env s r \<longleftrightarrow> hm_room (rhandles s) \<and> last_inode_number s < - 2"

lemma unlinkat_denied:
  assumes inv: "ramfs_inv s" and "last_inode_number s < - 2"
  shows "ramfs_unlinkat x fd path flags cx s = (if hm_lookup (rhandles s) fd = None then fail EBADF s else fail EACCES s)"
proof (cases "hm_lookup (rhandles s) fd")
  case (Some h)
  obtain i where i: "h = HInode i" by (cases h)
  obtain f where "map_of (files s) i = Some f" using ramfs_invD(4)[OF inv] Some i by blast
  then have "i \<le> last_inode_number s" using ramfs_invD(3)[OF inv] by (simp add: file_ok_def)
  then have "i \<noteq> - 2" using assms(2) by auto
  moreover have "i = - 2" if "NOT i = ROOT_INODE"
  proof -
    have "NOT (NOT i) = NOT 1" using that by (simp add: ROOT_INODE_def)
    then show ?thesis by simp
  qed
  ultimately have "NOT i \<noteq> ROOT_INODE" by blast
  then show ?thesis using Some i by (simp add: ramfs_unlinkat_def hm_get_lookup as_inode_def)
qed (simp add: ramfs_unlinkat_def hm_get_lookup)

lemma ramfs_new_inv: "ramfs_inv (ramfs_new x name)"
  by (auto simp: ramfs_inv_def ramfs_new_def create_root_inode_def file_ok_def entries_def is_dir_def
      split: if_splits)

lemma ramfs_step_inv:
  assumes inv: "ramfs_inv s" and env: "ramfs_env s r"
  shows "ramfs_inv (ramfs_step s r)"
proof (cases r)
  case (RfChownCall x fd a cx)
  have "ramfs_inv (snd (bind_out (ramfs_fchown n u g s) (\<lambda>_ t. ok 0 t)))" for n u g
    using file_ops_inv(3)[OF inv, of n u g] by (cases "ramfs_fchown n u g s") (auto simp: bind_out_def split: sum.split)
  then show ?thesis using inv by (auto simp: ramfs_step_def RfChownCall fchown_call_def split: sum.split prod.split)
qed (use env in \<open>simp_all add: ramfs_step_def ramfs_env_def ramfs_root_inv[OF inv] ramfs_openat_inv[OF inv]
    ramfs_on_close_inv[OF inv] file_ops_inv[OF inv] unlinkat_denied[OF inv] inv\<close>)

interpretation rfd: daemon_invariant "ramfs_new x name" ramfs_step ramfs_env ramfs_inv for x name
  by unfold_locales (simp_all add: ramfs_new_inv ramfs_step_inv)

abbreviation ramfs_reach :: "rx \<Rightarrow> bytes \<Rightarrow> ramfs \<Rightarrow> bool" where
  "ramfs_reach x name s \<equiv> reach (ramfs_new x name) ramfs_step ramfs_env s"


text \<open>
  Nothing can be removed. The test that a removal starts at the root negates the bits of the inode
  number instead of comparing it: as long as fewer than \<open>2 ^ 64 - 3\<close> files have been created, every
  \<open>unlinkat\<close> through an open handle is refused with EACCES and changes nothing.
\<close>

theorem unlinkat_always_denied:
  assumes "ramfs_reach x name s" and "last_inode_number s < - 2" and "hm_lookup (rhandles s) fd \<noteq> None"
  shows "ramfs_unlinkat y fd path flags cx s = fail EACCES s"
  using unlinkat_denied[OF rfd.reach_inv[OF assms(1)] assms(2)] assms(3) by simp

section \<open>Witnesses\<close>

lemma fs3_reach: "ramfs_reach rx0 (ascii_bytes ''memory'') fs3"
proof -
  have "ramfs_reach rx0 (ascii_bytes ''memory'') fs0" by (auto simp: fs0_def intro: reach.intros)
  then have "ramfs_reach rx0 (ascii_bytes ''memory'') (ramfs_step fs0 RfRoot)"
    by (rule reach.intros) (simp add: ramfs_env_def fs0_def ramfs_new_def ROOT_INODE_def hm_room_def hm_new_def word_less_nat_alt)
  then have "ramfs_reach rx0 (ascii_bytes ''memory'') fs1" by (simp add: fs1_def ramfs_step_def)
  then have "ramfs_reach rx0 (ascii_bytes ''memory'') (ramfs_step fs1 (RfOpen rx0 1 path_d 0x120101ED 0 cx0))"
    by (rule reach.intros) (simp add: ramfs_env_def fs1_rhandles hm_room_def word_less_nat_alt)
  then have "ramfs_reach rx0 (ascii_bytes ''memory'') fs2" by (simp add: fs2_def ramfs_step_def)
  then have "ramfs_reach rx0 (ascii_bytes ''memory'') (ramfs_step fs2 (RfOpen rx0 1 path_df 0x20301A4 0 cx0))"
    by (rule reach.intros) (simp add: ramfs_env_def fs2_rhandles hm_room_def)
  then show ?thesis by (simp add: fs3_def ramfs_step_def)
qed

theorem resolve_is_walk_witness: "resolve rx0 fs3 path_df 5 5 = Inr 3"
proof -
  have "resolve rx0 fs3 path_df 5 5 = walk rx0 (files fs3) 5 5 (path_components (trim_slashes path_df)) ROOT_INODE (snd (files fs3 ! 0))"
    by (rule resolve_is_walk) code_simp+
  also have "\<dots> = Inr 3" by code_simp
  finally show ?thesis .
qed

theorem resolve_dots_witness:
  "resolve rx0 fs3 [0x2f, 0x2e, 0x2e, 0x2f, 0x64] 0 0 = Inr 2 \<and> resolve rx0 fs3 [0x2f, 0x64, 0x2f, 0x2e, 0x2e] 0 0 = Inl Panic"
proof
  let ?root = "snd (files fs3 ! 0)"
  have d: "dotdot = dot \<or> dotdot = dotdot" and r: "bm_get ROOT_INODE (files fs3) = Some ?root" by simp code_simp
  have "resolve rx0 fs3 [0x2f, 0x2e, 0x2e, 0x2f, 0x64] 0 0 = walk rx0 (files fs3) 0 0 ([] @ [0x64] # []) ROOT_INODE ?root"
    by (rule conjunct1[OF resolve_dots[OF d _ r], rule_format]) code_simp+
  also have "\<dots> = Inr 2" by code_simp
  finally show "resolve rx0 fs3 [0x2f, 0x2e, 0x2e, 0x2f, 0x64] 0 0 = Inr 2" .
  show "resolve rx0 fs3 [0x2f, 0x64, 0x2f, 0x2e, 0x2e] 0 0 = Inl Panic"
    by (rule conjunct2[OF resolve_dots[OF d _ r, where cs = "[[0x64]]" and n = 2 and f = "snd (files fs3 ! 1)"
            and ents = "[([0x66], 3)]"], rule_format]) code_simp+
qed


theorem unlinkat_always_denied_witness: "ramfs_unlinkat rx0 1 path_df 0 cx0 fs3 = fail EACCES fs3"
  by (rule unlinkat_always_denied[OF fs3_reach]) (simp_all add: fs3_val hm_lookup_def bm_get_def lin_cmp_def)

end
