(* ===== verification/Ramfs_Files.thy ===== *)
theory Ramfs_Files
  imports Ramfs_Props
begin

text \<open>
  Round trips of the in-memory file system: the name \<open>fpath\<close> gives for an open file leads back to it, a
  created file is found under its path, and what is written is read.
\<close>

unbundle bit_operations_syntax

section \<open>Names\<close>

fun join :: "bytes list \<Rightarrow> bytes" where
  "join [] = []"
| "join [c] = c"
| "join (c # cs) = c @ slash # join cs"

lemma push_components_ok:
  "fw_ok s w \<Longrightarrow> fw_ok (s @ (if i = 0 \<or> cs = [] then join cs else slash # join cs)) (push_components i cs w)"
proof (induction cs arbitrary: i s w)
  case (Cons c cs)
  let ?s = "s @ (if i = 0 then c else slash # c)"
  have "fw_ok ?s (push_str c (if i = 0 then w else push_str [slash] w))"
    using push_str_ok(1)[OF Cons.prems, of c] push_str_ok(1)[OF push_str_ok(1)[OF Cons.prems, of "[slash]"], of c] by simp
  from Cons.IH[OF this, of "Suc i"] show ?case by (cases cs) auto
qed simp

lemma split_no_slash: "slash \<notin> set c \<Longrightarrow> split_slash c = [c]"
  by (induction c) auto

lemma split_slash_append: "slash \<notin> set c \<Longrightarrow> split_slash (c @ slash # bs) = c # split_slash bs"
  by (induction c) auto

lemma components_join: "list_all name_ok cs \<Longrightarrow> path_components (join cs) = cs"
proof (induction cs rule: join.induct)
  case (3 c d ds)
  then show ?case by (simp add: path_components_def name_ok_def split_slash_append)
qed (simp_all add: path_components_def name_ok_def split_no_slash)

lemma trim_join: "list_all name_ok cs \<Longrightarrow> trim_slashes (join cs) = join cs"
  by (induction cs rule: join.induct)
    (auto simp: trim_slashes_def name_ok_def dropWhile_eq_self_iff hd_append dest: hd_in_set split: if_splits)

text \<open>From every file that is open, the parents lead to the root, and the names on the way lead back.\<close>

lemma parent_chain_walk:
  assumes inv: "ramfs_inv s" and f: "map_of (files s) i = Some f" and l: "i = ROOT_INODE \<or> linked s i"
    and root: "bm_get ROOT_INODE (files s) = Some root"
  shows "\<exists>names. parent_chain (files s) ROOT_INODE i f acc = Some (Inr (acc @ rev names)) \<and> list_all name_ok names \<and>
           walk x (files s) 0 0 names ROOT_INODE root = Inr i"
  using f l
proof (induction "unat i" arbitrary: i f acc rule: less_induct)
  case less
  note ok = ramfs_invD[OF inv]
  show ?case
  proof (cases "i = ROOT_INODE")
    case True
    then show ?thesis by (intro exI[of _ "[]"]) (simp add: parent_chain.simps)
  next
    case False
    with less.prems obtain p par nm where p: "map_of (files s) p = Some par" "(nm, i) \<in> set (entries par)"
      by (auto simp: linked_def)
    then obtain d where d: "fdata par = FDir d" "(nm, i) \<in> set d" by (cases "fdata par") (auto simp: entries_def)
    have pok: "file_ok s p par" using ok(3)[OF p(1)] .
    have e: "entry_ok (files s) p (nm, i)" using pok p(2) by (auto simp: file_ok_def)
    then have lt: "unat p < unat i" and pp: "parent f = p" using less.prems by (auto simp: entry_ok_def word_less_nat_alt)
    obtain nm' where nm': "find (\<lambda>e. snd e = i) d = Some (nm', i)"
    proof (cases "find (\<lambda>e. snd e = i) d")
      case None
      then show ?thesis using d(2) by (auto simp: find_None_iff)
    next
      case (Some e)
      then have "snd e = i" by (auto simp: find_Some_iff)
      with Some show ?thesis by (intro that[of "fst e"]) (metis prod.collapse)
    qed
    then have in_d: "(nm', i) \<in> set d" by (auto simp: find_Some_iff)
    have nm_ok: "name_ok nm'" using pok in_d d(1) by (force simp: file_ok_def entries_def entry_ok_def)
    have look: "map_of d nm' = Some i" using pok in_d d(1) by (simp add: file_ok_def entries_def)
    have "p = ROOT_INODE \<or> linked s p" using pok p(2) by (auto simp: file_ok_def)
    from less.hyps[OF lt p(1) this, of "acc @ [nm']"] obtain names where n:
        "parent_chain (files s) ROOT_INODE p par (acc @ [nm']) = Some (Inr ((acc @ [nm']) @ rev names))"
        "list_all name_ok names" "walk x (files s) 0 0 names ROOT_INODE root = Inr p" by blast
    have "parent_chain (files s) ROOT_INODE i f acc = parent_chain (files s) ROOT_INODE p par (acc @ [nm'])"
      using False pp p(1) d(1) nm' ok(1) by (subst parent_chain.simps) (simp add: bm_get_map)
    moreover have "walk x (files s) 0 0 (names @ [nm']) ROOT_INODE root = Inr i"
      using walk_append[OF root, of x 0 0 names "[nm']"] n(3) p(1) d(1) look less.prems(1) ok(1) by (simp add: bm_get_map)
    ultimately show ?thesis using n nm_ok by (intro exI[of _ "names @ [nm']"]) simp
  qed
qed

lemma open_file_linked:
  assumes inv: "ramfs_inv s" and h: "handle_file s fd = Inr (i, f)"
  shows "i = ROOT_INODE \<or> linked s i"
proof (rule ccontr)
  note ok = ramfs_invD[OF inv]
  assume nl: "\<not> (i = ROOT_INODE \<or> linked s i)"
  have "file_ok s i f" using ok(3)[OF handle_file_at[OF inv h]] .
  then have "openers i (rhandles s) = 0" using nl by (simp add: file_ok_def count_ok_def)
  moreover obtain h' where "hm_lookup (rhandles s) fd = Some h'" "h' = HInode i"
    using h by (auto simp: handle_file_def hm_get_lookup as_inode_def split: sum.splits option.splits rhandle.splits)
  ultimately show False using ht.users_pos[OF ok(2), of fd h' "\<lambda>h. h = HInode i"] by simp
qed

text \<open>
  C30. The name of an open file leads to it. For every open handle of a reachable state the search for the
  parents ends, the buffer receives \<open>/scheme/\<close>, the name of the scheme and the path of the file, cut off at
  the length of the buffer, and resolving that path gives the file the handle stands for.
\<close>

theorem fpath_resolves:
  assumes "ramfs_reach x name s" and "handle_file s fd = Inr (i, f)"
  shows "\<exists>path w. ramfs_fpath fd buf s = Some (Inr w) \<and> fw_ok (ascii_bytes ''/scheme/'' @ scheme_name s @ ascii_bytes ''/'' @ path) w \<and>
           resolve y s path 0 0 = Inr i"
proof -
  have inv: "ramfs_inv s" using rfd.reach_inv[OF assms(1)] .
  obtain root where root: "bm_get ROOT_INODE (files s) = Some root"
    using ramfs_invD(5)[OF inv] by (auto simp: bm_get_map ramfs_invD(1)[OF inv])
  obtain names where n: "parent_chain (files s) ROOT_INODE i f [] = Some (Inr (rev names))" "list_all name_ok names"
      "walk y (files s) 0 0 names ROOT_INODE root = Inr i"
    using parent_chain_walk[OF inv handle_file_at[OF inv assms(2)] open_file_linked[OF inv assms(2)] root, of "[]" y] by auto
  let ?w = "push_str (ascii_bytes ''/'') (push_str (scheme_name s) (push_str (ascii_bytes ''/scheme/'') \<lparr>fw_buf = buf, fw_written = 0\<rparr>))"
  have "ramfs_fpath fd buf s = Some (Inr (push_components 0 names ?w))"
    using assms(2) n(1) by (simp add: ramfs_fpath_def fpath_with_def)
  moreover have "fw_ok (ascii_bytes ''/scheme/'' @ scheme_name s @ ascii_bytes ''/'' @ join names) (push_components 0 names ?w)"
    using push_components_ok[OF fpath_start_ok[of "scheme_name s" buf], where i = 0 and cs = names] by simp
  moreover have "resolve y s (join names) 0 0 = Inr i"
  proof -
    have pc: "path_components (trim_slashes (join names)) = names" using n(2) by (simp add: trim_join components_join)
    have "list_all clean names" using n(2) by (auto simp: list_all_iff name_ok_def)
    then show ?thesis using resolve_walk[of names y "files s" 0 0 "[]"] n(3) root by (simp add: resolve_def resolve_generic_def pc)
  qed
  ultimately show ?thesis by blast
qed

section \<open>Creating\<close>

text \<open>A tree that only gains entries keeps every walk.\<close>

definition grows :: "(u64 \<times> rfile) list \<Rightarrow> (u64 \<times> rfile) list \<Rightarrow> bool" where
  "grows fs fs' \<longleftrightarrow>
     (\<forall>i f. bm_get i fs = Some f \<longrightarrow>
        (\<exists>f'. bm_get i fs' = Some f' \<and> mode f' = mode f \<and> uid f' = uid f \<and> gid f' = gid f \<and>
          (\<forall>d. fdata f = FDir d \<longrightarrow> (\<exists>d'. fdata f' = FDir d' \<and> map_of d \<subseteq>\<^sub>m map_of d'))))"

lemma walk_grows:
  assumes g: "grows fs fs'"
  shows "bm_get c fs = Some f \<Longrightarrow> bm_get c fs' = Some f' \<Longrightarrow> walk x fs u g cs c f = Inr n \<Longrightarrow> walk x fs' u g cs c f' = Inr n"
proof (induction cs arbitrary: c f f')
  case (Cons p cs)
  from g Cons.prems(1,2) have f': "mode f' = mode f" "uid f' = uid f" "gid f' = gid f"
      "\<And>d. fdata f = FDir d \<Longrightarrow> \<exists>d'. fdata f' = FDir d' \<and> map_of d \<subseteq>\<^sub>m map_of d'"
    unfolding grows_def by (metis option.inject)+
  from Cons.prems(3) obtain d m fm where d: "fdata f = FDir d" "current_perm x f u g AND 1 \<noteq> 0" "map_of d p = Some m"
      "bm_get m fs = Some fm" "walk x fs u g cs m fm = Inr n"
    by (auto split: file_data.splits if_splits option.splits)
  obtain d' where d': "fdata f' = FDir d'" "map_of d \<subseteq>\<^sub>m map_of d'" using f'(4)[OF d(1)] by blast
  have "map_of d' p = Some m" using d'(2) d(3) by (auto simp: map_le_def dom_def)
  moreover obtain fm' where fm': "bm_get m fs' = Some fm'" using g d(4) unfolding grows_def by blast
  moreover have "current_perm x f' u g = current_perm x f u g" using f' by (simp add: current_perm_def Let_def)
  ultimately show ?case using Cons.IH[OF d(4) fm' d(5)] d' d(2) by simp
qed simp

lemma walk_as_root: "walk x fs u g cs c f = Inr n \<Longrightarrow> walk x fs 0 0 cs c f = Inr n"
  by (induction cs arbitrary: c f) (auto split: file_data.splits if_splits option.splits)

text \<open>What a create that succeeds did.\<close>

lemma create_ok:
  assumes inv: "ramfs_inv s" and none: "resolve x s path 0 0 = Inl (Errno e)"
    and c: "create x path flags cx s = (Inr n, t)"
  obtains p nm f par d where "resolve_except_last x s path (cx_uid cx) (cx_gid cx) = Inr (p, Some nm)"
    "last_inode_number s < n" "new_file x flags cx p = Some f" "map_of (files s) p = Some par" "fdata par = FDir d"
    "name_ok nm" "map_of d nm = None" "p < n" "rhandles t = rhandles s" "bm_ok (files t)"
    "map_of (files t) = (map_of (files s))(n \<mapsto> f, p \<mapsto> par\<lparr>fdata := FDir (AList.update nm n d)\<rparr>)"
proof -
  note ok = ramfs_invD[OF inv]
  from c obtain p nm s1 f where r: "resolve_except_last x s path (cx_uid cx) (cx_gid cx) = Inr (p, Some nm)"
      and n: "next_inode_number s = (Inr n, s1)" and f: "new_file x flags cx p = Some f"
      and rest: "(case bm_get p (files (set_file n f s1)) of None \<Rightarrow> fail EIO (set_file n f s1)
        | Some par \<Rightarrow> (case fdata par of FFile _ \<Rightarrow> fail EIO (set_file n f s1)
          | FDir d \<Rightarrow> ok n (set_file p (par\<lparr>fdata := FDir (AList.update nm n d)\<rparr>) (set_file n f s1)))) = (Inr n, t)"
    by (auto simp: create_def Let_def next_inode_number_def split: sum.splits option.splits if_splits file_data.splits prod.splits)
  note n1 = next_inode_number_ok[OF n]
  have "resolve_generic x s (butlast (path_components (trim_slashes path))) (cx_uid cx) (cx_gid cx) = Inr p"
    using r by (auto simp: resolve_except_last_def Let_def split: if_splits sum.splits)
  then obtain par where par: "map_of (files s) p = Some par" using resolve_generic_found[OF inv] by blast
  have pn: "p < n" using ok(3)[OF par] n1(2) unfolding file_ok_def by (blast intro: le_less_trans)
  have "bm_get p (files (set_file n f s1)) = Some par" using par pn ok(1) by (auto simp: set_file_def bm_simps n1(1))
  with rest obtain d where d: "fdata par = FDir d"
      "t = set_file p (par\<lparr>fdata := FDir (AList.update nm n d)\<rparr>) (set_file n f s1)"
    by (cases "fdata par") auto
  have nm: "name_ok nm" "map_of d nm = None" using create_name_fresh[OF inv none r par d(1)] by simp_all
  show thesis
    by (rule that[OF r n1(2) f par d(1) nm pn]) (use ok(1) in \<open>simp_all add: d(2) set_file_def n1(1) bm_simps\<close>)
qed

text \<open>
  C31. A created file is found. A path without dots that does not exist, created by a caller, leads
  afterwards to a new file that no path led to before and that has the caller as its owner; every path
  that led to a file leads to the same file as before.
\<close>

theorem create_then_resolve:
  assumes "ramfs_reach y name s" and "resolve x s path 0 0 = Inl (Errno e)"
    and "list_all clean (path_components (trim_slashes path))" and "create x path flags cx s = (Inr n, t)"
  shows "resolve x t path 0 0 = Inr n \<and> bm_get n (files s) = None \<and>
         (\<exists>f. bm_get n (files t) = Some f \<and> uid f = cx_uid cx \<and> gid f = cx_gid cx \<and> (is_dir f \<longleftrightarrow> flags AND O_DIRECTORY x \<noteq> 0)) \<and>
         (\<forall>q u g m. list_all clean (path_components (trim_slashes q)) \<longrightarrow> resolve x s q u g = Inr m \<longrightarrow> resolve x t q u g = Inr m)"
proof -
  have inv: "ramfs_inv s" using rfd.reach_inv[OF assms(1)] .
  note ok = ramfs_invD[OF inv]
  from create_ok[OF inv assms(2,4)] obtain p nm f par d where r: "resolve_except_last x s path (cx_uid cx) (cx_gid cx) = Inr (p, Some nm)"
    and n: "last_inode_number s < n" and f: "new_file x flags cx p = Some f" and par: "map_of (files s) p = Some par" "fdata par = FDir d"
    and nm: "name_ok nm" "map_of d nm = None" and pn: "p < n" and okt: "bm_ok (files t)"
    and t: "map_of (files t) = (map_of (files s))(n \<mapsto> f, p \<mapsto> par\<lparr>fdata := FDir (AList.update nm n d)\<rparr>)" .
  have new: "map_of (files s) n = None"
    using ok(3)[of n] n unfolding file_ok_def by (metis leD not_None_eq)
  have g: "grows (files s) (files t)"
    unfolding grows_def bm_get_map[OF ok(1)] bm_get_map[OF okt] t
    using par pn new nm(2) by (auto simp: map_le_def update_conv')
  obtain root where root: "bm_get ROOT_INODE (files s) = Some root" using ok(5) by (auto simp: bm_get_map[OF ok(1)])
  then obtain root' where root': "bm_get ROOT_INODE (files t) = Some root'" using g unfolding grows_def by blast
  have keep: "resolve x t q u g = Inr m" if "list_all clean (path_components (trim_slashes q))" "resolve x s q u g = Inr m" for q u g m
    using that walk_grows[OF \<open>grows _ _\<close> root root'] resolve_walk[OF that(1), of x _ u g "[]"] root root'
    by (simp add: resolve_def resolve_generic_def)
  let ?parts = "path_components (trim_slashes path)"
  have parts: "?parts = butlast ?parts @ [nm]" "resolve_generic x s (butlast ?parts) (cx_uid cx) (cx_gid cx) = Inr p"
    using r by (auto simp: resolve_except_last_def Let_def split: if_splits sum.splits)
  have cl: "list_all clean (butlast ?parts)" using assms(3) by (auto simp: list_all_iff dest: in_set_butlastD)
  have "walk x (files s) 0 0 (butlast ?parts) ROOT_INODE root = Inr p"
    using resolve_walk[OF cl, of x "files s" _ _ "[]"] parts(2) root by (auto simp: resolve_generic_def intro: walk_as_root)
  then have "walk x (files t) 0 0 (butlast ?parts) ROOT_INODE root' = Inr p" by (rule walk_grows[OF g root root'])
  then have "walk x (files t) 0 0 ?parts ROOT_INODE root' = Inr n"
    using walk_append[OF root', of x 0 0 "butlast ?parts" "[nm]"] pn t
    by (simp add: bm_get_map[OF okt] update_conv' flip: parts(1))
  then have "resolve x t path 0 0 = Inr n"
    using resolve_walk[OF assms(3), of x _ 0 0 "[]"] root' by (simp add: resolve_def resolve_generic_def)
  moreover have "uid f = cx_uid cx \<and> gid f = cx_gid cx \<and> (is_dir f \<longleftrightarrow> flags AND O_DIRECTORY x \<noteq> 0)"
    using f by (auto simp: new_file_def Let_def is_dir_def split: if_splits)
  moreover have "bm_get n (files t) = Some f" using pn t by (simp add: bm_get_map[OF okt])
  ultimately show ?thesis using keep new by (simp add: bm_get_map[OF ok(1)])
qed

section \<open>Contents\<close>

text \<open>
  C32. What is written is read. After a write the file holds the bytes written at the offset, its old bytes
  elsewhere and zeros in a hole, every reader of the file through any handle gets the bytes written, and no
  other file changes.
\<close>

theorem ramfs_write_read:
  assumes "ramfs_reach y name s" and "handle_file s fd = Inr (i, f)" and "ramfs_write x fd buf off s = (Inr k, t)"
  shows "k = length buf \<and>
         (\<exists>bs bs'. fdata f = FFile bs \<and> map_option fdata (bm_get i (files t)) = Some (FFile bs') \<and>
            length bs' = max (length bs) (unat off + length buf) \<and>
            (\<forall>j<length bs'. bs' ! j = (if unat off \<le> j \<and> j < unat off + length buf then buf ! (j - unat off)
               else if j < length bs then bs ! j else 0))) \<and>
         (\<forall>fd' ff. handle_file s fd' = Inr (i, f) \<and> (ucast ff AND O_ACCMODE x = O_RDONLY x \<or> ucast ff AND O_ACCMODE x = O_RDWR x) \<longrightarrow>
            ramfs_read x fd' (length buf) off ff t = Inr buf) \<and>
         (\<forall>j. j \<noteq> i \<longrightarrow> bm_get j (files t) = bm_get j (files s))"
proof -
  have inv: "ramfs_inv s" using rfd.reach_inv[OF assms(1)] .
  note ok = ramfs_invD(1)[OF inv]
  from assms(2,3) obtain bs where bs: "fdata f = FFile bs" "mode f AND MODE_TYPE x \<noteq> MODE_DIR x" "k = length buf"
    and t: "t = set_file i (f\<lparr>fdata := FFile (take (unat off) (bs @ replicate (unat off + length buf - length bs) 0) @ buf @
        drop (unat off + length buf) (bs @ replicate (unat off + length buf - length bs) 0))\<rparr>) s"
    by (auto simp: ramfs_write_def Let_def split: file_data.splits if_splits)
  define bs' where "bs' = take (unat off) (bs @ replicate (unat off + length buf - length bs) 0) @ buf @
        drop (unat off + length buf) (bs @ replicate (unat off + length buf - length bs) 0)"
  have ft: "bm_get j (files t) = (if j = i then Some (f\<lparr>fdata := FFile bs'\<rparr>) else bm_get j (files s))" for j
    using ok by (simp add: t set_file_def bm_simps bs'_def)
  have len: "length bs' = max (length bs) (unat off + length buf)" by (simp add: bs'_def)
  have nth: "bs' ! j = (if unat off \<le> j \<and> j < unat off + length buf then buf ! (j - unat off)
      else if j < length bs then bs ! j else 0)" if "j < length bs'" for j
    using that unfolding len by (auto simp: bs'_def nth_append min_def)
  have rd: "ramfs_read x fd' (length buf) off ff t = Inr buf"
    if h: "handle_file s fd' = Inr (i, f)" and "ucast ff AND O_ACCMODE x = O_RDONLY x \<or> ucast ff AND O_ACCMODE x = O_RDWR x" for fd' ff
  proof -
    have "handle_file t fd' = Inr (i, f\<lparr>fdata := FFile bs'\<rparr>)"
      using h ft by (auto simp: handle_file_def t set_file_def split: sum.splits option.splits)
    moreover have "take (length buf) (drop (unat off) bs') = buf" by (simp add: bs'_def)
    ultimately show ?thesis using that bs(2) by (auto simp: ramfs_read_def)
  qed
  show ?thesis using bs(1,3) ft len nth rd by auto
qed

text \<open>
  C33. Opening respects permissions. A caller other than root that opens an existing file passed every
  directory on the way with the search bit for them, and their class of the permission bits of the file has
  the read bit when they open for reading, the write bit when they open for writing and both when they open
  for both; a file is emptied only by an open for writing, and no other file changes.
\<close>

theorem open_respects_permissions:
  assumes "ramfs_reach y name s" and "open_existing x path flags u g s = (Inr i, t)"
    and "list_all clean (path_components (trim_slashes path))" and "bm_get ROOT_INODE (files s) = Some root"
  shows "walk x (files s) u g (path_components (trim_slashes path)) ROOT_INODE root = Inr i \<and>
         (\<exists>f f'. bm_get i (files s) = Some f \<and> bm_get i (files t) = Some f' \<and>
            (flags AND O_ACCMODE x = O_RDONLY x \<longrightarrow> current_perm x f u g AND 4 \<noteq> 0) \<and>
            (flags AND O_ACCMODE x = O_WRONLY x \<longrightarrow> current_perm x f u g AND 2 \<noteq> 0) \<and>
            (flags AND O_ACCMODE x = O_RDWR x \<longrightarrow> current_perm x f u g AND 6 = 6) \<and>
            (fdata f' \<noteq> fdata f \<longrightarrow> fdata f' = FFile [] \<and> flags AND O_TRUNC x = O_TRUNC x \<and>
               (flags AND O_ACCMODE x = O_WRONLY x \<or> flags AND O_ACCMODE x = O_RDWR x))) \<and>
         (\<forall>j. j \<noteq> i \<longrightarrow> bm_get j (files t) = bm_get j (files s))"
proof -
  have inv: "ramfs_inv s" using rfd.reach_inv[OF assms(1)] .
  note ok = ramfs_invD(1)[OF inv]
  from assms(2) obtain f f' where f: "resolve x s path u g = Inr i" "bm_get i (files s) = Some f"
      "check_permissions x flags (current_perm x f u g)" "t = set_file i f' s"
      "fdata f' = fdata f \<or> fdata f' = FFile [] \<and> flags AND O_TRUNC x = O_TRUNC x \<and>
         (flags AND O_ACCMODE x = O_WRONLY x \<or> flags AND O_ACCMODE x = O_RDWR x)"
    by (auto simp: open_existing_def Let_def split: sum.splits option.splits if_splits file_data.splits bool.splits prod.splits)
  have "bm_get j (files t) = (if j = i then Some f' else bm_get j (files s))" for j
    using ok by (simp add: f(4) set_file_def bm_simps)
  moreover have "walk x (files s) u g (path_components (trim_slashes path)) ROOT_INODE root = Inr i"
    using f(1) resolve_walk[OF assms(3), of x "files s" u g "[]"] assms(4) by (simp add: resolve_def resolve_generic_def)
  ultimately show ?thesis using f(2,3,5) unfolding check_permissions_def by (auto split: if_splits)
qed

section \<open>Witnesses\<close>

theorem fpath_resolves_witness:
  "\<exists>path w. ramfs_fpath 3 (replicate 64 0) fs3 = Some (Inr w) \<and>
     fw_ok (ascii_bytes ''/scheme/'' @ scheme_name fs3 @ ascii_bytes ''/'' @ path) w \<and> resolve rx0 fs3 path 0 0 = Inr 3"
proof -
  have "handle_file fs3 3 = Inr (3, snd (files fs3 ! 2))" by code_simp
  from fpath_resolves[OF fs3_reach this, of "replicate 64 0" rx0] show ?thesis .
qed

theorem create_then_resolve_witness:
  "\<exists>t. create rx0 [0x2f, 0x64, 0x2f, 0x67] 0x20301A4 cx0 fs3 = (Inr 4, t) \<and> resolve rx0 t [0x2f, 0x64, 0x2f, 0x67] 0 0 = Inr 4"
proof -
  let ?p = "[0x2f, 0x64, 0x2f, 0x67] :: bytes"
  obtain t where t: "create rx0 ?p 0x20301A4 cx0 fs3 = (Inr 4, t)"
  proof -
    have "fst (create rx0 ?p 0x20301A4 cx0 fs3) = Inr 4" by code_simp
    then show ?thesis using that by (metis prod.collapse)
  qed
  have "resolve rx0 fs3 ?p 0 0 = Inl (Errno ENOENT)" "list_all clean (path_components (trim_slashes ?p))" by code_simp+
  from create_then_resolve[OF fs3_reach this t] t show ?thesis by blast
qed

theorem ramfs_write_read_witness:
  "\<exists>t. ramfs_write rx0 3 [7, 8] 2 fs3 = (Inr 2, t) \<and> ramfs_read rx0 3 2 2 0x10000 t = Inr [7, 8] \<and>
     bm_get 2 (files t) = bm_get 2 (files fs3)"
proof -
  obtain t where t: "ramfs_write rx0 3 [7, 8] 2 fs3 = (Inr 2, t)"
  proof -
    have "handle_file fs3 3 = Inr (3, snd (files fs3 ! 2))" by code_simp
    moreover have "fst (ramfs_write rx0 3 [7, 8] 2 fs3) = Inr 2" if "handle_file fs3 3 = Inr (3, snd (files fs3 ! 2))"
      using that by (simp add: ramfs_write_def fs3_val rx0_def Let_def)
    ultimately have "fst (ramfs_write rx0 3 [7, 8] 2 fs3) = Inr 2" by simp
    then show ?thesis using that by (metis prod.collapse)
  qed
  have h: "handle_file fs3 3 = Inr (3, snd (files fs3 ! 2))" by code_simp
  have fl: "ucast (0x10000 :: u32) AND O_ACCMODE rx0 = O_RDONLY rx0" by code_simp
  note w = ramfs_write_read[OF fs3_reach h t]
  from w have "\<forall>fd' ff. handle_file fs3 fd' = Inr (3, snd (files fs3 ! 2)) \<and>
      (ucast ff AND O_ACCMODE rx0 = O_RDONLY rx0 \<or> ucast ff AND O_ACCMODE rx0 = O_RDWR rx0) \<longrightarrow>
      ramfs_read rx0 fd' (length [7 :: u8, 8]) 2 ff t = Inr [7, 8]" by (elim conjE)
  from this[rule_format, of 3 "0x10000"] have "ramfs_read rx0 3 (length [7 :: u8, 8]) 2 0x10000 t = Inr [7, 8]"
    using h fl by simp
  moreover have "bm_get 2 (files t) = bm_get 2 (files fs3)" using w by simp
  ultimately show ?thesis using t by (simp add: numeral_2_eq_2)
qed

theorem open_respects_permissions_witness:
  "\<exists>t. open_existing rx0 path_df 0x10000 5 5 fs3 = (Inr 3, t) \<and>
     walk rx0 (files fs3) 5 5 (path_components (trim_slashes path_df)) ROOT_INODE (snd (files fs3 ! 0)) = Inr 3 \<and>
     fst (open_existing rx0 path_df 0x20000 5 5 fs3) = Inl (Errno EACCES)"
proof -
  obtain t where t: "open_existing rx0 path_df 0x10000 5 5 fs3 = (Inr 3, t)"
  proof -
    have "fst (open_existing rx0 path_df 0x10000 5 5 fs3) = Inr 3" by code_simp
    then show ?thesis using that by (metis prod.collapse)
  qed
  have "list_all clean (path_components (trim_slashes path_df))" "bm_get ROOT_INODE (files fs3) = Some (snd (files fs3 ! 0))"
    by code_simp+
  from open_respects_permissions[OF fs3_reach t this]
  have "walk rx0 (files fs3) 5 5 (path_components (trim_slashes path_df)) ROOT_INODE (snd (files fs3 ! 0)) = Inr 3" by blast
  moreover have "fst (open_existing rx0 path_df 0x20000 5 5 fs3) = Inl (Errno EACCES)" by code_simp
  ultimately show ?thesis using t by blast
qed

end
