(* ===== verification/Readiness.thy ===== *)
theory Readiness
  imports Prelude "HOL-Library.Multiset"
begin

text \<open>
  The request loop of the daemons whose calls may block (\<open>scheme-utils/src/readiness_based.rs\<close>). A call
  that would block is kept and tried again on every round; every other call is answered at once.

  The scheme the loop serves is a parameter (\<open>scheme_ops\<close>): its call dispatcher, the handlers of closed
  and passed descriptors, and whether a call asked not to block. The dispatcher and the socket belong to
  the \<open>redox_scheme\<close> crate; what the socket returned is an argument of the functions that read or write it.
\<close>

section \<open>Definitions\<close>

record 'c caller =
  caller_id :: nat
  caller_ctx :: 'c

datatype 'v scheme_response =
    Regular "errno + 'v"
  | Opened "errno + 'v"
  | RegularAndNotifyOnDetach 'v

text \<open>A response answers the request with the given number.\<close>

datatype 'v rb_response = RespOf nat "'v scheme_response" | RespErr nat errno

datatype ('c, 'op) rb_request =
    Call "'c caller" "'op option"
  | Cancellation nat
  | OnClose u64
  | SendFd "'c caller" 'op
  | RecvFd "'c caller" 'op
  | OtherKind

text \<open>\<open>None\<close> is a panic of the scheme.\<close>

record ('c, 'op, 'v, 's) scheme_ops =
  so_call :: "'c caller \<Rightarrow> 'op \<Rightarrow> 's \<Rightarrow> (('v scheme_response \<times> 'op) \<times> 's) option"
  so_on_close :: "u64 \<Rightarrow> 's \<Rightarrow> 's option"
  so_on_sendfd :: "'op \<Rightarrow> 's \<Rightarrow> ((errno + 'v) \<times> 's) option"
  so_on_recvfd :: "'op \<Rightarrow> 's \<Rightarrow> ((errno + 'v) \<times> 's) option"
  so_nonblock :: "'op \<Rightarrow> bool"

record ('c, 'op, 'v) readiness_based =
  responses_to_write :: "'v rb_response list"
  rb_states :: "(nat \<times> 'c caller \<times> 'op) list"
  ready_queue :: "nat list"

definition rb_new :: "('c, 'op, 'v) readiness_based" where
  "rb_new = \<lparr>responses_to_write = [], rb_states = [], ready_queue = []\<rparr>"

text \<open>\<open>EAGAIN\<close> and \<open>EWOULDBLOCK\<close> are two names of one error number.\<close>

definition would_block :: "errno \<Rightarrow> bool" where
  "would_block e \<longleftrightarrow> e = EWOULDBLOCK \<or> e = EAGAIN"

definition blocks :: "'v scheme_response \<Rightarrow> bool" where
  "blocks r =
     (case r of
        Regular (Inl e) \<Rightarrow> would_block e
      | Opened (Inl e) \<Rightarrow> would_block e
      | _ \<Rightarrow> False)"

definition push_response :: "'v rb_response \<Rightarrow> ('c, 'op, 'v) readiness_based \<Rightarrow> ('c, 'op, 'v) readiness_based" where
  "push_response r b = b\<lparr>responses_to_write := responses_to_write b @ [r]\<rparr>"

definition keep_state :: "'c caller \<Rightarrow> 'op \<Rightarrow> ('c, 'op, 'v) readiness_based \<Rightarrow> ('c, 'op, 'v) readiness_based" where
  "keep_state c op b = b\<lparr>rb_states := AList.update (caller_id c) (c, op) (rb_states b)\<rparr>"

text \<open>The body of the loop over the requests read.\<close>

definition process_request ::
  "('c, 'op, 'v, 's) scheme_ops \<Rightarrow> ('c, 'op) rb_request \<Rightarrow> ('c, 'op, 'v) readiness_based \<times> 's
     \<Rightarrow> (('c, 'op, 'v) readiness_based \<times> 's) option" where
  "process_request x req bs =
     (let (b, s) = bs in
      case req of
        Cancellation i \<Rightarrow>
          (case map_of (rb_states b) i of
             None \<Rightarrow> Some (b, s)
           | Some _ \<Rightarrow> Some (push_response (RespErr i ECANCELED) (b\<lparr>rb_states := AList.delete i (rb_states b)\<rparr>), s))
      | OnClose i \<Rightarrow> map_option (\<lambda>s1. (b, s1)) (so_on_close x i s)
      | SendFd c op \<Rightarrow> map_option (\<lambda>(r, s1). (push_response (RespOf (caller_id c) (Regular r)) b, s1)) (so_on_sendfd x op s)
      | RecvFd c op \<Rightarrow>
          map_option
            (\<lambda>(r, s1). ((case r of
                Inl e \<Rightarrow> if would_block e then keep_state c op b else push_response (RespOf (caller_id c) (Opened r)) b
              | Inr _ \<Rightarrow> push_response (RespOf (caller_id c) (Opened r)) b), s1))
            (so_on_recvfd x op s)
      | OtherKind \<Rightarrow> Some (b, s)
      | Call c None \<Rightarrow> Some (push_response (RespErr (caller_id c) EOPNOTSUPP) b, s)
      | Call c (Some op) \<Rightarrow>
          map_option
            (\<lambda>((r, op1), s1).
               (if blocks r \<and> \<not> so_nonblock x op1 then keep_state c op1 b else push_response (RespOf (caller_id c) r) b, s1))
            (so_call x c op s))"

fun process_all ::
  "('c, 'op, 'v, 's) scheme_ops \<Rightarrow> ('c, 'op) rb_request list \<Rightarrow> ('c, 'op, 'v) readiness_based \<times> 's
     \<Rightarrow> (('c, 'op, 'v) readiness_based \<times> 's) option" where
  "process_all x [] bs = Some bs"
| "process_all x (r # rs) bs = (case process_request x r bs of None \<Rightarrow> None | Some bs1 \<Rightarrow> process_all x rs bs1)"

text \<open>\<open>got\<close> is what the socket returned. Reading nothing is \<open>unreachable!\<close>.\<close>

definition read_and_process_requests ::
  "('c, 'op, 'v, 's) scheme_ops \<Rightarrow> errno + ('c, 'op) rb_request list \<Rightarrow> ('c, 'op, 'v) readiness_based \<times> 's
     \<Rightarrow> (unit, ('c, 'op, 'v) readiness_based \<times> 's) outcome" where
  "read_and_process_requests x got bs =
     (let run = (\<lambda>rs. case process_all x rs bs of None \<Rightarrow> panic bs | Some bs1 \<Rightarrow> ok () bs1) in
      case got of
        Inr [] \<Rightarrow> panic bs
      | Inr rs \<Rightarrow> run rs
      | Inl e \<Rightarrow> if e = EINTR \<or> would_block e then run [] else fail e bs)"

text \<open>\<open>Inl\<close> is \<open>ControlFlow::Break\<close> with a response, \<open>Inr\<close> is \<open>ControlFlow::Continue\<close>.\<close>

definition poll_request_inner ::
  "('c, 'op, 'v, 's) scheme_ops \<Rightarrow> nat \<Rightarrow> ('c, 'op, 'v) readiness_based \<times> 's
     \<Rightarrow> ('v rb_response + 'c caller \<times> 'op, ('c, 'op, 'v) readiness_based \<times> 's) outcome" where
  "poll_request_inner x i bs =
     (let (b, s) = bs in
      case map_of (rb_states b) i of
        None \<Rightarrow> fail EIO bs
      | Some (c, op) \<Rightarrow>
         (let b1 = b\<lparr>rb_states := AList.delete i (rb_states b)\<rparr> in
          case so_call x c op s of
            None \<Rightarrow> panic (b1, s)
          | Some ((r, op1), s1) \<Rightarrow>
             if blocks r \<and> \<not> so_nonblock x op1 then ok (Inr (c, op1)) (b1, s1)
             else ok (Inl (RespOf i r)) (b1, s1)))"

text \<open>The bodies of \<open>poll_request\<close> and of the loop of \<open>poll_ready_requests\<close> treat the result alike.\<close>

definition poll_request ::
  "('c, 'op, 'v, 's) scheme_ops \<Rightarrow> nat \<Rightarrow> ('c, 'op, 'v) readiness_based \<times> 's
     \<Rightarrow> (bool, ('c, 'op, 'v) readiness_based \<times> 's) outcome" where
  "poll_request x i bs =
     bind_out (poll_request_inner x i bs)
       (\<lambda>r (b, s).
         case r of
           Inr (c, op) \<Rightarrow> ok False (b\<lparr>rb_states := AList.update i (c, op) (rb_states b)\<rparr>, s)
         | Inl resp \<Rightarrow> ok True (push_response resp b, s))"

fun poll_ready_requests ::
  "('c, 'op, 'v, 's) scheme_ops \<Rightarrow> nat list \<Rightarrow> ('c, 'op, 'v) readiness_based \<times> 's
     \<Rightarrow> (unit, ('c, 'op, 'v) readiness_based \<times> 's) outcome" where
  "poll_ready_requests x [] bs = ok () bs"
| "poll_ready_requests x (i # is) bs = bind_out (poll_request x i bs) (\<lambda>_. poll_ready_requests x is)"

text \<open>The queue is drained by the loop, so it is empty again afterwards, also when the loop returns early.\<close>

definition poll_all_requests ::
  "('c, 'op, 'v, 's) scheme_ops \<Rightarrow> ('c, 'op, 'v) readiness_based \<times> 's
     \<Rightarrow> (unit, ('c, 'op, 'v) readiness_based \<times> 's) outcome" where
  "poll_all_requests x bs = poll_ready_requests x (map fst (rb_states (fst bs))) (fst bs\<lparr>ready_queue := []\<rparr>, snd bs)"

text \<open>\<open>wrote\<close> is what the socket returned: an error, or the responses it did not take.\<close>

definition write_responses ::
  "errno + 'v rb_response list \<Rightarrow> ('c, 'op, 'v) readiness_based \<Rightarrow> (unit, ('c, 'op, 'v) readiness_based) outcome" where
  "write_responses wrote b =
     (case wrote of
        Inr [] \<Rightarrow> ok () (b\<lparr>responses_to_write := []\<rparr>)
      | Inr rest \<Rightarrow> panic (b\<lparr>responses_to_write := rest\<rparr>)
      | Inl e \<Rightarrow> if e = EINTR \<or> would_block e then panic b else fail e b)"

subsection \<open>The loop of the daemons that never wait\<close>

text \<open>
  \<open>scheme-utils/src/blocking.rs\<close>: every call is answered at once, with the answer \<open>handle_sync\<close> makes of the
  result of the same dispatcher; a call it cannot decode has no entry in the dispatcher and its answer is \<open>undecoded\<close>.
\<close>

definition blocking_request ::
  "('c, 'op, 'v, 's) scheme_ops \<Rightarrow> errno \<Rightarrow> ('c, 'op) rb_request \<Rightarrow> 'v rb_response list \<times> 's
     \<Rightarrow> ('v rb_response list \<times> 's) option" where
  "blocking_request x undecoded req bs =
     (let (out, s) = bs in
      case req of
        Call c None \<Rightarrow> Some (out @ [RespErr (caller_id c) undecoded], s)
      | Call c (Some op) \<Rightarrow> map_option (\<lambda>((r, _), s1). (out @ [RespOf (caller_id c) r], s1)) (so_call x c op s)
      | Cancellation _ \<Rightarrow> Some (out, s)
      | OnClose i \<Rightarrow> map_option (\<lambda>s1. (out, s1)) (so_on_close x i s)
      | SendFd c op \<Rightarrow> map_option (\<lambda>(r, s1). (out @ [RespOf (caller_id c) (Regular r)], s1)) (so_on_sendfd x op s)
      | RecvFd c op \<Rightarrow> map_option (\<lambda>(r, s1). (out @ [RespOf (caller_id c) (Opened r)], s1)) (so_on_recvfd x op s)
      | OtherKind \<Rightarrow> Some (out, s))"

fun blocking_all ::
  "('c, 'op, 'v, 's) scheme_ops \<Rightarrow> errno \<Rightarrow> ('c, 'op) rb_request list \<Rightarrow> 'v rb_response list \<times> 's
     \<Rightarrow> ('v rb_response list \<times> 's) option" where
  "blocking_all x u [] bs = Some bs"
| "blocking_all x u (r # rs) bs = (case blocking_request x u r bs of None \<Rightarrow> None | Some bs1 \<Rightarrow> blocking_all x u rs bs1)"

text \<open>
  \<open>True\<close> is \<open>ControlFlow::Continue\<close>. The responses are handed to the socket, whose answer \<open>wrote\<close> is an error or
  the responses it did not take.
\<close>

definition process_requests_nonblocking ::
  "('c, 'op, 'v, 's) scheme_ops \<Rightarrow> errno \<Rightarrow> errno + ('c, 'op) rb_request list \<Rightarrow> ('v rb_response list \<Rightarrow> errno + 'v rb_response list)
     \<Rightarrow> 's \<Rightarrow> (bool \<times> 'v rb_response list, 's) outcome" where
  "process_requests_nonblocking x u got' write s =
     (case got' of
        Inr [] \<Rightarrow> panic s
      | Inr rs \<Rightarrow>
         (case blocking_all x u rs ([], s) of
            None \<Rightarrow> panic s
          | Some (out, s1) \<Rightarrow>
             (case write out of
                Inr [] \<Rightarrow> ok (True, out) s1
              | Inr _ \<Rightarrow> panic s1
              | Inl e \<Rightarrow> if e = EINTR \<or> would_block e then panic s1 else fail e s1))
      | Inl e \<Rightarrow> if e = EINTR \<or> would_block e then ok (False, []) s else fail e s)"

section \<open>No request is lost\<close>

definition resp_id :: "'v rb_response \<Rightarrow> nat" where
  "resp_id r = (case r of RespOf i _ \<Rightarrow> i | RespErr i _ \<Rightarrow> i)"

text \<open>The requests that are waiting, and the ones that have an answer or wait for one.\<close>

definition waiting :: "('c, 'op, 'v) readiness_based \<Rightarrow> nat list" where
  "waiting b = map fst (rb_states b)"

definition known :: "('c, 'op, 'v) readiness_based \<Rightarrow> nat multiset" where
  "known b = mset (map resp_id (responses_to_write b)) + mset (waiting b)"

definition asks :: "('c, 'op) rb_request \<Rightarrow> nat list" where
  "asks r = (case r of Call c _ \<Rightarrow> [caller_id c] | SendFd c _ \<Rightarrow> [caller_id c] | RecvFd c _ \<Rightarrow> [caller_id c] | _ \<Rightarrow> [])"

definition rb_ok :: "('c, 'op, 'v) readiness_based \<Rightarrow> bool" where
  "rb_ok b \<longleftrightarrow> distinct (waiting b)"

lemma resp_id_simps [simp]: "resp_id (RespOf i r) = i" "resp_id (RespErr i e) = i"
  by (simp_all add: resp_id_def)

lemma rb_new_ok [simp]: "rb_ok rb_new"
  by (simp add: rb_ok_def rb_new_def waiting_def)

lemma mset_delete_key:
  "distinct (map fst al) \<Longrightarrow> map_of al i \<noteq> None \<Longrightarrow> add_mset i (image_mset fst (mset (AList.delete i al))) = image_mset fst (mset al)"
proof (induction al)
  case (Cons a al)
  show ?case
  proof (cases "fst a = i")
    case True
    then have "i \<notin> fst ` set al" using Cons.prems(1) by auto
    then have "AList.delete i al = al" by (auto simp: AList.delete_eq filter_id_conv image_iff)
    then show ?thesis using True by simp
  qed (use Cons in \<open>auto split: if_splits\<close>)
qed simp

lemma mset_update_key:
  "i \<notin> fst ` set al \<Longrightarrow> image_mset fst (mset (AList.update i v al)) = add_mset i (image_mset fst (mset al))"
  by (induction al) auto

lemma keys_delete: "fst ` set (AList.delete i al) = fst ` set al - {i}"
  by (auto simp: AList.delete_eq)

lemma in_waiting: "i \<in> set (waiting b) \<longleftrightarrow> map_of (rb_states b) i \<noteq> None"
  by (simp add: waiting_def map_of_eq_None_iff)

lemma waiting_push [simp]: "waiting (push_response r b) = waiting b" "rb_states (push_response r b) = rb_states b"
  by (simp_all add: waiting_def push_response_def)

lemma known_push [simp]: "known (push_response r b) = add_mset (resp_id r) (known b)"
  by (simp add: known_def push_response_def waiting_def)

lemma rb_ok_push [simp]: "rb_ok (push_response r b) = rb_ok b"
  by (simp add: rb_ok_def)

lemma keep_fresh:
  assumes "rb_ok b" and "caller_id c \<notin> set (waiting b)"
  shows "rb_ok (keep_state c op b)" "known (keep_state c op b) = add_mset (caller_id c) (known b)"
    "set (waiting (keep_state c op b)) = insert (caller_id c) (set (waiting b))"
  using assms by (auto simp: rb_ok_def waiting_def keep_state_def known_def mset_update_key AList.dom_update AList.distinct_update)

lemma forget_waiting:
  assumes "rb_ok b" and "map_of (rb_states b) i \<noteq> None"
  shows "rb_ok (b\<lparr>rb_states := AList.delete i (rb_states b)\<rparr>)"
    "add_mset i (known (b\<lparr>rb_states := AList.delete i (rb_states b)\<rparr>)) = known b"
    "set (waiting (b\<lparr>rb_states := AList.delete i (rb_states b)\<rparr>)) = set (waiting b) - {i}"
  using assms mset_delete_key[of "rb_states b" i]
  by (simp_all add: rb_ok_def waiting_def known_def keys_delete)

lemma process_request_keeps:
  assumes "rb_ok b" and "set (asks r) \<inter> set (waiting b) = {}" and "process_request x r (b, s) = Some (b1, s1)"
  shows "rb_ok b1 \<and> known b1 = known b + mset (asks r) \<and> set (waiting b1) \<subseteq> set (waiting b) \<union> set (asks r)"
proof (cases r)
  case (Call c o')
  note keep = keep_fresh[OF assms(1), of c]
  show ?thesis
  proof (cases o')
    case None
    then show ?thesis using assms Call by (auto simp: process_request_def asks_def)
  next
    case (Some op)
    then obtain res op1 where "b1 = (if blocks res \<and> \<not> so_nonblock x op1 then keep_state c op1 b else push_response (RespOf (caller_id c) res) b)"
      using assms(3) Call by (auto simp: process_request_def)
    then show ?thesis using assms(1,2) keep Call by (auto simp: asks_def)
  qed
next
  case (Cancellation i)
  show ?thesis
  proof (cases "map_of (rb_states b) i")
    case None
    then show ?thesis using assms Cancellation by (simp add: process_request_def asks_def)
  next
    case (Some e)
    define b' where "b' = b\<lparr>rb_states := AList.delete i (rb_states b)\<rparr>"
    have f: "rb_ok b'" "add_mset i (known b') = known b" "set (waiting b') = set (waiting b) - {i}"
      using forget_waiting[OF assms(1), of i] Some unfolding b'_def by auto
    have "b1 = push_response (RespErr i ECANCELED) b'"
      using assms(3) Cancellation Some by (simp add: process_request_def b'_def)
    then show ?thesis using f Cancellation by (auto simp: asks_def)
  qed
next
  case (RecvFd c op)
  obtain res where "so_on_recvfd x op s = Some (res, s1)" using assms(3) RecvFd by (auto simp: process_request_def)
  then have "b1 = keep_state c op b \<or> (\<exists>res. b1 = push_response (RespOf (caller_id c) (Opened res)) b)"
    using assms(3) RecvFd by (cases res) (auto simp: process_request_def split: if_splits)
  moreover have "caller_id c \<notin> set (waiting b)" using assms(2) RecvFd by (simp add: asks_def)
  ultimately show ?thesis
    using keep_fresh[OF assms(1), of c op] assms(1) RecvFd by (elim disjE exE) (simp_all add: asks_def subset_insertI)
qed (use assms in \<open>auto simp: process_request_def asks_def\<close>)

lemma process_all_keeps:
  "rb_ok b \<Longrightarrow> distinct (concat (map asks rs)) \<Longrightarrow> set (concat (map asks rs)) \<inter> set (waiting b) = {} \<Longrightarrow>
   process_all x rs (b, s) = Some (b1, s1) \<Longrightarrow>
   rb_ok b1 \<and> known b1 = known b + mset (concat (map asks rs))"
proof (induction rs arbitrary: b s)
  case (Cons r rs)
  then obtain b2 s2 where 2: "process_request x r (b, s) = Some (b2, s2)" "process_all x rs (b2, s2) = Some (b1, s1)"
    by (auto split: option.splits)
  have dis: "set (asks r) \<inter> set (waiting b) = {}" using Cons.prems(3) by auto
  note step = process_request_keeps[OF Cons.prems(1) dis 2(1)]
  have "set (concat (map asks rs)) \<inter> set (waiting b2) = {}"
    using step Cons.prems(2,3) by (simp only: list.map concat.simps distinct_append set_append) blast
  with Cons.IH[OF _ _ _ 2(2)] step Cons.prems(2) show ?case by simp
qed simp

text \<open>A waiting request that is tried again is answered, or waits on with the call that blocked.\<close>

definition tried :: "('c, 'op, 'v, 's) scheme_ops \<Rightarrow> ('c, 'op, 'v) readiness_based \<Rightarrow> nat \<Rightarrow> bool" where
  "tried x b i \<longleftrightarrow>
     (\<exists>c op op1 s0 s1 r. so_call x c op s0 = Some ((r, op1), s1) \<and> blocks r \<and> \<not> so_nonblock x op1 \<and>
        map_of (rb_states b) i = Some (c, op1))"

lemma poll_request_keeps:
  assumes ok: "rb_ok b" and i: "i \<in> set (waiting b)" and p: "poll_request x i (b, s) = (res, b1, s1)"
  shows "res = Inl Panic \<or>
     (\<exists>a. res = Inr a \<and> rb_ok b1 \<and> known b1 = known b \<and>
       (\<forall>j. j \<noteq> i \<longrightarrow> map_of (rb_states b1) j = map_of (rb_states b) j) \<and> (i \<in> set (waiting b1) \<longrightarrow> tried x b1 i))"
proof -
  obtain c op where co: "map_of (rb_states b) i = Some (c, op)"
    using i unfolding in_waiting by auto
  let ?b = "b\<lparr>rb_states := AList.delete i (rb_states b)\<rparr>"
  have f: "rb_ok ?b" "add_mset i (known ?b) = known b" "i \<notin> set (waiting ?b)" using forget_waiting[OF ok, of i] co by auto
  show ?thesis
  proof (cases "so_call x c op s")
    case None
    then show ?thesis using p co by (simp add: poll_request_def poll_request_inner_def)
  next
    case (Some z)
    then obtain r op1 s2 where z: "so_call x c op s = Some ((r, op1), s2)" by (metis prod.exhaust)
    show ?thesis
    proof (cases "blocks r \<and> \<not> so_nonblock x op1")
      case True
      let ?b2 = "?b\<lparr>rb_states := AList.update i (c, op1) (AList.delete i (rb_states b))\<rparr>"
      have "res = Inr False" "b1 = ?b2" using p co z True by (simp_all add: poll_request_def poll_request_inner_def)
      moreover have "i \<notin> fst ` set (AList.delete i (rb_states b))" by (simp add: keys_delete)
      ultimately show ?thesis using f z True
        by (auto simp: rb_ok_def known_def waiting_def mset_update_key tried_def alist_simps)
    next
      case False
      then have "res = Inr True" "b1 = push_response (RespOf i r) ?b" "s1 = s2"
        using p co z by (auto simp: poll_request_def poll_request_inner_def)
      then show ?thesis using f by (auto simp: alist_simps)
    qed
  qed
qed

lemma poll_ready_keeps:
  "rb_ok b \<Longrightarrow> distinct is \<Longrightarrow> set is \<subseteq> set (waiting b) \<Longrightarrow> poll_ready_requests x is (b, s) = (res, b1, s1) \<Longrightarrow>
   res = Inl Panic \<or>
   res = Inr () \<and> rb_ok b1 \<and> known b1 = known b \<and> (\<forall>j. j \<notin> set is \<longrightarrow> map_of (rb_states b1) j = map_of (rb_states b) j) \<and>
   (\<forall>i\<in>set is. i \<in> set (waiting b1) \<longrightarrow> tried x b1 i)"
proof (induction "is" arbitrary: b s)
  case (Cons i js)
  obtain r b2 s2 where 2: "poll_request x i (b, s) = (r, b2, s2)" by (metis prod.exhaust)
  have i: "i \<in> set (waiting b)" using Cons.prems(3) by simp
  from poll_request_keeps[OF Cons.prems(1) i 2] consider "r = Inl Panic"
    | a where "r = Inr a" "rb_ok b2" "known b2 = known b" "\<And>j. j \<noteq> i \<Longrightarrow> map_of (rb_states b2) j = map_of (rb_states b) j"
      "i \<in> set (waiting b2) \<Longrightarrow> tried x b2 i" by blast
  then show ?case
  proof cases
    case 1
    then show ?thesis using Cons.prems(4) 2 by simp
  next
    case (2 a)
    have js: "j \<in> set (waiting b2)" if "j \<in> set js" for j
    proof -
      have "j \<noteq> i" "j \<in> set (waiting b)" using that Cons.prems(2,3) by auto
      with 2(4)[of j] show ?thesis by (simp add: in_waiting)
    qed
    have rest: "poll_ready_requests x js (b2, s2) = (res, b1, s1)"
      using Cons.prems(4) \<open>poll_request x i (b, s) = (r, b2, s2)\<close> 2(1) by simp
    from Cons.IH[OF 2(2) _ _ rest] js Cons.prems(2) consider "res = Inl Panic"
      | "res = Inr ()" "rb_ok b1" "known b1 = known b2" "\<And>j. j \<notin> set js \<Longrightarrow> map_of (rb_states b1) j = map_of (rb_states b2) j"
        "\<And>j. j \<in> set js \<Longrightarrow> j \<in> set (waiting b1) \<Longrightarrow> tried x b1 j" by auto
    then show ?thesis
    proof cases
      case 22: 2
      have "tried x b1 i" if "i \<in> set (waiting b1)"
      proof -
        have eq: "map_of (rb_states b1) i = map_of (rb_states b2) i" using 22(4) Cons.prems(2) by simp
        then have "i \<in> set (waiting b2)" using that by (simp add: in_waiting)
        with 2(5) eq show ?thesis by (simp add: tried_def)
      qed
      with 22 2 show ?thesis by auto
    qed simp
  qed
qed simp

section \<open>A round\<close>

text \<open>
  One round of a daemon that serves its socket this way: the requests read are processed and every waiting
  request is tried again, as in the arms of the event loop of \<open>ipcd/src/main.rs\<close>.
\<close>

definition serve ::
  "('c, 'op, 'v, 's) scheme_ops \<Rightarrow> errno + ('c, 'op) rb_request list \<Rightarrow> ('c, 'op, 'v) readiness_based \<times> 's
     \<Rightarrow> (unit, ('c, 'op, 'v) readiness_based \<times> 's) outcome" where
  "serve x got bs = bind_out (read_and_process_requests x got bs) (\<lambda>_. poll_all_requests x)"

lemma poll_all_keeps:
  assumes "rb_ok b" and "poll_all_requests x (b, s) = (res, b1, s1)"
  shows "res = Inl Panic \<or> res = Inr () \<and> rb_ok b1 \<and> known b1 = known b \<and> (\<forall>i\<in>set (waiting b1). tried x b1 i)"
proof -
  let ?b = "b\<lparr>ready_queue := []\<rparr>"
  have b: "rb_ok ?b" "known ?b = known b" "waiting ?b = waiting b" using assms(1) by (simp_all add: rb_ok_def known_def waiting_def)
  have p: "poll_ready_requests x (waiting ?b) (?b, s) = (res, b1, s1)"
    using assms(2) by (simp add: poll_all_requests_def waiting_def)
  have d: "distinct (waiting ?b)" using b(1) by (simp add: rb_ok_def)
  have "i \<in> set (waiting ?b)" if "\<forall>j. j \<notin> set (waiting ?b) \<longrightarrow> map_of (rb_states b1) j = map_of (rb_states ?b) j" "i \<in> set (waiting b1)" for i
    using that by (metis in_waiting)
  with poll_ready_keeps[OF b(1) d subset_refl p] b(2) show ?thesis by auto
qed


text \<open>The loop that never waits answers the requests of a batch in order, each one once.\<close>

lemma blocking_request_answers:
  "blocking_request x u r (out, s) = Some (out1, s1) \<Longrightarrow> map resp_id out1 = map resp_id out @ asks r"
  by (auto simp: blocking_request_def asks_def split: rb_request.splits option.splits)

lemma blocking_all_answers:
  "blocking_all x u rs (out, s) = Some (out1, s1) \<Longrightarrow> map resp_id out1 = map resp_id out @ concat (map asks rs)"
proof (induction rs arbitrary: out s)
  case (Cons r rs)
  then show ?case using blocking_request_answers[of x u r out s] by (fastforce split: option.splits)
qed simp

text \<open>
  A batch is answered in order. When a daemon that never waits has processed a batch, the responses it wrote
  answer the requests of the batch that ask for a response, one each and in the order they were read.
\<close>

theorem blocking_answers_in_order:
  assumes "process_requests_nonblocking x u (Inr rs) write s = (Inr (True, out), s1)"
  shows "map resp_id out = concat (map asks rs) \<and> write out = Inr []"
  using assms blocking_all_answers[of x u rs "[]" s out]
  by (auto simp: process_requests_nonblocking_def split: list.splits option.splits sum.splits if_splits)

section \<open>Witness\<close>

text \<open>A scheme with one cell: a read of the empty cell blocks, a write fills it.\<close>

definition cell_ops :: "(unit, nat option, nat, nat option) scheme_ops" where
  "cell_ops =
     \<lparr>so_call = (\<lambda>_ op s. case op of
          Some v \<Rightarrow> Some ((Regular (Inr 0), op), Some v)
        | None \<Rightarrow> (case s of None \<Rightarrow> Some ((Regular (Inl EWOULDBLOCK), op), s) | Some v \<Rightarrow> Some ((Regular (Inr v), op), None))),
      so_on_close = (\<lambda>_ s. Some s), so_on_sendfd = (\<lambda>_ s. Some (Inl EOPNOTSUPP, s)), so_on_recvfd = (\<lambda>_ s. Some (Inl EOPNOTSUPP, s)),
      so_nonblock = (\<lambda>_. False)\<rparr>"

definition cell_calls :: "(unit, nat option) rb_request list" where
  "cell_calls =
     [Call \<lparr>caller_id = 1, caller_ctx = ()\<rparr> (Some None), Call \<lparr>caller_id = 2, caller_ctx = ()\<rparr> (Some None),
      Call \<lparr>caller_id = 3, caller_ctx = ()\<rparr> (Some (Some 7))]"

theorem blocking_answers_in_order_witness:
  "\<exists>out s. process_requests_nonblocking cell_ops EINVAL (Inr cell_calls) (\<lambda>_. Inr []) None = (Inr (True, out), s) \<and>
     map resp_id out = [1, 2, 3]"
proof -
  have "fst (process_requests_nonblocking cell_ops EINVAL (Inr cell_calls) (\<lambda>_. Inr []) None) =
      Inr (True, [RespOf 1 (Regular (Inl EWOULDBLOCK)), RespOf 2 (Regular (Inl EWOULDBLOCK)), RespOf 3 (Regular (Inr 0))])"
    by code_simp
  then obtain out s where r: "process_requests_nonblocking cell_ops EINVAL (Inr cell_calls) (\<lambda>_. Inr []) None = (Inr (True, out), s)"
    by (metis prod.collapse)
  moreover have "concat (map asks cell_calls) = [1, 2, 3]" by code_simp
  ultimately show ?thesis using blocking_answers_in_order[OF r] by simp
qed


end
