(* ===== verification/Chan.thy ===== *)
theory Chan
  imports Readiness Handle_Map Utf8
begin

text \<open>
  Channels of the ipc daemon (\<open>ipcd/src/chan.rs\<close>): listeners with a queue of clients that want to connect,
  and pairs of connected clients with a buffer each.

  The bits of the flags and of the events, and the result of posting an event on the socket, are the fields
  of \<open>chan_ext\<close>; every operation posts at most one event. The events posted are logged in the state.
\<close>

unbundle bit_operations_syntax

section \<open>Definitions\<close>

record chan_ext =
  cx_O_CREAT :: u64
  cx_O_EXCL :: u64
  cx_O_NONBLOCK :: u64
  cx_EVENT_READ :: u64
  cx_EVENT_WRITE :: u64
  cx_F_GETFL :: u64
  cx_F_SETFL :: u64
  write_response :: "errno + bool"

datatype connection = Waiting | Open u64 | Closed

record client =
  cl_buffer :: bytes
  cl_remote :: connection

record listener =
  ls_path :: "bytes option"
  ls_awaiting :: "u64 list"

datatype extra = EClient client | EListener listener | ESchemeRoot

record chan_handle =
  ch_flags :: u64
  ch_extra :: extra
  ch_path :: "bytes option"

record chan_scheme =
  chandles :: "(u64 \<times> chan_handle) list"
  clisteners :: "(bytes \<times> u64) list"
  cnext_id :: u64
  cposted :: "(u64 \<times> u64) list"

datatype open_result = ThisScheme u64 | WouldBlock

subsection \<open>Handles\<close>

definition client_default :: client where
  "client_default = \<lparr>cl_buffer = [], cl_remote = Waiting\<rparr>"

definition listener_default :: listener where
  "listener_default = \<lparr>ls_path = None, ls_awaiting = []\<rparr>"

definition handle_default :: chan_handle where
  "handle_default = \<lparr>ch_flags = 0, ch_extra = EClient client_default, ch_path = None\<rparr>"

definition accept :: "u64 \<Rightarrow> chan_handle \<Rightarrow> chan_handle" where
  "accept remote h = handle_default\<lparr>ch_flags := ch_flags h, ch_extra := EClient (client_default\<lparr>cl_remote := Open remote\<rparr>)\<rparr>"

definition connect :: "u64 \<Rightarrow> chan_handle \<Rightarrow> errno + chan_handle" where
  "connect other h =
     (case ch_extra h of
        EListener l \<Rightarrow> Inr (h\<lparr>ch_extra := EListener (l\<lparr>ls_awaiting := ls_awaiting l @ [other]\<rparr>)\<rparr>)
      | _ \<Rightarrow> Inl EBADF)"

definition require_listener :: "chan_handle \<Rightarrow> errno + listener" where
  "require_listener h = (case ch_extra h of EListener l \<Rightarrow> Inr l | _ \<Rightarrow> Inl EBADF)"

definition require_client :: "chan_handle \<Rightarrow> errno + client" where
  "require_client h = (case ch_extra h of EClient c \<Rightarrow> Inr c | _ \<Rightarrow> Inl EBADF)"

subsection \<open>The scheme\<close>

definition chan_new :: chan_scheme where
  "chan_new = \<lparr>chandles = [], clisteners = [], cnext_id = 0, cposted = []\<rparr>"

abbreviation chandle :: "chan_scheme \<Rightarrow> u64 \<Rightarrow> chan_handle option" where
  "chandle s \<equiv> map_of (chandles s)"

definition set_chandle :: "u64 \<Rightarrow> chan_handle \<Rightarrow> chan_scheme \<Rightarrow> chan_scheme" where
  "set_chandle i h s = s\<lparr>chandles := AList.update i h (chandles s)\<rparr>"

text \<open>The handle that \<open>self.handles.insert(new_id, new); self.next_id += 1\<close> adds.\<close>

definition add_chandle :: "chan_handle \<Rightarrow> chan_scheme \<Rightarrow> (open_result, chan_scheme) outcome" where
  "add_chandle h s =
     ok (ThisScheme (cnext_id s)) (s\<lparr>chandles := AList.update (cnext_id s) h (chandles s), cnext_id := cnext_id s + 1\<rparr>)"

definition post_fevent :: "chan_ext \<Rightarrow> u64 \<Rightarrow> u64 \<Rightarrow> chan_scheme \<Rightarrow> (unit, chan_scheme) outcome" where
  "post_fevent x i flags s =
     (case write_response x of
        Inr True \<Rightarrow> ok () (s\<lparr>cposted := cposted s @ [(i, flags)]\<rparr>)
      | Inr False \<Rightarrow> fail EAGAIN s
      | Inl e \<Rightarrow> fail e s)"

definition chan_open :: "chan_ext \<Rightarrow> bytes \<Rightarrow> u64 \<Rightarrow> chan_scheme \<Rightarrow> (open_result, chan_scheme) outcome" where
  "chan_open x path flags s =
     (let new_id = cnext_id s;
          new = handle_default\<lparr>ch_flags := flags\<rparr>;
          creat = (flags AND cx_O_CREAT x = cx_O_CREAT x)
      in if creat \<and> map_of (clisteners s) path = None then
           (if path \<noteq> [] then
              add_chandle (new\<lparr>ch_extra := EListener (listener_default\<lparr>ls_path := Some path\<rparr>)\<rparr>)
                (s\<lparr>clisteners := AList.update path new_id (clisteners s)\<rparr>)
            else add_chandle (new\<lparr>ch_extra := EListener listener_default\<rparr>) s)
         else if creat \<and> flags AND cx_O_EXCL x = cx_O_EXCL x then fail EEXIST s
         else
           case map_of (clisteners s) path of
             None \<Rightarrow> fail ENOENT s
           | Some listener_id \<Rightarrow>
              (case chandle s listener_id of
                 None \<Rightarrow> panic s
               | Some h \<Rightarrow>
                  (case connect new_id h of
                     Inl e \<Rightarrow> fail e s
                   | Inr h' \<Rightarrow>
                      bind_out (post_fevent x listener_id (cx_EVENT_READ x OR cx_EVENT_WRITE x) (set_chandle listener_id h' s))
                        (\<lambda>_. add_chandle new))))"

definition chan_root :: "chan_scheme \<Rightarrow> (u64, chan_scheme) outcome" where
  "chan_root s =
     (let i = cnext_id s in
      ok i (s\<lparr>cnext_id := cnext_id s + 1,
              chandles := AList.update i \<lparr>ch_flags = 0, ch_extra = ESchemeRoot, ch_path = None\<rparr> (chandles s)\<rparr>))"

definition chan_openat :: "chan_ext \<Rightarrow> u64 \<Rightarrow> bytes \<Rightarrow> u64 \<Rightarrow> chan_scheme \<Rightarrow> (open_result, chan_scheme) outcome" where
  "chan_openat x dirfd path flags s =
     (case chandle s dirfd of
        None \<Rightarrow> fail EBADF s
      | Some h \<Rightarrow> if ch_extra h \<noteq> ESchemeRoot then fail EACCES s else chan_open x path flags s)"

text \<open>The loop of \<open>dup\<close> with \<open>listen\<close>, over the clients that wait: those that are gone are dropped.\<close>

fun accept_loop :: "chan_ext \<Rightarrow> u64 \<Rightarrow> chan_handle \<Rightarrow> listener \<Rightarrow> u64 list \<Rightarrow> chan_scheme \<Rightarrow> (open_result, chan_scheme) outcome" where
  "accept_loop x i h l [] s =
     (let s1 = set_chandle i (h\<lparr>ch_extra := EListener (l\<lparr>ls_awaiting := []\<rparr>)\<rparr>) s in
      if ch_flags h AND cx_O_NONBLOCK x = cx_O_NONBLOCK x then ok WouldBlock s1 else fail EWOULDBLOCK s1)"
| "accept_loop x i h l (remote_id # rest) s =
     (let s1 = set_chandle i (h\<lparr>ch_extra := EListener (l\<lparr>ls_awaiting := rest\<rparr>)\<rparr>) s in
      case chandle s1 remote_id of
        None \<Rightarrow> accept_loop x i h l rest s
      | Some r \<Rightarrow>
         (case ch_extra r of
            EListener _ \<Rightarrow> panic s1
          | ESchemeRoot \<Rightarrow> fail EBADF s1
          | EClient c \<Rightarrow>
             bind_out
               (post_fevent x remote_id (cx_EVENT_WRITE x)
                  (set_chandle remote_id (r\<lparr>ch_extra := EClient (c\<lparr>cl_remote := Open (cnext_id s)\<rparr>)\<rparr>) s1))
               (\<lambda>_. add_chandle ((accept remote_id h)\<lparr>ch_path := ls_path l\<rparr>))))"

definition chan_dup :: "chan_ext \<Rightarrow> u64 \<Rightarrow> bytes \<Rightarrow> chan_scheme \<Rightarrow> (open_result, chan_scheme) outcome" where
  "chan_dup x i buf s =
     (if buf = ascii_bytes ''listen'' then
        (case chandle s i of
           None \<Rightarrow> fail EBADF s
         | Some h \<Rightarrow>
            (case require_listener h of
               Inl e \<Rightarrow> fail e s
             | Inr l \<Rightarrow> accept_loop x i h l (ls_awaiting l) s))
      else if buf = ascii_bytes ''connect'' then
        (case chandle s i of
           None \<Rightarrow> fail EBADF s
         | Some h \<Rightarrow>
            (case connect (cnext_id s) h of
               Inl e \<Rightarrow> fail e s
             | Inr h' \<Rightarrow>
                bind_out (post_fevent x i (cx_EVENT_READ x OR cx_EVENT_WRITE x) (set_chandle i h' s))
                  (\<lambda>_. add_chandle handle_default)))
      else if buf = [] \<or> \<not> utf8_valid buf then fail EBADF s
      else
        (case chandle s i of
           None \<Rightarrow> fail EBADF s
         | Some h \<Rightarrow>
            if ch_path h \<noteq> None \<or> ch_extra h = ESchemeRoot then fail EBADF s
            else chan_open x buf (ch_flags h) s))"

definition chan_write :: "chan_ext \<Rightarrow> u64 \<Rightarrow> bytes \<Rightarrow> u32 \<Rightarrow> chan_scheme \<Rightarrow> (nat, chan_scheme) outcome" where
  "chan_write x i buf flags s =
     (case chandle s i of
        None \<Rightarrow> fail EBADF s
      | Some h \<Rightarrow>
         (case require_client h of
            Inl e \<Rightarrow> fail e s
          | Inr c \<Rightarrow>
             (case cl_remote c of
                Open remote_id \<Rightarrow>
                  (case chandle s remote_id of
                     None \<Rightarrow> panic s
                   | Some r \<Rightarrow>
                      (case ch_extra r of
                         EClient rc \<Rightarrow>
                           let rc' = rc\<lparr>cl_buffer := cl_buffer rc @ buf\<rparr>;
                               s1 = set_chandle remote_id (r\<lparr>ch_extra := EClient rc'\<rparr>) s
                           in if length (cl_buffer rc') = length buf
                              then bind_out (post_fevent x remote_id (cx_EVENT_READ x) s1) (\<lambda>_. ok (length buf))
                              else ok (length buf) s1
                       | _ \<Rightarrow> panic s))
              | Closed \<Rightarrow> fail EPIPE s
              | Waiting \<Rightarrow> if ucast flags AND cx_O_NONBLOCK x = cx_O_NONBLOCK x then fail EAGAIN s else fail EWOULDBLOCK s)))"

definition chan_fpath :: "u64 \<Rightarrow> bytes \<Rightarrow> chan_scheme \<Rightarrow> errno + fpath_writer" where
  "chan_fpath i buf s =
     fpath_with_legacy buf (ascii_bytes ''chan'')
       (\<lambda>w. case chandle s i of
              None \<Rightarrow> Inl EBADF
            | Some h \<Rightarrow>
               if ch_extra h = ESchemeRoot then Inr w
               else case ch_path h of None \<Rightarrow> Inl EBADF | Some p \<Rightarrow> Inr (push_str p w))"

definition chan_fsync :: "u64 \<Rightarrow> chan_scheme \<Rightarrow> errno + unit" where
  "chan_fsync i s = (case chandle s i of None \<Rightarrow> Inl EBADF | Some _ \<Rightarrow> Inr ())"

text \<open>The result is the bytes copied to the caller's buffer of length \<open>n\<close>.\<close>

definition chan_read :: "chan_ext \<Rightarrow> u64 \<Rightarrow> nat \<Rightarrow> u32 \<Rightarrow> chan_scheme \<Rightarrow> (bytes, chan_scheme) outcome" where
  "chan_read x i n flags s =
     (case chandle s i of
        None \<Rightarrow> fail EBADF s
      | Some h \<Rightarrow>
         (case require_client h of
            Inl e \<Rightarrow> fail e s
          | Inr c \<Rightarrow>
             if cl_buffer c \<noteq> [] then
               let len = min n (length (cl_buffer c))
               in ok (take len (cl_buffer c))
                    (set_chandle i (h\<lparr>ch_extra := EClient (c\<lparr>cl_buffer := drop len (cl_buffer c)\<rparr>)\<rparr>) s)
             else if cl_remote c = Closed then ok [] s
             else if ucast flags AND cx_O_NONBLOCK x = cx_O_NONBLOCK x then fail EAGAIN s
             else fail EWOULDBLOCK s))"

definition chan_on_close :: "chan_ext \<Rightarrow> u64 \<Rightarrow> chan_scheme \<Rightarrow> (unit, chan_scheme) outcome" where
  "chan_on_close x i s =
     (case chandle s i of
        None \<Rightarrow> panic s
      | Some h \<Rightarrow>
         (let s1 = s\<lparr>chandles := AList.delete i (chandles s)\<rparr> in
          case ch_extra h of
            EClient c \<Rightarrow>
              (case cl_remote c of
                 Open remote_id \<Rightarrow>
                   (case chandle s1 remote_id of
                      None \<Rightarrow> panic s1
                    | Some r \<Rightarrow>
                       (case ch_extra r of
                          EClient rc \<Rightarrow>
                            let s2 = set_chandle remote_id (r\<lparr>ch_extra := EClient (rc\<lparr>cl_remote := Closed\<rparr>)\<rparr>) s1
                            in if cl_buffer rc = []
                               then (case post_fevent x remote_id (cx_EVENT_READ x) s2 of
                                       (Inl _, s3) \<Rightarrow> panic s3
                                     | (Inr _, s3) \<Rightarrow> ok () s3)
                               else ok () s2
                        | _ \<Rightarrow> panic s1))
               | _ \<Rightarrow> ok () s1)
          | EListener l \<Rightarrow>
              (case ls_path l of
                 Some p \<Rightarrow> ok () (s1\<lparr>clisteners := AList.delete p (clisteners s1)\<rparr>)
               | None \<Rightarrow> ok () s1)
          | ESchemeRoot \<Rightarrow> ok () s1))"

definition chan_fcntl :: "chan_ext \<Rightarrow> u64 \<Rightarrow> u64 \<Rightarrow> u64 \<Rightarrow> chan_scheme \<Rightarrow> (u64, chan_scheme) outcome" where
  "chan_fcntl x i cmd arg s =
     (case chandle s i of
        None \<Rightarrow> fail EBADF s
      | Some h \<Rightarrow>
         if cmd = cx_F_GETFL x then ok (ch_flags h) s
         else if cmd = cx_F_SETFL x then ok 0 (set_chandle i (h\<lparr>ch_flags := arg\<rparr>) s)
         else fail EINVAL s)"

definition chan_fevent :: "chan_ext \<Rightarrow> u64 \<Rightarrow> chan_scheme \<Rightarrow> errno + u64" where
  "chan_fevent x i s =
     (case chandle s i of
        None \<Rightarrow> Inl EBADF
      | Some h \<Rightarrow>
         Inr (case ch_extra h of
                EClient c \<Rightarrow>
                  (case cl_remote c of Open _ \<Rightarrow> cx_EVENT_WRITE x | _ \<Rightarrow> 0) OR
                  (if cl_buffer c \<noteq> [] \<or> cl_remote c = Closed then cx_EVENT_READ x else 0)
              | EListener l \<Rightarrow> if ls_awaiting l \<noteq> [] then cx_EVENT_READ x OR cx_EVENT_WRITE x else 0
              | ESchemeRoot \<Rightarrow> 0))"

end
