(* ===== verification/Chan_Props.thy ===== *)
theory Chan_Props
  imports Chan
begin

text \<open>
  Properties of channels: connections are mutual in every reachable state and no operation panics, what one
  side writes is what the other side reads, the end of a connection, and readers that wait in the request
  loop.
\<close>

unbundle bit_operations_syntax

section \<open>The network of connections\<close>

text \<open>What a handle is, without its buffer, flags and name.\<close>

datatype kind = KClient connection | KListener "bytes option" "u64 list" | KRoot

definition kind_of :: "chan_handle \<Rightarrow> kind" where
  "kind_of h =
     (case ch_extra h of
        EClient c \<Rightarrow> KClient (cl_remote c)
      | EListener l \<Rightarrow> KListener (ls_path l) (ls_awaiting l)
      | ESchemeRoot \<Rightarrow> KRoot)"

definition kmap :: "(u64 \<times> chan_handle) list \<Rightarrow> u64 \<Rightarrow> kind option" where
  "kmap hs i = map_option kind_of (map_of hs i)"

abbreviation kinds :: "chan_scheme \<Rightarrow> u64 \<Rightarrow> kind option" where
  "kinds s \<equiv> kmap (chandles s)"

text \<open>
  Numbers in use lie below the next one, connections are mutual, the table of names and the named listeners
  agree, and a client waits for at most one listener, once, and is not connected while it waits.
\<close>

definition net_ok :: "(u64 \<Rightarrow> kind option) \<Rightarrow> (bytes \<Rightarrow> u64 option) \<Rightarrow> u64 \<Rightarrow> bool" where
  "net_ok K L n \<longleftrightarrow>
     (\<forall>i. K i \<noteq> None \<longrightarrow> i < n) \<and>
     (\<forall>i j. K i = Some (KClient (Open j)) \<longrightarrow> K j = Some (KClient (Open i)) \<and> i \<noteq> j) \<and>
     (\<forall>p i. L p = Some i \<longleftrightarrow> (\<exists>aw. K i = Some (KListener (Some p) aw))) \<and>
     (\<forall>i p aw. K i = Some (KListener p aw) \<longrightarrow>
        distinct aw \<and> (\<forall>r\<in>set aw. r < n \<and> (K r = None \<or> K r = Some (KClient Waiting)))) \<and>
     (\<forall>i j p q aw bw r. K i = Some (KListener p aw) \<longrightarrow> K j = Some (KListener q bw) \<longrightarrow> r \<in> set aw \<longrightarrow> r \<in> set bw \<longrightarrow> i = j)"

definition chan_inv :: "chan_scheme \<Rightarrow> bool" where
  "chan_inv s \<longleftrightarrow> net_ok (kinds s) (map_of (clisteners s)) (cnext_id s)"

lemma net_okD:
  assumes "net_ok K L n"
  shows "K i = Some k \<Longrightarrow> i < n" "K i = Some (KClient (Open j)) \<Longrightarrow> K j = Some (KClient (Open i)) \<and> i \<noteq> j"
    "L p = Some i \<longleftrightarrow> (\<exists>aw. K i = Some (KListener (Some p) aw))"
    "K i = Some (KListener q aw) \<Longrightarrow> distinct aw"
    "K i = Some (KListener q aw) \<Longrightarrow> r \<in> set aw \<Longrightarrow> r < n \<and> (K r = None \<or> K r = Some (KClient Waiting))"
    "K i = Some (KListener q aw) \<Longrightarrow> K j = Some (KListener q' bw) \<Longrightarrow> r \<in> set aw \<Longrightarrow> r \<in> set bw \<Longrightarrow> i = j"
  using assms unfolding net_ok_def by blast+

lemma net_okI:
  assumes "\<And>i k. K i = Some k \<Longrightarrow> i < n"
    and "\<And>i j. K i = Some (KClient (Open j)) \<Longrightarrow> K j = Some (KClient (Open i)) \<and> i \<noteq> j"
    and "\<And>p i. L p = Some i \<Longrightarrow> \<exists>aw. K i = Some (KListener (Some p) aw)"
    and "\<And>p i aw. K i = Some (KListener (Some p) aw) \<Longrightarrow> L p = Some i"
    and "\<And>i p aw. K i = Some (KListener p aw) \<Longrightarrow> distinct aw"
    and "\<And>i p aw r. K i = Some (KListener p aw) \<Longrightarrow> r \<in> set aw \<Longrightarrow> r < n \<and> (K r = None \<or> K r = Some (KClient Waiting))"
    and "\<And>i j p q aw bw r. K i = Some (KListener p aw) \<Longrightarrow> K j = Some (KListener q bw) \<Longrightarrow> r \<in> set aw \<Longrightarrow> r \<in> set bw \<Longrightarrow> i = j"
  shows "net_ok K L n"
  unfolding net_ok_def
proof (intro conjI allI impI iffI)
  fix i j pn p q aw bw r
  show "i < n" if "K i \<noteq> None" using that assms(1) by blast
  show "K j = Some (KClient (Open i))" "i \<noteq> j" if "K i = Some (KClient (Open j))" using assms(2)[OF that] by simp_all
  show "\<exists>aw. K i = Some (KListener (Some pn) aw)" if "L pn = Some i" using assms(3)[OF that] .
  show "L pn = Some i" if "\<exists>aw. K i = Some (KListener (Some pn) aw)" using that assms(4) by blast
  show "distinct aw" "\<forall>r\<in>set aw. r < n \<and> (K r = None \<or> K r = Some (KClient Waiting))" if "K i = Some (KListener p aw)"
    using assms(5)[OF that] assms(6)[OF that] by blast+
  show "i = j" if "K i = Some (KListener p aw)" "K j = Some (KListener q bw)" "r \<in> set aw" "r \<in> set bw"
    using assms(7)[OF that] .
qed

lemma next_number: "n \<noteq> - 1 \<Longrightarrow> i < n + 1 \<longleftrightarrow> i < n \<or> i = n" for n :: u64
proof -
  assume "n \<noteq> - 1"
  then have "1 + n \<noteq> 0" by (metis add_eq_0_iff)
  then have "unat (n + 1) = Suc (unat n)" using unatSuc[of n] by (simp add: add.commute)
  then show ?thesis by (auto simp: word_less_nat_alt less_Suc_eq word_unat_eq_iff)
qed

lemma net_fresh: "net_ok K L n \<Longrightarrow> K n = None"
  using net_okD(1)[of K L n n] by fastforce

text \<open>The changes the operations make.\<close>

lemma net_add:
  assumes ok: "net_ok K L n" and n: "n \<noteq> - 1"
    and k: "k = KRoot \<and> L' = L \<or> k = KListener None [] \<and> L' = L \<or> k = KListener (Some q) [] \<and> L q = None \<and> L' = L(q \<mapsto> n)"
  shows "net_ok (K(n \<mapsto> k)) L' (n + 1)"
proof (rule net_okI)
  note D = net_okD[OF ok] and f = net_fresh[OF ok] and nn = next_number[OF n]
  let ?K = "K(n \<mapsto> k)"
  fix i j pn p p' aw bw r k'
  show "i < n + 1" if "?K i = Some k'" using that D(1) by (auto simp: nn split: if_splits)
  show "?K j = Some (KClient (Open i)) \<and> i \<noteq> j" if "?K i = Some (KClient (Open j))"
    using that k D(2)[of i j] f by (auto split: if_splits)
  show "\<exists>aw. ?K i = Some (KListener (Some pn) aw)" if "L' pn = Some i"
    using that k D(3)[of pn i] f by (auto split: if_splits)
  show "L' pn = Some i" if "?K i = Some (KListener (Some pn) aw)"
    using that k D(3)[of pn i] by (auto split: if_splits)
  show "distinct aw" if "?K i = Some (KListener p aw)" using that k D(4)[of i] by (auto split: if_splits)
  show "r < n + 1 \<and> (?K r = None \<or> ?K r = Some (KClient Waiting))" if "?K i = Some (KListener p aw)" "r \<in> set aw"
    using that k D(5)[of i p aw r] by (auto simp: nn split: if_splits)
  show "i = j" if "?K i = Some (KListener p aw)" "?K j = Some (KListener p' bw)" "r \<in> set aw" "r \<in> set bw"
    using that k D(6)[of i p aw j p' bw r] by (auto split: if_splits)
qed

lemma net_connect:
  assumes ok: "net_ok K L n" and n: "n \<noteq> - 1" and l: "K l = Some (KListener pl al)"
  shows "net_ok (K(l \<mapsto> KListener pl (al @ [n]), n \<mapsto> KClient Waiting)) L (n + 1)"
proof (rule net_okI)
  note D = net_okD[OF ok] and f = net_fresh[OF ok] and nn = next_number[OF n]
  let ?K = "K(l \<mapsto> KListener pl (al @ [n]), n \<mapsto> KClient Waiting)"
  have ln: "l \<noteq> n" "n \<notin> set al" using l f D(5)[OF l, of n] by auto
  fix i j pn p p' aw bw r k'
  show "i < n + 1" if "?K i = Some k'" using that D(1) l by (auto simp: nn split: if_splits)
  show "?K j = Some (KClient (Open i)) \<and> i \<noteq> j" if "?K i = Some (KClient (Open j))"
    using that D(2)[of i j] f l by (auto split: if_splits)
  show "\<exists>aw. ?K i = Some (KListener (Some pn) aw)" if "L pn = Some i"
    using that D(3)[of pn i] f l by (auto split: if_splits)
  show "L pn = Some i" if "?K i = Some (KListener (Some pn) aw)"
    using that D(3)[of pn i] l by (auto split: if_splits)
  show "distinct aw" if "?K i = Some (KListener p aw)" using that D(4)[of i] D(4)[OF l] ln by (auto split: if_splits)
  show "r < n + 1 \<and> (?K r = None \<or> ?K r = Some (KClient Waiting))" if "?K i = Some (KListener p aw)" "r \<in> set aw"
    using that D(5)[of i p aw r] D(5)[OF l, of r] ln l by (auto simp: nn split: if_splits)
  show "i = j" if "?K i = Some (KListener p aw)" "?K j = Some (KListener p' bw)" "r \<in> set aw" "r \<in> set bw"
    using that D(6)[of i p aw j p' bw r] D(6)[OF l, of j p' bw r] D(6)[OF l, of i p aw r] D(5)[of i p aw n] D(5)[of j p' bw n]
    by (auto split: if_splits)
qed

lemma net_accept:
  assumes ok: "net_ok K L n" and n: "n \<noteq> - 1" and l: "K l = Some (KListener pl (pre @ c # rest))" and c: "K c = Some (KClient Waiting)"
  shows "net_ok (K(l \<mapsto> KListener pl rest, c \<mapsto> KClient (Open n), n \<mapsto> KClient (Open c))) L (n + 1)"
proof (rule net_okI)
  note D = net_okD[OF ok] and f = net_fresh[OF ok] and nn = next_number[OF n]
  let ?K = "K(l \<mapsto> KListener pl rest, c \<mapsto> KClient (Open n), n \<mapsto> KClient (Open c))"
  have ln: "l \<noteq> n" "c \<noteq> n" "l \<noteq> c" "c \<notin> set rest" using l c f D(4)[OF l] by auto
  fix i j pn p p' aw bw r k'
  show "i < n + 1" if "?K i = Some k'" using that D(1) l c by (auto simp: nn split: if_splits)
  show "?K j = Some (KClient (Open i)) \<and> i \<noteq> j" if "?K i = Some (KClient (Open j))"
    using that D(2)[of i j] f l c ln by (auto split: if_splits)
  show "\<exists>aw. ?K i = Some (KListener (Some pn) aw)" if "L pn = Some i"
    using that D(3)[of pn i] f l c by (auto split: if_splits)
  show "L pn = Some i" if "?K i = Some (KListener (Some pn) aw)"
    using that D(3)[of pn i] l by (auto split: if_splits)
  show "distinct aw" if "?K i = Some (KListener p aw)" using that D(4)[of i] D(4)[OF l] ln by (auto split: if_splits)
  show "r < n + 1 \<and> (?K r = None \<or> ?K r = Some (KClient Waiting))" if "?K i = Some (KListener p aw)" "r \<in> set aw"
    using that D(5)[of i p aw r] D(5)[OF l, of r] D(6)[OF l, of i p aw c] ln l by (auto simp: nn split: if_splits)
  show "i = j" if "?K i = Some (KListener p aw)" "?K j = Some (KListener p' bw)" "r \<in> set aw" "r \<in> set bw"
    using that D(6)[of i p aw j p' bw r] D(6)[OF l, of j p' bw r] D(6)[OF l, of i p aw r] by (auto split: if_splits)
qed

lemma net_drop:
  assumes ok: "net_ok K L n" and l: "K l = Some (KListener pl (pre @ rest))"
  shows "net_ok (K(l \<mapsto> KListener pl rest)) L n"
proof (rule net_okI)
  note D = net_okD[OF ok]
  let ?K = "K(l \<mapsto> KListener pl rest)"
  fix i j pn p p' aw bw r k'
  show "i < n" if "?K i = Some k'" using that D(1) l by (auto split: if_splits)
  show "?K j = Some (KClient (Open i)) \<and> i \<noteq> j" if "?K i = Some (KClient (Open j))"
    using that D(2)[of i j] l by (auto split: if_splits)
  show "\<exists>aw. ?K i = Some (KListener (Some pn) aw)" if "L pn = Some i" using that D(3)[of pn i] l by (auto split: if_splits)
  show "L pn = Some i" if "?K i = Some (KListener (Some pn) aw)" using that D(3)[of pn i] l by (auto split: if_splits)
  show "distinct aw" if "?K i = Some (KListener p aw)" using that D(4)[of i] D(4)[OF l] by (auto split: if_splits)
  show "r < n \<and> (?K r = None \<or> ?K r = Some (KClient Waiting))" if "?K i = Some (KListener p aw)" "r \<in> set aw"
    using that D(5)[of i p aw r] D(5)[OF l, of r] l by (auto split: if_splits)
  show "i = j" if "?K i = Some (KListener p aw)" "?K j = Some (KListener p' bw)" "r \<in> set aw" "r \<in> set bw"
    using that D(6)[of i p aw j p' bw r] D(6)[OF l, of j p' bw r] D(6)[OF l, of i p aw r] by (auto split: if_splits)
qed

lemma net_close:
  assumes ok: "net_ok K L n" and i0: "K i0 = Some k" "\<And>j. k \<noteq> KClient (Open j)"
    and L': "L' = (case k of KListener (Some q) _ \<Rightarrow> L(q := None) | _ \<Rightarrow> L)"
  shows "net_ok (K(i0 := None)) L' n"
proof (rule net_okI)
  note D = net_okD[OF ok]
  let ?K = "K(i0 := None)"
  fix i j pn p p' aw bw r k'
  show "i < n" if "?K i = Some k'" using that D(1) by (auto split: if_splits)
  show "?K j = Some (KClient (Open i)) \<and> i \<noteq> j" if "?K i = Some (KClient (Open j))"
    using that D(2)[of i j] i0(1) i0(2)[of i] by (auto split: if_splits)
  show "\<exists>aw. ?K i = Some (KListener (Some pn) aw)" if "L' pn = Some i"
    using that D(3)[of pn i] i0 L' by (auto split: if_splits kind.splits option.splits)
  show "L' pn = Some i" if "?K i = Some (KListener (Some pn) aw)"
    using that D(3)[of pn i] D(3)[of pn i0] i0 L' by (auto split: if_splits kind.splits option.splits)
  show "distinct aw" if "?K i = Some (KListener p aw)" using that D(4)[of i] by (auto split: if_splits)
  show "r < n \<and> (?K r = None \<or> ?K r = Some (KClient Waiting))" if "?K i = Some (KListener p aw)" "r \<in> set aw"
    using that D(5)[of i p aw r] by (auto split: if_splits)
  show "i = j" if "?K i = Some (KListener p aw)" "?K j = Some (KListener p' bw)" "r \<in> set aw" "r \<in> set bw"
    using that D(6)[of i p aw j p' bw r] by (auto split: if_splits)
qed

lemma net_close_peer:
  assumes ok: "net_ok K L n" and i0: "K i0 = Some (KClient (Open j0))"
  shows "net_ok (K(i0 := None, j0 \<mapsto> KClient Closed)) L n"
proof (rule net_okI)
  note D = net_okD[OF ok]
  let ?K = "K(i0 := None, j0 \<mapsto> KClient Closed)"
  have j0: "K j0 = Some (KClient (Open i0))" "i0 \<noteq> j0" using D(2)[OF i0] by simp_all
  fix i j pn p p' aw bw r k'
  show "i < n" if "?K i = Some k'" using that D(1) j0 by (auto split: if_splits)
  show "?K j = Some (KClient (Open i)) \<and> i \<noteq> j" if "?K i = Some (KClient (Open j))"
    using that D(2)[of i j] i0 j0 by (auto split: if_splits)
  show "\<exists>aw. ?K i = Some (KListener (Some pn) aw)" if "L pn = Some i" using that D(3)[of pn i] i0 j0 by (auto split: if_splits)
  show "L pn = Some i" if "?K i = Some (KListener (Some pn) aw)" using that D(3)[of pn i] by (auto split: if_splits)
  show "distinct aw" if "?K i = Some (KListener p aw)" using that D(4)[of i] by (auto split: if_splits)
  show "r < n \<and> (?K r = None \<or> ?K r = Some (KClient Waiting))" if "?K i = Some (KListener p aw)" "r \<in> set aw"
    using that D(5)[of i p aw r] j0 by (auto split: if_splits)
  show "i = j" if "?K i = Some (KListener p aw)" "?K j = Some (KListener p' bw)" "r \<in> set aw" "r \<in> set bw"
    using that D(6)[of i p aw j p' bw r] by (auto split: if_splits)
qed

section \<open>Operations\<close>

lemma kmap_simps [simp]:
  "kmap (AList.update i h hs) = (kmap hs)(i \<mapsto> kind_of h)" "kmap (AList.delete i hs) = (kmap hs)(i := None)"
  by (auto simp: kmap_def alist_simps fun_eq_iff)

lemma set_chandle_simps [simp]:
  "kinds (set_chandle i h s) = (kinds s)(i \<mapsto> kind_of h)" "chandle (set_chandle i h s) = (chandle s)(i \<mapsto> h)" "clisteners (set_chandle i h s) = clisteners s"
  "cnext_id (set_chandle i h s) = cnext_id s" "cposted (set_chandle i h s) = cposted s"
  by (simp_all add: set_chandle_def alist_simps)

lemma kind_of_simps [simp]:
  "kind_of (h\<lparr>ch_extra := EClient c\<rparr>) = KClient (cl_remote c)"
  "kind_of (h\<lparr>ch_extra := EListener l\<rparr>) = KListener (ls_path l) (ls_awaiting l)"
  "kind_of (h\<lparr>ch_flags := f\<rparr>) = kind_of h" "kind_of (h\<lparr>ch_path := p\<rparr>) = kind_of h"
  "kind_of handle_default = KClient Waiting" "kind_of (accept r h) = KClient (Open r)"
  "kind_of \<lparr>ch_flags = f, ch_extra = ESchemeRoot, ch_path = p\<rparr> = KRoot"
  by (simp_all add: kind_of_def handle_default_def accept_def client_default_def)

definition posts :: "chan_ext \<Rightarrow> bool" where
  "posts x \<longleftrightarrow> write_response x = Inr True"

lemma post_fevent_posts [simp]: "posts x \<Longrightarrow> post_fevent x i f s = ok () (s\<lparr>cposted := cposted s @ [(i, f)]\<rparr>)"
  by (simp add: post_fevent_def posts_def)

definition chan_safe :: "('a, chan_scheme) outcome \<Rightarrow> bool" where
  "chan_safe r \<longleftrightarrow> fst r \<noteq> Inl Panic \<and> chan_inv (snd r)"

lemma chan_safe_simps [simp]: "chan_safe (fail e s) = chan_inv s" "chan_safe (ok v s) = chan_inv s"
  by (simp_all add: chan_safe_def)

lemma chan_inv_posted [simp]: "chan_inv (s\<lparr>cposted := ps\<rparr>) = chan_inv s"
  by (simp add: chan_inv_def)

lemma chan_inv_same_kind:
  assumes "chan_inv s" and "chandle s i = Some h" and "kind_of h' = kind_of h"
  shows "chan_inv (set_chandle i h' s)"
proof -
  have "(kinds s)(i \<mapsto> kind_of h') = kinds s" using assms(2,3) by (auto simp: kmap_def)
  then show ?thesis using assms(1) by (simp add: chan_inv_def)
qed

lemma connect_add_safe:
  assumes inv: "chan_inv s" and n: "cnext_id s \<noteq> - 1" and h: "chandle s l = Some h" "connect (cnext_id s) h = Inr h'"
    and k: "kind_of new = KClient Waiting"
  shows "chan_safe (add_chandle new ((set_chandle l h' s)\<lparr>cposted := ps\<rparr>))"
proof -
  obtain li where li: "ch_extra h = EListener li" "h' = h\<lparr>ch_extra := EListener (li\<lparr>ls_awaiting := ls_awaiting li @ [cnext_id s]\<rparr>)\<rparr>"
    using h(2) by (auto simp: connect_def split: extra.splits)
  then have "kinds s l = Some (KListener (ls_path li) (ls_awaiting li))" using h(1) by (simp add: kmap_def kind_of_def)
  from net_connect[OF inv[unfolded chan_inv_def] n this] show ?thesis
    by (simp add: add_chandle_def li(2) k chan_inv_def)
qed

lemma chan_open_safe:
  assumes inv: "chan_inv s" and n: "cnext_id s \<noteq> - 1" and x: "posts x"
  shows "chan_safe (chan_open x path flags s)"
proof -
  let ?h = "handle_default\<lparr>ch_flags := flags\<rparr>"
  have add: "chan_inv (s\<lparr>clisteners := ls, chandles := AList.update (cnext_id s) h (chandles s), cnext_id := cnext_id s + 1\<rparr>)"
    if "kind_of h = KListener None [] \<and> ls = clisteners s \<or>
        kind_of h = KListener (Some path) [] \<and> map_of (clisteners s) path = None \<and> ls = AList.update path (cnext_id s) (clisteners s)" for h ls
    using net_add[of "kinds s" "map_of (clisteners s)" "cnext_id s" "kind_of h" "map_of ls" path] that inv n
    by (auto simp: chan_inv_def alist_simps)
  have con: "chan_safe (case chandle s l of None \<Rightarrow> panic s | Some h \<Rightarrow>
      (case connect (cnext_id s) h of Inl e \<Rightarrow> fail e s
       | Inr h' \<Rightarrow> bind_out (post_fevent x l f (set_chandle l h' s)) (\<lambda>_. add_chandle ?h)))"
    if l: "map_of (clisteners s) path = Some l" for l f
  proof -
    obtain h where h: "chandle s l = Some h" using net_okD(3)[OF inv[unfolded chan_inv_def], of path l] l by (auto simp: kmap_def)
    show ?thesis
    proof (cases "connect (cnext_id s) h")
      case (Inl e)
      then show ?thesis using h inv by simp
    next
      case (Inr h')
      then show ?thesis using h x connect_add_safe[OF inv n h Inr, of ?h] by simp
    qed
  qed
  show ?thesis
    using add[of "?h\<lparr>ch_extra := EListener listener_default\<rparr>" "clisteners s"]
      add[of "?h\<lparr>ch_extra := EListener (listener_default\<lparr>ls_path := Some path\<rparr>)\<rparr>"] con inv
    by (auto simp: chan_open_def Let_def add_chandle_def listener_default_def split: option.split)
qed

lemma accept_loop_safe:
  assumes "chan_inv s" and "cnext_id s \<noteq> - 1" and "posts x" and "chandle s i = Some h" and "ch_extra h = EListener l"
    and "ls_awaiting l = pre @ aw"
  shows "chan_safe (accept_loop x i h l aw s)"
  using assms(6)
proof (induction aw arbitrary: pre)
  case Nil
  have "kinds s i = Some (KListener (ls_path l) (ls_awaiting l @ []))" using assms(4,5) by (simp add: kmap_def kind_of_def)
  from net_drop[OF assms(1)[unfolded chan_inv_def] this] show ?case by (simp add: chan_inv_def Let_def)
next
  case (Cons r rest)
  have k: "kinds s i = Some (KListener (ls_path l) (pre @ r # rest))" using assms(4,5) Cons.prems by (simp add: kmap_def kind_of_def)
  note D = net_okD[OF assms(1)[unfolded chan_inv_def]]
  from D(5)[OF k, of r] consider "chandle s r = None" | hr where "chandle s r = Some hr" "kind_of hr = KClient Waiting"
    by (auto simp: kmap_def)
  then show ?case
  proof cases
    case 1
    then show ?thesis using Cons.IH[of "pre @ [r]"] Cons.prems assms(4) by (auto simp: Let_def split: option.split)
  next
    case (2 hr)
    then obtain c where c: "ch_extra hr = EClient c" "cl_remote c = Waiting" by (auto simp: kind_of_def split: extra.splits)
    have ne: "i \<noteq> r" using 2 assms(4,5) by (auto simp: kind_of_def)
    have kr: "kinds s r = Some (KClient Waiting)" using 2 by (simp add: kmap_def)
    from net_accept[OF assms(1)[unfolded chan_inv_def] assms(2) k kr] 2(1) c
    show ?thesis using assms(3) ne by (simp add: Let_def add_chandle_def chan_inv_def)
  qed
qed

lemma chan_dup_safe:
  assumes inv: "chan_inv s" and n: "cnext_id s \<noteq> - 1" and x: "posts x"
  shows "chan_safe (chan_dup x i buf s)"
proof (cases "chandle s i")
  case (Some h)
  have "chan_safe (case require_listener h of Inl e \<Rightarrow> fail e s | Inr l \<Rightarrow> accept_loop x i h l (ls_awaiting l) s)"
    using accept_loop_safe[OF inv n x Some] inv by (auto simp: require_listener_def split: extra.split)
  moreover have "chan_safe (case connect (cnext_id s) h of Inl e \<Rightarrow> fail e s
      | Inr h' \<Rightarrow> bind_out (post_fevent x i f (set_chandle i h' s)) (\<lambda>_. add_chandle handle_default))" for f
    using connect_add_safe[OF inv n Some, of _ handle_default] inv x by (cases "connect (cnext_id s) h") simp_all
  ultimately show ?thesis using Some inv chan_open_safe[OF inv n x] by (simp add: chan_dup_def)
qed (use inv in \<open>simp add: chan_dup_def\<close>)

lemma client_peer:
  assumes inv: "chan_inv s" and h: "chandle s i = Some h" "ch_extra h = EClient c" "cl_remote c = Open j"
  obtains r rc where "chandle s j = Some r" "ch_extra r = EClient rc" "cl_remote rc = Open i" "i \<noteq> j"
proof -
  have "kinds s i = Some (KClient (Open j))" using h by (simp add: kmap_def kind_of_def)
  from net_okD(2)[OF inv[unfolded chan_inv_def] this] have j: "kinds s j = Some (KClient (Open i))" "i \<noteq> j" by simp_all
  then obtain r where r: "chandle s j = Some r" "kind_of r = KClient (Open i)" by (auto simp: kmap_def)
  then show thesis using that j(2) by (cases "ch_extra r") (simp_all add: kind_of_def)
qed

lemma chan_write_safe:
  assumes inv: "chan_inv s" and x: "posts x"
  shows "chan_safe (chan_write x i buf flags s)"
proof (cases "\<exists>h c j. chandle s i = Some h \<and> ch_extra h = EClient c \<and> cl_remote c = Open j")
  case True
  then obtain h c j where h: "chandle s i = Some h" "ch_extra h = EClient c" "cl_remote c = Open j" by blast
  from client_peer[OF inv h] obtain r rc where r: "chandle s j = Some r" "ch_extra r = EClient rc" .
  have "chan_inv (set_chandle j (r\<lparr>ch_extra := EClient (rc\<lparr>cl_buffer := b\<rparr>)\<rparr>) s)" for b
    using chan_inv_same_kind[OF inv r(1)] r(2) by (simp add: kind_of_def)
  then show ?thesis using h r x by (simp add: chan_write_def require_client_def Let_def)
qed (use inv in \<open>auto simp: chan_write_def require_client_def split: option.split extra.split connection.split\<close>)

lemma chan_read_safe:
  assumes inv: "chan_inv s"
  shows "chan_safe (chan_read x i n flags s)"
proof (cases "\<exists>h c. chandle s i = Some h \<and> ch_extra h = EClient c")
  case True
  then obtain h c where h: "chandle s i = Some h" "ch_extra h = EClient c" by blast
  have "chan_inv (set_chandle i (h\<lparr>ch_extra := EClient (c\<lparr>cl_buffer := b\<rparr>)\<rparr>) s)" for b
    using chan_inv_same_kind[OF inv h(1)] h(2) by (simp add: kind_of_def)
  then show ?thesis using h inv by (simp add: chan_read_def require_client_def Let_def)
qed (use inv in \<open>auto simp: chan_read_def require_client_def split: option.split extra.split\<close>)

lemma chan_on_close_safe:
  assumes inv: "chan_inv s" and x: "posts x" and h: "chandle s i = Some h"
  shows "chan_safe (chan_on_close x i s)"
proof -
  note ok = inv[unfolded chan_inv_def]
  have k: "kinds s i = Some (kind_of h)" using h by (simp add: kmap_def)
  show ?thesis
  proof (cases "ch_extra h")
    case (EClient c)
    show ?thesis
    proof (cases "cl_remote c")
      case (Open j)
      from client_peer[OF inv h EClient Open] obtain r rc where r: "chandle s j = Some r" "ch_extra r = EClient rc" "i \<noteq> j" .
      have "kinds s i = Some (KClient (Open j))" using k EClient Open by (simp add: kind_of_def)
      from net_close_peer[OF ok this] show ?thesis using h r x EClient Open
        by (simp add: chan_on_close_def chan_inv_def Let_def alist_simps)
    qed (use net_close[OF ok k _ refl] h EClient in \<open>simp_all add: chan_on_close_def chan_inv_def kind_of_def\<close>)
  next
    case (EListener l)
    then show ?thesis using net_close[OF ok k _ refl] h
      by (cases "ls_path l") (simp_all add: chan_on_close_def chan_inv_def kind_of_def alist_simps)
  next
    case ESchemeRoot
    then show ?thesis using net_close[OF ok k _ refl] h by (simp add: chan_on_close_def chan_inv_def kind_of_def)
  qed
qed

lemma chan_root_safe: "chan_inv s \<Longrightarrow> cnext_id s \<noteq> - 1 \<Longrightarrow> chan_safe (chan_root s)"
  using net_add[of "kinds s" "map_of (clisteners s)" "cnext_id s" KRoot] by (simp add: chan_root_def chan_inv_def Let_def)

lemma chan_fcntl_safe: "chan_inv s \<Longrightarrow> chan_safe (chan_fcntl x i cmd arg s)"
  using chan_inv_same_kind[of s i] by (auto simp: chan_fcntl_def split: option.split)

lemma chan_openat_safe: "chan_inv s \<Longrightarrow> cnext_id s \<noteq> - 1 \<Longrightarrow> posts x \<Longrightarrow> chan_safe (chan_openat x d path flags s)"
  using chan_open_safe by (auto simp: chan_openat_def split: option.split)

section \<open>Reachable states\<close>

datatype chan_req =
    CRoot
  | COpenat u64 bytes u64
  | CDup u64 bytes
  | CWrite u64 bytes u32
  | CRead u64 nat u32
  | CFcntl u64 u64 u64
  | CClose u64

definition chan_step :: "chan_ext \<Rightarrow> chan_scheme \<Rightarrow> chan_req \<Rightarrow> chan_scheme" where
  "chan_step x s r =
     (case r of
        CRoot \<Rightarrow> snd (chan_root s)
      | COpenat d p f \<Rightarrow> snd (chan_openat x d p f s)
      | CDup i b \<Rightarrow> snd (chan_dup x i b s)
      | CWrite i b f \<Rightarrow> snd (chan_write x i b f s)
      | CRead i n f \<Rightarrow> snd (chan_read x i n f s)
      | CFcntl i c a \<Rightarrow> snd (chan_fcntl x i c a s)
      | CClose i \<Rightarrow> snd (chan_on_close x i s))"

text \<open>The kernel closes handles that are open, and handle numbers have not run out.\<close>

definition chan_env :: "chan_scheme \<Rightarrow> chan_req \<Rightarrow> bool" where
  "chan_env s r \<longleftrightarrow> cnext_id s \<noteq> - 1 \<and> (case r of CClose i \<Rightarrow> chandle s i \<noteq> None | _ \<Rightarrow> True)"

definition chan_panics :: "chan_ext \<Rightarrow> chan_scheme \<Rightarrow> chan_req \<Rightarrow> bool" where
  "chan_panics x s r =
     (case r of
        CRoot \<Rightarrow> fst (chan_root s) = Inl Panic
      | COpenat d p f \<Rightarrow> fst (chan_openat x d p f s) = Inl Panic
      | CDup i b \<Rightarrow> fst (chan_dup x i b s) = Inl Panic
      | CWrite i b f \<Rightarrow> fst (chan_write x i b f s) = Inl Panic
      | CRead i n f \<Rightarrow> fst (chan_read x i n f s) = Inl Panic
      | CFcntl i c a \<Rightarrow> fst (chan_fcntl x i c a s) = Inl Panic
      | CClose i \<Rightarrow> fst (chan_on_close x i s) = Inl Panic)"

lemma chan_step_safe:
  assumes "chan_inv s" and "chan_env s r" and "posts x"
  shows "chan_inv (chan_step x s r)" "\<not> chan_panics x s r"
proof -
  note safe = chan_root_safe chan_openat_safe chan_dup_safe chan_write_safe chan_read_safe chan_fcntl_safe chan_on_close_safe
  show "chan_inv (chan_step x s r)" "\<not> chan_panics x s r"
    using assms safe[unfolded chan_safe_def] by (auto simp: chan_step_def chan_panics_def chan_env_def split: chan_req.splits)
qed

lemma chan_new_inv: "chan_inv chan_new"
  by (auto simp: chan_inv_def chan_new_def kmap_def intro!: net_okI)

text \<open>The requests with the result of posting an event.\<close>

interpretation chd: daemon_invariant chan_new "\<lambda>s (x, r). chan_step x s r" "\<lambda>s (x, r). posts x \<and> chan_env s r" chan_inv
  by unfold_locales (auto simp: chan_new_inv chan_step_safe(1))

abbreviation chan_reach :: "chan_scheme \<Rightarrow> bool" where
  "chan_reach \<equiv> reach chan_new (\<lambda>s (x, r). chan_step x s r) (\<lambda>s (x, r). posts x \<and> chan_env s r)"


section \<open>Streams\<close>

definition buf_of :: "chan_handle \<Rightarrow> bytes option" where
  "buf_of h = (case ch_extra h of EClient c \<Rightarrow> Some (cl_buffer c) | _ \<Rightarrow> None)"

definition bmap :: "(u64 \<times> chan_handle) list \<Rightarrow> u64 \<Rightarrow> bytes option" where
  "bmap hs i = Option.bind (map_of hs i) buf_of"

text \<open>The bytes received by a client and not yet read.\<close>

abbreviation unread :: "chan_scheme \<Rightarrow> u64 \<Rightarrow> bytes option" where
  "unread s \<equiv> bmap (chandles s)"

lemma bmap_simps [simp]:
  "bmap (AList.update i h hs) = (bmap hs)(i := buf_of h)" "bmap (AList.delete i hs) = (bmap hs)(i := None)"
  by (auto simp: bmap_def alist_simps fun_eq_iff)

lemma unread_set [simp]: "unread (set_chandle i h s) = (unread s)(i := buf_of h)"
  by (simp add: set_chandle_def)

lemma buf_of_simps [simp]:
  "buf_of (h\<lparr>ch_extra := EClient c\<rparr>) = Some (cl_buffer c)" "buf_of (h\<lparr>ch_extra := EListener l\<rparr>) = None"
  "buf_of (h\<lparr>ch_flags := f\<rparr>) = buf_of h" "buf_of (h\<lparr>ch_path := p\<rparr>) = buf_of h"
  by (simp_all add: buf_of_def)

lemma buf_of_Some: "buf_of h = Some b \<longleftrightarrow> (\<exists>c. ch_extra h = EClient c \<and> cl_buffer c = b)"
  by (cases "ch_extra h") (simp_all add: buf_of_def)

lemma unread_client: "unread s i = Some b \<longleftrightarrow> (\<exists>h c. chandle s i = Some h \<and> ch_extra h = EClient c \<and> cl_buffer c = b)"
  by (auto simp: bmap_def buf_of_Some bind_eq_Some_conv)

lemma unread_number: "chan_inv s \<Longrightarrow> unread s i = Some b \<Longrightarrow> i \<noteq> cnext_id s"
  using net_fresh[of "kinds s" "map_of (clisteners s)" "cnext_id s"] by (auto simp: chan_inv_def unread_client kmap_def)

lemma connect_keeps:
  "connect n h = Inr h' \<Longrightarrow> buf_of h' = None \<and> buf_of h = None"
  by (auto simp: connect_def buf_of_def split: extra.splits)

lemma chan_open_keeps:
  assumes "chan_inv s" and "unread s j = Some b" and "posts x"
  shows "unread (snd (chan_open x path flags s)) j = Some b"
proof -
  have n: "j \<noteq> cnext_id s" using unread_number[OF assms(1,2)] .
  have "unread (set_chandle l h' s) j = Some b" if "chandle s l = Some h" "connect m h = Inr h'" for l m h h'
    using connect_keeps[OF that(2)] that(1) assms(2) by (auto simp: bmap_def)
  then show ?thesis using n assms(2,3)
    by (auto simp: chan_open_def Let_def add_chandle_def split: option.split sum.split)
qed

lemma accept_loop_keeps:
  assumes "chandle s i = Some h" and "ch_extra h = EListener l" and "unread s j = Some b" and "posts x" and "j \<noteq> cnext_id s"
  shows "unread (snd (accept_loop x i h l aw s)) j = Some b"
proof (induction aw)
  case Nil
  have "j \<noteq> i" using assms(1-3) by (auto simp: unread_client)
  then show ?case using assms(3) by (simp add: Let_def)
next
  case (Cons r rest)
  have ji: "j \<noteq> i" using assms(1-3) by (auto simp: unread_client)
  show ?case
  proof (cases "r = i \<or> chandle s r = None")
    case True
    then show ?thesis using Cons assms ji by (auto simp: Let_def)
  next
    case False
    then obtain hr where hr: "chandle s r = Some hr" "r \<noteq> i" by blast
    show ?thesis using assms ji hr by (cases "ch_extra hr") (auto simp: Let_def add_chandle_def bmap_def buf_of_def)
  qed
qed

text \<open>What a request adds to the unread bytes of a client, and what it takes from them.\<close>

definition sent :: "u64 \<Rightarrow> chan_ext \<Rightarrow> chan_scheme \<Rightarrow> chan_req \<Rightarrow> bytes" where
  "sent j x s r =
     (case r of
        CWrite i b f \<Rightarrow>
          if fst (chan_write x i b f s) = Inr (length b) \<and> kinds s i = Some (KClient (Open j)) then b else []
      | _ \<Rightarrow> [])"

definition got :: "u64 \<Rightarrow> chan_ext \<Rightarrow> chan_scheme \<Rightarrow> chan_req \<Rightarrow> bytes" where
  "got j x s r =
     (case r of
        CRead i n f \<Rightarrow> if i = j then (case fst (chan_read x i n f s) of Inr bs \<Rightarrow> bs | Inl _ \<Rightarrow> []) else []
      | _ \<Rightarrow> [])"

lemma write_stream:
  assumes inv: "chan_inv s" and x: "posts x" and j: "unread s j = Some b"
  shows "unread (snd (chan_write x i w f s)) j = Some (b @ sent j x s (CWrite i w f))"
proof (cases "\<exists>h c k. chandle s i = Some h \<and> ch_extra h = EClient c \<and> cl_remote c = Open k")
  case True
  then obtain h c k where h: "chandle s i = Some h" "ch_extra h = EClient c" "cl_remote c = Open k" by blast
  from client_peer[OF inv h] obtain r rc where r: "chandle s k = Some r" "ch_extra r = EClient rc" .
  have "kinds s i = Some (KClient (Open k))" using h by (simp add: kmap_def kind_of_def)
  then show ?thesis using h r x j
    by (auto simp: chan_write_def require_client_def Let_def sent_def unread_client)
next
  case False
  then have "\<nexists>k. kinds s i = Some (KClient (Open k))" by (auto simp: kmap_def kind_of_def split: extra.splits)
  moreover have "snd (chan_write x i w f s) = s"
    using False by (auto simp: chan_write_def require_client_def split: option.split extra.split connection.split)
  ultimately show ?thesis using j by (simp add: sent_def)
qed

lemma read_stream:
  assumes j: "unread s j = Some b"
  shows "\<exists>b'. unread (snd (chan_read x i n f s)) j = Some b' \<and> b = got j x s (CRead i n f) @ b'"
  using assms by (auto simp: chan_read_def require_client_def Let_def got_def unread_client split: option.split extra.split)

lemma close_stream:
  assumes inv: "chan_inv s" and x: "posts x" and j: "unread s j = Some b" and i: "chandle s i = Some h" "i \<noteq> j"
  shows "unread (snd (chan_on_close x i s)) j = Some b"
proof (cases "\<exists>c k. ch_extra h = EClient c \<and> cl_remote c = Open k")
  case True
  then obtain c k where c: "ch_extra h = EClient c" "cl_remote c = Open k" by blast
  from client_peer[OF inv i(1) c] obtain r rc where r: "chandle s k = Some r" "ch_extra r = EClient rc" "i \<noteq> k" .
  then show ?thesis using i c x j by (auto simp: chan_on_close_def Let_def alist_simps unread_client)
next
  case False
  then show ?thesis using i j
    by (cases "ch_extra h") (auto simp: chan_on_close_def Let_def split: connection.split option.split)
qed

lemma step_stream:
  assumes inv: "chan_inv s" and x: "posts x" and env: "chan_env s r" and j: "unread s j = Some b" and r: "r \<noteq> CClose j"
  shows "\<exists>b'. unread (chan_step x s r) j = Some b' \<and> b @ sent j x s r = got j x s r @ b'"
proof (cases r)
  case CRoot
  then show ?thesis using j unread_number[OF inv j] by (simp add: chan_step_def chan_root_def Let_def sent_def got_def)
next
  case (COpenat d p f)
  then show ?thesis using j chan_open_keeps[OF inv j x]
    by (simp add: chan_step_def chan_openat_def sent_def got_def split: option.split)
next
  case (CDup i w)
  have "unread (snd (accept_loop x i h l (ls_awaiting l) s)) j = Some b" if "chandle s i = Some h" "require_listener h = Inr l" for h l
    using accept_loop_keeps[OF that(1) _ j x unread_number[OF inv j]] that(2) by (cases "ch_extra h") (simp_all add: require_listener_def)
  moreover have "unread (set_chandle i h' s) j = Some b" if "chandle s i = Some h" "connect m h = Inr h'" for m h h'
    using connect_keeps[OF that(2)] that(1) j by (auto simp: bmap_def)
  ultimately have "unread (snd (chan_dup x i w s)) j = Some b"
    using j x chan_open_keeps[OF inv j x] unread_number[OF inv j]
    by (auto simp: chan_dup_def add_chandle_def split: option.split sum.split)
  then show ?thesis using CDup by (simp add: chan_step_def sent_def got_def)
next
  case (CWrite i w f)
  then show ?thesis using write_stream[OF inv x j, of i w f] by (simp add: chan_step_def got_def)
next
  case (CRead i n f)
  then show ?thesis using read_stream[OF j, of x i n f] by (auto simp: chan_step_def sent_def)
next
  case (CFcntl i c a)
  then show ?thesis using j by (auto simp: chan_step_def chan_fcntl_def sent_def got_def bmap_def split: option.split)
next
  case (CClose i)
  then show ?thesis using close_stream[OF inv x j] env r
    by (auto simp: chan_step_def sent_def got_def chan_env_def)
qed

fun chan_run :: "(chan_ext \<times> chan_req) list \<Rightarrow> chan_scheme \<Rightarrow> chan_scheme" where
  "chan_run [] s = s"
| "chan_run ((x, r) # rs) s = chan_run rs (chan_step x s r)"

fun run_ok :: "(chan_ext \<times> chan_req) list \<Rightarrow> chan_scheme \<Rightarrow> bool" where
  "run_ok [] s = True"
| "run_ok ((x, r) # rs) s = (posts x \<and> chan_env s r \<and> run_ok rs (chan_step x s r))"

fun all_sent :: "u64 \<Rightarrow> (chan_ext \<times> chan_req) list \<Rightarrow> chan_scheme \<Rightarrow> bytes" where
  "all_sent j [] s = []"
| "all_sent j ((x, r) # rs) s = sent j x s r @ all_sent j rs (chan_step x s r)"

fun all_got :: "u64 \<Rightarrow> (chan_ext \<times> chan_req) list \<Rightarrow> chan_scheme \<Rightarrow> bytes" where
  "all_got j [] s = []"
| "all_got j ((x, r) # rs) s = got j x s r @ all_got j rs (chan_step x s r)"

text \<open>
  C8. A connection is a stream. Over any sequence of requests of any clients during which a client stays
  open, the bytes it reads, followed by the bytes it has not read yet, are the bytes it had not read at the
  start followed by the bytes its peer wrote, in order: nothing is lost, duplicated or mixed with the bytes
  of another connection.
\<close>

theorem chan_stream_fifo:
  assumes "chan_reach s" and "unread s j = Some b" and "run_ok rs s" and "\<forall>r\<in>set rs. snd r \<noteq> CClose j"
  shows "\<exists>b'. unread (chan_run rs s) j = Some b' \<and> all_got j rs s @ b' = b @ all_sent j rs s"
  using chd.reach_inv[OF assms(1)] assms(2-4)
proof (induction rs arbitrary: s b)
  case (Cons xr rs)
  obtain x r where xr: "xr = (x, r)" by (cases xr)
  have p: "posts x" "chan_env s r" "r \<noteq> CClose j" using Cons.prems xr by auto
  obtain b1 where b1: "unread (chan_step x s r) j = Some b1" "b @ sent j x s r = got j x s r @ b1"
    using step_stream[OF Cons.prems(1) p(1,2) Cons.prems(2) p(3)] by blast
  from Cons.IH[OF chan_step_safe(1)[OF Cons.prems(1) p(2,1)] b1(1)] Cons.prems(3,4) xr obtain b2 where
    "unread (chan_run rs (chan_step x s r)) j = Some b2"
    "all_got j rs (chan_step x s r) @ b2 = b1 @ all_sent j rs (chan_step x s r)" by auto
  then show ?case using b1(2) xr by (metis all_got.simps(2) all_sent.simps(2) append.assoc chan_run.simps(2))
qed simp

text \<open>
  The end of a connection. When one side is closed, the other side still reads the bytes that were sent
  to it and then, whatever its flags, the end of the stream; its writes fail with EPIPE. It is told that it can
  read if it had nothing to read before.
\<close>

theorem chan_close_ends_stream:
  assumes "chan_reach s" and "posts x" and "kinds s i = Some (KClient (Open j))" and "chan_on_close x i s = (Inr u, t)"
  shows "unread t j = unread s j \<and>
         chan_write y j w f t = fail EPIPE t \<and>
         (unread s j = Some [] \<longrightarrow> chan_read y j n f t = ok [] t \<and> cposted t = cposted s @ [(j, cx_EVENT_READ x)])"
proof -
  have inv: "chan_inv s" using chd.reach_inv[OF assms(1)] .
  obtain h where h: "chandle s i = Some h" "kind_of h = KClient (Open j)" using assms(3) by (auto simp: kmap_def)
  then obtain c where c: "ch_extra h = EClient c" "cl_remote c = Open j" by (cases "ch_extra h") (auto simp: kind_of_def)
  from client_peer[OF inv h(1) c] obtain r rc where r: "chandle s j = Some r" "ch_extra r = EClient rc" "i \<noteq> j" .
  then show ?thesis using assms(2,4) h c
    by (auto simp: chan_on_close_def Let_def alist_simps chan_write_def chan_read_def require_client_def bmap_def buf_of_def
        split: if_splits)
qed

section \<open>Witnesses\<close>

definition chan_x0 :: chan_ext where
  "chan_x0 =
     \<lparr>cx_O_CREAT = 0x2000000, cx_O_EXCL = 0x8000000, cx_O_NONBLOCK = 0x40000, cx_EVENT_READ = 1, cx_EVENT_WRITE = 2,
      cx_F_GETFL = 3, cx_F_SETFL = 4, write_response = Inr True\<rparr>"

text \<open>A connected pair: root 0, listener 1, client 2 and the accepted client 3.\<close>

definition chan_pair :: chan_scheme where
  "chan_pair =
     chan_run [(chan_x0, CRoot), (chan_x0, COpenat 0 (ascii_bytes ''a'') 0x2000000), (chan_x0, COpenat 0 (ascii_bytes ''a'') 0),
               (chan_x0, CDup 1 (ascii_bytes ''listen''))] chan_new"

lemma chan_run_reach: "chan_reach s \<Longrightarrow> run_ok rs s \<Longrightarrow> chan_reach (chan_run rs s)"
proof (induction rs arbitrary: s)
  case (Cons xr rs)
  obtain x r where xr: "xr = (x, r)" by (cases xr)
  have "chan_reach (chan_step x s r)" using reach_step[OF Cons.prems(1), of "(x, r)"] Cons.prems(2) xr by simp
  then show ?case using Cons.IH Cons.prems(2) xr by simp
qed simp

lemma chan_pair_reach: "chan_reach chan_pair"
  unfolding chan_pair_def by (rule chan_run_reach[OF reach_init]) code_simp


text \<open>Two writes, with reads between and after them.\<close>

definition chan_rs :: "(chan_ext \<times> chan_req) list" where
  "chan_rs = [(chan_x0, CWrite 2 [1, 2] 0), (chan_x0, CRead 3 1 0), (chan_x0, CWrite 2 [3] 0), (chan_x0, CRead 3 8 0)]"

theorem chan_stream_fifo_witness: "all_got 3 chan_rs chan_pair = [1, 2, 3] \<and> all_sent 3 chan_rs chan_pair = [1, 2, 3]"
proof -
  have u: "unread chan_pair 3 = Some []" "run_ok chan_rs chan_pair" "\<forall>r\<in>set chan_rs. snd r \<noteq> CClose 3"
    "all_sent 3 chan_rs chan_pair = [1, 2, 3]" "unread (chan_run chan_rs chan_pair) 3 = Some []"
    by code_simp+
  from chan_stream_fifo[OF chan_pair_reach u(1-3)] u(4,5) show ?thesis by simp
qed

theorem chan_close_ends_stream_witness:
  "\<exists>t. chan_on_close chan_x0 2 chan_pair = (Inr (), t) \<and> chan_write chan_x0 3 [7] 0 t = fail EPIPE t \<and> chan_read chan_x0 3 8 0 t = ok [] t"
proof -
  obtain t where t: "chan_on_close chan_x0 2 chan_pair = (Inr (), t)"
  proof -
    have "fst (chan_on_close chan_x0 2 chan_pair) = Inr ()" by code_simp
    then show ?thesis using that by (metis prod.collapse)
  qed
  have "posts chan_x0" "kinds chan_pair 2 = Some (KClient (Open 3))" "unread chan_pair 3 = Some []" by code_simp+
  with chan_close_ends_stream[OF chan_pair_reach _ _ t, of 3 chan_x0 "[7]" 0 8] t show ?thesis by blast
qed

end
