(* ===== verification/Chan_Loop.thy ===== *)
theory Chan_Loop
  imports Chan_Props
begin

text \<open>
  The channel scheme in the request loop of the ipc daemon: a reader that waits is answered in the round in
  which its peer writes. The last section shows what a failure to post an event leaves behind.
\<close>

unbundle bit_operations_syntax

section \<open>The scheme as the loop sees it\<close>

datatype chan_op =
    OpOpenat u64 bytes u64
  | OpDup u64 bytes
  | OpWrite u64 bytes u32
  | OpRead u64 nat u32
  | OpFpath u64 bytes
  | OpFsync u64
  | OpFcntl u64 u64 u64
  | OpFevent u64

datatype chan_val = VOpen open_result | VLen nat | VBytes bytes | VPath fpath_writer | VUnit | VFlags u64

text \<open>A result of the scheme as a response; \<open>None\<close> is a panic.\<close>

definition respond ::
  "((errno + chan_val) \<Rightarrow> chan_val scheme_response) \<Rightarrow> ('a \<Rightarrow> chan_val) \<Rightarrow> ('a, chan_scheme) outcome
     \<Rightarrow> (chan_val scheme_response \<times> chan_scheme) option" where
  "respond k v r =
     (case r of
        (Inl Panic, s) \<Rightarrow> None
      | (Inl (Errno e), s) \<Rightarrow> Some (k (Inl e), s)
      | (Inr a, s) \<Rightarrow> Some (k (Inr (v a)), s))"

definition answer :: "('a \<Rightarrow> chan_val) \<Rightarrow> errno + 'a \<Rightarrow> chan_val scheme_response" where
  "answer v r = Regular (case r of Inl e \<Rightarrow> Inl e | Inr a \<Rightarrow> Inr (v a))"

definition chan_call :: "chan_ext \<Rightarrow> chan_op \<Rightarrow> chan_scheme \<Rightarrow> (chan_val scheme_response \<times> chan_scheme) option" where
  "chan_call x op s =
     (case op of
        OpOpenat d p f \<Rightarrow> respond Opened VOpen (chan_openat x d p f s)
      | OpDup i w \<Rightarrow> respond Opened VOpen (chan_dup x i w s)
      | OpWrite i w f \<Rightarrow> respond Regular VLen (chan_write x i w f s)
      | OpRead i n f \<Rightarrow> respond Regular VBytes (chan_read x i n f s)
      | OpFpath i w \<Rightarrow> Some (answer VPath (chan_fpath i w s), s)
      | OpFsync i \<Rightarrow> Some (answer (\<lambda>_. VUnit) (chan_fsync i s), s)
      | OpFcntl i c a \<Rightarrow> respond Regular VFlags (chan_fcntl x i c a s)
      | OpFevent i \<Rightarrow> Some (answer VFlags (chan_fevent x i s), s))"

text \<open>
  The operations the scheme does not implement itself, and which calls asked not to block, are those of the
  scheme interface, \<open>base\<close>.
\<close>

definition chan_ops ::
  "chan_ext \<Rightarrow> ('c, chan_op, chan_val, chan_scheme) scheme_ops \<Rightarrow> ('c, chan_op, chan_val, chan_scheme) scheme_ops" where
  "chan_ops x base =
     base\<lparr>so_call := (\<lambda>_ op s. map_option (\<lambda>(r, s1). ((r, op), s1)) (chan_call x op s)),
          so_on_close := (\<lambda>i s. case chan_on_close x i s of (Inl _, _) \<Rightarrow> None | (Inr _, s1) \<Rightarrow> Some s1)\<rparr>"

text \<open>The requests of the previous theory behind a call.\<close>

definition req_of :: "chan_op \<Rightarrow> chan_req option" where
  "req_of op =
     (case op of
        OpOpenat d p f \<Rightarrow> Some (COpenat d p f)
      | OpDup i w \<Rightarrow> Some (CDup i w)
      | OpWrite i w f \<Rightarrow> Some (CWrite i w f)
      | OpRead i n f \<Rightarrow> Some (CRead i n f)
      | OpFcntl i c a \<Rightarrow> Some (CFcntl i c a)
      | _ \<Rightarrow> None)"

lemma respond_eq:
  "fst r \<noteq> Inl Panic \<Longrightarrow> \<exists>v'. respond k v r = Some (v', snd r)"
  by (cases r) (auto simp: respond_def split: sum.split fault.split)

lemma chan_call_step:
  assumes inv: "chan_inv s" and n: "cnext_id s \<noteq> - 1" and x: "posts x"
  shows "\<exists>r. chan_call x op s = Some (r, case req_of op of None \<Rightarrow> s | Some q \<Rightarrow> chan_step x s q)"
proof -
  have np: "\<not> chan_panics x s q" if "\<forall>i. q \<noteq> CClose i" for q
    using chan_step_safe(2)[OF inv _ x, of q] n that by (cases q) (auto simp: chan_env_def)
  show ?thesis
    using np[of "COpenat d p f" for d p f] np[of "CDup i w" for i w] np[of "CWrite i w f" for i w f] np[of "CRead i k f" for i k f]
      np[of "CFcntl i c a" for i c a]
    by (cases op) (simp_all add: chan_call_def req_of_def chan_step_def chan_panics_def respond_eq)
qed

lemma chan_call_inv:
  assumes "chan_inv s" and "cnext_id s \<noteq> - 1" and "posts x" and "chan_call x op s = Some (r, s1)"
  shows "chan_inv s1"
proof -
  have "chan_env s q" if "req_of op = Some q" for q
    using that assms(2) by (cases op) (auto simp: req_of_def chan_env_def)
  then show ?thesis
    using chan_call_step[OF assms(1-3), of op] assms chan_step_safe(1)[OF assms(1) _ assms(3)] by (auto split: option.splits)
qed

lemma chan_open_next:
  "cnext_id (snd (chan_open x p f s)) = cnext_id s \<or> cnext_id (snd (chan_open x p f s)) = cnext_id s + 1"
  by (auto simp: chan_open_def Let_def add_chandle_def post_fevent_def split: option.split sum.split bool.split)

lemma accept_loop_next:
  "cnext_id (snd (accept_loop x i h l aw s)) = cnext_id s \<or> cnext_id (snd (accept_loop x i h l aw s)) = cnext_id s + 1"
proof (induction aw)
  case (Cons r rest)
  then show ?case
    by (auto simp: Let_def add_chandle_def post_fevent_def split: option.split extra.split sum.split bool.split)
qed (simp add: Let_def)

lemma chan_step_next:
  assumes "\<And>i. q \<noteq> CClose i" and "q \<noteq> CRoot"
  shows "cnext_id (chan_step x s q) = cnext_id s \<or> cnext_id (chan_step x s q) = cnext_id s + 1"
proof (cases q)
  case (COpenat d p f)
  then show ?thesis using chan_open_next[of x p f s] by (simp add: chan_step_def chan_openat_def split: option.split)
next
  case (CDup i w)
  then show ?thesis using chan_open_next[of x w _ s] accept_loop_next[of x i _ _ _ s]
    by (auto simp: chan_step_def chan_dup_def add_chandle_def post_fevent_def split: option.split sum.split bool.split)
qed (use assms in \<open>auto simp: chan_step_def chan_write_def chan_read_def chan_fcntl_def Let_def post_fevent_def
    split: option.split sum.split extra.split connection.split bool.split\<close>)

section \<open>Waiting readers\<close>

abbreviation pending :: "('c, chan_op, chan_val) readiness_based \<Rightarrow> nat \<Rightarrow> ('c caller \<times> chan_op) option" where
  "pending b \<equiv> map_of (rb_states b)"

text \<open>Handle numbers last for every waiting request.\<close>

definition room_for :: "nat \<Rightarrow> chan_scheme \<Rightarrow> bool" where
  "room_for n s \<longleftrightarrow> unat (cnext_id s) + n < 2 ^ 64 - 1"

lemma room_next: "room_for n s \<Longrightarrow> cnext_id s \<noteq> - 1"
proof
  assume "room_for n s" "cnext_id s = - 1"
  then have "unat (- 1 :: u64) + n < 2 ^ 64 - 1" by (simp add: room_for_def)
  moreover have "unat (- 1 :: u64) = 2 ^ 64 - 1" by (simp add: unsigned_minus_1_eq_mask mask_eq_exp_minus_1)
  ultimately show False by simp
qed

lemma room_step:
  assumes "room_for (Suc n) s" and "cnext_id t = cnext_id s \<or> cnext_id t = cnext_id s + 1"
  shows "room_for n t"
proof -
  have "unat (cnext_id t) \<le> Suc (unat (cnext_id s))" using assms(2) unatSuc[of "cnext_id s"]
    by (auto simp: unat_word_ariths)
  then show ?thesis using assms(1) by (simp add: room_for_def)
qed

text \<open>One request is tried again.\<close>

lemma poll_chan:
  assumes inv: "chan_inv s" and room: "room_for (Suc n) s" and x: "posts x" and i: "pending b i = Some (c, op)"
    and p: "poll_request (chan_ops x base) i (b, s) = (res, b1, s1)"
  shows "chan_inv s1 \<and> room_for n s1 \<and> res \<noteq> Inl Panic \<and> set (responses_to_write b) \<subseteq> set (responses_to_write b1) \<and>
         s1 = (case req_of op of None \<Rightarrow> s | Some q \<Rightarrow> chan_step x s q) \<and>
         (\<forall>j. j \<noteq> i \<longrightarrow> pending b1 j = pending b j) \<and> (pending b1 i = None \<or> pending b1 i = Some (c, op)) \<and>
         (\<forall>r. chan_call x op s = Some (r, s1) \<and> \<not> blocks r \<longrightarrow> RespOf i r \<in> set (responses_to_write b1))"
proof -
  let ?t = "case req_of op of None \<Rightarrow> s | Some q \<Rightarrow> chan_step x s q"
  obtain r where r: "chan_call x op s = Some (r, ?t)" using chan_call_step[OF inv room_next[OF room] x] by blast
  have "cnext_id ?t = cnext_id s \<or> cnext_id ?t = cnext_id s + 1"
    using chan_step_next[of _ x s] by (cases op) (auto simp: req_of_def)
  then have t: "room_for n ?t" "chan_inv ?t" using room_step[OF room] chan_call_inv[OF inv room_next[OF room] x r] by blast+
  have "s1 = ?t \<and> (if blocks r \<and> \<not> so_nonblock base op
        then res = Inr False \<and> b1 = b\<lparr>rb_states := AList.update i (c, op) (AList.delete i (rb_states b))\<rparr>
        else res = Inr True \<and> b1 = push_response (RespOf i r) (b\<lparr>rb_states := AList.delete i (rb_states b)\<rparr>))"
    using p i r by (auto simp: poll_request_def poll_request_inner_def chan_ops_def)
  then show ?thesis using t r by (auto simp: alist_simps push_response_def split: if_splits)
qed

lemma still_waiting:
  assumes "\<forall>j. j \<noteq> i \<longrightarrow> pending b1 j = pending b j" and "distinct (i # js)" and "set (i # js) \<subseteq> set (waiting b)"
  shows "set js \<subseteq> set (waiting b1)"
proof
  fix j assume j: "j \<in> set js"
  then have "j \<noteq> i" "j \<in> set (waiting b)" using assms(2,3) by auto
  with assms(1) show "j \<in> set (waiting b1)" by (simp add: in_waiting)
qed

lemma poll_others:
  assumes "chan_inv s" and "room_for (length is) s" and "posts x" and "rb_ok b" and "distinct is" and "set is \<subseteq> set (waiting b)"
    and "poll_ready_requests (chan_ops x base) is (b, s) = (res, b1, s1)"
  shows "res = Inr () \<and> set (responses_to_write b) \<subseteq> set (responses_to_write b1)"
  using assms
proof (induction "is" arbitrary: b s)
  case (Cons i js)
  obtain r b2 s2 where 2: "poll_request (chan_ops x base) i (b, s) = (r, b2, s2)" by (metis prod.exhaust)
  obtain c op where i: "pending b i = Some (c, op)" using Cons.prems(6) by (auto simp: in_waiting)
  have room: "room_for (Suc (length js)) s" using Cons.prems(2) by simp
  note pc = poll_chan[OF Cons.prems(1) room Cons.prems(3) i 2]
  have iw: "i \<in> set (waiting b)" using Cons.prems(6) by simp
  from poll_request_keeps[OF Cons.prems(4) iw 2] pc obtain a where a: "r = Inr a" "rb_ok b2" by blast
  have "set js \<subseteq> set (waiting b2)" using still_waiting[OF _ Cons.prems(5,6)] pc by blast
  moreover have "poll_ready_requests (chan_ops x base) js (b2, s2) = (res, b1, s1)" using Cons.prems(7) 2 a by simp
  ultimately show ?case using Cons.IH[of s2 b2] Cons.prems(3,5) pc a(2) by auto
qed simp

lemma read_answers:
  assumes "unread s j = Some (w # ws)" and "0 < n"
  shows "\<exists>bs s1. chan_call x (OpRead j n f) s = Some (Regular (Inr (VBytes (w # bs))), s1)"
  using assms by (cases n) (auto simp: unread_client chan_call_def respond_def chan_read_def require_client_def Let_def)

lemma poll_reader:
  assumes "chan_inv s" and "room_for (length is) s" and "posts x" and "rb_ok b" and "distinct is" and "set is \<subseteq> set (waiting b)"
    and "poll_ready_requests (chan_ops x base) is (b, s) = (res, b1, s1)"
    and "k \<in> set is" and "pending b k = Some (c, OpRead j n f)" and "0 < n" and "unread s j = Some (w # ws)"
    and "\<forall>i c' n' f'. pending b i = Some (c', OpRead j n' f') \<longrightarrow> i = k"
  shows "\<exists>bs. RespOf k (Regular (Inr (VBytes (w # bs)))) \<in> set (responses_to_write b1)"
  using assms
proof (induction "is" arbitrary: b s ws)
  case (Cons i js)
  obtain r b2 s2 where 2: "poll_request (chan_ops x base) i (b, s) = (r, b2, s2)" by (metis prod.exhaust)
  obtain c' op where i: "pending b i = Some (c', op)" using Cons.prems(6) by (auto simp: in_waiting)
  have room: "room_for (Suc (length js)) s" using Cons.prems(2) by simp
  note pc = poll_chan[OF Cons.prems(1) room Cons.prems(3) i 2]
  have iw: "i \<in> set (waiting b)" using Cons.prems(6) by simp
  from poll_request_keeps[OF Cons.prems(4) iw 2] pc obtain a where a: "r = Inr a" "rb_ok b2" by blast
  have js: "set js \<subseteq> set (waiting b2)" using still_waiting[OF _ Cons.prems(5,6)] pc by blast
  have rest: "poll_ready_requests (chan_ops x base) js (b2, s2) = (res, b1, s1)" using Cons.prems(7) 2 a by simp
  show ?case
  proof (cases "i = k")
    case True
    obtain bs where "RespOf k (Regular (Inr (VBytes (w # bs)))) \<in> set (responses_to_write b2)"
    proof -
      have op: "op = OpRead j n f" using i True Cons.prems(9) by simp
      obtain bs t where "chan_call x op s = Some (Regular (Inr (VBytes (w # bs))), t)"
        using read_answers[OF Cons.prems(11,10)] op by blast
      moreover have "t = s2" using calculation chan_call_step[OF Cons.prems(1) room_next[OF room] Cons.prems(3), of op] pc by auto
      ultimately show ?thesis using that[of bs] pc True by (auto simp: blocks_def)
    qed
    with poll_others[OF _ _ Cons.prems(3) a(2) _ js rest] pc Cons.prems(5) show ?thesis by auto
  next
    case False
    have nr: "op \<noteq> OpRead j n' f'" for n' f' using i False Cons.prems(12) by blast
    have u: "\<exists>ws'. unread s2 j = Some (w # ws')"
    proof (cases "req_of op")
      case (Some q)
      have "chan_env s q" "q \<noteq> CClose j" "got j x s q = []"
        using Some room_next[OF room] nr by (cases op; auto simp: req_of_def chan_env_def got_def)+
      with step_stream[OF Cons.prems(1,3) _ Cons.prems(11), of q] pc Some show ?thesis by auto
    qed (use pc Cons.prems(11) in simp)
    then obtain ws' where ws': "unread s2 j = Some (w # ws')" by blast
    have keep: "pending b2 k = Some (c, OpRead j n f)" using pc False Cons.prems(9) by auto
    have only: "\<forall>i' c' n' f'. pending b2 i' = Some (c', OpRead j n' f') \<longrightarrow> i' = k"
    proof (intro allI impI)
      fix i' c' n' f' assume p: "pending b2 i' = Some (c', OpRead j n' f')"
      show "i' = k"
      proof (cases "i' = i")
        case True
        then show ?thesis using p pc nr by auto
      next
        case False
        then have "pending b i' = Some (c', OpRead j n' f')" using p pc by simp
        then show ?thesis using Cons.prems(12) by blast
      qed
    qed
    show ?thesis
      using Cons.IH[OF _ _ Cons.prems(3) a(2) _ js rest _ keep Cons.prems(10) ws' only] pc Cons.prems(5,8) False by auto
  qed
qed simp


section \<open>Events that cannot be posted\<close>

text \<open>The same system, with a socket that does not take the event.\<close>

definition chan_xf :: chan_ext where
  "chan_xf = chan_x0\<lparr>write_response := Inr False\<rparr>"

text \<open>A listener named \<open>a\<close>, a connection to it that fails, and a listener named \<open>b\<close>.\<close>

definition chan_failed :: chan_scheme where
  "chan_failed =
     chan_run [(chan_x0, CRoot), (chan_x0, COpenat 0 (ascii_bytes ''a'') 0x2000000), (chan_xf, COpenat 0 (ascii_bytes ''a'') 0),
               (chan_x0, COpenat 0 (ascii_bytes ''b'') 0x2000000)] chan_new"

text \<open>
  A connection that fails is not undone. When the event for a listener cannot be posted, the request fails
  with EAGAIN but the number of the handle that was not created stays in the queue of the listener. The next
  handle gets that number: if it is a listener, accepting panics the daemon.
\<close>

theorem failed_connect_panics:
  "fst (chan_openat chan_xf 0 (ascii_bytes ''a'') 0
          (chan_run [(chan_x0, CRoot), (chan_x0, COpenat 0 (ascii_bytes ''a'') 0x2000000)] chan_new)) = Inl (Errno EAGAIN) \<and>
   chan_env chan_failed (CDup 1 (ascii_bytes ''listen'')) \<and>
   chan_panics chan_x0 chan_failed (CDup 1 (ascii_bytes ''listen''))"
  by code_simp

section \<open>Witness\<close>

definition base0 :: "(unit, chan_op, chan_val, chan_scheme) scheme_ops" where
  "base0 =
     \<lparr>so_call = (\<lambda>_ _ _. None), so_on_close = (\<lambda>_ _. None), so_on_sendfd = (\<lambda>_ s. Some (Inl EOPNOTSUPP, s)),
      so_on_recvfd = (\<lambda>_ s. Some (Inl EOPNOTSUPP, s)), so_nonblock = (\<lambda>_. False)\<rparr>"

definition caller0 :: "nat \<Rightarrow> unit caller" where
  "caller0 i = \<lparr>caller_id = i, caller_ctx = ()\<rparr>"

definition rb0 :: "(unit, chan_op, chan_val) readiness_based" where
  "rb0 = rb_new\<lparr>rb_states := [(5, caller0 5, OpRead 3 8 0)]\<rparr>"


end
