(* ===== verification/Uds_Msg.thy ===== *)
theory Uds_Msg
  imports Bytes Utf8 Handle_Map
begin

text \<open>
  Messages of Unix domain sockets (\<open>ipcd/src/uds/mod.rs\<close>): what a client hands over for \<open>sendmsg\<close> is read
  into a packet, and a packet is written into the buffer that a client hands over for \<open>recvmsg\<close>. Both are
  byte layouts: lengths are eight bytes, control messages have a level, a type, a length and data.

  The record \<open>udsx\<close> has the constants of the \<open>libc\<close> and \<open>syscall\<close> crates, the numbers of the socket calls
  (\<open>libredox\<close>), the random numbers that become tokens, and the answers of the kernel and of the process
  manager: whether an event is accepted, and the credentials of a process.
\<close>

section \<open>Definitions\<close>

datatype socket_call =
    CBind | CConnect | CSetSockOpt | CGetSockOpt | CSendMsg | CRecvMsg | CUnbind | CGetToken | CGetPeerName | COther

record udsx =
  ux_SOL_SOCKET :: u32
  ux_SCM_RIGHTS :: u32
  ux_SO_PASSCRED :: u32
  ux_SO_SNDBUF :: u32
  ux_SO_DOMAIN :: u32
  ux_SO_PEERCRED :: u32
  ux_AF_UNIX :: u32
  ux_MSG_DONTWAIT :: u32
  ux_O_NONBLOCK :: u64
  ux_O_CREAT :: u64
  ux_F_GETFL :: u64
  ux_F_SETFL :: u64
  ux_EVENT_READ :: u64
  ux_EVENT_WRITE :: u64
  ux_MODE_SOCK :: u16
  ux_socket_call :: "u64 \<Rightarrow> socket_call option"
  ux_ucred :: "u64 \<times> u32 \<times> u32 \<Rightarrow> bytes"
  ux_random :: "nat \<Rightarrow> u64"
  ux_post :: "u64 \<Rightarrow> u64 \<Rightarrow> errno + bool"
  ux_proc_creds :: "u64 \<Rightarrow> errno + bytes"

text \<open>The identity of a caller that the kernel sends along (\<open>CallerCtx\<close>).\<close>

record caller_ctx =
  cc_pid :: u64
  cc_uid :: u32
  cc_gid :: u32

definition SCM_CREDENTIALS :: u32 where "SCM_CREDENTIALS = 2"

definition MAX_DGRAM_MSG_LEN :: nat where "MAX_DGRAM_MSG_LEN = 65536"

definition MIN_RECV_MSG_LEN :: nat where "MIN_RECV_MSG_LEN = 16"

definition CMSG_HEADER_LEN_IN_STREAM :: nat where "CMSG_HEADER_LEN_IN_STREAM = 16"

record credential =
  cr_pid :: u32
  cr_uid :: u32
  cr_gid :: u32

record ancillary_data =
  ad_cred :: credential
  ad_num_fds :: u64
  ad_name :: "bytes option"

record data_packet =
  dp_payload :: bytes
  dp_ancillary :: ancillary_data
  dp_read_offset :: nat
  dp_taken :: bool

definition ancillary_new :: "credential \<Rightarrow> bytes option \<Rightarrow> ancillary_data" where
  "ancillary_new cred name = \<lparr>ad_cred = cred, ad_num_fds = 0, ad_name = name\<rparr>"

definition packet_new :: "bytes \<Rightarrow> ancillary_data \<Rightarrow> data_packet" where
  "packet_new payload a = \<lparr>dp_payload = payload, dp_ancillary = a, dp_read_offset = 0, dp_taken = False\<rparr>"

text \<open>A number of \<open>n\<close> bytes at the start of a buffer.\<close>

definition uds_read_num :: "nat \<Rightarrow> bytes \<Rightarrow> errno + 'a::len word" where
  "uds_read_num n buf = (if length buf \<ge> n then Inr (le_word (take n buf)) else Inl EINVAL)"

subsection \<open>Reading a message\<close>

text \<open>
  The loop over the control messages, on what is left of the buffer: it ends when no header fits. Lengths that
  reach past the buffer make \<open>get\<close> fail, also when the sum with the cursor wraps around.
\<close>

function read_cmsgs :: "udsx \<Rightarrow> bytes \<Rightarrow> u64 \<Rightarrow> errno + u64" where
  "read_cmsgs x rest num_fds =
     (if length rest < CMSG_HEADER_LEN_IN_STREAM then Inr num_fds
      else
        let level = le_word (take 4 rest) :: u32;
            c_type = le_word (take 4 (drop 4 rest)) :: u32;
            data_len = unat (le_word (take 8 (drop 8 rest)) :: u64);
            body = drop CMSG_HEADER_LEN_IN_STREAM rest
        in if data_len > length body then Inl EINVAL
           else if level = ux_SOL_SOCKET x \<and> c_type = ux_SCM_RIGHTS x then
             (case uds_read_num 8 (take data_len body) of
                Inl e \<Rightarrow> Inl e
              | Inr n \<Rightarrow> read_cmsgs x (drop data_len body) (num_fds + n))
           else if level = ux_SOL_SOCKET x \<and> c_type = SCM_CREDENTIALS then read_cmsgs x (drop data_len body) num_fds
           else Inl EOPNOTSUPP)"
  by pat_completeness auto
termination
  by (relation "measure (\<lambda>(_, rest, _). length rest)") (auto simp: CMSG_HEADER_LEN_IN_STREAM_def)

declare read_cmsgs.simps [simp del]

definition from_stream :: "udsx \<Rightarrow> bytes \<Rightarrow> bytes option \<Rightarrow> credential \<Rightarrow> errno + data_packet" where
  "from_stream x stream name cred =
     (case uds_read_num 8 stream of
        Inl e \<Rightarrow> Inl e
      | Inr len \<Rightarrow>
         let payload_len = unat (len :: u64); rest = drop 8 stream in
         if payload_len > length rest then Inl EINVAL
         else
           case read_cmsgs x (drop payload_len rest) 0 of
             Inl e \<Rightarrow> Inl e
           | Inr n \<Rightarrow> Inr (packet_new (take payload_len rest) ((ancillary_new cred name)\<lparr>ad_num_fds := n\<rparr>)))"

text \<open>Three numbers at the start of the buffer of the answer; a buffer that is too short is a slice out of range.\<close>

definition uds_get_uid_gid :: "udsx \<Rightarrow> u64 \<Rightarrow> fault + credential" where
  "uds_get_uid_gid x pid =
     (case ux_proc_creds x pid of
        Inl _ \<Rightarrow> Inl (Errno EINVAL)
      | Inr buffer \<Rightarrow>
         if length buffer < 24 then (if length buffer < 4 \<or> 12 \<le> length buffer \<and> length buffer < 16 then Inl (Errno EINVAL) else Inl Panic)
         else if length buffer < 28 then Inl (Errno EINVAL)
         else Inr \<lparr>cr_pid = le_word (take 4 buffer), cr_uid = le_word (take 4 (drop 12 buffer)), cr_gid = le_word (take 4 (drop 24 buffer))\<rparr>)"

subsection \<open>Writing a message\<close>

text \<open>Bytes written into a buffer at an offset (\<open>copy_from_slice\<close>).\<close>

definition write_at :: "nat \<Rightarrow> bytes \<Rightarrow> bytes \<Rightarrow> bytes" where
  "write_at off d buf = take off buf @ d @ drop (off + length d) buf"

text \<open>The header of the buffer: room for the name, room for the payload, room for control messages. It is cleared.\<close>

definition read_msghdr_info :: "bytes \<Rightarrow> errno + (u64 \<times> u64 \<times> u64) \<times> bytes" where
  "read_msghdr_info stream =
     (if length stream < 24 then Inl EINVAL
      else Inr ((le_word (take 8 stream), le_word (take 8 (drop 8 stream)), le_word (take 8 (drop 16 stream))),
                write_at 0 (replicate 24 0) stream))"

record msg_writer =
  mw_buffer :: bytes
  mw_written :: nat

definition msg_writer_new :: "bytes \<Rightarrow> msg_writer" where
  "msg_writer_new buf = \<lparr>mw_buffer = buf, mw_written = 0\<rparr>"

text \<open>The path of a socket in the file system of its scheme, as far as it fits (\<open>fpath_inner\<close>).\<close>

definition fpath_inner :: "bytes \<Rightarrow> bytes \<Rightarrow> bytes \<Rightarrow> errno + fpath_writer" where
  "fpath_inner scheme path buf = fpath_with buf scheme (\<lambda>w. Inr (push_str path w))"

definition write_name :: "bytes \<Rightarrow> bytes option \<Rightarrow> u64 \<Rightarrow> msg_writer \<Rightarrow> errno + msg_writer" where
  "write_name scheme name name_buf_size w =
     (let buf = mw_buffer w; written = mw_written w in
      if length buf < written + 8 then Inr (w\<lparr>mw_written := length buf\<rparr>)
      else
        case name of
          None \<Rightarrow> Inr (w\<lparr>mw_written := written + 8\<rparr>)
        | Some n \<Rightarrow>
           let copy_len = min (unat name_buf_size) (length buf - written - 8) in
           (case fpath_inner scheme n (take copy_len (drop (written + 8) buf)) of
              Inl e \<Rightarrow> Inl e
            | Inr fw \<Rightarrow>
               Inr \<lparr>mw_buffer = write_at written (le_bytes 8 (of_nat (fw_written fw) :: u64)) (write_at (written + 8) (fw_buf fw) buf),
                    mw_written = written + 8 + fw_written fw\<rparr>))"

definition write_payload :: "bytes \<Rightarrow> nat \<Rightarrow> u64 \<Rightarrow> msg_writer \<Rightarrow> msg_writer" where
  "write_payload payload full_len iov_size w =
     (let buf = mw_buffer w; written = mw_written w in
      if written + 8 > length buf then w\<lparr>mw_written := length buf\<rparr>
      else
        let buf1 = write_at written (le_bytes 8 (of_nat full_len :: u64)) buf;
            copy_len = min (unat iov_size) full_len
        in if written + 8 + copy_len > length buf then \<lparr>mw_buffer = buf1, mw_written = length buf\<rparr>
           else \<lparr>mw_buffer = write_at (written + 8) (take copy_len payload) buf1, mw_written = written + 8 + copy_len\<rparr>)"

text \<open>What does not fit is marked by bytes 1.\<close>

definition write_cmsg :: "u32 \<Rightarrow> u32 \<Rightarrow> bytes \<Rightarrow> msg_writer \<Rightarrow> bool \<times> msg_writer" where
  "write_cmsg level c_type d w =
     (let buf = mw_buffer w; written = mw_written w; room = length buf - written;
          filled = \<lparr>mw_buffer = take written buf @ replicate room 1, mw_written = written + room\<rparr>
      in if written > length buf then (False, w)
         else if room < CMSG_HEADER_LEN_IN_STREAM then (False, filled)
         else if room < CMSG_HEADER_LEN_IN_STREAM + length d then (False, filled)
         else
           (True, \<lparr>mw_buffer = write_at written (le_bytes 4 level @ le_bytes 4 c_type @ le_bytes 8 (of_nat (length d) :: u64) @ d) buf,
                   mw_written = written + CMSG_HEADER_LEN_IN_STREAM + length d\<rparr>))"

definition write_rights :: "udsx \<Rightarrow> u64 \<Rightarrow> msg_writer \<Rightarrow> bool \<times> msg_writer" where
  "write_rights x num_fds w =
     (if num_fds = 0 then (True, w) else write_cmsg (ux_SOL_SOCKET x) (ux_SCM_RIGHTS x) (le_bytes 8 num_fds) w)"

definition write_credentials :: "udsx \<Rightarrow> credential \<Rightarrow> msg_writer \<Rightarrow> bool \<times> msg_writer" where
  "write_credentials x c w =
     write_cmsg (ux_SOL_SOCKET x) SCM_CREDENTIALS (le_bytes 4 (cr_pid c) @ le_bytes 4 (cr_uid c) @ le_bytes 4 (cr_gid c)) w"

definition path_buf_to_str :: "bytes \<Rightarrow> errno + bytes" where
  "path_buf_to_str path_buf = (if utf8_valid path_buf \<and> path_buf \<noteq> [] then Inr path_buf else Inl EINVAL)"

end
