(* ===== verification/Uds_Stream.thy ===== *)
theory Uds_Stream
  imports Uds_Msg
begin

text \<open>
  Stream sockets of the ipc daemon (\<open>ipcd/src/uds/stream.rs\<close>). Sockets are shared by the table of handles, the
  table of bound paths and the table of tokens (\<open>Rc\<close>), so they live in a store; a socket that is borrowed twice
  panics (\<open>RefCell\<close>). Numbers are positions in real buffers unless a client chooses them, which keeps them
  below the width of \<open>usize\<close>.
\<close>

unbundle bit_operations_syntax

section \<open>Definitions\<close>

subsection \<open>Connections\<close>

record uconn =
  uc_peer :: u64
  uc_packets :: "data_packet list"
  uc_fds :: "u64 list"
  uc_peer_shutdown :: bool

definition uconn_new :: "u64 \<Rightarrow> uconn" where
  "uconn_new peer = \<lparr>uc_peer = peer, uc_packets = [], uc_fds = [], uc_peer_shutdown = False\<rparr>"

text \<open>Descriptors leave the queue one by one; when there are too few, those that were there are gone.\<close>

definition uc_drop_fds :: "nat \<Rightarrow> uconn \<Rightarrow> (errno + unit) \<times> uconn" where
  "uc_drop_fds n c = ((if n > length (uc_fds c) then Inl EPROTO else Inr ()), c\<lparr>uc_fds := drop n (uc_fds c)\<rparr>)"

definition uc_can_read :: "uconn \<Rightarrow> bool" where
  "uc_can_read c \<longleftrightarrow> uc_packets c \<noteq> [] \<or> uc_fds c \<noteq> [] \<or> uc_peer_shutdown c"

text \<open>
  The loop that takes bytes out of the packets, up to \<open>room\<close> of them: the bytes, the name and the control data
  of the packets that were touched for the first time, and the packets that are left.
\<close>

fun take_packets :: "nat \<Rightarrow> data_packet list \<Rightarrow> bytes option \<Rightarrow> bytes \<times> bytes option \<times> ancillary_data list \<times> data_packet list" where
  "take_packets room [] name = ([], name, [], [])"
| "take_packets room (p # ps) name =
     (let rem_payload = drop (dp_read_offset p) (dp_payload p);
          copied = take room rem_payload
      in if room = 0 \<or> copied = [] then ([], name, [], p # ps)
         else
           let a = dp_ancillary p;
               name' = (if \<not> dp_taken p \<and> name = None then ad_name a else name);
               p' = (if \<not> dp_taken p then p\<lparr>dp_ancillary := (if name = None then a\<lparr>ad_name := None\<rparr> else a), dp_taken := True\<rparr> else p);
               anc = (if \<not> dp_taken p then [dp_ancillary p'] else []);
               off = dp_read_offset p + length copied
           in if off \<ge> length (dp_payload p) then
                (case take_packets (room - length copied) ps name' of
                   (bs, n, ancs, rest) \<Rightarrow> (copied @ bs, n, anc @ ancs, rest))
              else (copied, name', anc, p'\<lparr>dp_read_offset := off\<rparr> # ps))"

text \<open>The credentials of the packets, until one does not fit.\<close>

fun write_all_credentials :: "udsx \<Rightarrow> ancillary_data list \<Rightarrow> msg_writer \<Rightarrow> bool \<times> msg_writer" where
  "write_all_credentials x [] w = (True, w)"
| "write_all_credentials x (a # as) w =
     (case write_credentials x (ad_cred a) w of
        (False, w') \<Rightarrow> (False, w')
      | (True, w') \<Rightarrow> write_all_credentials x as w')"

fun write_options :: "udsx \<Rightarrow> ancillary_data list \<Rightarrow> u32 list \<Rightarrow> msg_writer \<Rightarrow> errno + msg_writer" where
  "write_options x as [] w = Inr w"
| "write_options x as (opt # opts) w =
     (if opt = ux_SO_PASSCRED x then
        (case write_all_credentials x as w of (False, w') \<Rightarrow> Inr w' | (True, w') \<Rightarrow> write_options x as opts w')
      else Inl EOPNOTSUPP)"

definition uds_stream_name :: bytes where
  "uds_stream_name = ascii_bytes ''uds_stream''"

text \<open>
  The answer to \<open>recvmsg\<close>: the length of the message and the buffer. The buffer for the payload is allocated with
  the size the client asks for, which panics above the largest allocation, \<open>isize::MAX\<close>.
\<close>

definition uc_serialize ::
  "udsx \<Rightarrow> bytes \<Rightarrow> u64 \<Rightarrow> u64 \<Rightarrow> u32 list \<Rightarrow> uconn \<Rightarrow> (fault + nat \<times> bytes) \<times> uconn" where
  "uc_serialize x stream name_buf_size iov_size options c =
     (if unat iov_size \<ge> 2 ^ 63 then (Inl Panic, c)
      else
        case take_packets (unat iov_size) (uc_packets c) None of
          (payload, name, ancs, rest) \<Rightarrow>
            let c1 = c\<lparr>uc_packets := rest\<rparr> in
            (case write_name uds_stream_name name name_buf_size (msg_writer_new stream) of
               Inl e \<Rightarrow> (Inl (Errno e), c1)
             | Inr w1 \<Rightarrow>
                let w2 = write_payload payload (min (length payload) (unat iov_size)) iov_size w1;
                    num_fds = sum_list (map ad_num_fds ancs)
                in case (case write_rights x num_fds w2 of
                           (True, w3) \<Rightarrow> ((Inr (), c1), w3)
                         | (False, w3) \<Rightarrow> (uc_drop_fds (unat num_fds) c1, w3)) of
                     ((Inl e, c2), _) \<Rightarrow> (Inl (Errno e), c2)
                   | ((Inr _, c2), w3) \<Rightarrow>
                      (case write_options x ancs options w3 of
                         Inl e \<Rightarrow> (Inl (Errno e), c2)
                       | Inr w4 \<Rightarrow> (Inr (mw_written w4, mw_buffer w4), c2))))"

subsection \<open>Sockets\<close>

datatype ustate = Unbound | Bound | Listening | Connecting | Accepted | Established | SClosed

record usocket =
  us_primary_id :: u64
  us_path :: "bytes option"
  us_options :: "u32 list"
  us_flags :: u64
  us_state :: ustate
  us_awaiting :: "u64 list"
  us_connection :: "uconn option"
  us_issued_token :: "u64 option"
  us_ucred :: "u64 \<times> u32 \<times> u32"

definition usocket_new :: "u64 \<Rightarrow> bytes option \<Rightarrow> ustate \<Rightarrow> u32 list \<Rightarrow> u64 \<Rightarrow> uconn option \<Rightarrow> caller_ctx \<Rightarrow> usocket" where
  "usocket_new i path st options flags conn ctx =
     \<lparr>us_primary_id = i, us_path = path, us_options = options, us_flags = flags, us_state = st, us_awaiting = [],
      us_connection = conn, us_issued_token = None, us_ucred = (cc_pid ctx, cc_uid ctx, cc_gid ctx)\<rparr>"

definition us_events :: "udsx \<Rightarrow> usocket \<Rightarrow> u64" where
  "us_events x k =
     (case us_connection k of
        None \<Rightarrow> 0
      | Some c \<Rightarrow> (if uc_can_read c then ux_EVENT_READ x else 0) OR ux_EVENT_WRITE x) OR
     (case us_state k of
        Listening \<Rightarrow> if us_awaiting k \<noteq> [] then ux_EVENT_READ x else 0
      | SClosed \<Rightarrow> ux_EVENT_READ x
      | _ \<Rightarrow> 0)"

definition is_listening :: "usocket \<Rightarrow> bool" where
  "is_listening k \<longleftrightarrow> us_state k = Listening"

definition us_accept :: "usocket \<Rightarrow> u64 \<Rightarrow> u64 \<Rightarrow> caller_ctx \<Rightarrow> errno + usocket" where
  "us_accept k i client ctx =
     (if \<not> is_listening k then Inl EINVAL
      else Inr (usocket_new i (us_path k) Established (us_options k) (us_flags k) (Some (uconn_new client)) ctx))"

text \<open>The client and the new socket, after the client was accepted; an error can leave the client changed.\<close>

definition us_establish :: "usocket \<Rightarrow> usocket \<Rightarrow> u64 \<Rightarrow> (errno + unit) \<times> usocket \<times> usocket" where
  "us_establish client new peer =
     (if us_state client \<noteq> Connecting then (Inl EINVAL, client, new)
      else
        let client = client\<lparr>us_state := Accepted\<rparr> in
        case us_connection client of
          None \<Rightarrow> (Inl EAGAIN, client, new)
        | Some c \<Rightarrow>
           if uc_peer c \<noteq> peer then (Inl EAGAIN, client, new)
           else
             (case us_connection new of
                None \<Rightarrow> (Inr (), client\<lparr>us_connection := Some (c\<lparr>uc_peer := us_primary_id new\<rparr>)\<rparr>, new)
              | Some nc \<Rightarrow>
                  (Inr (), client\<lparr>us_connection := Some (c\<lparr>uc_peer := us_primary_id new, uc_packets := []\<rparr>)\<rparr>,
                   new\<lparr>us_connection := Some (nc\<lparr>uc_packets := uc_packets nc @ uc_packets c\<rparr>)\<rparr>)))"

definition connect_unchecked :: "usocket \<Rightarrow> usocket \<Rightarrow> usocket \<times> usocket" where
  "connect_unchecked k client =
     (k\<lparr>us_awaiting := us_awaiting k @ [us_primary_id client]\<rparr>,
      client\<lparr>us_state := Connecting, us_connection := Some (uconn_new (us_primary_id k))\<rparr>)"

definition us_connect :: "udsx \<Rightarrow> usocket \<Rightarrow> usocket \<Rightarrow> errno + usocket \<times> usocket" where
  "us_connect x k client =
     (if us_state k = Unbound \<or> us_state k = Bound then
        (if us_flags client AND ux_O_NONBLOCK x \<noteq> ux_O_NONBLOCK x then Inl EWOULDBLOCK else Inr (connect_unchecked k client))
      else if us_state k = Listening then Inr (connect_unchecked k client)
      else Inl ECONNREFUSED)"

definition nonblock :: "udsx \<Rightarrow> u32 \<Rightarrow> bool" where
  "nonblock x msg_flags \<longleftrightarrow> msg_flags AND ux_MSG_DONTWAIT x = ux_MSG_DONTWAIT x"

definition require_connection :: "usocket \<Rightarrow> errno + uconn" where
  "require_connection k = (case us_connection k of None \<Rightarrow> Inl EPROTO | Some c \<Rightarrow> Inr c)"

definition uds_would_block :: "udsx \<Rightarrow> u64 \<Rightarrow> u32 \<Rightarrow> errno" where
  "uds_would_block x flags msg_flags =
     (if flags AND ux_O_NONBLOCK x = ux_O_NONBLOCK x \<or> nonblock x msg_flags then EAGAIN else EWOULDBLOCK)"

definition require_connected_connection :: "udsx \<Rightarrow> u32 \<Rightarrow> usocket \<Rightarrow> errno + uconn" where
  "require_connected_connection x msg_flags k =
     (case us_state k of
        Established \<Rightarrow> require_connection k
      | Accepted \<Rightarrow> require_connection k
      | Connecting \<Rightarrow> Inl (uds_would_block x (us_flags k) msg_flags)
      | SClosed \<Rightarrow> Inl EPIPE
      | _ \<Rightarrow> Inl ENOTCONN)"

definition start_listening :: "usocket \<Rightarrow> errno + usocket" where
  "start_listening k =
     (if us_state k = Unbound \<or> us_state k = Bound then Inr (k\<lparr>us_state := Listening\<rparr>) else Inl EINVAL)"

definition us_serialize :: "udsx \<Rightarrow> u32 \<Rightarrow> bytes \<Rightarrow> u64 \<Rightarrow> u64 \<Rightarrow> usocket \<Rightarrow> (fault + nat \<times> bytes) \<times> usocket" where
  "us_serialize x msg_flags stream name_buf_size iov_size k =
     (case require_connected_connection x msg_flags k of
        Inl e \<Rightarrow> (Inl (Errno e), k)
      | Inr c \<Rightarrow>
         (case uc_serialize x stream name_buf_size iov_size (us_options k) c of
            (r, c') \<Rightarrow> (r, k\<lparr>us_connection := Some c'\<rparr>)))"

subsection \<open>The scheme\<close>

datatype uhandle = USocket nat | USchemeRoot

record ustream =
  ss_sockets :: "(nat \<times> usocket) list"
  ss_alloc :: nat
  ss_handles :: "(u64 \<times> uhandle) list"
  ss_next_id :: u64
  ss_paths :: "(bytes \<times> nat) list"
  ss_tokens :: "(u64 \<times> nat) list"
  ss_drawn :: nat
  ss_posted :: "(u64 \<times> u64) list"

definition ustream_new :: ustream where
  "ustream_new = \<lparr>ss_sockets = [], ss_alloc = 0, ss_handles = [], ss_next_id = 0, ss_paths = [], ss_tokens = [],
     ss_drawn = 0, ss_posted = []\<rparr>"

text \<open>The socket at an address; addresses in the tables always have one.\<close>

definition sock :: "ustream \<Rightarrow> nat \<Rightarrow> usocket" where
  "sock s a = (case map_of (ss_sockets s) a of
     None \<Rightarrow> usocket_new 0 None Unbound [] 0 None \<lparr>cc_pid = 0, cc_uid = 0, cc_gid = 0\<rparr>
   | Some k \<Rightarrow> k)"

definition set_sock :: "nat \<Rightarrow> usocket \<Rightarrow> ustream \<Rightarrow> ustream" where
  "set_sock a k s = s\<lparr>ss_sockets := AList.update a k (ss_sockets s)\<rparr>"

definition set_conn :: "nat \<Rightarrow> uconn \<Rightarrow> ustream \<Rightarrow> ustream" where
  "set_conn a c s = set_sock a ((sock s a)\<lparr>us_connection := Some c\<rparr>) s"

definition us_post :: "udsx \<Rightarrow> u64 \<Rightarrow> u64 \<Rightarrow> ustream \<Rightarrow> (unit, ustream) outcome" where
  "us_post x i flags s =
     (case ux_post x i flags of
        Inr True \<Rightarrow> ok () (s\<lparr>ss_posted := ss_posted s @ [(i, flags)]\<rparr>)
      | Inr False \<Rightarrow> fail EAGAIN s
      | Inl e \<Rightarrow> fail e s)"

definition get_sock :: "ustream \<Rightarrow> u64 \<Rightarrow> errno + nat" where
  "get_sock s i = (case map_of (ss_handles s) i of Some (USocket a) \<Rightarrow> Inr a | _ \<Rightarrow> Inl EBADF)"

text \<open>A new socket behind a new handle with the given number (\<open>insert_socket\<close> of a new \<open>Rc\<close>).\<close>

definition insert_sock :: "u64 \<Rightarrow> usocket \<Rightarrow> ustream \<Rightarrow> ustream" where
  "insert_sock i k s =
     s\<lparr>ss_sockets := AList.update (ss_alloc s) k (ss_sockets s), ss_alloc := Suc (ss_alloc s),
       ss_handles := AList.update i (USocket (ss_alloc s)) (ss_handles s)\<rparr>"

text \<open>The socket is borrowed while its peer is looked at: a socket that is its own peer would panic.\<close>

definition get_connected_peer :: "ustream \<Rightarrow> u64 \<Rightarrow> fault + u64 \<times> nat" where
  "get_connected_peer s i =
     (case get_sock s i of
        Inl e \<Rightarrow> Inl (Errno e)
      | Inr a \<Rightarrow>
         (case require_connection (sock s a) of
            Inl e \<Rightarrow> Inl (Errno e)
          | Inr c \<Rightarrow>
             (case get_sock s (uc_peer c) of
                Inl _ \<Rightarrow> Inl (Errno EPIPE)
              | Inr b \<Rightarrow>
                 if b = a then Inl Panic
                 else if us_state (sock s b) = SClosed then Inl (Errno ECONNREFUSED)
                 else Inr (uc_peer c, b))))"

definition handle_unnamed_socket :: "u64 \<Rightarrow> caller_ctx \<Rightarrow> ustream \<Rightarrow> u64 \<times> ustream" where
  "handle_unnamed_socket flags ctx s =
     (let i = ss_next_id s in
      (i, (insert_sock i (usocket_new i None Unbound [] flags None ctx) s)\<lparr>ss_next_id := i + 1\<rparr>))"

definition handle_bind :: "udsx \<Rightarrow> u64 \<Rightarrow> bytes \<Rightarrow> ustream \<Rightarrow> (nat, ustream) outcome" where
  "handle_bind x i path_buf s =
     (case path_buf_to_str path_buf of
        Inl e \<Rightarrow> fail e s
      | Inr path \<Rightarrow>
         if map_of (ss_paths s) path \<noteq> None then fail EADDRINUSE s
         else
           case get_sock s i of
             Inl e \<Rightarrow> fail e s
           | Inr a \<Rightarrow>
              if us_state (sock s a) \<noteq> Unbound then fail EINVAL s
              else
                let token = ux_random x (ss_drawn s);
                    k = (sock s a)\<lparr>us_path := Some path, us_state := Bound, us_issued_token := Some token\<rparr>;
                    s1 = (set_sock a k s)\<lparr>ss_drawn := Suc (ss_drawn s)\<rparr>
                in case start_listening k of
                     Inl e \<Rightarrow> fail e s1
                   | Inr k' \<Rightarrow>
                      ok 0 ((set_sock a k' s1)\<lparr>ss_paths := AList.update path a (ss_paths s), ss_tokens := AList.update token a (ss_tokens s)\<rparr>))"

text \<open>A client that connects to itself is borrowed twice.\<close>

definition handle_connect :: "udsx \<Rightarrow> u64 \<Rightarrow> bytes \<Rightarrow> ustream \<Rightarrow> (nat, ustream) outcome" where
  "handle_connect x i token_buf s =
     (case uds_read_num 8 token_buf of
        Inl e \<Rightarrow> fail e s
      | Inr token \<Rightarrow>
         (case map_of (ss_tokens s) token of
            None \<Rightarrow> fail ECONNREFUSED s
          | Some l \<Rightarrow>
             (case get_sock s i of
                Inl e \<Rightarrow> fail e s
              | Inr a \<Rightarrow>
                 if a = l then panic s
                 else
                   let client = sock s a; listener = sock s l;
                       connecting = (if us_flags client AND ux_O_NONBLOCK x = ux_O_NONBLOCK x then EAGAIN else EWOULDBLOCK);
                       phase2 = (case us_connect x listener client of
                           Inl e \<Rightarrow> fail e s
                         | Inr (l', c') \<Rightarrow>
                             bind_out (us_post x (us_primary_id listener) (ux_EVENT_READ x OR ux_EVENT_WRITE x) (set_sock a c' (set_sock l l' s)))
                               (\<lambda>_. fail connecting))
                   in case us_state client of
                        Connecting \<Rightarrow>
                          (case us_connection client of
                             None \<Rightarrow> phase2
                           | Some c \<Rightarrow> if uc_peer c = us_primary_id listener then fail connecting s else phase2)
                      | Established \<Rightarrow> fail EISCONN s
                      | Accepted \<Rightarrow> ok 0 (set_sock a (client\<lparr>us_state := Established\<rparr>) s)
                      | _ \<Rightarrow> phase2)))"

definition handle_setsockopt :: "udsx \<Rightarrow> u64 \<Rightarrow> u32 \<Rightarrow> bytes \<Rightarrow> ustream \<Rightarrow> (nat, ustream) outcome" where
  "handle_setsockopt x i opt value_slice s =
     (case get_sock s i of
        Inl e \<Rightarrow> fail e s
      | Inr a \<Rightarrow>
         if opt = ux_SO_PASSCRED x then
           (case uds_read_num 4 value_slice of
              Inl e \<Rightarrow> fail e s
            | Inr v \<Rightarrow>
               let k = sock s a in
               ok (length value_slice)
                 (set_sock a (k\<lparr>us_options := (if (v :: u32) \<noteq> 0 then List.insert opt (us_options k) else removeAll opt (us_options k))\<rparr>) s))
         else if opt = ux_SO_SNDBUF x then ok 0 s
         else fail ENOPROTOOPT s)"

definition write_value :: "bytes \<Rightarrow> bytes \<Rightarrow> errno + nat \<times> bytes" where
  "write_value payload v =
     (if length payload < length v then Inl ENOBUFS else Inr (length v, write_at 0 v (replicate (length payload) 0)))"

definition handle_getsockopt :: "udsx \<Rightarrow> u64 \<Rightarrow> u32 \<Rightarrow> bytes \<Rightarrow> ustream \<Rightarrow> fault + nat \<times> bytes" where
  "handle_getsockopt x i opt payload s =
     (let wv = (\<lambda>v. case write_value payload v of Inl e \<Rightarrow> Inl (Errno e) | Inr r \<Rightarrow> Inr r) in
      if opt = ux_SO_DOMAIN x then wv (le_bytes 4 (ux_AF_UNIX x))
      else if opt = ux_SO_PEERCRED x then
        (case get_connected_peer s i of Inl f \<Rightarrow> Inl f | Inr (_, b) \<Rightarrow> wv (ux_ucred x (us_ucred (sock s b))))
      else if opt = ux_SO_SNDBUF x then wv (le_bytes 4 (212992 :: u32))
      else Inl (Errno ENOPROTOOPT))"

definition handle_sendmsg :: "udsx \<Rightarrow> u64 \<Rightarrow> u32 \<Rightarrow> bytes \<Rightarrow> caller_ctx \<Rightarrow> ustream \<Rightarrow> (nat, ustream) outcome" where
  "handle_sendmsg x i msg_flags stream ctx s =
     (if stream = [] then fail EINVAL s
      else
        case get_sock s i of
          Inl e \<Rightarrow> fail e s
        | Inr a \<Rightarrow>
           (case get_connected_peer s i of
              Inl f \<Rightarrow> (Inl f, s)
            | Inr (remote_id, b) \<Rightarrow>
               (case require_connected_connection x msg_flags (sock s b) of
                  Inl e \<Rightarrow> fail e s
                | Inr c \<Rightarrow>
                   (case uds_get_uid_gid x (cc_pid ctx) of
                      Inl f \<Rightarrow> (Inl f, s)
                    | Inr cred \<Rightarrow>
                       (case from_stream x stream (us_path (sock s a)) cred of
                          Inl e \<Rightarrow> fail e s
                        | Inr p \<Rightarrow>
                           if dp_payload p = [] then ok 0 s
                           else
                             bind_out (us_post x remote_id (ux_EVENT_READ x) (set_conn b (c\<lparr>uc_packets := uc_packets c @ [p]\<rparr>) s))
                               (\<lambda>_. ok (length (dp_payload p))))))))"

definition write_eof :: "bytes \<Rightarrow> errno + nat \<times> bytes" where
  "write_eof buf =
     (if length buf < MIN_RECV_MSG_LEN then Inl EINVAL
      else Inr (MIN_RECV_MSG_LEN, write_at 0 (replicate MIN_RECV_MSG_LEN 0) buf))"

definition recvmsg_inner :: "udsx \<Rightarrow> u32 \<Rightarrow> bytes \<Rightarrow> usocket \<Rightarrow> (fault + nat \<times> bytes) \<times> usocket" where
  "recvmsg_inner x msg_flags stream k =
     (case read_msghdr_info stream of
        Inl e \<Rightarrow> (Inl (Errno e), k)
      | Inr ((name_len, iov_size, _), stream') \<Rightarrow> us_serialize x msg_flags stream' name_len iov_size k)"

definition handle_recvmsg :: "udsx \<Rightarrow> u64 \<Rightarrow> u32 \<Rightarrow> bytes \<Rightarrow> ustream \<Rightarrow> (nat \<times> bytes, ustream) outcome" where
  "handle_recvmsg x i msg_flags stream s =
     (let eof = (case write_eof stream of Inl e \<Rightarrow> fail e s | Inr r \<Rightarrow> ok r s) in
      case get_sock s i of
        Inl e \<Rightarrow> fail e s
      | Inr a \<Rightarrow>
         (let k = sock s a in
          if us_state k = Established \<or> us_state k = Accepted then
            (case require_connection k of
               Inl e \<Rightarrow> fail e s
             | Inr c \<Rightarrow>
                if uc_packets c = [] then
                  (if uc_peer_shutdown c then eof else fail (uds_would_block x (us_flags k) msg_flags) s)
                else (case recvmsg_inner x msg_flags stream k of (r, k') \<Rightarrow> (r, set_sock a k' s)))
          else if us_state k = SClosed then eof
          else if us_state k = Listening then fail EOPNOTSUPP s
          else fail ENOTCONN s))"

definition handle_unbind :: "u64 \<Rightarrow> ustream \<Rightarrow> (nat, ustream) outcome" where
  "handle_unbind i s =
     (case get_sock s i of
        Inl e \<Rightarrow> fail e s
      | Inr a \<Rightarrow>
         let k = sock s a in
         if us_state k \<noteq> Bound then fail EINVAL s
         else
           let s1 = set_sock a (k\<lparr>us_state := Unbound, us_path := None\<rparr>) s in
           ok 0 (case us_path k of None \<Rightarrow> s1 | Some p \<Rightarrow> s1\<lparr>ss_paths := AList.delete p (ss_paths s1)\<rparr>))"

definition handle_get_token :: "u64 \<Rightarrow> bytes \<Rightarrow> ustream \<Rightarrow> errno + nat \<times> bytes" where
  "handle_get_token i payload s =
     (case get_sock s i of
        Inl e \<Rightarrow> Inl e
      | Inr a \<Rightarrow>
         (case us_issued_token (sock s a) of
            None \<Rightarrow> Inl EINVAL
          | Some token \<Rightarrow> if length payload < 8 then Inl ENOBUFS else Inr (8, write_at 0 (le_bytes 8 token) payload)))"

definition fpath_result :: "bytes \<Rightarrow> bytes option \<Rightarrow> bytes \<Rightarrow> errno + nat \<times> bytes" where
  "fpath_result scheme path buf =
     (case fpath_inner scheme (case path of None \<Rightarrow> [] | Some p \<Rightarrow> p) buf of
        Inl e \<Rightarrow> Inl e
      | Inr w \<Rightarrow> Inr (fw_written w, fw_buf w))"

definition handle_get_peer_name :: "u64 \<Rightarrow> bytes \<Rightarrow> ustream \<Rightarrow> fault + nat \<times> bytes" where
  "handle_get_peer_name i payload s =
     (case get_connected_peer s i of
        Inl f \<Rightarrow> Inl f
      | Inr (_, b) \<Rightarrow>
         (case fpath_result uds_stream_name (us_path (sock s b)) payload of Inl e \<Rightarrow> Inl (Errno e) | Inr r \<Rightarrow> Inr r))"

text \<open>
  Accepting one client; \<open>None\<close> when it is gone. The listener, at address \<open>l\<close>, is borrowed meanwhile. The new
  socket is in the table before the event for the client is posted.
\<close>

definition accept_connection :: "udsx \<Rightarrow> nat \<Rightarrow> u64 \<Rightarrow> caller_ctx \<Rightarrow> ustream \<Rightarrow> (u64 option, ustream) outcome" where
  "accept_connection x l client_id ctx s =
     (case get_sock s client_id of
        Inl _ \<Rightarrow> ok None s
      | Inr c \<Rightarrow>
         let new_id = ss_next_id s in
         case us_accept (sock s l) new_id client_id ctx of
           Inl e \<Rightarrow> fail e s
         | Inr new \<Rightarrow>
            if c = l then panic s
            else
              (case us_establish (sock s c) new (us_primary_id (sock s l)) of
                 (Inl e, client', _) \<Rightarrow> fail e (set_sock c client' s)
               | (Inr _, client', new') \<Rightarrow>
                  bind_out
                    (us_post x client_id (ux_EVENT_READ x OR ux_EVENT_WRITE x)
                      (insert_sock new_id new' ((set_sock c client' s)\<lparr>ss_next_id := new_id + 1\<rparr>)))
                    (\<lambda>_. ok (Some new_id))))"

text \<open>
  The loops of \<open>handle_accept\<close> and \<open>handle_listen\<close> over the clients that wait: a client whose connection fails
  with \<open>EAGAIN\<close> is skipped by the first loop, one that is gone by the second.
\<close>

fun accept_waiting :: "udsx \<Rightarrow> nat \<Rightarrow> caller_ctx \<Rightarrow> u64 list \<Rightarrow> ustream \<Rightarrow> (u64, ustream) outcome" where
  "accept_waiting x l ctx [] s =
     fail (if us_flags (sock s l) AND ux_O_NONBLOCK x = ux_O_NONBLOCK x then EAGAIN else EWOULDBLOCK) s"
| "accept_waiting x l ctx (client_id # clients) s =
     (case accept_connection x l client_id ctx (set_sock l ((sock s l)\<lparr>us_awaiting := clients\<rparr>) s) of
        (Inr (Some i), t) \<Rightarrow> ok i t
      | (Inr None, t) \<Rightarrow> accept_waiting x l ctx clients t
      | (Inl (Errno e), t) \<Rightarrow> if e = EAGAIN then accept_waiting x l ctx clients t else fail e t
      | (Inl Panic, t) \<Rightarrow> panic t)"

definition handle_start_listening :: "nat \<Rightarrow> ustream \<Rightarrow> (unit, ustream) outcome" where
  "handle_start_listening a s =
     (case start_listening (sock s a) of
        Inl e \<Rightarrow> fail e s
      | Inr k \<Rightarrow>
         let s1 = set_sock a k s in
         case us_path k of
           None \<Rightarrow> ok () s1
         | Some p \<Rightarrow>
            (case map_of (ss_paths s1) p of
               Some b \<Rightarrow> if b \<noteq> a then fail EADDRINUSE s1 else ok () (s1\<lparr>ss_paths := AList.update p a (ss_paths s1)\<rparr>)
             | None \<Rightarrow> ok () (s1\<lparr>ss_paths := AList.update p a (ss_paths s1)\<rparr>)))"

definition handle_listen :: "udsx \<Rightarrow> u64 \<Rightarrow> caller_ctx \<Rightarrow> ustream \<Rightarrow> (u64, ustream) outcome" where
  "handle_listen x i ctx s =
     (case get_sock s i of
        Inl e \<Rightarrow> fail e s
      | Inr a \<Rightarrow>
         if is_listening (sock s a) then accept_waiting x a ctx (us_awaiting (sock s a)) s
         else bind_out (handle_start_listening a s) (\<lambda>_ t. accept_waiting x a ctx (us_awaiting (sock t a)) t))"

definition handle_connect_socketpair :: "udsx \<Rightarrow> u64 \<Rightarrow> caller_ctx \<Rightarrow> ustream \<Rightarrow> (u64, ustream) outcome" where
  "handle_connect_socketpair x i ctx s =
     (case get_sock s i of
        Inl e \<Rightarrow> fail e s
      | Inr a \<Rightarrow>
         let new_id = ss_next_id s; k = sock s a; new = usocket_new new_id None Unbound [] (us_flags k) None ctx in
         if us_state k = SClosed then fail EPIPE s
         else
           case connect_unchecked k new of
             (k', new') \<Rightarrow>
               bind_out (us_post x i (ux_EVENT_READ x OR ux_EVENT_WRITE x) (set_sock a k' s))
                 (\<lambda>_ t. ok new_id ((insert_sock new_id new' t)\<lparr>ss_next_id := new_id + 1\<rparr>)))"

definition handle_recvfd :: "udsx \<Rightarrow> u64 \<Rightarrow> ustream \<Rightarrow> (u64, ustream) outcome" where
  "handle_recvfd x i s =
     (case get_sock s i of
        Inl e \<Rightarrow> fail e s
      | Inr a \<Rightarrow>
         let k = sock s a in
         if us_state k = Established \<or> us_state k = Accepted then
           (case require_connected_connection x 0 k of
              Inl e \<Rightarrow> fail e s
            | Inr c \<Rightarrow>
               (case uc_fds c of
                  [] \<Rightarrow> fail EWOULDBLOCK s
                | fd # fds \<Rightarrow> ok fd (set_conn a (c\<lparr>uc_fds := fds\<rparr>) s)))
         else if us_state k = SClosed then fail EPIPE s
         else if us_state k = Listening then fail EOPNOTSUPP s
         else fail ENOTCONN s)"

text \<open>
  Data for a listener that has not accepted the sender yet waits in the connection of the sender. The name in the
  packet is the one of the receiver.
\<close>

definition write_inner :: "udsx \<Rightarrow> u64 \<Rightarrow> u64 \<Rightarrow> bytes \<Rightarrow> caller_ctx \<Rightarrow> ustream \<Rightarrow> (nat, ustream) outcome" where
  "write_inner x sender receiver buf ctx s =
     (case get_sock s receiver of
        Inl e \<Rightarrow> fail e s
      | Inr b \<Rightarrow>
         let name = us_path (sock s b);
             target = (if is_listening (sock s b) then
                         (case get_sock s sender of
                            Inl e \<Rightarrow> Inl (Errno e)
                          | Inr a \<Rightarrow>
                             if a = b then Inl Panic
                             else (case require_connection (sock s a) of Inl e \<Rightarrow> Inl (Errno e) | Inr c \<Rightarrow> Inr (a, c)))
                       else (case require_connected_connection x 0 (sock s b) of Inl e \<Rightarrow> Inl (Errno e) | Inr c \<Rightarrow> Inr (b, c)))
         in case target of
              Inl f \<Rightarrow> (Inl f, s)
            | Inr (t, c) \<Rightarrow>
               let p = packet_new buf (ancillary_new \<lparr>cr_pid = ucast (cc_pid ctx), cr_uid = cc_uid ctx, cr_gid = cc_gid ctx\<rparr> name);
                   s1 = (if buf = [] then s else set_conn t (c\<lparr>uc_packets := uc_packets c @ [p]\<rparr>) s)
               in bind_out (us_post x receiver (ux_EVENT_READ x) s1) (\<lambda>_. ok (length buf)))"

text \<open>\<open>got\<close> are the descriptors the kernel hands over, or its error.\<close>

definition sendfd_inner :: "udsx \<Rightarrow> u64 \<Rightarrow> errno + u64 list \<Rightarrow> ustream \<Rightarrow> (nat, ustream) outcome" where
  "sendfd_inner x receiver got s =
     (case got of
        Inl e \<Rightarrow> fail e s
      | Inr fds \<Rightarrow>
         (case get_sock s receiver of
            Inl e \<Rightarrow> fail e s
          | Inr b \<Rightarrow>
             (case require_connected_connection x 0 (sock s b) of
                Inl e \<Rightarrow> fail e s
              | Inr c \<Rightarrow>
                 bind_out (us_post x receiver (ux_EVENT_READ x) (set_conn b (c\<lparr>uc_fds := uc_fds c @ fds\<rparr>) s))
                   (\<lambda>_. ok (length fds)))))"

datatype recvfd_result = Received "u64 list" | RecvWouldBlock

text \<open>\<open>moved\<close> says whether the kernel takes the descriptors.\<close>

definition recvfd_inner :: "udsx \<Rightarrow> u64 \<Rightarrow> nat \<Rightarrow> bool \<Rightarrow> ustream \<Rightarrow> (recvfd_result, ustream) outcome" where
  "recvfd_inner x i num_fds moved s =
     (case get_sock s i of
        Inl e \<Rightarrow> fail e s
      | Inr a \<Rightarrow>
         let k = sock s a in
         if num_fds = 0 then ok (Received []) s
         else if us_state k = Established \<or> us_state k = Accepted then
           (case require_connected_connection x 0 k of
              Inl e \<Rightarrow> fail e s
            | Inr c \<Rightarrow>
               if length (uc_fds c) < num_fds then
                 (if uc_peer_shutdown c then ok (Received []) s
                  else if us_flags k AND ux_O_NONBLOCK x = ux_O_NONBLOCK x then fail EAGAIN s
                  else ok RecvWouldBlock s)
               else
                 let s1 = set_conn a (c\<lparr>uc_fds := drop num_fds (uc_fds c)\<rparr>) s in
                 if moved then ok (Received (take num_fds (uc_fds c))) s1 else fail EPROTO s1)
         else if us_state k = SClosed then fail EPIPE s
         else if us_state k = Listening then fail EOPNOTSUPP s
         else fail ENOTCONN s)"

text \<open>The loop of \<open>read_inner\<close>, as in \<open>take_packets\<close> but without control data.\<close>

fun read_packets :: "nat \<Rightarrow> data_packet list \<Rightarrow> bytes \<times> data_packet list" where
  "read_packets room [] = ([], [])"
| "read_packets room (p # ps) =
     (let copied = take room (drop (dp_read_offset p) (dp_payload p)) in
      if room = 0 \<or> copied = [] then ([], p # ps)
      else
        let p' = (if dp_read_offset p = 0 then p\<lparr>dp_taken := True\<rparr> else p);
            off = dp_read_offset p + length copied
        in if off \<ge> length (dp_payload p) then
             (case read_packets (room - length copied) ps of (bs, rest) \<Rightarrow> (copied @ bs, rest))
           else (copied, p'\<lparr>dp_read_offset := off\<rparr> # ps))"

definition read_inner :: "udsx \<Rightarrow> nat \<Rightarrow> u32 \<Rightarrow> uconn \<Rightarrow> (errno + bytes) \<times> uconn" where
  "read_inner x room flags c =
     (case read_packets room (uc_packets c) of
        (bs, rest) \<Rightarrow>
          ((if bs \<noteq> [] then Inr bs
            else if uc_peer_shutdown c then Inr []
            else if ucast flags AND ux_O_NONBLOCK x = ux_O_NONBLOCK x then Inl EAGAIN
            else Inl EWOULDBLOCK), c\<lparr>uc_packets := rest\<rparr>))"

text \<open>The clients that wait for a listener that goes away; the result of posting the event is ignored.\<close>

fun close_waiting :: "udsx \<Rightarrow> nat \<Rightarrow> u64 list \<Rightarrow> ustream \<Rightarrow> (unit, ustream) outcome" where
  "close_waiting x l [] s = ok () s"
| "close_waiting x l (client_id # clients) s =
     (case get_sock s client_id of
        Inl _ \<Rightarrow> close_waiting x l clients s
      | Inr c \<Rightarrow>
         if c = l then panic s
         else close_waiting x l clients (snd (us_post x client_id (ux_EVENT_READ x) (set_sock c ((sock s c)\<lparr>us_state := SClosed\<rparr>) s))))"

text \<open>The path and the token of a socket leave the tables.\<close>

definition forget_names :: "usocket \<Rightarrow> ustream \<Rightarrow> ustream" where
  "forget_names k s =
     (let s1 = (case us_path k of None \<Rightarrow> s | Some p \<Rightarrow> s\<lparr>ss_paths := AList.delete p (ss_paths s)\<rparr>)
      in case us_issued_token k of None \<Rightarrow> s1 | Some t \<Rightarrow> s1\<lparr>ss_tokens := AList.delete t (ss_tokens s1)\<rparr>)"

definition handle_listening_closure :: "udsx \<Rightarrow> nat \<Rightarrow> ustream \<Rightarrow> (unit, ustream) outcome" where
  "handle_listening_closure x a s = close_waiting x a (us_awaiting (sock s a)) (forget_names (sock s a) s)"

definition close_sock :: "nat \<Rightarrow> ustream \<Rightarrow> (unit, ustream) outcome" where
  "close_sock a s =
     (let k = sock s a in ok () (set_sock a (k\<lparr>us_path := None, us_state := SClosed\<rparr>) (forget_names k s)))"

text \<open>A connected socket whose peer is gone returns early and keeps its path, its token and its state.\<close>

definition handle_other_closure :: "udsx \<Rightarrow> nat \<Rightarrow> ustream \<Rightarrow> (unit, ustream) outcome" where
  "handle_other_closure x a s =
     (if us_state (sock s a) = Established \<or> us_state (sock s a) = Accepted then
        (case require_connection (sock s a) of
           Inl _ \<Rightarrow> ok () s
         | Inr c \<Rightarrow>
            (case get_sock s (uc_peer c) of
               Inl _ \<Rightarrow> ok () s
             | Inr b \<Rightarrow>
                if b = a then panic s
                else
                  (case require_connection (sock s b) of
                     Inl _ \<Rightarrow> ok () s
                   | Inr d \<Rightarrow>
                       close_sock a (snd (us_post x (us_primary_id (sock s b)) (ux_EVENT_READ x) (set_conn b (d\<lparr>uc_peer_shutdown := True\<rparr>) s))))))
      else close_sock a s)"

text \<open>
  Socket calls. The first word of the metadata is the call; the second, where a call has one, is an option or the
  flags of a message. The answer is a number and the buffer of the client.
\<close>

definition call_inner :: "udsx \<Rightarrow> u64 \<Rightarrow> bytes \<Rightarrow> u64 list \<Rightarrow> caller_ctx \<Rightarrow> ustream \<Rightarrow> (nat \<times> bytes, ustream) outcome" where
  "call_inner x i payload metadata ctx s =
     (let with_buf = (\<lambda>r. bind_out r (\<lambda>n. ok (n, payload)));
          pure = (\<lambda>r. case r of Inl f \<Rightarrow> (Inl f, s) | Inr v \<Rightarrow> ok v s);
          opt = (case metadata of _ # v # _ \<Rightarrow> Some (ucast v :: u32) | _ \<Rightarrow> None);
          msg_flags = (case opt of None \<Rightarrow> 0 | Some v \<Rightarrow> v)
      in case metadata of
           [] \<Rightarrow> fail EINVAL s
         | raw # _ \<Rightarrow>
            (case ux_socket_call x raw of
               None \<Rightarrow> fail EINVAL s
             | Some CBind \<Rightarrow> with_buf (handle_bind x i payload s)
             | Some CConnect \<Rightarrow> with_buf (handle_connect x i payload s)
             | Some CSetSockOpt \<Rightarrow>
                 (case opt of None \<Rightarrow> fail EINVAL s | Some v \<Rightarrow> with_buf (handle_setsockopt x i v payload s))
             | Some CGetSockOpt \<Rightarrow> (case opt of None \<Rightarrow> fail EINVAL s | Some v \<Rightarrow> pure (handle_getsockopt x i v payload s))
             | Some CSendMsg \<Rightarrow> with_buf (handle_sendmsg x i msg_flags payload ctx s)
             | Some CRecvMsg \<Rightarrow> handle_recvmsg x i msg_flags payload s
             | Some CUnbind \<Rightarrow> with_buf (handle_unbind i s)
             | Some CGetToken \<Rightarrow> (case handle_get_token i payload s of Inl e \<Rightarrow> fail e s | Inr v \<Rightarrow> ok v s)
             | Some CGetPeerName \<Rightarrow> pure (handle_get_peer_name i payload s)
             | Some COther \<Rightarrow> fail EOPNOTSUPP s))"

definition us_root :: "ustream \<Rightarrow> u64 \<times> ustream" where
  "us_root s =
     (let i = ss_next_id s in (i, s\<lparr>ss_handles := AList.update i USchemeRoot (ss_handles s), ss_next_id := i + 1\<rparr>))"

definition us_openat :: "udsx \<Rightarrow> u64 \<Rightarrow> bytes \<Rightarrow> u64 \<Rightarrow> u32 \<Rightarrow> caller_ctx \<Rightarrow> ustream \<Rightarrow> (u64, ustream) outcome" where
  "us_openat x fd path flags fcntl_flags ctx s =
     (case map_of (ss_handles s) fd of
        None \<Rightarrow> fail EBADF s
      | Some h \<Rightarrow>
         if h \<noteq> USchemeRoot then fail EACCES s
         else
           let flags = flags OR ucast fcntl_flags in
           if path \<noteq> [] then fail EINVAL s
           else if flags AND ux_O_CREAT x \<noteq> ux_O_CREAT x then fail EINVAL s
           else (case handle_unnamed_socket flags ctx s of (i, t) \<Rightarrow> ok i t))"

datatype udup_result = UThisScheme u64 | UOtherScheme u64

definition us_dup :: "udsx \<Rightarrow> u64 \<Rightarrow> bytes \<Rightarrow> caller_ctx \<Rightarrow> ustream \<Rightarrow> (udup_result, ustream) outcome" where
  "us_dup x i buf ctx s =
     (if buf = ascii_bytes ''listen'' then bind_out (handle_listen x i ctx s) (\<lambda>n. ok (UThisScheme n))
      else if buf = ascii_bytes ''connect'' then bind_out (handle_connect_socketpair x i ctx s) (\<lambda>n. ok (UThisScheme n))
      else if buf = ascii_bytes ''recvfd'' then bind_out (handle_recvfd x i s) (\<lambda>n. ok (UOtherScheme n))
      else fail EINVAL s)"

definition us_write :: "udsx \<Rightarrow> u64 \<Rightarrow> bytes \<Rightarrow> caller_ctx \<Rightarrow> ustream \<Rightarrow> (nat, ustream) outcome" where
  "us_write x i buf ctx s =
     (case get_connected_peer s i of
        Inl f \<Rightarrow> (Inl f, s)
      | Inr (receiver, _) \<Rightarrow> write_inner x i receiver buf ctx s)"

definition us_fpath :: "u64 \<Rightarrow> bytes \<Rightarrow> ustream \<Rightarrow> errno + nat \<times> bytes" where
  "us_fpath i buf s =
     (case map_of (ss_handles s) i of
        None \<Rightarrow> Inl EBADF
      | Some USchemeRoot \<Rightarrow> fpath_result uds_stream_name None buf
      | Some (USocket a) \<Rightarrow> fpath_result uds_stream_name (us_path (sock s a)) buf)"

definition us_fsync :: "u64 \<Rightarrow> ustream \<Rightarrow> errno + unit" where
  "us_fsync i s = (case get_sock s i of Inl e \<Rightarrow> Inl e | Inr _ \<Rightarrow> Inr ())"

definition us_read :: "udsx \<Rightarrow> u64 \<Rightarrow> nat \<Rightarrow> u32 \<Rightarrow> ustream \<Rightarrow> (bytes, ustream) outcome" where
  "us_read x i room flags s =
     (case get_sock s i of
        Inl e \<Rightarrow> fail e s
      | Inr a \<Rightarrow>
         let k = sock s a in
         if us_state k = Established \<or> us_state k = Accepted \<or> us_state k = Connecting then
           (case require_connected_connection x 0 k of
              Inl e \<Rightarrow> fail e s
            | Inr c \<Rightarrow>
               (case read_inner x room flags c of
                  (Inl e, c') \<Rightarrow> fail e (set_conn a c' s)
                | (Inr bs, c') \<Rightarrow> ok bs (set_conn a c' s)))
         else if us_state k = SClosed then ok [] s
         else if us_state k = Listening then fail EOPNOTSUPP s
         else fail ENOTCONN s)"

definition us_on_sendfd :: "udsx \<Rightarrow> u64 \<Rightarrow> errno + u64 list \<Rightarrow> ustream \<Rightarrow> (nat, ustream) outcome" where
  "us_on_sendfd x i got s =
     (case get_connected_peer s i of Inl f \<Rightarrow> (Inl f, s) | Inr (receiver, _) \<Rightarrow> sendfd_inner x receiver got s)"

definition us_on_close :: "udsx \<Rightarrow> u64 \<Rightarrow> ustream \<Rightarrow> (unit, ustream) outcome" where
  "us_on_close x i s =
     (let s1 = s\<lparr>ss_handles := AList.delete i (ss_handles s)\<rparr> in
      case map_of (ss_handles s) i of
        Some (USocket a) \<Rightarrow> if is_listening (sock s a) then handle_listening_closure x a s1 else handle_other_closure x a s1
      | _ \<Rightarrow> ok () s1)"

definition us_fcntl :: "udsx \<Rightarrow> u64 \<Rightarrow> u64 \<Rightarrow> u64 \<Rightarrow> ustream \<Rightarrow> (u64, ustream) outcome" where
  "us_fcntl x i cmd arg s =
     (case get_sock s i of
        Inl e \<Rightarrow> fail e s
      | Inr a \<Rightarrow>
         if cmd = ux_F_GETFL x then ok (us_flags (sock s a)) s
         else if cmd = ux_F_SETFL x then ok 0 (set_sock a ((sock s a)\<lparr>us_flags := arg\<rparr>) s)
         else fail EINVAL s)"

definition us_fevent :: "udsx \<Rightarrow> u64 \<Rightarrow> u64 \<Rightarrow> ustream \<Rightarrow> errno + u64" where
  "us_fevent x i flags s = (case get_sock s i of Inl e \<Rightarrow> Inl e | Inr a \<Rightarrow> Inr (us_events x (sock s a) AND flags))"

definition us_fstat :: "udsx \<Rightarrow> u64 \<Rightarrow> ustream \<Rightarrow> errno + u16" where
  "us_fstat x i s = (case get_sock s i of Inl e \<Rightarrow> Inl e | Inr _ \<Rightarrow> Inr (ux_MODE_SOCK x))"

text \<open>The requests that change the state, in one type.\<close>

datatype us_request =
    UsRoot
  | UsOpenat u64 bytes u64 u32 caller_ctx
  | UsCall u64 bytes "u64 list" caller_ctx
  | UsDup u64 bytes caller_ctx
  | UsWrite u64 bytes caller_ctx
  | UsRead u64 nat u32
  | UsSendfd u64 "errno + u64 list"
  | UsRecvfd u64 nat bool
  | UsFcntl u64 u64 u64
  | UsClose u64

primrec us_step :: "udsx \<Rightarrow> us_request \<Rightarrow> ustream \<Rightarrow> (unit, ustream) outcome" where
  "us_step x UsRoot s = ok () (snd (us_root s))"
| "us_step x (UsOpenat fd path flags fl ctx) s = bind_out (us_openat x fd path flags fl ctx s) (\<lambda>_. ok ())"
| "us_step x (UsCall i payload metadata ctx) s = bind_out (call_inner x i payload metadata ctx s) (\<lambda>_. ok ())"
| "us_step x (UsDup i buf ctx) s = bind_out (us_dup x i buf ctx s) (\<lambda>_. ok ())"
| "us_step x (UsWrite i buf ctx) s = bind_out (us_write x i buf ctx s) (\<lambda>_. ok ())"
| "us_step x (UsRead i room flags) s = bind_out (us_read x i room flags s) (\<lambda>_. ok ())"
| "us_step x (UsSendfd i got) s = bind_out (us_on_sendfd x i got s) (\<lambda>_. ok ())"
| "us_step x (UsRecvfd i n moved) s = bind_out (recvfd_inner x i n moved s) (\<lambda>_. ok ())"
| "us_step x (UsFcntl i cmd arg) s = bind_out (us_fcntl x i cmd arg s) (\<lambda>_. ok ())"
| "us_step x (UsClose i) s = us_on_close x i s"

end
