(* ===== verification/Uds_Inv.thy ===== *)
theory Uds_Inv
  imports Uds_Stream
begin

text \<open>
  The invariant of the stream sockets and which requests can panic: numbers of sockets are used once, handles
  lead to the socket with their number, no socket is its own peer or waits for itself, and packets in a queue
  have bytes left.
\<close>

section \<open>Taking bytes out of packets\<close>

definition packet_rest :: "data_packet \<Rightarrow> bytes" where
  "packet_rest p = drop (dp_read_offset p) (dp_payload p)"

definition pending :: "data_packet list \<Rightarrow> bytes" where
  "pending ps = concat (map packet_rest ps)"

definition packets_ok :: "data_packet list \<Rightarrow> bool" where
  "packets_ok ps \<longleftrightarrow> (\<forall>p \<in> set ps. packet_rest p \<noteq> [])"

lemma pending_simps [simp]:
  "pending [] = []" "pending (p # ps) = packet_rest p @ pending ps" "pending (ps @ qs) = pending ps @ pending qs"
  by (simp_all add: pending_def)

lemma packets_ok_simps [simp]:
  "packets_ok []" "packets_ok (p # ps) \<longleftrightarrow> packet_rest p \<noteq> [] \<and> packets_ok ps"
  "packets_ok (ps @ qs) \<longleftrightarrow> packets_ok ps \<and> packets_ok qs"
  by (auto simp: packets_ok_def)

lemma packet_rest_new [simp]: "packet_rest (packet_new bs a) = bs"
  by (simp add: packet_rest_def packet_new_def)

lemma packet_rest_set: "packet_rest (p\<lparr>dp_read_offset := n\<rparr>) = drop n (dp_payload p)"
  by (simp add: packet_rest_def)

lemma packet_done: "dp_read_offset p + length (take room (packet_rest p)) \<ge> length (dp_payload p) \<longleftrightarrow>
    dp_read_offset p \<ge> length (dp_payload p) \<or> length (packet_rest p) \<le> room"
  by (auto simp: packet_rest_def min_def)

lemma read_packets_bytes:
  assumes "packets_ok ps"
  shows "fst (read_packets room ps) = take room (pending ps) \<and>
    pending (snd (read_packets room ps)) = drop room (pending ps) \<and> packets_ok (snd (read_packets room ps))"
  using assms
proof (induction ps arbitrary: room)
  case (Cons p ps)
  have ne: "packet_rest p \<noteq> []" using Cons.prems by simp
  let ?copied = "take room (packet_rest p)"
  have off: "\<not> dp_read_offset p \<ge> length (dp_payload p)" using ne by (simp add: packet_rest_def)
  show ?case
  proof (cases "room = 0")
    case False
    then have c: "?copied \<noteq> []" using ne by simp
    show ?thesis
    proof (cases "length (packet_rest p) \<le> room")
      case True
      have d: "dp_read_offset p + length ?copied \<ge> length (dp_payload p)" using True packet_done by blast
      have "read_packets room (p # ps) =
          (?copied @ fst (read_packets (room - length ?copied) ps), snd (read_packets (room - length ?copied) ps))"
        using False c d by (simp add: packet_rest_def[symmetric] Let_def split: prod.splits)
      then show ?thesis using Cons.IH[of "room - length ?copied"] Cons.prems True by simp
    next
      case small: False
      then have d: "\<not> dp_read_offset p + length ?copied \<ge> length (dp_payload p)" using packet_done off by blast
      then have "fst (read_packets room (p # ps)) = ?copied \<and>
          pending (snd (read_packets room (p # ps))) = drop (length ?copied) (packet_rest p) @ pending ps \<and>
          packets_ok (snd (read_packets room (p # ps)))"
        using False c small Cons.prems
        by (auto simp: packet_rest_def Let_def min_def add.commute)
      then show ?thesis using small by simp
    qed
  qed (use Cons.prems in simp)
qed simp

text \<open>\<open>recvmsg\<close> takes the same bytes as \<open>read\<close>.\<close>

lemma take_packets_read:
  "\<exists>n ancs rest. take_packets room ps name = (fst (read_packets room ps), n, ancs, rest) \<and>
     map packet_rest rest = map packet_rest (snd (read_packets room ps))"
proof (induction ps arbitrary: room name)
  case (Cons p ps)
  define copied where "copied = take room (drop (dp_read_offset p) (dp_payload p))"
  define name' where "name' = (if \<not> dp_taken p \<and> name = None then ad_name (dp_ancillary p) else name)"
  obtain n ancs rest where r: "take_packets (room - length copied) ps name' =
      (fst (read_packets (room - length copied) ps), n, ancs, rest)"
    "map packet_rest rest = map packet_rest (snd (read_packets (room - length copied) ps))"
    using Cons.IH by blast
  show ?case
  proof (cases "room = 0 \<or> copied = []")
    case True
    then show ?thesis unfolding take_packets.simps read_packets.simps copied_def[symmetric] Let_def by simp
  next
    case False
    then show ?thesis
      using r unfolding take_packets.simps read_packets.simps copied_def[symmetric] name'_def[symmetric] Let_def
      by (cases "length (dp_payload p) \<le> dp_read_offset p + length copied")
        (simp_all add: packet_rest_set case_prod_unfold)
  qed
qed simp

lemma packets_ok_rests: "map packet_rest ps = map packet_rest qs \<Longrightarrow> packets_ok ps = packets_ok qs"
  unfolding packets_ok_def by (metis (mono_tags, lifting) image_iff list.set_map)

lemma take_packets_bytes:
  assumes "packets_ok ps" "take_packets room ps name = (bs, n, ancs, rest)"
  shows "bs = take room (pending ps) \<and> pending rest = drop room (pending ps) \<and> packets_ok rest"
proof -
  obtain rest' where "bs = fst (read_packets room ps)" "map packet_rest rest = map packet_rest rest'" "rest' = snd (read_packets room ps)"
    using take_packets_read[of room ps name] assms(2) by auto
  then show ?thesis
    using read_packets_bytes[OF assms(1), of room] packets_ok_rests[of rest rest'] by (simp add: pending_def)
qed

section \<open>The invariant\<close>

definition conn_ok :: "u64 \<Rightarrow> u64 \<Rightarrow> uconn \<Rightarrow> bool" where
  "conn_ok n i c \<longleftrightarrow> packets_ok (uc_packets c) \<and> uc_peer c < n \<and> uc_peer c \<noteq> i"

definition sock_ok :: "udsx \<Rightarrow> u64 \<Rightarrow> usocket \<Rightarrow> bool" where
  "sock_ok x n k \<longleftrightarrow> set (us_options k) \<subseteq> {ux_SO_PASSCRED x} \<and> us_primary_id k \<notin> set (us_awaiting k) \<and>
     (\<forall>c. us_connection k = Some c \<longrightarrow> conn_ok n (us_primary_id k) c)"

text \<open>The bound \<open>n\<close> for the numbers of peers is the next free number, except in the middle of an operation.\<close>

definition us_okn :: "udsx \<Rightarrow> u64 \<Rightarrow> ustream \<Rightarrow> bool" where
  "us_okn x n s \<longleftrightarrow> ss_next_id s \<le> n \<and>
     (\<forall>a \<ge> ss_alloc s. map_of (ss_sockets s) a = None) \<and>
     (\<forall>a < ss_alloc s. sock_ok x n (sock s a) \<and> us_primary_id (sock s a) < ss_next_id s) \<and>
     inj_on (\<lambda>a. us_primary_id (sock s a)) {..<ss_alloc s} \<and>
     (\<forall>i h. map_of (ss_handles s) i = Some h \<longrightarrow> i < ss_next_id s) \<and>
     (\<forall>i a. map_of (ss_handles s) i = Some (USocket a) \<longrightarrow> a < ss_alloc s \<and> us_primary_id (sock s a) = i) \<and>
     (\<forall>t a. map_of (ss_tokens s) t = Some a \<longrightarrow> a < ss_alloc s)"

abbreviation us_ok :: "udsx \<Rightarrow> ustream \<Rightarrow> bool" where
  "us_ok x s \<equiv> us_okn x (ss_next_id s) s"

lemma us_okD:
  assumes "us_okn x n s"
  shows "a < ss_alloc s \<Longrightarrow> sock_ok x n (sock s a) \<and> us_primary_id (sock s a) < ss_next_id s"
    and "map_of (ss_handles s) i = Some h \<Longrightarrow> i < ss_next_id s"
    and "map_of (ss_tokens s) t = Some a \<Longrightarrow> a < ss_alloc s"
    and "get_sock s i = Inr a \<Longrightarrow> a < ss_alloc s \<and> us_primary_id (sock s a) = i"
    and "a < ss_alloc s \<Longrightarrow> b < ss_alloc s \<Longrightarrow> us_primary_id (sock s a) = us_primary_id (sock s b) \<Longrightarrow> a = b"
    and "ss_next_id s \<le> n"
  using assms by (auto simp: us_okn_def get_sock_def inj_on_def split: option.splits uhandle.splits)

lemma sock_set [simp]: "sock (set_sock a k s) b = (if b = a then k else sock s b)"
  by (simp add: sock_def set_sock_def alist_simps)

lemma set_sock_fields [simp]:
  "ss_alloc (set_sock a k s) = ss_alloc s" "ss_handles (set_sock a k s) = ss_handles s" "ss_next_id (set_sock a k s) = ss_next_id s"
  "ss_tokens (set_sock a k s) = ss_tokens s" "ss_paths (set_sock a k s) = ss_paths s" "get_sock (set_sock a k s) = get_sock s"
  by (simp_all add: set_sock_def get_sock_def fun_eq_iff)

lemma sock_misc [simp]:
  "sock (s\<lparr>ss_posted := p\<rparr>) = sock s" "sock (s\<lparr>ss_drawn := d\<rparr>) = sock s" "sock (s\<lparr>ss_paths := q\<rparr>) = sock s"
  "sock (s\<lparr>ss_tokens := t\<rparr>) = sock s" "sock (s\<lparr>ss_next_id := n\<rparr>) = sock s" "sock (s\<lparr>ss_handles := h\<rparr>) = sock s"
  by (simp_all add: sock_def fun_eq_iff)

lemma get_sock_misc [simp]:
  "get_sock (s\<lparr>ss_posted := p\<rparr>) = get_sock s" "get_sock (s\<lparr>ss_drawn := d\<rparr>) = get_sock s" "get_sock (s\<lparr>ss_paths := q\<rparr>) = get_sock s"
  "get_sock (s\<lparr>ss_tokens := t\<rparr>) = get_sock s" "get_sock (s\<lparr>ss_next_id := n\<rparr>) = get_sock s"
  by (simp_all add: get_sock_def fun_eq_iff)

lemma us_ok_misc [simp]:
  "us_okn x n (s\<lparr>ss_posted := p\<rparr>) = us_okn x n s" "us_okn x n (s\<lparr>ss_drawn := d\<rparr>) = us_okn x n s" "us_okn x n (s\<lparr>ss_paths := q\<rparr>) = us_okn x n s"
  by (simp_all add: us_okn_def)

lemma post_state:
  "us_okn x n (snd (us_post y i f s)) = us_okn x n s" "sock (snd (us_post y i f s)) = sock s"
  "get_sock (snd (us_post y i f s)) = get_sock s" "ss_alloc (snd (us_post y i f s)) = ss_alloc s"
  "ss_handles (snd (us_post y i f s)) = ss_handles s" "ss_next_id (snd (us_post y i f s)) = ss_next_id s"
  "ss_tokens (snd (us_post y i f s)) = ss_tokens s" "ss_paths (snd (us_post y i f s)) = ss_paths s"
  by (auto simp: us_post_def split: sum.splits bool.splits)

lemma snd_bind_out: "snd (bind_out r k) = (case fst r of Inl f \<Rightarrow> snd r | Inr v \<Rightarrow> snd (k v (snd r)))"
  by (cases r) (auto split: sum.splits)

lemma post_no_panic [simp]: "fst (us_post y i f s) \<noteq> Inl Panic"
  by (auto simp: us_post_def split: sum.splits bool.splits)

subsection \<open>Steps that keep it\<close>

lemma ok_set_sock:
  assumes "us_okn x n s" "a < ss_alloc s" "us_primary_id k = us_primary_id (sock s a)" "sock_ok x n k"
  shows "us_okn x n (set_sock a k s)"
proof -
  have eq: "(\<lambda>b. us_primary_id (sock (set_sock a k s) b)) = (\<lambda>b. us_primary_id (sock s b))"
    using assms(3) by (auto simp: fun_eq_iff)
  have ids: "us_primary_id (sock (set_sock a k s) b) = us_primary_id (sock s b)" for b
    using assms(3) by simp
  show ?thesis using assms unfolding us_okn_def eq ids by (auto simp: set_sock_def[of a k s] alist_simps) (auto simp: set_sock_def[symmetric])
qed

lemma ok_tokens:
  "us_okn x n s \<Longrightarrow> a < ss_alloc s \<Longrightarrow> us_okn x n (s\<lparr>ss_tokens := AList.update t a (ss_tokens s)\<rparr>)"
  "us_okn x n s \<Longrightarrow> us_okn x n (s\<lparr>ss_tokens := AList.delete t (ss_tokens s)\<rparr>)"
  by (auto simp: us_okn_def alist_simps split: if_splits)

lemma ok_close_handle: "us_okn x n s \<Longrightarrow> us_okn x n (s\<lparr>ss_handles := AList.delete i (ss_handles s)\<rparr>)"
  by (auto simp: us_okn_def alist_simps split: if_splits)

lemma next_less: "n \<noteq> (- 1 :: u64) \<Longrightarrow> n < n + 1" "n \<noteq> (- 1 :: u64) \<Longrightarrow> i < n \<Longrightarrow> i < n + 1"
proof -
  assume n: "n \<noteq> - 1"
  then have "unat (n + 1) = Suc (unat n)" by (metis Suc_eq_plus1 add.commute unatSuc add_eq_0_iff2)
  then show 1: "n < n + 1" by (simp add: word_less_nat_alt)
  show "i < n + 1" if "i < n" using that 1 by (rule less_trans)
qed

lemma sock_ok_next: "sock_ok x n k \<Longrightarrow> n \<noteq> - 1 \<Longrightarrow> sock_ok x (n + 1) k"
  by (auto simp: sock_ok_def conn_ok_def intro: next_less)

lemma ok_next: "us_okn x n s \<Longrightarrow> n \<noteq> - 1 \<Longrightarrow> us_okn x (n + 1) s"
  using next_less(1)[of n] by (auto simp: us_okn_def intro: sock_ok_next)

lemma ok_root: "us_ok x s \<Longrightarrow> ss_next_id s \<noteq> - 1 \<Longrightarrow>
    us_ok x (s\<lparr>ss_handles := AList.update (ss_next_id s) USchemeRoot (ss_handles s), ss_next_id := ss_next_id s + 1\<rparr>)"
  by (auto simp: us_okn_def alist_simps sock_ok_next next_less split: if_splits)

lemma sock_insert: "sock (insert_sock i k s) b = (if b = ss_alloc s then k else sock s b)"
  by (simp add: insert_sock_def sock_def alist_simps)

lemma ok_insert:
  assumes s: "us_okn x (ss_next_id s + 1) s" and n: "ss_next_id s \<noteq> - 1"
    and k: "sock_ok x (ss_next_id s + 1) k" "us_primary_id k = ss_next_id s"
  shows "us_ok x ((insert_sock (ss_next_id s) k s)\<lparr>ss_next_id := ss_next_id s + 1\<rparr>)"
proof -
  let ?t = "(insert_sock (ss_next_id s) k s)\<lparr>ss_next_id := ss_next_id s + 1\<rparr>"
  have sk: "sock ?t b = (if b = ss_alloc s then k else sock s b)" for b by (simp add: sock_insert)
  have al: "ss_alloc ?t = Suc (ss_alloc s)" "ss_tokens ?t = ss_tokens s" "ss_next_id ?t = ss_next_id s + 1" by (simp_all add: insert_sock_def)
  have old: "us_primary_id (sock s b) \<noteq> ss_next_id s" "us_primary_id (sock s b) < ss_next_id s + 1" if "b < ss_alloc s" for b
    using us_okD(1)[OF s that] n next_less by auto
  have "a = b" if "a < Suc (ss_alloc s)" "b < Suc (ss_alloc s)" "us_primary_id (sock ?t a) = us_primary_id (sock ?t b)" for a b
    using that us_okD(5)[OF s, of a b] old(1)[of a] old(1)[of b] k(2)
    by (cases "a = ss_alloc s"; cases "b = ss_alloc s") (simp_all add: sock_insert less_Suc_eq)
  then have "inj_on (\<lambda>b. us_primary_id (sock ?t b)) {..<Suc (ss_alloc s)}" by (simp add: inj_on_def)
  moreover have "sock_ok x (ss_next_id s + 1) (sock ?t b) \<and> us_primary_id (sock ?t b) < ss_next_id s + 1" if "b < Suc (ss_alloc s)" for b
    using that k us_okD(1)[OF s, of b] old(2)[of b] next_less(1)[OF n] by (cases "b = ss_alloc s") (simp_all add: sock_insert less_Suc_eq)
  moreover have "i < ss_next_id s + 1" if "map_of (ss_handles ?t) i = Some h" for i h
    using that us_okD(2)[OF s, of i] n by (auto simp: insert_sock_def alist_simps next_less split: if_splits)
  moreover have "a < Suc (ss_alloc s) \<and> us_primary_id (sock ?t a) = i" if "map_of (ss_handles ?t) i = Some (USocket a)" for i a
  proof (cases "i = ss_next_id s")
    case True
    then show ?thesis using that k(2) unfolding sk by (simp add: insert_sock_def alist_simps)
  next
    case False
    then have "get_sock s i = Inr a" using that by (simp add: insert_sock_def alist_simps get_sock_def)
    then have "a < ss_alloc s" "us_primary_id (sock s a) = i" using us_okD(4)[OF s] by auto
    then show ?thesis unfolding sk by simp
  qed
  moreover have "map_of (ss_sockets ?t) a = None" if "a \<ge> Suc (ss_alloc s)" for a
    using that s by (auto simp: us_okn_def insert_sock_def alist_simps)
  moreover have "a < Suc (ss_alloc s)" if "map_of (ss_tokens s) t = Some a" for t a
    using us_okD(3)[OF s that] by simp
  ultimately show ?thesis unfolding us_okn_def al by (intro conjI order_refl) blast+
qed

lemma insert_next_swap:
  "insert_sock i k (s\<lparr>ss_next_id := n\<rparr>) = (insert_sock i k s)\<lparr>ss_next_id := n\<rparr>"
  by (simp add: insert_sock_def)

lemma get_sock_ok:
  assumes "us_okn x n s" "get_sock s i = Inr a"
  shows "a < ss_alloc s" "us_primary_id (sock s a) = i" "sock_ok x n (sock s a)" "i < ss_next_id s"
  using us_okD(4)[OF assms] us_okD(1)[OF assms(1)] by auto

lemma conn_of_ok:
  assumes "us_okn x n s" "get_sock s i = Inr a" "us_connection (sock s a) = Some c"
  shows "conn_ok n i c"
  using get_sock_ok[OF assms(1,2)] assms(3) by (auto simp: sock_ok_def)

lemma required_conn: "require_connection k = Inr c \<longleftrightarrow> us_connection k = Some c"
  by (auto simp: require_connection_def split: option.splits)

lemma required_connected:
  "require_connected_connection x f k = Inr c \<longleftrightarrow> us_connection k = Some c \<and> (us_state k = Established \<or> us_state k = Accepted)"
  by (auto simp: require_connected_connection_def required_conn split: ustate.splits)

lemma ok_set_conn:
  assumes "us_okn x n s" "get_sock s i = Inr a" "conn_ok n i c"
  shows "us_okn x n (set_conn a c s)"
  unfolding set_conn_def
  by (rule ok_set_sock) (use get_sock_ok[OF assms(1,2)] assms in \<open>auto simp: sock_ok_def\<close>)

lemma peer_of:
  "get_connected_peer s i = Inr (j, b) \<Longrightarrow>
     \<exists>a c. get_sock s i = Inr a \<and> us_connection (sock s a) = Some c \<and> uc_peer c = j \<and> get_sock s j = Inr b \<and> b \<noteq> a"
  by (auto simp: get_connected_peer_def required_conn split: sum.splits if_splits)

lemma ok_bind: "us_okn x n s \<Longrightarrow> us_okn x n (snd (handle_bind x i path s))"
proof -
  assume s: "us_okn x n s"
  have t: "us_okn x n (s'\<lparr>ss_paths := p, ss_tokens := AList.update t a (ss_tokens s)\<rparr>)"
    if "us_okn x n s'" "a < ss_alloc s'" "ss_tokens s' = ss_tokens s" for s' p t a
    using ok_tokens(1)[of x n "s'\<lparr>ss_paths := p\<rparr>" a t] that by simp
  have u: "us_okn x n ((set_sock a k s)\<lparr>ss_drawn := d\<rparr>)" if "get_sock s i = Inr a" "us_primary_id k = us_primary_id (sock s a)"
    "sock_ok x n k" for a k d
    using ok_set_sock[OF s] get_sock_ok[OF s that(1)] that by simp
  show ?thesis
    using s get_sock_ok[OF s, of i]
    by (auto simp: handle_bind_def Let_def start_listening_def sock_ok_def split: sum.splits intro!: t u ok_set_sock)
qed

lemma ok_connect:
  assumes s: "us_okn x n s"
  shows "us_okn x n (snd (handle_connect x i buf s))"
proof -
  have two: "us_okn x n (set_sock a c' (set_sock l l' s))"
    if "get_sock s i = Inr a" "l < ss_alloc s" "a \<noteq> l" "us_connect x (sock s l) (sock s a) = Inr (l', c')" for a l l' c'
  proof -
    have a: "a < ss_alloc s" "sock_ok x n (sock s a)" by (rule get_sock_ok[OF s that(1)])+
    have l: "sock_ok x n (sock s l)" "us_primary_id (sock s l) < n"
      using us_okD(1)[OF s that(2)] us_okD(6)[OF s] by auto
    have ne: "us_primary_id (sock s a) \<noteq> us_primary_id (sock s l)" using us_okD(5)[OF s a(1) that(2)] that(3) by blast
    have eq: "l' = (sock s l)\<lparr>us_awaiting := us_awaiting (sock s l) @ [us_primary_id (sock s a)]\<rparr>"
      "c' = (sock s a)\<lparr>us_state := Connecting, us_connection := Some (uconn_new (us_primary_id (sock s l)))\<rparr>"
      using that(4) by (auto simp: us_connect_def connect_unchecked_def split: if_splits)
    have "us_okn x n (set_sock l l' s)" by (rule ok_set_sock) (use s that l ne eq in \<open>auto simp: sock_ok_def\<close>)
    then show ?thesis
      by (rule ok_set_sock) (use that a l ne eq in \<open>auto simp: sock_ok_def conn_ok_def uconn_new_def\<close>)
  qed
  have est: "us_okn x n (set_sock a ((sock s a)\<lparr>us_state := Established\<rparr>) s)" if "get_sock s i = Inr a" for a
    by (rule ok_set_sock) (use s get_sock_ok[OF s that] in \<open>auto simp: sock_ok_def\<close>)
  show ?thesis
    using s us_okD(3)[OF s]
    by (auto simp: handle_connect_def Let_def snd_bind_out post_state split: sum.splits option.splits ustate.splits
        intro: two est)
qed

lemma ok_setsockopt: "us_okn x n s \<Longrightarrow> us_okn x n (snd (handle_setsockopt x i opt v s))"
  using get_sock_ok[of x n s i]
  by (auto simp: handle_setsockopt_def Let_def sock_ok_def split: sum.splits intro!: ok_set_sock)

lemma ok_push:
  assumes "us_okn x n s" "get_sock s i = Inr a" "us_connection (sock s a) = Some c" "packet_rest p \<noteq> []"
  shows "us_okn x n (set_conn a (c\<lparr>uc_packets := uc_packets c @ [p]\<rparr>) s)"
  using assms(1,2) by (rule ok_set_conn) (use conn_of_ok[OF assms(1-3)] assms(4) in \<open>simp add: conn_ok_def\<close>)

lemma from_stream_rest: "from_stream x stream name cred = Inr p \<Longrightarrow> packet_rest p = dp_payload p"
  by (auto simp: from_stream_def Let_def packet_new_def packet_rest_def split: sum.splits if_splits)

lemma ok_sendmsg: "us_okn x n s \<Longrightarrow> us_okn x n (snd (handle_sendmsg x i f stream ctx s))"
  by (auto simp: handle_sendmsg_def required_connected snd_bind_out post_state from_stream_rest
      split: sum.splits dest!: peer_of intro!: ok_push)

lemma serialize_conn:
  assumes "uc_serialize x stream n iov opts c = (r, c')" "packets_ok (uc_packets c)"
  shows "uc_peer c' = uc_peer c" "packets_ok (uc_packets c')" "uc_peer_shutdown c' = uc_peer_shutdown c"
    "r \<noteq> Inl Panic \<Longrightarrow> pending (uc_packets c') = drop (unat iov) (pending (uc_packets c))"
    "r = Inl Panic \<Longrightarrow> c' = c"
proof -
  obtain bs nm ancs rest where t: "take_packets (unat iov) (uc_packets c) None = (bs, nm, ancs, rest)"
    by (cases "take_packets (unat iov) (uc_packets c) None") auto
  note b = take_packets_bytes[OF assms(2) t]
  have "(unat iov \<ge> 2 ^ 63 \<and> c' = c \<and> r = Inl Panic) \<or> (r \<noteq> Inl Panic \<and> (\<exists>fds. c' = c\<lparr>uc_packets := rest, uc_fds := fds\<rparr>))"
  proof (cases "unat iov \<ge> 2 ^ 63")
    case False
    have id: "\<exists>fds. c\<lparr>uc_packets := rest\<rparr> = c\<lparr>uc_packets := rest, uc_fds := fds\<rparr>"
      by (rule exI[of _ "uc_fds c"]) simp
    show ?thesis
      using assms(1) False t id
      by (auto simp: uc_serialize_def uc_drop_fds_def Let_def split: sum.splits prod.splits bool.splits if_splits)
  qed (use assms(1) in \<open>simp add: uc_serialize_def\<close>)
  then show "uc_peer c' = uc_peer c" "packets_ok (uc_packets c')" "uc_peer_shutdown c' = uc_peer_shutdown c"
    "r \<noteq> Inl Panic \<Longrightarrow> pending (uc_packets c') = drop (unat iov) (pending (uc_packets c))" "r = Inl Panic \<Longrightarrow> c' = c"
    using b assms(2) by auto
qed

lemma recvmsg_sock:
  assumes "recvmsg_inner x f stream k = (r, k')" "us_connection k = Some c" "packets_ok (uc_packets c)"
  shows "k' = k \<or> (\<exists>c'. k' = k\<lparr>us_connection := Some c'\<rparr> \<and> uc_peer c' = uc_peer c \<and> packets_ok (uc_packets c'))"
  using assms serialize_conn(1,2)[of x _ _ _ _ c]
  by (auto simp: recvmsg_inner_def us_serialize_def required_connected split: sum.splits prod.splits)

lemma ok_recvmsg:
  assumes s: "us_okn x n s"
  shows "us_okn x n (snd (handle_recvmsg x i f stream s))"
proof -
  have "us_okn x n (set_sock a k' s)"
    if "get_sock s i = Inr a" "us_connection (sock s a) = Some c" "recvmsg_inner x f stream (sock s a) = (r, k')" for a c r k'
  proof -
    have c: "conn_ok n i c" by (rule conn_of_ok[OF s that(1,2)])
    have k: "k' = sock s a \<or> (\<exists>c'. k' = (sock s a)\<lparr>us_connection := Some c'\<rparr> \<and> uc_peer c' = uc_peer c \<and> packets_ok (uc_packets c'))"
      using recvmsg_sock[OF that(3,2)] c by (simp add: conn_ok_def)
    show ?thesis
      by (rule ok_set_sock) (use s k c get_sock_ok[OF s that(1)] in \<open>auto simp: sock_ok_def conn_ok_def\<close>)
  qed
  then show ?thesis
    using s by (auto simp: handle_recvmsg_def Let_def required_conn split: sum.splits prod.splits)
qed

lemma ok_unbind: "us_okn x n s \<Longrightarrow> us_okn x n (snd (handle_unbind i s))"
  using get_sock_ok[of x n s i]
  by (auto simp: handle_unbind_def Let_def sock_ok_def split: sum.splits option.splits intro!: ok_set_sock)

lemma establish_cases:
  assumes "us_establish client new peer = (r, client', new')" "us_connection new = Some nc"
  shows "(r = Inl EINVAL \<and> us_state client \<noteq> Connecting \<and> client' = client) \<or>
    (r = Inl EAGAIN \<and> us_state client = Connecting \<and> client' = client\<lparr>us_state := Accepted\<rparr> \<and>
       (\<forall>c. us_connection client = Some c \<longrightarrow> uc_peer c \<noteq> peer)) \<or>
    (\<exists>c. r = Inr () \<and> us_state client = Connecting \<and> us_connection client = Some c \<and> uc_peer c = peer \<and>
       client' = client\<lparr>us_state := Accepted, us_connection := Some (c\<lparr>uc_peer := us_primary_id new, uc_packets := []\<rparr>)\<rparr> \<and>
       new' = new\<lparr>us_connection := Some (nc\<lparr>uc_packets := uc_packets nc @ uc_packets c\<rparr>)\<rparr>)"
  using assms by (auto simp: us_establish_def Let_def split: if_splits option.splits)

lemma accept_new:
  assumes "us_accept k i client_id ctx = Inr new"
  shows "us_primary_id new = i" "us_awaiting new = []" "us_connection new = Some (uconn_new client_id)"
    "us_options new = us_options k" "us_state new = Established" "is_listening k"
  using assms by (auto simp: us_accept_def usocket_new_def split: if_splits)

lemma sock_options:
  assumes "us_okn x n s"
  shows "set (us_options (sock s a)) \<subseteq> {ux_SO_PASSCRED x}"
proof (cases "a < ss_alloc s")
  case True
  then show ?thesis using us_okD(1)[OF assms True] by (simp add: sock_ok_def)
next
  case False
  then show ?thesis using assms by (simp add: us_okn_def sock_def usocket_new_def)
qed

lemma ok_accept_connection:
  assumes s: "us_ok x s" and n: "ss_next_id s \<noteq> - 1"
  shows "us_ok x (snd (accept_connection x l client_id ctx s))"
proof (cases "get_sock s client_id")
  case (Inl e)
  then show ?thesis using s by (simp add: accept_connection_def)
next
  case c: (Inr c)
  note co = get_sock_ok[OF s c]
  show ?thesis
  proof (cases "us_accept (sock s l) (ss_next_id s) client_id ctx")
    case (Inl e)
    then show ?thesis using s c by (simp add: accept_connection_def Let_def)
  next
    case a: (Inr new)
    note new = accept_new[OF a]
    obtain r client' new' where e: "us_establish (sock s c) new (us_primary_id (sock s l)) = (r, client', new')"
      by (cases "us_establish (sock s c) new (us_primary_id (sock s l))") auto
    note ec = establish_cases[OF e new(3)]
    note lt = next_less(1)[OF n] next_less(2)[OF n co(4)]
    have s': "us_okn x (ss_next_id s + 1) s" using s n by (rule ok_next)
    have c': "us_okn x (ss_next_id s + 1) (set_sock c client' s)"
      by (rule ok_set_sock) (use s' co get_sock_ok[OF s' c] ec new(1) lt in \<open>auto simp: sock_ok_def conn_ok_def\<close>)
    show ?thesis
    proof (cases r)
      case (Inl err)
      have "us_okn x (ss_next_id s) (set_sock c client' s)"
        by (rule ok_set_sock) (use s co ec Inl in \<open>auto simp: sock_ok_def\<close>)
      then show ?thesis using c a e Inl s by (simp add: accept_connection_def Let_def)
    next
      case (Inr u)
      then obtain cc where "us_connection (sock s c) = Some cc" "us_connection new' = Some ((uconn_new client_id)\<lparr>uc_packets := uc_packets cc\<rparr>)"
        "us_options new' = us_options new" "us_primary_id new' = us_primary_id new" "us_awaiting new' = us_awaiting new"
        using ec by (auto simp: uconn_new_def)
      then have k: "sock_ok x (ss_next_id s + 1) new'"
        using new co lt sock_options[OF s, of l] by (auto simp: sock_ok_def conn_ok_def uconn_new_def)
      have "us_ok x ((insert_sock (ss_next_id s) new' (set_sock c client' s))\<lparr>ss_next_id := ss_next_id s + 1\<rparr>)"
        using ok_insert[of x "set_sock c client' s" new'] c' n k \<open>us_primary_id new' = us_primary_id new\<close> new(1) by simp
      then show ?thesis
        using c a e Inr s by (simp add: accept_connection_def Let_def snd_bind_out post_state insert_next_swap split: sum.splits)
    qed
  qed
qed

lemma unat_not_max: "unat n + 1 < 2 ^ 64 \<Longrightarrow> n \<noteq> (- 1 :: u64)"
  by (auto simp: unsigned_minus_1_eq_mask mask_eq_exp_minus_1)

lemma accept_connection_next:
  "unat (ss_next_id (snd (accept_connection x l client_id ctx s))) \<le> Suc (unat (ss_next_id s))"
  using unat_plus_if'[of "ss_next_id s" 1]
  by (auto simp: accept_connection_def Let_def snd_bind_out post_state insert_sock_def split: sum.splits prod.splits if_splits)

lemma accept_connection_listener:
  assumes "l < ss_alloc s"
  shows "sock (snd (accept_connection x l client_id ctx s)) l = sock s l" "l < ss_alloc (snd (accept_connection x l client_id ctx s))"
  using assms
  by (auto simp: accept_connection_def Let_def snd_bind_out post_state sock_insert split: sum.splits prod.splits)
    (auto simp: insert_sock_def)

lemma ok_accept_waiting:
  assumes "us_ok x s" "l < ss_alloc s" "unat (ss_next_id s) + length cs < 2 ^ 64" "us_primary_id (sock s l) \<notin> set cs"
  shows "us_ok x (snd (accept_waiting x l ctx cs s))"
  using assms
proof (induction cs arbitrary: s)
  case (Cons c cs)
  let ?s1 = "set_sock l ((sock s l)\<lparr>us_awaiting := cs\<rparr>) s"
  obtain r t where rt: "accept_connection x l c ctx ?s1 = (r, t)" by (cases "accept_connection x l c ctx ?s1") auto
  have n: "ss_next_id s \<noteq> - 1" using Cons.prems(3) by (intro unat_not_max) simp
  have "us_okn x (ss_next_id s) ?s1"
    by (rule ok_set_sock) (use Cons.prems us_okD(1)[OF Cons.prems(1,2)] in \<open>auto simp: sock_ok_def\<close>)
  then have t: "us_ok x t" using ok_accept_connection[of x ?s1 l c ctx] n rt by simp
  have l: "sock t l = (sock s l)\<lparr>us_awaiting := cs\<rparr>" "l < ss_alloc t"
    using accept_connection_listener[of l ?s1 x c ctx] rt Cons.prems(2) by simp_all
  have u: "unat (ss_next_id t) + length cs < 2 ^ 64"
    using accept_connection_next[of x l c ctx ?s1] rt Cons.prems(3) by simp
  have "us_ok x (snd (accept_waiting x l ctx cs t))"
    by (rule Cons.IH[OF t l(2) u]) (use l Cons.prems in simp)
  then show ?case using rt t by (auto split: sum.splits fault.splits option.splits)
qed simp

text \<open>The environment: numbers for handles do not run out.\<close>

definition us_room :: "ustream \<Rightarrow> bool" where
  "us_room s \<longleftrightarrow> unat (ss_next_id s) + 1 < 2 ^ 64 \<and> (\<forall>a. unat (ss_next_id s) + length (us_awaiting (sock s a)) < 2 ^ 64)"

lemma us_room_next: "us_room s \<Longrightarrow> ss_next_id s \<noteq> - 1"
  by (intro unat_not_max) (simp add: us_room_def)

lemma ok_listen:
  assumes s: "us_ok x s" and r: "us_room s"
  shows "us_ok x (snd (handle_listen x i ctx s))"
proof (cases "get_sock s i")
  case (Inr a)
  note a = get_sock_ok[OF s Inr]
  have aw: "us_primary_id (sock s a) \<notin> set (us_awaiting (sock s a))" using a(3) by (simp add: sock_ok_def)
  have len: "unat (ss_next_id s) + length (us_awaiting (sock s a)) < 2 ^ 64" using r by (simp add: us_room_def)
  have st: "us_okn x (ss_next_id s) (set_sock a ((sock s a)\<lparr>us_state := Listening\<rparr>) s)"
    by (rule ok_set_sock) (use s a in \<open>auto simp: sock_ok_def\<close>)
  have go: "us_ok x (snd (accept_waiting x a ctx (us_awaiting (sock s a)) t))"
    if "us_ok x t" "ss_alloc t = ss_alloc s" "ss_next_id t = ss_next_id s" "us_primary_id (sock t a) = us_primary_id (sock s a)" for t
    by (rule ok_accept_waiting) (use that a aw len in simp_all)
  show ?thesis
    using Inr s st go[of s]
    by (auto simp: handle_listen_def handle_start_listening_def start_listening_def Let_def split: option.splits intro!: go)
qed (use s in \<open>simp add: handle_listen_def\<close>)

lemma ok_socketpair:
  assumes s: "us_ok x s" and r: "us_room s"
  shows "us_ok x (snd (handle_connect_socketpair x i ctx s))"
proof (cases "get_sock s i")
  case (Inr a)
  note a = get_sock_ok[OF s Inr]
  note n = us_room_next[OF r]
  let ?k = "(sock s a)\<lparr>us_awaiting := us_awaiting (sock s a) @ [ss_next_id s]\<rparr>"
  have k: "us_okn x m (set_sock a ?k s)" if "us_okn x m s" for m
    by (rule ok_set_sock) (use that a get_sock_ok[OF that Inr] in \<open>auto simp: sock_ok_def\<close>)
  have t: "us_ok x ((insert_sock (ss_next_id t) new t)\<lparr>ss_next_id := ss_next_id t + 1\<rparr>)"
    if "us_okn x (ss_next_id s + 1) t" "ss_next_id t = ss_next_id s" "us_connection new = Some (uconn_new i)" "us_options new = []"
      "us_awaiting new = []" "us_primary_id new = ss_next_id s" for t new
    by (rule ok_insert) (use that n a(4) next_less in \<open>auto simp: sock_ok_def conn_ok_def uconn_new_def\<close>)
  have "us_okn x (ss_next_id s + 1) s" using s n by (rule ok_next)
  then show ?thesis
    using Inr s k[OF s] k a(2) t[of "snd (us_post x i (ux_EVENT_READ x OR ux_EVENT_WRITE x) (set_sock a ?k s))"]
    by (auto simp: handle_connect_socketpair_def connect_unchecked_def usocket_new_def Let_def snd_bind_out post_state split: sum.splits)
qed (use s in \<open>simp add: handle_connect_socketpair_def\<close>)

lemma ok_fds:
  assumes "us_okn x n s" "get_sock s i = Inr a" "us_connection (sock s a) = Some c"
  shows "us_okn x n (set_conn a (c\<lparr>uc_fds := fds\<rparr>) s)"
  using assms(1,2) by (rule ok_set_conn) (use conn_of_ok[OF assms] in \<open>simp add: conn_ok_def\<close>)

lemma ok_recvfd: "us_okn x n s \<Longrightarrow> us_okn x n (snd (handle_recvfd x i s))"
  by (auto simp: handle_recvfd_def Let_def required_connected split: sum.splits list.splits intro!: ok_fds)

lemma ok_write_inner: "us_okn x n s \<Longrightarrow> us_okn x n (snd (write_inner x i j buf ctx s))"
  by (auto simp: write_inner_def Let_def required_connected required_conn snd_bind_out post_state
      split: sum.splits if_splits intro!: ok_push)

lemma ok_sendfd_inner: "us_okn x n s \<Longrightarrow> us_okn x n (snd (sendfd_inner x j got s))"
  by (auto simp: sendfd_inner_def required_connected snd_bind_out post_state split: sum.splits intro!: ok_fds)

lemma ok_recvfd_inner: "us_okn x n s \<Longrightarrow> us_okn x n (snd (recvfd_inner x i k moved s))"
  by (auto simp: recvfd_inner_def Let_def required_connected split: sum.splits intro!: ok_fds)

lemma ok_read: 
  assumes s: "us_okn x n s"
  shows "us_okn x n (snd (us_read x i room flags s))"
proof -
  have "us_okn x n (set_conn a c' s)"
    if "get_sock s i = Inr a" "us_connection (sock s a) = Some c" "read_inner x room flags c = (r, c')" for a c c' r
    using s that(1)
  proof (rule ok_set_conn)
    have "conn_ok n i c" by (rule conn_of_ok[OF s that(1,2)])
    moreover have "c' = c\<lparr>uc_packets := snd (read_packets room (uc_packets c))\<rparr>"
      using that(3) by (auto simp: read_inner_def split: prod.splits)
    ultimately show "conn_ok n i c'" using read_packets_bytes[of "uc_packets c" room] by (simp add: conn_ok_def)
  qed
  then show ?thesis
    using s by (auto simp: us_read_def Let_def required_connected split: sum.splits prod.splits)
qed

lemma ok_close_waiting:
  assumes "us_okn x n s"
  shows "us_okn x n (snd (close_waiting x l cs s))"
  using assms
proof (induction cs arbitrary: s)
  case (Cons c cs)
  have "us_okn x n (snd (us_post x c f (set_sock b ((sock s b)\<lparr>us_state := SClosed\<rparr>) s)))" if "get_sock s c = Inr b" for b f
    unfolding post_state by (rule ok_set_sock) (use Cons.prems get_sock_ok[OF Cons.prems that] in \<open>auto simp: sock_ok_def\<close>)
  then show ?case using Cons by (auto split: sum.splits)
qed simp

lemma forget_state [simp]:
  "sock (forget_names k s) = sock s" "get_sock (forget_names k s) = get_sock s" "ss_alloc (forget_names k s) = ss_alloc s"
  "ss_next_id (forget_names k s) = ss_next_id s" "ss_handles (forget_names k s) = ss_handles s"
  by (simp_all add: forget_names_def Let_def split: option.splits)

lemma ok_forget: "us_okn x n s \<Longrightarrow> us_okn x n (forget_names k s)"
  using ok_tokens(2)[of x n "s\<lparr>ss_paths := _\<rparr>"]
  by (auto simp: forget_names_def Let_def split: option.splits intro: ok_tokens(2))

lemma ok_listening_closure: "us_okn x n s \<Longrightarrow> us_okn x n (snd (handle_listening_closure x a s))"
  by (simp add: handle_listening_closure_def ok_close_waiting ok_forget)

lemma ok_close_sock:
  assumes "us_okn x n s" "a < ss_alloc s"
  shows "us_okn x n (snd (close_sock a s))"
  unfolding close_sock_def Let_def snd_conv
  by (rule ok_set_sock) (use assms us_okD(1)[OF assms] in \<open>auto simp: sock_ok_def ok_forget\<close>)

lemma ok_other_closure:
  assumes s: "us_okn x n s" and a: "a < ss_alloc s"
  shows "us_okn x n (snd (handle_other_closure x a s))"
proof -
  have "us_okn x n (set_conn b (d\<lparr>uc_peer_shutdown := True\<rparr>) s)" if "get_sock s j = Inr b" "us_connection (sock s b) = Some d" for j b d
    using s that(1) by (rule ok_set_conn) (use conn_of_ok[OF s that] in \<open>simp add: conn_ok_def\<close>)
  moreover have "ss_alloc (set_conn b d s) = ss_alloc s" for b d by (simp add: set_conn_def)
  ultimately show ?thesis
    using s a by (auto simp: handle_other_closure_def required_conn post_state split: sum.splits intro!: ok_close_sock)
qed

lemma ok_on_close:
  assumes s: "us_okn x n s"
  shows "us_okn x n (snd (us_on_close x i s))"
proof (cases "map_of (ss_handles s) i")
  case (Some h)
  then show ?thesis
    using s ok_close_handle[OF s] get_sock_ok(1)[OF s, of i]
    by (cases h) (auto simp: us_on_close_def Let_def get_sock_def intro!: ok_listening_closure ok_other_closure)
qed (use ok_close_handle[OF s] in \<open>simp add: us_on_close_def\<close>)

lemma ok_unnamed:
  assumes "us_ok x s" "us_room s"
  shows "us_ok x (snd (handle_unnamed_socket flags ctx s))"
  using ok_insert[of x s "usocket_new (ss_next_id s) None Unbound [] flags None ctx"] ok_next[OF assms(1)] us_room_next[OF assms(2)]
  by (simp add: handle_unnamed_socket_def Let_def sock_ok_def usocket_new_def)

lemma call_inner_raw:
  assumes "metadata = raw # ms" "ux_socket_call x raw = Some v"
  shows "call_inner x i payload metadata ctx s =
    (let with_buf = (\<lambda>r. bind_out r (\<lambda>n. ok (n, payload)));
         pure = (\<lambda>r. case r of Inl f \<Rightarrow> (Inl f, s) | Inr v \<Rightarrow> ok v s);
         opt = (case ms of [] \<Rightarrow> None | v # _ \<Rightarrow> Some (ucast v :: u32));
         msg_flags = (case opt of None \<Rightarrow> 0 | Some v \<Rightarrow> v)
     in case v of
          CBind \<Rightarrow> with_buf (handle_bind x i payload s)
        | CConnect \<Rightarrow> with_buf (handle_connect x i payload s)
        | CSetSockOpt \<Rightarrow> (case opt of None \<Rightarrow> fail EINVAL s | Some v \<Rightarrow> with_buf (handle_setsockopt x i v payload s))
        | CGetSockOpt \<Rightarrow> (case opt of None \<Rightarrow> fail EINVAL s | Some v \<Rightarrow> pure (handle_getsockopt x i v payload s))
        | CSendMsg \<Rightarrow> with_buf (handle_sendmsg x i msg_flags payload ctx s)
        | CRecvMsg \<Rightarrow> handle_recvmsg x i msg_flags payload s
        | CUnbind \<Rightarrow> with_buf (handle_unbind i s)
        | CGetToken \<Rightarrow> (case handle_get_token i payload s of Inl e \<Rightarrow> fail e s | Inr v \<Rightarrow> ok v s)
        | CGetPeerName \<Rightarrow> pure (handle_get_peer_name i payload s)
        | COther \<Rightarrow> fail EOPNOTSUPP s)"
  using assms by (cases ms; cases v) (simp_all add: call_inner_def)

lemma snd_with_buf [simp]: "snd (bind_out r (\<lambda>n. ok (f n))) = snd r"
  by (cases r) (auto simp: bind_out_def split: sum.splits)

text \<open>What holds of the state after every kind of call holds of the state after a call.\<close>

lemma call_inner_state:
  assumes "P s" "P (snd (handle_bind x i payload s))" "P (snd (handle_connect x i payload s))"
    "\<And>v. P (snd (handle_setsockopt x i v payload s))" "\<And>f. P (snd (handle_sendmsg x i f payload ctx s))"
    "\<And>f. P (snd (handle_recvmsg x i f payload s))" "P (snd (handle_unbind i s))"
  shows "P (snd (call_inner x i payload metadata ctx s))"
proof (cases metadata)
  case Nil
  then show ?thesis using assms by (simp add: call_inner_def)
next
  case (Cons raw ms)
  show ?thesis
  proof (cases "ux_socket_call x raw")
    case None
    then show ?thesis using assms Cons by (simp add: call_inner_def Let_def)
  next
    case (Some v)
    show ?thesis
      unfolding call_inner_raw[of metadata raw ms x v, OF Cons Some] Let_def
      using assms by (cases v) (auto split: option.splits sum.splits)
  qed
qed

lemma ok_call: "us_okn x n s \<Longrightarrow> us_okn x n (snd (call_inner x i payload metadata ctx s))"
  by (rule call_inner_state) (auto intro: ok_bind ok_connect ok_setsockopt ok_sendmsg ok_recvmsg ok_unbind)

lemma call_next: "ss_next_id (snd (call_inner x i payload metadata ctx s)) = ss_next_id s"
  by (rule call_inner_state)
    (auto simp: handle_bind_def handle_connect_def handle_setsockopt_def handle_sendmsg_def handle_recvmsg_def handle_unbind_def
      Let_def snd_bind_out post_state set_conn_def split: sum.splits option.splits ustate.splits prod.splits)

lemma set_conn_fields [simp]:
  "ss_next_id (set_conn a c s) = ss_next_id s" "ss_alloc (set_conn a c s) = ss_alloc s" "get_sock (set_conn a c s) = get_sock s"
  "sock (set_conn a c s) b = (if b = a then (sock s a)\<lparr>us_connection := Some c\<rparr> else sock s b)"
  by (simp_all add: set_conn_def)

lemma other_next:
  "ss_next_id (snd (write_inner x i j buf ctx s)) = ss_next_id s" "ss_next_id (snd (sendfd_inner x j got s)) = ss_next_id s"
  "ss_next_id (snd (recvfd_inner x i k moved s)) = ss_next_id s" "ss_next_id (snd (handle_recvfd x i s)) = ss_next_id s"
  "ss_next_id (snd (us_read x i room flags s)) = ss_next_id s" "ss_next_id (snd (us_fcntl x i cmd arg s)) = ss_next_id s"
  by (auto simp: write_inner_def sendfd_inner_def recvfd_inner_def handle_recvfd_def us_read_def us_fcntl_def
      Let_def snd_bind_out post_state split: sum.splits if_splits list.splits prod.splits)

lemma close_waiting_next: "ss_next_id (snd (close_waiting x l cs s)) = ss_next_id s"
  by (induction cs arbitrary: s) (auto simp: post_state split: sum.splits)

lemma close_next: "ss_next_id (snd (us_on_close x i s)) = ss_next_id s"
  by (auto simp: us_on_close_def handle_listening_closure_def handle_other_closure_def close_sock_def close_waiting_next
      Let_def post_state split: option.splits uhandle.splits sum.splits)

lemma ok_fcntl: "us_okn x n s \<Longrightarrow> us_okn x n (snd (us_fcntl x i cmd arg s))"
  using get_sock_ok[of x n s i] by (auto simp: us_fcntl_def sock_ok_def split: sum.splits intro!: ok_set_sock)

text \<open>Every request keeps the invariant.\<close>

lemma us_step_ok:
  assumes "us_ok x s" "us_room s"
  shows "us_ok x (snd (us_step x q s))"
proof (cases q)
  case UsRoot
  then show ?thesis using ok_root[OF assms(1) us_room_next[OF assms(2)]] by (simp add: us_root_def Let_def)
next
  case (UsOpenat fd path flags fl ctx)
  have "us_ok x (snd (us_openat x fd path flags fl ctx s))"
    using assms ok_unnamed[OF assms] by (auto simp: us_openat_def Let_def case_prod_unfold split: option.splits)
  then show ?thesis using UsOpenat by simp
next
  case (UsCall i payload metadata ctx)
  then show ?thesis using ok_call[OF assms(1)] by (simp add: call_next)
next
  case (UsDup i buf ctx)
  have "us_ok x (snd (us_dup x i buf ctx s))"
    using assms(1) ok_listen[OF assms] ok_socketpair[OF assms] ok_recvfd[OF assms(1)] by (simp add: us_dup_def other_next)
  then show ?thesis using UsDup by simp
next
  case (UsWrite i buf ctx)
  then show ?thesis
    using assms(1) ok_write_inner[OF assms(1)] by (auto simp: us_write_def other_next split: sum.splits)
next
  case (UsSendfd i got)
  then show ?thesis
    using assms(1) ok_sendfd_inner[OF assms(1)] by (auto simp: us_on_sendfd_def other_next split: sum.splits)
qed (use ok_read[OF assms(1)] ok_recvfd_inner[OF assms(1)] ok_fcntl[OF assms(1)] ok_on_close[OF assms(1)] in
  \<open>simp_all add: other_next close_next\<close>)

lemma us_new_ok: "us_ok x ustream_new"
  by (simp add: us_okn_def ustream_new_def)

interpretation usd: daemon_invariant ustream_new "\<lambda>s q. snd (us_step x q s)" "\<lambda>s _. us_room s" "us_ok x" for x
  by unfold_locales (auto intro: us_new_ok us_step_ok)

section \<open>Panics\<close>

lemma peer_no_panic:
  assumes "us_okn x n s"
  shows "get_connected_peer s i \<noteq> Inl Panic"
proof
  assume "get_connected_peer s i = Inl Panic"
  then obtain a c where a: "get_sock s i = Inr a" "us_connection (sock s a) = Some c" "get_sock s (uc_peer c) = Inr a"
    by (auto simp: get_connected_peer_def required_conn split: sum.splits if_splits)
  then show False using conn_of_ok[OF assms a(1,2)] get_sock_ok(2)[OF assms a(1)] get_sock_ok(2)[OF assms a(3)] by (simp add: conn_ok_def)
qed

lemma accept_waiting_no_panic:
  assumes "us_ok x s" "l < ss_alloc s" "unat (ss_next_id s) + length cs < 2 ^ 64" "us_primary_id (sock s l) \<notin> set cs"
  shows "fst (accept_waiting x l ctx cs s) \<noteq> Inl Panic"
  using assms
proof (induction cs arbitrary: s)
  case (Cons c cs)
  let ?s1 = "set_sock l ((sock s l)\<lparr>us_awaiting := cs\<rparr>) s"
  obtain r t where rt: "accept_connection x l c ctx ?s1 = (r, t)" by (cases "accept_connection x l c ctx ?s1") auto
  have n: "ss_next_id s \<noteq> - 1" using Cons.prems(3) by (intro unat_not_max) simp
  have s1: "us_okn x (ss_next_id s) ?s1"
    by (rule ok_set_sock) (use Cons.prems us_okD(1)[OF Cons.prems(1,2)] in \<open>auto simp: sock_ok_def\<close>)
  then have t: "us_ok x t" using ok_accept_connection[of x ?s1 l c ctx] n rt by simp
  have l: "sock t l = (sock s l)\<lparr>us_awaiting := cs\<rparr>" "l < ss_alloc t"
    using accept_connection_listener[of l ?s1 x c ctx] rt Cons.prems(2) by simp_all
  have u: "unat (ss_next_id t) + length cs < 2 ^ 64"
    using accept_connection_next[of x l c ctx ?s1] rt Cons.prems(3) by simp
  have "get_sock s c \<noteq> Inr l" using get_sock_ok(2)[OF Cons.prems(1)] Cons.prems(4) by auto
  then have "r \<noteq> Inl Panic"
    using rt by (auto simp: accept_connection_def Let_def bind_out_def split: sum.splits prod.splits if_splits)
      (metis fst_conv post_no_panic)+
  moreover have "fst (accept_waiting x l ctx cs t) \<noteq> Inl Panic"
    by (rule Cons.IH[OF t l(2) u]) (use l Cons.prems in simp)
  ultimately show ?case using rt by (auto split: sum.splits fault.splits option.splits)
qed simp

lemma fst_bind_ok [simp]: "fst (bind_out r (\<lambda>n. ok (f n))) = Inl Panic \<longleftrightarrow> fst r = Inl Panic"
  by (cases r) (auto simp: bind_out_def split: sum.splits)

lemma listen_no_panic:
  assumes s: "us_ok x s" and r: "us_room s"
  shows "fst (handle_listen x i ctx s) \<noteq> Inl Panic"
proof (cases "get_sock s i")
  case (Inr a)
  note a = get_sock_ok[OF s Inr]
  have aw: "us_primary_id (sock s a) \<notin> set (us_awaiting (sock s a))" using a(3) by (simp add: sock_ok_def)
  have len: "unat (ss_next_id s) + length (us_awaiting (sock s a)) < 2 ^ 64" using r by (simp add: us_room_def)
  have st: "us_okn x (ss_next_id s) (set_sock a ((sock s a)\<lparr>us_state := Listening\<rparr>) s)"
    by (rule ok_set_sock) (use s a in \<open>auto simp: sock_ok_def\<close>)
  have go: "fst (accept_waiting x a ctx (us_awaiting (sock s a)) t) \<noteq> Inl Panic"
    if "us_ok x t" "ss_alloc t = ss_alloc s" "ss_next_id t = ss_next_id s" "us_primary_id (sock t a) = us_primary_id (sock s a)" for t
    by (rule accept_waiting_no_panic) (use that a aw len in simp_all)
  show ?thesis
    using Inr s st go[of s] go[of "set_sock a ((sock s a)\<lparr>us_state := Listening\<rparr>) s"]
      go[of "(set_sock a ((sock s a)\<lparr>us_state := Listening\<rparr>) s)\<lparr>ss_paths := _\<rparr>"]
    by (auto simp: handle_listen_def handle_start_listening_def start_listening_def Let_def split: option.splits if_splits)
qed (simp add: handle_listen_def)

lemma post_then: "fst (bind_out (us_post x i f s) (\<lambda>_ t. ok (g t) (h t))) \<noteq> Inl Panic"
  by (auto simp: us_post_def bind_out_def split: sum.splits bool.splits)

lemma post_then_fail: "fst (bind_out (us_post x i f s) (\<lambda>_. fail e)) \<noteq> Inl Panic"
  by (auto simp: us_post_def bind_out_def split: sum.splits bool.splits)

lemmas post_then_simps = post_then[where g = "\<lambda>_. _", simplified] post_then post_then_fail

lemma write_no_panic:
  assumes "us_okn x n s"
  shows "fst (us_write x i buf ctx s) \<noteq> Inl Panic"
proof -
  have "fst (write_inner x i j buf ctx s) \<noteq> Inl Panic" if p: "get_connected_peer s i = Inr (j, b)" for j b
  proof -
    obtain a where "get_sock s i = Inr a" "get_sock s j = Inr b" "b \<noteq> a" using peer_of[OF p] by blast
    then show ?thesis
      by (auto simp: write_inner_def Let_def post_then_simps split: sum.splits if_splits)
  qed
  then show ?thesis using peer_no_panic[OF assms] by (auto simp: us_write_def split: sum.splits)
qed

lemma close_waiting_no_panic:
  assumes "\<forall>c. get_sock s c \<noteq> Inr l"
  shows "fst (close_waiting x l cs s) \<noteq> Inl Panic"
  using assms by (induction cs arbitrary: s) (auto simp: post_state split: sum.splits)

lemma close_no_panic:
  assumes "us_okn x n s"
  shows "fst (us_on_close x i s) \<noteq> Inl Panic"
proof -
  let ?s1 = "s\<lparr>ss_handles := AList.delete i (ss_handles s)\<rparr>"
  have "get_sock ?s1 c \<noteq> Inr a" if "map_of (ss_handles s) i = Some (USocket a)" for a c
  proof
    assume c: "get_sock ?s1 c = Inr a"
    then have "c \<noteq> i" by (auto simp: get_sock_def alist_simps split: option.splits)
    moreover have "get_sock s c = Inr a" using c by (auto simp: get_sock_def alist_simps split: option.splits uhandle.splits if_splits)
    moreover have "get_sock s i = Inr a" using that by (simp add: get_sock_def)
    ultimately show False using get_sock_ok(2)[OF assms] by blast
  qed
  then show ?thesis
    using close_waiting_no_panic
    by (auto simp: us_on_close_def Let_def handle_listening_closure_def handle_other_closure_def close_sock_def
        split: option.splits uhandle.splits sum.splits)
qed

lemma recvmsg_panic:
  assumes "us_okn x n s" "fst (handle_recvmsg x i f stream s) = Inl Panic"
  shows "unat (le_word (take 8 (drop 8 stream)) :: u64) \<ge> 2 ^ 63"
proof (rule ccontr)
  assume small: "\<not> ?thesis"
  have "fst (uc_serialize x st nm iov opts c) \<noteq> Inl Panic" if "\<not> unat iov \<ge> 2 ^ 63" for st nm iov opts c
    using that by (auto simp: uc_serialize_def Let_def split: sum.splits prod.splits)
  then have us: "fst (us_serialize x f st nm iov k) \<noteq> Inl Panic" if "\<not> unat iov \<ge> 2 ^ 63" for st nm iov k
    using that by (auto simp: us_serialize_def case_prod_unfold split: sum.splits)
  have "fst (recvmsg_inner x f stream k) \<noteq> Inl Panic" for k
    using small us by (simp add: recvmsg_inner_def read_msghdr_info_def)
  then show False using assms(2)
    by (auto simp: handle_recvmsg_def Let_def case_prod_unfold split: sum.splits if_splits)
qed

lemma sendmsg_panic:
  assumes "us_okn x n s" "fst (handle_sendmsg x i f stream ctx s) = Inl Panic"
  shows "uds_get_uid_gid x (cc_pid ctx) = Inl Panic"
  using assms(2) peer_no_panic[OF assms(1), of i]
  by (auto simp: handle_sendmsg_def post_then_simps split: sum.splits prod.splits if_splits)

lemma connect_panic:
  assumes "fst (handle_connect x i buf s) = Inl Panic"
  shows "\<exists>token a. uds_read_num 8 buf = Inr token \<and> map_of (ss_tokens s) token = Some a \<and> get_sock s i = Inr a"
  using assms
  by (auto simp: handle_connect_def Let_def post_then_simps split: sum.splits option.splits if_splits ustate.splits prod.splits)

lemma openat_no_panic: "fst (us_openat x fd path flags fl ctx s) \<noteq> Inl Panic"
  by (auto simp: us_openat_def Let_def case_prod_unfold split: option.splits)

lemma dup_no_panic:
  assumes "us_ok x s" "us_room s"
  shows "fst (us_dup x i buf ctx s) \<noteq> Inl Panic"
proof -
  have "fst (handle_recvfd x i s) \<noteq> Inl Panic"
    by (auto simp: handle_recvfd_def Let_def split: sum.splits list.splits)
  moreover have "fst (handle_connect_socketpair x i ctx s) \<noteq> Inl Panic"
    by (auto simp: handle_connect_socketpair_def connect_unchecked_def Let_def post_then_simps split: sum.splits)
  ultimately show ?thesis using listen_no_panic[OF assms] by (simp add: us_dup_def)
qed

lemma read_no_panic: "fst (us_read x i room flags s) \<noteq> Inl Panic"
  by (auto simp: us_read_def Let_def split: sum.splits prod.splits)

lemma sendfd_no_panic: "us_okn x n s \<Longrightarrow> fst (us_on_sendfd x i got s) \<noteq> Inl Panic"
  using peer_no_panic[of x n s i]
  by (auto simp: us_on_sendfd_def sendfd_inner_def post_then_simps split: sum.splits)

lemma recvfd_no_panic: "fst (recvfd_inner x i n moved s) \<noteq> Inl Panic"
  by (auto simp: recvfd_inner_def Let_def split: sum.splits)

lemma fcntl_no_panic: "fst (us_fcntl x i cmd arg s) \<noteq> Inl Panic"
  by (auto simp: us_fcntl_def split: sum.splits)

lemma getsockopt_no_panic:
  assumes "us_okn x n s"
  shows "handle_getsockopt x i v payload s \<noteq> Inl Panic" "handle_get_peer_name i payload s \<noteq> Inl Panic"
  using peer_no_panic[OF assms, of i]
  by (auto simp: handle_getsockopt_def handle_get_peer_name_def Let_def split: sum.splits)

lemma bind_no_panic:
  "fst (handle_bind x i payload s) \<noteq> Inl Panic" "fst (handle_setsockopt x i v payload s) \<noteq> Inl Panic"
  "fst (handle_unbind i s) \<noteq> Inl Panic"
  by (auto simp: handle_bind_def handle_setsockopt_def handle_unbind_def Let_def split: sum.splits option.splits)

section \<open>Properties\<close>


section \<open>Examples\<close>

definition udsx_example :: udsx where
  "udsx_example = \<lparr>ux_SOL_SOCKET = 1, ux_SCM_RIGHTS = 1, ux_SO_PASSCRED = 16, ux_SO_SNDBUF = 7, ux_SO_DOMAIN = 39,
     ux_SO_PEERCRED = 17, ux_AF_UNIX = 1, ux_MSG_DONTWAIT = 0x40, ux_O_NONBLOCK = 0x40000, ux_O_CREAT = 0x2000000,
     ux_F_GETFL = 3, ux_F_SETFL = 4, ux_EVENT_READ = 1, ux_EVENT_WRITE = 2, ux_MODE_SOCK = 0xc000,
     ux_socket_call = (\<lambda>n. if n = 0 then Some CBind else if n = 1 then Some CConnect else if n = 4 then Some CSendMsg
        else if n = 5 then Some CRecvMsg else None),
     ux_ucred = (\<lambda>_. replicate 12 0), ux_random = (\<lambda>n. of_nat n + 7), ux_post = (\<lambda>_ _. Inr True),
     ux_proc_creds = (\<lambda>_. Inr (replicate 40 0))\<rparr>"

definition ctx_example :: caller_ctx where
  "ctx_example = \<lparr>cc_pid = 1, cc_uid = 0, cc_gid = 0\<rparr>"

fun us_run :: "udsx \<Rightarrow> us_request list \<Rightarrow> ustream \<Rightarrow> ustream" where
  "us_run x [] s = s"
| "us_run x (q # qs) s = us_run x qs (snd (us_step x q s))"

text \<open>A state with room: few handles and short queues.\<close>

definition us_small :: "ustream \<Rightarrow> bool" where
  "us_small s \<longleftrightarrow> ss_next_id s < 100 \<and> (\<forall>(a, k) \<in> set (ss_sockets s). length (us_awaiting k) < 100)"

lemma us_small_room:
  assumes "us_small s"
  shows "us_room s"
proof -
  have n: "unat (ss_next_id s) < 100" using assms by (simp add: us_small_def word_less_nat_alt)
  have "length (us_awaiting (sock s a)) < 100" for a
    using assms by (auto simp: us_small_def sock_def usocket_new_def split: option.splits dest!: map_of_SomeD)
  then have "unat (ss_next_id s) + length (us_awaiting (sock s a)) < 200" for a
    using n add_strict_mono[of "unat (ss_next_id s)" 100 "length (us_awaiting (sock s a))" 100] by simp
  moreover have "(200 :: nat) < 2 ^ 64" by simp
  ultimately have "unat (ss_next_id s) + length (us_awaiting (sock s a)) < 2 ^ 64" for a by (rule less_trans)
  then show ?thesis using n by (simp add: us_room_def)
qed

fun us_smalls :: "udsx \<Rightarrow> us_request list \<Rightarrow> ustream \<Rightarrow> bool" where
  "us_smalls x [] s = True"
| "us_smalls x (q # qs) s \<longleftrightarrow> us_small s \<and> us_smalls x qs (snd (us_step x q s))"

lemma reach_run:
  assumes "reach ustream_new (\<lambda>s q. snd (us_step x q s)) (\<lambda>s _. us_room s) s" "us_smalls x qs s"
  shows "reach ustream_new (\<lambda>s q. snd (us_step x q s)) (\<lambda>s _. us_room s) (us_run x qs s)"
  using assms
proof (induction qs arbitrary: s)
  case (Cons q qs)
  have "reach ustream_new (\<lambda>s q. snd (us_step x q s)) (\<lambda>s _. us_room s) (snd (us_step x q s))"
    using Cons.prems us_small_room by (intro reach_step) auto
  then show ?case using Cons by simp
qed simp

text \<open>A socket is opened and bound.\<close>

definition us_bound_example :: "us_request list" where
  "us_bound_example =
     [UsRoot, UsOpenat 0 [] 0x2000000 0 ctx_example, UsCall 1 [97] [0] ctx_example]"

text \<open>The states on the way, so that later examples start from there.\<close>

definition us_bound_state :: ustream where
  "us_bound_state =
     \<lparr>ss_sockets = [(0, \<lparr>us_primary_id = 1, us_path = Some [97], us_options = [], us_flags = 0x2000000, us_state = Listening,
        us_awaiting = [], us_connection = None, us_issued_token = Some 7, us_ucred = (1, 0, 0)\<rparr>)],
      ss_alloc = 1, ss_handles = [(0, USchemeRoot), (1, USocket 0)], ss_next_id = 2, ss_paths = [([97], 0)], ss_tokens = [(7, 0)],
      ss_drawn = 1, ss_posted = []\<rparr>"

lemma path_example: "path_buf_to_str [97] = Inr [97]"
proof -
  have "utf8_valid [97]" by code_simp
  then show ?thesis by (simp add: path_buf_to_str_def)
qed

lemma us_bound_run: "us_run udsx_example us_bound_example ustream_new = us_bound_state"
  by (simp add: us_bound_example_def ustream_new_def us_root_def us_openat_def handle_unnamed_socket_def insert_sock_def
      usocket_new_def call_inner_def udsx_example_def ctx_example_def Let_def handle_bind_def path_example get_sock_def sock_def
      set_sock_def start_listening_def us_bound_state_def)

lemma us_bound_reach: "reach ustream_new (\<lambda>s q. snd (us_step udsx_example q s)) (\<lambda>s _. us_room s) us_bound_state"
  unfolding us_bound_run[symmetric]
  by (rule reach_run[OF reach_init])
    (simp add: us_small_def us_bound_example_def ustream_new_def us_root_def us_openat_def handle_unnamed_socket_def insert_sock_def
      usocket_new_def udsx_example_def ctx_example_def Let_def)


end
