(* ===== verification/Uds_Stream_Props.thy ===== *)
theory Uds_Stream_Props
  imports Uds_Inv
begin

text \<open>
  Connected stream sockets are byte streams in both directions, whatever the other clients of the daemon do: what
  one end receives by \<open>read\<close> and \<open>recvmsg\<close> is what the other end sent by \<open>write\<close> and \<open>sendmsg\<close>, in order.
\<close>

section \<open>The layout of a received message\<close>

lemma le_nat_small: "k < 2 ^ 64 \<Longrightarrow> le_nat (le_bytes 8 (of_nat k :: u64)) = k"
  by (simp add: le_nat_le_bytes unat_of_nat)

lemma length_write_at [simp]: "off + length d \<le> length buf \<Longrightarrow> length (write_at off d buf) = length buf"
  by (simp add: write_at_def)

lemma write_at_here: "off \<le> length buf \<Longrightarrow> take (length d) (drop off (write_at off d buf)) = d"
  by (simp add: write_at_def)

lemma write_at_before: "off + n \<le> off' \<Longrightarrow> off' \<le> length buf \<Longrightarrow> take n (drop off (write_at off' d buf)) = take n (drop off buf)"
  by (simp add: write_at_def min_def take_drop)

text \<open>The payload as a client finds it: after the name and its length comes the length of the payload.\<close>

definition msg_payload :: "bytes \<Rightarrow> bytes" where
  "msg_payload buf = (let n = le_nat (take 8 buf) in take (le_nat (take 8 (drop (8 + n) buf))) (drop (16 + n) buf))"

lemma msg_payload_prefix:
  assumes "take m b1 = take m b2" "16 + le_nat (take 8 b2) + le_nat (take 8 (drop (8 + le_nat (take 8 b2)) b2)) \<le> m"
  shows "msg_payload b1 = msg_payload b2"
proof -
  have eq: "take k (drop off b1) = take k (drop off b2)" if "off + k \<le> m" for k off
    using arg_cong[OF assms(1), of "\<lambda>l. take k (drop off l)"] that by (simp add: drop_take min_absorb1)
  have "take 8 b1 = take 8 b2" using eq[of 0 8] assms(2) by simp
  then show ?thesis using assms(2) eq by (simp add: msg_payload_def Let_def)
qed

text \<open>Later parts of a message leave what was written before as it is.\<close>

lemma write_cmsg_prefix:
  assumes "write_cmsg level ty d w = (b, w')" "mw_written w \<le> length (mw_buffer w)"
  shows "take (mw_written w) (mw_buffer w') = take (mw_written w) (mw_buffer w)" "mw_written w \<le> mw_written w'"
    "mw_written w' \<le> length (mw_buffer w')" "length (mw_buffer w') = length (mw_buffer w)"
  using assms by (auto simp: write_cmsg_def Let_def write_at_def CMSG_HEADER_LEN_IN_STREAM_def split: if_splits)

lemma take_mono: "take n a = take n b \<Longrightarrow> m \<le> n \<Longrightarrow> take m a = take m b"
  by (metis min.absorb1 take_take)

definition writes_after :: "msg_writer \<Rightarrow> msg_writer \<Rightarrow> bool" where
  "writes_after w w' \<longleftrightarrow> take (mw_written w) (mw_buffer w') = take (mw_written w) (mw_buffer w) \<and> mw_written w \<le> mw_written w' \<and>
     mw_written w' \<le> length (mw_buffer w')"

lemma writes_after_trans: "writes_after a b \<Longrightarrow> writes_after b c \<Longrightarrow> writes_after a c"
  unfolding writes_after_def using take_mono by (metis order_trans)

lemma write_rights_after:
  assumes "write_rights x n w = (b, w')" "mw_written w \<le> length (mw_buffer w)"
  shows "writes_after w w'"
proof (cases "n = 0")
  case False
  then have "write_cmsg (ux_SOL_SOCKET x) (ux_SCM_RIGHTS x) (le_bytes 8 n) w = (b, w')"
    using assms(1) by (simp add: write_rights_def)
  from write_cmsg_prefix[OF this assms(2)] show ?thesis by (simp add: writes_after_def)
qed (use assms in \<open>simp add: write_rights_def writes_after_def\<close>)

lemma write_all_credentials_after:
  assumes "mw_written w \<le> length (mw_buffer w)"
  shows "writes_after w (snd (write_all_credentials x as w))"
  using assms
proof (induction as arbitrary: w)
  case (Cons a as)
  obtain b w' where w: "write_credentials x (ad_cred a) w = (b, w')" by (cases "write_credentials x (ad_cred a) w") auto
  have 1: "writes_after w w'" "mw_written w' \<le> length (mw_buffer w')"
    using write_cmsg_prefix[of _ _ _ w b w'] w Cons.prems by (auto simp: write_credentials_def writes_after_def)
  show ?case using Cons.IH[OF 1(2)] 1(1) w by (cases b) (auto intro: writes_after_trans)
qed (simp add: writes_after_def)

lemma write_options_after:
  assumes "mw_written w \<le> length (mw_buffer w)" "set opts \<subseteq> {ux_SO_PASSCRED x}"
  shows "\<exists>w'. write_options x as opts w = Inr w' \<and> writes_after w w'"
  using assms
proof (induction opts arbitrary: w)
  case (Cons opt opts)
  obtain b w' where w: "write_all_credentials x as w = (b, w')" by (cases "write_all_credentials x as w") auto
  have 1: "writes_after w w'" using write_all_credentials_after[OF Cons.prems(1), of x as] w by simp
  then have l: "mw_written w' \<le> length (mw_buffer w')" by (simp add: writes_after_def)
  obtain w'' where "write_options x as opts w' = Inr w''" "writes_after w' w''" using Cons.IH[OF l] Cons.prems(2) by auto
  then show ?case using w 1 Cons.prems(2) by (cases b) (auto intro: writes_after_trans)
qed (simp add: writes_after_def)

text \<open>
  A buffer with room for the name, the payload and one control message: \<open>recvmsg\<close> puts the next bytes of the
  stream into it, as many as the client asks for.
\<close>

definition fw_fits :: "nat \<Rightarrow> fpath_writer \<Rightarrow> bool" where
  "fw_fits n w \<longleftrightarrow> length (fw_buf w) = n \<and> fw_written w \<le> n"

lemma push_str_fits: "fw_fits n w \<Longrightarrow> fw_fits n (push_str s w)"
  by (auto simp: fw_fits_def push_str_def Let_def min_def)

lemma fpath_inner_fits: "\<exists>w. fpath_inner scheme path room = Inr w \<and> fw_fits (length room) w"
proof -
  have "fw_fits (length room) \<lparr>fw_buf = room, fw_written = 0\<rparr>" by (simp add: fw_fits_def)
  then show ?thesis unfolding fpath_inner_def fpath_with_def by (simp add: push_str_fits)
qed

lemma write_name_layout:
  assumes "take 8 stream = replicate 8 0" "unat name_size + 8 \<le> length stream"
  shows "\<exists>w. write_name scheme name name_size (msg_writer_new stream) = Inr w \<and> length (mw_buffer w) = length stream \<and>
    mw_written w \<le> 8 + unat name_size \<and> le_nat (take 8 (mw_buffer w)) = mw_written w - 8 \<and> 8 \<le> mw_written w"
proof (cases name)
  case None
  have "le_nat (replicate 8 0) = 0" by (simp add: numeral_eq_Suc)
  then show ?thesis using assms None by (simp add: write_name_def msg_writer_new_def)
next
  case (Some n)
  let ?room = "take (unat name_size) (drop 8 stream)"
  obtain w where w: "fpath_inner scheme n ?room = Inr w" "length (fw_buf w) = length ?room" "fw_written w \<le> length ?room"
    using fpath_inner_fits[of scheme n ?room] by (auto simp: fw_fits_def)
  have small: "fw_written w < 2 ^ 64"
    using w(3) unsigned_less[of name_size, where 'a = nat] by simp
  have len: "length (write_at 8 (fw_buf w) stream) = length stream" using w(2) assms(2) by simp
  have "le_nat (take 8 (write_at 0 (le_bytes 8 (of_nat (fw_written w) :: u64)) (write_at 8 (fw_buf w) stream))) = fw_written w"
    using small by (simp add: write_at_def le_nat_small)
  then show ?thesis
    using Some w assms(2) len small by (simp add: write_name_def msg_writer_new_def Let_def min_absorb1)
qed

lemma write_payload_layout:
  assumes "mw_written w + 8 + length bs \<le> length (mw_buffer w)" "length bs \<le> unat iov"
  shows "writes_after w (write_payload bs (length bs) iov w)"
    "mw_written (write_payload bs (length bs) iov w) = mw_written w + 8 + length bs"
    "length (mw_buffer (write_payload bs (length bs) iov w)) = length (mw_buffer w)"
    "take (8 + length bs) (drop (mw_written w) (mw_buffer (write_payload bs (length bs) iov w))) = le_bytes 8 (of_nat (length bs) :: u64) @ bs"
proof -
  have e: "write_payload bs (length bs) iov w =
      \<lparr>mw_buffer = write_at (mw_written w + 8) bs (write_at (mw_written w) (le_bytes 8 (of_nat (length bs) :: u64)) (mw_buffer w)),
       mw_written = mw_written w + 8 + length bs\<rparr>"
    using assms by (simp add: write_payload_def Let_def min_absorb2)
  show "writes_after w (write_payload bs (length bs) iov w)"
    using assms unfolding e by (simp add: writes_after_def write_at_def)
  show "mw_written (write_payload bs (length bs) iov w) = mw_written w + 8 + length bs"
    "length (mw_buffer (write_payload bs (length bs) iov w)) = length (mw_buffer w)"
    using assms unfolding e by simp_all
  show "take (8 + length bs) (drop (mw_written w) (mw_buffer (write_payload bs (length bs) iov w))) = le_bytes 8 (of_nat (length bs) :: u64) @ bs"
    using assms unfolding e by (simp add: write_at_def)
qed

lemma payload_found:
  assumes n: "le_nat (take 8 (mw_buffer w1)) = mw_written w1 - 8" "8 \<le> mw_written w1"
    and after: "writes_after w1 w2" and w2: "mw_written w2 = mw_written w1 + 8 + length bs"
    and here: "take (8 + length bs) (drop (mw_written w1) (mw_buffer w2)) = le_bytes 8 (of_nat (length bs) :: u64) @ bs"
    and small: "length bs < 2 ^ 64" and later: "writes_after w2 w4"
  shows "msg_payload (mw_buffer w4) = bs"
proof -
  have t8: "take 8 (mw_buffer w2) = take 8 (mw_buffer w1)"
    by (rule take_mono[OF _ n(2)]) (use after in \<open>simp add: writes_after_def\<close>)
  have len: "take 8 (drop (mw_written w1) (mw_buffer w2)) = le_bytes 8 (of_nat (length bs) :: u64)"
    using arg_cong[OF here, of "take 8"] by (simp only: take_take min.absorb1 le_add1 take_append length_le_bytes) simp
  have bs: "take (length bs) (drop (mw_written w1 + 8) (mw_buffer w2)) = bs"
    using arg_cong[OF here, of "drop 8"] by (simp add: drop_take add.commute)
  have "msg_payload (mw_buffer w2) = bs"
    using n len bs small by (simp add: msg_payload_def Let_def t8 le_nat_small add.commute)
  moreover have "msg_payload (mw_buffer w4) = msg_payload (mw_buffer w2)"
    by (rule msg_payload_prefix[of "mw_written w2"])
      (use later n len small w2 in \<open>simp_all add: writes_after_def t8 le_nat_small\<close>)
  ultimately show ?thesis by simp
qed

lemma serialize_payload:
  assumes p: "packets_ok (uc_packets c)" and o: "set opts \<subseteq> {ux_SO_PASSCRED x}"
    and room: "unat name_size + unat iov + 40 \<le> length stream" and iov: "unat iov < 2 ^ 63"
    and zero: "take 8 stream = replicate 8 0"
  shows "\<exists>n buf c'. uc_serialize x stream name_size iov opts c = (Inr (n, buf), c') \<and>
    msg_payload buf = take (unat iov) (pending (uc_packets c))"
proof -
  obtain bs nm ancs rest where t: "take_packets (unat iov) (uc_packets c) None = (bs, nm, ancs, rest)"
    by (cases "take_packets (unat iov) (uc_packets c) None") auto
  have bs: "bs = take (unat iov) (pending (uc_packets c))" using take_packets_bytes[OF p t] by simp
  then have lbs: "length bs \<le> unat iov" by simp
  obtain w1 where w1: "write_name uds_stream_name nm name_size (msg_writer_new stream) = Inr w1" "length (mw_buffer w1) = length stream"
    "mw_written w1 \<le> 8 + unat name_size" "le_nat (take 8 (mw_buffer w1)) = mw_written w1 - 8" "8 \<le> mw_written w1"
    using write_name_layout[OF zero, of name_size uds_stream_name nm] room by auto
  define w2 where "w2 = write_payload bs (length bs) iov w1"
  have fit: "mw_written w1 + 8 + length bs \<le> length (mw_buffer w1)" using w1(2,3) lbs room by simp
  note w2 = write_payload_layout[OF fit lbs, folded w2_def]
  obtain b w3 where w3: "write_rights x (sum_list (map ad_num_fds ancs)) w2 = (b, w3)" by (cases "write_rights x (sum_list (map ad_num_fds ancs)) w2") auto
  have l2: "mw_written w2 \<le> length (mw_buffer w2)" "mw_written w2 + 24 \<le> length (mw_buffer w2)" using w2(2,3) w1(2,3) lbs room by simp_all
  have b: "b" using w3 l2 by (auto simp: write_rights_def write_cmsg_def Let_def CMSG_HEADER_LEN_IN_STREAM_def split: if_splits)
  have a3: "writes_after w2 w3"
    using w3 l2(1) by (rule write_rights_after)
  then obtain w4 where w4: "write_options x ancs opts w3 = Inr w4" "writes_after w3 w4"
    using write_options_after[of w3 opts x ancs] o by (auto simp: writes_after_def)
  have "length bs < 2 ^ 64" using lbs unsigned_less[of iov, where 'a = nat] by simp
  then have "msg_payload (mw_buffer w4) = bs"
    using payload_found[OF w1(4,5) w2(1,2,4)] writes_after_trans[OF a3 w4(2)] by blast
  moreover have "uc_serialize x stream name_size iov opts c = (Inr (mw_written w4, mw_buffer w4), c\<lparr>uc_packets := rest\<rparr>)"
    using iov t w1(1) w3 b w4(1) lbs by (simp add: uc_serialize_def Let_def min_absorb1 w2_def[symmetric])
  ultimately show ?thesis using bs by blast
qed

section \<open>Linked sockets\<close>

definition connected :: "usocket \<Rightarrow> bool" where
  "connected k \<longleftrightarrow> us_state k = Established \<or> us_state k = Accepted"

text \<open>A socket that is connected to socket number \<open>j\<close>.\<close>

definition member :: "u64 \<Rightarrow> usocket \<Rightarrow> bool" where
  "member j k \<longleftrightarrow> connected k \<and> (\<exists>c. us_connection k = Some c \<and> uc_peer c = j)"

text \<open>A socket that does not interfere with \<open>i\<close> and \<open>j\<close>: only \<open>i\<close> has the peer \<open>j\<close>, and neither waits for it.\<close>

definition apart :: "u64 \<Rightarrow> u64 \<Rightarrow> usocket \<Rightarrow> bool" where
  "apart i j k \<longleftrightarrow> i \<notin> set (us_awaiting k) \<and> j \<notin> set (us_awaiting k) \<and>
     (\<forall>c. us_connection k = Some c \<longrightarrow> (uc_peer c = j \<longrightarrow> us_primary_id k = i) \<and> (uc_peer c = i \<longrightarrow> us_primary_id k = j))"

definition linked :: "u64 \<Rightarrow> u64 \<Rightarrow> ustream \<Rightarrow> bool" where
  "linked i j s \<longleftrightarrow> i \<noteq> j \<and> (\<forall>a. apart i j (sock s a)) \<and>
     (\<exists>a. get_sock s i = Inr a \<and> member j (sock s a)) \<and> (\<exists>b. get_sock s j = Inr b \<and> member i (sock s b))"

text \<open>The bytes that wait to be received by socket number \<open>j\<close>.\<close>

definition inbox :: "u64 \<Rightarrow> ustream \<Rightarrow> bytes" where
  "inbox j s = (case get_sock s j of
     Inl _ \<Rightarrow> []
   | Inr b \<Rightarrow> (case us_connection (sock s b) of None \<Rightarrow> [] | Some c \<Rightarrow> pending (uc_packets c)))"

lemma linked_sym: "linked i j s \<Longrightarrow> linked j i s"
  by (auto simp: linked_def apart_def)

lemma linked_misc [simp]:
  "linked i j (s\<lparr>ss_posted := p\<rparr>) = linked i j s" "linked i j (s\<lparr>ss_drawn := d\<rparr>) = linked i j s"
  "linked i j (s\<lparr>ss_paths := q\<rparr>) = linked i j s" "linked i j (s\<lparr>ss_tokens := t\<rparr>) = linked i j s"
  "linked i j (s\<lparr>ss_next_id := n\<rparr>) = linked i j s" "linked i j (forget_names k s) = linked i j s"
  by (simp_all add: linked_def)

lemma inbox_misc [simp]:
  "inbox j (s\<lparr>ss_posted := p\<rparr>) = inbox j s" "inbox j (s\<lparr>ss_drawn := d\<rparr>) = inbox j s"
  "inbox j (s\<lparr>ss_paths := q\<rparr>) = inbox j s" "inbox j (s\<lparr>ss_tokens := t\<rparr>) = inbox j s"
  "inbox j (s\<lparr>ss_next_id := n\<rparr>) = inbox j s" "inbox j (forget_names k s) = inbox j s"
  by (simp_all add: inbox_def cong: sum.case_cong)

lemma linked_post [simp]: "linked i j (snd (us_post x a f s)) = linked i j s" "inbox j (snd (us_post x a f s)) = inbox j s"
  by (simp_all add: linked_def inbox_def post_state cong: sum.case_cong)

text \<open>A request that neither breaks the link nor changes what waits for \<open>j\<close>.\<close>

definition quiet :: "u64 \<Rightarrow> u64 \<Rightarrow> ustream \<Rightarrow> ustream \<Rightarrow> bool" where
  "quiet i j s t \<longleftrightarrow> linked i j t \<and> inbox j t = inbox j s"

lemma us_quiet_refl: "linked i j s \<Longrightarrow> quiet i j s s"
  by (simp add: quiet_def)

lemma us_quiet_trans: "quiet i j s t \<Longrightarrow> quiet i j t u \<Longrightarrow> quiet i j s u"
  by (simp add: quiet_def)

lemma linked_set:
  assumes "linked i j s" "apart i j k" "get_sock s i = Inr a \<Longrightarrow> member j k" "get_sock s j = Inr a \<Longrightarrow> member i k"
  shows "linked i j (set_sock a k s)"
  using assms by (auto simp: linked_def)

lemma inbox_set:
  "inbox j (set_sock a k s) =
     (if get_sock s j = Inr a then (case us_connection k of None \<Rightarrow> [] | Some c \<Rightarrow> pending (uc_packets c)) else inbox j s)"
  by (auto simp: inbox_def split: sum.splits)

text \<open>The sockets that are linked, and what the others are not.\<close>

lemma linkedD:
  assumes "linked i j s"
  shows "apart i j (sock s a)" "i \<noteq> j"
    "get_sock s i = Inr a \<Longrightarrow> member j (sock s a)" "get_sock s j = Inr a \<Longrightarrow> member i (sock s a)"
  using assms by (auto simp: linked_def)

lemma linked_other:
  assumes "linked i j s" "us_okn x n s" "a < ss_alloc s" "\<not> connected (sock s a)"
  shows "us_primary_id (sock s a) \<noteq> i" "us_primary_id (sock s a) \<noteq> j" "get_sock s i \<noteq> Inr a" "get_sock s j \<noteq> Inr a"
proof -
  obtain b c where b: "get_sock s i = Inr b" "connected (sock s b)" "get_sock s j = Inr c" "connected (sock s c)"
    using assms(1) by (auto simp: linked_def member_def)
  then have "b \<noteq> a" "c \<noteq> a" using assms(4) by auto
  then show "us_primary_id (sock s a) \<noteq> i" "us_primary_id (sock s a) \<noteq> j"
    using us_okD(5)[OF assms(2), of b a] us_okD(5)[OF assms(2), of c a] get_sock_ok[OF assms(2) b(1)] get_sock_ok[OF assms(2) b(3)] assms(3)
    by auto
  show "get_sock s i \<noteq> Inr a" "get_sock s j \<noteq> Inr a" using b assms(4) by auto
qed

text \<open>A socket changes, but not its connection.\<close>

lemma quiet_tune:
  assumes "linked i j s" "us_connection k = us_connection (sock s a)" "us_primary_id k = us_primary_id (sock s a)"
    "set (us_awaiting k) \<subseteq> set (us_awaiting (sock s a))" "connected (sock s a) \<Longrightarrow> connected k"
  shows "quiet i j s (set_sock a k s)"
proof -
  have "apart i j k" using linkedD(1)[OF assms(1), of a] assms(2-4) by (auto simp: apart_def)
  moreover have "member j' k" if "member j' (sock s a)" for j' using that assms(2,5) by (simp add: member_def)
  ultimately have "linked i j (set_sock a k s)"
    using assms(1) linkedD[OF assms(1)] by (intro linked_set) auto
  moreover have "inbox j (set_sock a k s) = inbox j s"
    unfolding inbox_set by (simp add: inbox_def assms(2))
  ultimately show ?thesis by (simp add: quiet_def)
qed

text \<open>A connection changes, but not its peer.\<close>

lemma linked_conn:
  assumes "linked i j s" "us_connection (sock s a) = Some c" "uc_peer c' = uc_peer c"
  shows "linked i j (set_conn a c' s)"
proof -
  have "apart i j ((sock s a)\<lparr>us_connection := Some c'\<rparr>)"
    using linkedD(1)[OF assms(1), of a] assms(2,3) by (simp add: apart_def)
  moreover have "member j' ((sock s a)\<lparr>us_connection := Some c'\<rparr>)" if "member j' (sock s a)" for j'
    using that assms(2,3) by (simp add: member_def connected_def)
  ultimately show ?thesis unfolding set_conn_def using assms(1) linkedD[OF assms(1)] by (intro linked_set) auto
qed

lemma inbox_conn:
  "inbox j (set_conn a c s) = (if get_sock s j = Inr a then pending (uc_packets c) else inbox j s)"
  by (simp add: set_conn_def inbox_set)

lemma quiet_conn:
  assumes "linked i j s" "us_connection (sock s a) = Some c" "uc_peer c' = uc_peer c"
    "get_sock s j \<noteq> Inr a \<or> pending (uc_packets c') = pending (uc_packets c)"
  shows "quiet i j s (set_conn a c' s)"
  using linked_conn[OF assms(1-3)] assms(2,4) by (auto simp: quiet_def inbox_conn) (simp add: inbox_def)

text \<open>A new socket.\<close>

lemma quiet_insert:
  assumes "linked i j s" "n \<noteq> i" "n \<noteq> j" "apart i j k" "\<forall>m a. get_sock s m = Inr a \<longrightarrow> a < ss_alloc s"
  shows "quiet i j s (insert_sock n k s)"
proof -
  have g: "get_sock (insert_sock n k s) m = get_sock s m" if "m \<noteq> n" for m
    using that by (simp add: get_sock_def insert_sock_def alist_simps)
  have "linked i j (insert_sock n k s)"
    using assms by (fastforce simp: linked_def sock_insert g)
  moreover have "inbox j (insert_sock n k s) = inbox j s"
    using assms(3,5) by (auto simp: inbox_def g sock_insert split: sum.splits)
  ultimately show ?thesis by (simp add: quiet_def)
qed

lemma quiet_misc [simp]:
  "quiet i j s (t\<lparr>ss_posted := p\<rparr>) = quiet i j s t" "quiet i j s (t\<lparr>ss_drawn := d\<rparr>) = quiet i j s t"
  "quiet i j s (t\<lparr>ss_paths := q\<rparr>) = quiet i j s t" "quiet i j s (t\<lparr>ss_tokens := u\<rparr>) = quiet i j s t"
  "quiet i j s (t\<lparr>ss_next_id := n\<rparr>) = quiet i j s t" "quiet i j s (forget_names k t) = quiet i j s t"
  "quiet i j s (snd (us_post x a f t)) = quiet i j s t"
  by (simp_all add: quiet_def)

section \<open>Requests that leave a link alone\<close>

lemma quiet_bind:
  assumes "linked i j s"
  shows "quiet i j s (snd (handle_bind x h path s))"
proof -
  have "quiet i j s (set_sock a k' ((set_sock a k s)\<lparr>ss_drawn := d\<rparr>))" "quiet i j s (set_sock a k s)"
    if "us_state (sock s a) = Unbound" "us_connection k = us_connection (sock s a)" "us_primary_id k = us_primary_id (sock s a)"
      "us_awaiting k = us_awaiting (sock s a)" "us_connection k' = us_connection (sock s a)" "us_primary_id k' = us_primary_id (sock s a)"
      "us_awaiting k' = us_awaiting (sock s a)" "us_state k = Bound" for a k k' d
  proof -
    show 1: "quiet i j s (set_sock a k s)" by (rule quiet_tune) (use assms that in \<open>auto simp: connected_def\<close>)
    then have "linked i j ((set_sock a k s)\<lparr>ss_drawn := d\<rparr>)" by (simp add: quiet_def)
    then have 2: "quiet i j ((set_sock a k s)\<lparr>ss_drawn := d\<rparr>) (set_sock a k' ((set_sock a k s)\<lparr>ss_drawn := d\<rparr>))"
      by (rule quiet_tune) (use that in \<open>auto simp: connected_def\<close>)
    show "quiet i j s (set_sock a k' ((set_sock a k s)\<lparr>ss_drawn := d\<rparr>))" by (rule us_quiet_trans[OF _ 2]) (simp add: 1)
  qed
  then show ?thesis
    using us_quiet_refl[OF assms] by (auto simp: handle_bind_def Let_def start_listening_def split: sum.splits)
qed

lemma quiet_connect:
  assumes L: "linked i j s" and s: "us_okn x n s"
  shows "quiet i j s (snd (handle_connect x h buf s))"
proof -
  have two: "quiet i j s (set_sock a c' (set_sock l l' s))"
    if "get_sock s h = Inr a" "l < ss_alloc s" "a \<noteq> l" "us_connect x (sock s l) (sock s a) = Inr (l', c')" "\<not> connected (sock s a)" for a l l' c'
  proof -
    have a: "a < ss_alloc s" by (rule get_sock_ok[OF s that(1)])
    have nl: "\<not> connected (sock s l)" using that(4) by (auto simp: us_connect_def connected_def split: if_splits)
    have eq: "l' = (sock s l)\<lparr>us_awaiting := us_awaiting (sock s l) @ [us_primary_id (sock s a)]\<rparr>"
      "c' = (sock s a)\<lparr>us_state := Connecting, us_connection := Some (uconn_new (us_primary_id (sock s l)))\<rparr>"
      using that(4) by (auto simp: us_connect_def connect_unchecked_def split: if_splits)
    note oa = linked_other[OF L s a that(5)] and ol = linked_other[OF L s that(2) nl]
    have "linked i j (set_sock l l' s)"
      by (rule linked_set) (use L linkedD(1)[OF L, of l] oa ol eq in \<open>auto simp: apart_def\<close>)
    then have "linked i j (set_sock a c' (set_sock l l' s))"
      by (rule linked_set) (use linkedD(1)[OF L, of a] oa ol eq in \<open>auto simp: apart_def uconn_new_def\<close>)
    then show ?thesis using oa ol by (simp add: quiet_def inbox_set)
  qed
  have est: "quiet i j s (set_sock a ((sock s a)\<lparr>us_state := Established\<rparr>) s)" for a
    by (rule quiet_tune) (use L in \<open>auto simp: connected_def\<close>)
  show ?thesis
    using us_quiet_refl[OF L] us_okD(3)[OF s]
    by (auto simp: handle_connect_def Let_def snd_bind_out connected_def split: sum.splits option.splits ustate.splits
        intro: two est)
qed

lemma quiet_setsockopt: "linked i j s \<Longrightarrow> quiet i j s (snd (handle_setsockopt x h opt v s))"
  by (auto simp: handle_setsockopt_def Let_def connected_def us_quiet_refl split: sum.splits intro!: quiet_tune)

lemma quiet_unbind: "linked i j s \<Longrightarrow> quiet i j s (snd (handle_unbind h s))"
  by (auto simp: handle_unbind_def Let_def connected_def us_quiet_refl split: sum.splits option.splits intro!: quiet_tune)

lemma quiet_fcntl: "linked i j s \<Longrightarrow> quiet i j s (snd (us_fcntl x h cmd arg s))"
  by (auto simp: us_fcntl_def connected_def us_quiet_refl split: sum.splits intro!: quiet_tune)

lemma quiet_fds:
  assumes "linked i j s" "us_connection (sock s a) = Some c"
  shows "quiet i j s (set_conn a (c\<lparr>uc_fds := fds\<rparr>) s)"
  using assms by (rule quiet_conn) auto

lemma quiet_recvfd: "linked i j s \<Longrightarrow> quiet i j s (snd (handle_recvfd x h s))"
  by (auto simp: handle_recvfd_def Let_def required_connected us_quiet_refl split: sum.splits list.splits intro: quiet_fds)

lemma quiet_sendfd_inner: "linked i j s \<Longrightarrow> quiet i j s (snd (sendfd_inner x r got s))"
  by (auto simp: sendfd_inner_def required_connected snd_bind_out us_quiet_refl split: sum.splits intro: quiet_fds)

lemma quiet_recvfd_inner: "linked i j s \<Longrightarrow> quiet i j s (snd (recvfd_inner x h k moved s))"
  by (auto simp: recvfd_inner_def Let_def required_connected us_quiet_refl split: sum.splits intro: quiet_fds)

lemma linked_ids:
  assumes "linked i j s" "us_okn x n s"
  shows "i < ss_next_id s" "j < ss_next_id s" "ss_next_id s \<noteq> i" "ss_next_id s \<noteq> j"
proof -
  obtain a b where "get_sock s i = Inr a" "get_sock s j = Inr b" using assms(1) by (auto simp: linked_def)
  then show "i < ss_next_id s" "j < ss_next_id s" using get_sock_ok(4)[OF assms(2)] by auto
  then show "ss_next_id s \<noteq> i" "ss_next_id s \<noteq> j" by auto
qed

lemma quiet_accept_connection:
  assumes L: "linked i j s" and s: "us_okn x n s" and ids: "client_id \<noteq> i" "client_id \<noteq> j"
  shows "quiet i j s (snd (accept_connection x l client_id ctx s))"
proof (cases "get_sock s client_id")
  case (Inl e)
  then show ?thesis using us_quiet_refl[OF L] by (simp add: accept_connection_def)
next
  case c: (Inr c)
  note fresh = linked_ids[OF L s]
  show ?thesis
  proof (cases "us_accept (sock s l) (ss_next_id s) client_id ctx")
    case (Inl e)
    then show ?thesis using us_quiet_refl[OF L] c by (simp add: accept_connection_def Let_def)
  next
    case a: (Inr new)
    note new = accept_new[OF a]
    obtain r client' new' where e: "us_establish (sock s c) new (us_primary_id (sock s l)) = (r, client', new')"
      by (cases "us_establish (sock s c) new (us_primary_id (sock s l))") auto
    note ec = establish_cases[OF e new(3)]
    show ?thesis
    proof (cases r)
      case (Inl err)
      have "quiet i j s (set_sock c client' s)"
        by (rule quiet_tune) (use L ec Inl in \<open>auto simp: connected_def\<close>)
      then show ?thesis using c a e Inl us_quiet_refl[OF L] by (simp add: accept_connection_def Let_def)
    next
      case (Inr u)
      then obtain cc where cc: "us_state (sock s c) = Connecting"
        "client' = (sock s c)\<lparr>us_state := Accepted, us_connection := Some (cc\<lparr>uc_peer := ss_next_id s, uc_packets := []\<rparr>)\<rparr>"
        "us_connection new' = Some ((uconn_new client_id)\<lparr>uc_packets := uc_packets cc\<rparr>)" "us_awaiting new' = []"
        using ec new by (auto simp: uconn_new_def)
      have o: "get_sock s i \<noteq> Inr c" "get_sock s j \<noteq> Inr c"
        using linked_other(3,4)[OF L s _ , of c] get_sock_ok(1)[OF s c] cc(1) by (auto simp: connected_def)
      have "linked i j (set_sock c client' s)"
        by (rule linked_set) (use L linkedD(1)[OF L, of c] fresh o cc in \<open>auto simp: apart_def\<close>)
      then have "quiet i j s (set_sock c client' s)" using o by (simp add: quiet_def inbox_set)
      moreover have "quiet i j (set_sock c client' s) (insert_sock (ss_next_id s) new' (set_sock c client' s))"
        by (rule quiet_insert)
          (use \<open>linked i j (set_sock c client' s)\<close> fresh ids cc us_okD(4)[OF s] in \<open>auto simp: apart_def uconn_new_def\<close>)
      ultimately have "quiet i j s (insert_sock (ss_next_id s) new' (set_sock c client' s))" by (rule us_quiet_trans)
      then show ?thesis
        using c a e Inr us_quiet_refl[OF L] by (simp add: accept_connection_def Let_def snd_bind_out insert_next_swap split: sum.splits)
    qed
  qed
qed

lemma quiet_accept_waiting:
  assumes "linked i j s" "us_ok x s" "l < ss_alloc s" "unat (ss_next_id s) + length cs < 2 ^ 64" "us_primary_id (sock s l) \<notin> set cs"
    "set cs \<subseteq> set (us_awaiting (sock s l))"
  shows "quiet i j s (snd (accept_waiting x l ctx cs s))"
  using assms
proof (induction cs arbitrary: s)
  case (Cons c cs)
  let ?s1 = "set_sock l ((sock s l)\<lparr>us_awaiting := cs\<rparr>) s"
  obtain r t where rt: "accept_connection x l c ctx ?s1 = (r, t)" by (cases "accept_connection x l c ctx ?s1") auto
  have n: "ss_next_id s \<noteq> - 1" using Cons.prems(4) by (intro unat_not_max) simp
  have s1: "us_okn x (ss_next_id s) ?s1"
    by (rule ok_set_sock) (use Cons.prems us_okD(1)[OF Cons.prems(2,3)] in \<open>auto simp: sock_ok_def\<close>)
  have q1: "quiet i j s ?s1"
    by (rule quiet_tune) (use Cons.prems in \<open>auto simp: connected_def\<close>)
  have ids: "c \<noteq> i" "c \<noteq> j" using linkedD(1)[OF Cons.prems(1), of l] Cons.prems(6) by (auto simp: apart_def)
  have "quiet i j ?s1 t"
    using quiet_accept_connection[of i j ?s1 x "ss_next_id s" c l ctx] q1 s1 ids rt by (simp add: quiet_def)
  with q1 have q: "quiet i j s t" by (rule us_quiet_trans)
  have t: "us_ok x t" using ok_accept_connection[of x ?s1 l c ctx] n rt s1 by simp
  have l: "sock t l = (sock s l)\<lparr>us_awaiting := cs\<rparr>" "l < ss_alloc t"
    using accept_connection_listener[of l ?s1 x c ctx] rt Cons.prems(3) by simp_all
  have u: "unat (ss_next_id t) + length cs < 2 ^ 64"
    using accept_connection_next[of x l c ctx ?s1] rt Cons.prems(4) by simp
  have "quiet i j t (snd (accept_waiting x l ctx cs t))"
    by (rule Cons.IH[OF _ t l(2) u]) (use l Cons.prems q in \<open>simp_all add: quiet_def\<close>)
  then have "quiet i j s (snd (accept_waiting x l ctx cs t))" by (rule us_quiet_trans[OF q])
  then show ?case using rt q by (auto split: sum.splits fault.splits option.splits)
qed (simp add: us_quiet_refl)

lemma quiet_listen:
  assumes L: "linked i j s" and s: "us_ok x s" and r: "us_room s"
  shows "quiet i j s (snd (handle_listen x h ctx s))"
proof (cases "get_sock s h")
  case (Inr a)
  note a = get_sock_ok[OF s Inr]
  have aw: "us_primary_id (sock s a) \<notin> set (us_awaiting (sock s a))" using a(3) by (simp add: sock_ok_def)
  have len: "unat (ss_next_id s) + length (us_awaiting (sock s a)) < 2 ^ 64" using r by (simp add: us_room_def)
  have st: "us_okn x (ss_next_id s) (set_sock a ((sock s a)\<lparr>us_state := Listening\<rparr>) s)"
    by (rule ok_set_sock) (use s a in \<open>auto simp: sock_ok_def\<close>)
  have go: "quiet i j s (snd (accept_waiting x a ctx (us_awaiting (sock s a)) t))"
    if "us_ok x t" "ss_alloc t = ss_alloc s" "ss_next_id t = ss_next_id s" "us_primary_id (sock t a) = us_primary_id (sock s a)"
      "us_awaiting (sock t a) = us_awaiting (sock s a)" "quiet i j s t" for t
    by (rule us_quiet_trans[OF that(6) quiet_accept_waiting]) (use that a aw len in \<open>simp_all add: quiet_def\<close>)
  have tune: "quiet i j s (set_sock a ((sock s a)\<lparr>us_state := Listening\<rparr>) s)" if "us_state (sock s a) = Unbound \<or> us_state (sock s a) = Bound"
    by (rule quiet_tune) (use L that in \<open>auto simp: connected_def\<close>)
  show ?thesis
    using Inr s st go[of s] tune us_quiet_refl[OF L]
    by (auto simp: handle_listen_def handle_start_listening_def start_listening_def Let_def split: option.splits intro!: go)
qed (use us_quiet_refl[OF L] in \<open>simp add: handle_listen_def\<close>)

lemma quiet_socketpair:
  assumes L: "linked i j s" and s: "us_okn x n s" and h: "h \<noteq> i" "h \<noteq> j"
  shows "quiet i j s (snd (handle_connect_socketpair x h ctx s))"
proof (cases "get_sock s h")
  case (Inr a)
  note a = get_sock_ok[OF s Inr] and fresh = linked_ids[OF L s]
  let ?k = "(sock s a)\<lparr>us_awaiting := us_awaiting (sock s a) @ [ss_next_id s]\<rparr>"
  have o: "get_sock s i \<noteq> Inr a" "get_sock s j \<noteq> Inr a" using get_sock_ok(2)[OF s] a(2) h by blast+
  have "linked i j (set_sock a ?k s)"
    by (rule linked_set) (use L linkedD(1)[OF L, of a] fresh o in \<open>auto simp: apart_def\<close>)
  then have k: "quiet i j s (set_sock a ?k s)" using o by (simp add: quiet_def inbox_set)
  have t: "quiet i j s (insert_sock (ss_next_id s) new t)"
    if "quiet i j s t" "ss_alloc t = ss_alloc s" "get_sock t = get_sock s" "us_connection new = Some (uconn_new h)" "us_awaiting new = []" for t new
    by (rule us_quiet_trans[OF that(1) quiet_insert])
      (use that fresh h us_okD(4)[OF s] in \<open>auto simp: quiet_def apart_def uconn_new_def\<close>)
  show ?thesis
    using Inr us_quiet_refl[OF L] k a(2)
    by (auto simp: handle_connect_socketpair_def connect_unchecked_def usocket_new_def Let_def snd_bind_out post_state
        split: sum.splits intro!: t)
qed (use us_quiet_refl[OF L] in \<open>simp add: handle_connect_socketpair_def\<close>)

lemma quiet_handles:
  assumes "linked i j s" "get_sock t i = get_sock s i" "get_sock t j = get_sock s j" "sock t = sock s"
  shows "quiet i j s t"
  using assms by (simp add: quiet_def linked_def inbox_def cong: sum.case_cong)

lemma quiet_close_waiting:
  assumes "linked i j s" "us_okn x n s" "set cs \<inter> {i, j} = {}"
  shows "quiet i j s (snd (close_waiting x l cs s))"
  using assms
proof (induction cs arbitrary: s)
  case (Cons c cs)
  have step: "quiet i j s (set_sock b ((sock s b)\<lparr>us_state := SClosed\<rparr>) s)" if "get_sock s c = Inr b" for b
  proof -
    have o: "get_sock s i \<noteq> Inr b" "get_sock s j \<noteq> Inr b"
      using get_sock_ok(2)[OF Cons.prems(2)] that Cons.prems(3) by fastforce+
    have "linked i j (set_sock b ((sock s b)\<lparr>us_state := SClosed\<rparr>) s)"
      by (rule linked_set) (use Cons.prems(1) linkedD(1)[OF Cons.prems(1), of b] o in \<open>auto simp: apart_def\<close>)
    then show ?thesis using o by (simp add: quiet_def inbox_set)
  qed
  have ok: "us_okn x n (set_sock b ((sock s b)\<lparr>us_state := SClosed\<rparr>) s)" if "get_sock s c = Inr b" for b
    by (rule ok_set_sock) (use Cons.prems get_sock_ok[OF Cons.prems(2) that] in \<open>auto simp: sock_ok_def\<close>)
  show ?case
  proof (cases "get_sock s c")
    case (Inr b)
    let ?t = "snd (us_post x c (ux_EVENT_READ x) (set_sock b ((sock s b)\<lparr>us_state := SClosed\<rparr>) s))"
    have "quiet i j ?t (snd (close_waiting x l cs ?t))"
      by (rule Cons.IH) (use step[OF Inr] ok[OF Inr] Cons.prems(3) in \<open>simp_all add: quiet_def post_state\<close>)
    then have "quiet i j s (snd (close_waiting x l cs ?t))"
      by (rule us_quiet_trans[rotated]) (simp add: step[OF Inr])
    then show ?thesis using Inr us_quiet_refl[OF Cons.prems(1)] by simp
  qed (use Cons in simp)
qed (simp add: us_quiet_refl)

lemma quiet_close:
  assumes L: "linked i j s" and s: "us_okn x n s" and h: "h \<noteq> i" "h \<noteq> j"
  shows "quiet i j s (snd (us_on_close x h s))"
proof -
  let ?s1 = "s\<lparr>ss_handles := AList.delete h (ss_handles s)\<rparr>"
  have g: "get_sock ?s1 m = get_sock s m" if "m \<noteq> h" for m using that by (simp add: get_sock_def alist_simps)
  have q1: "quiet i j s ?s1" by (rule quiet_handles) (use L g h in auto)
  then have L1: "linked i j ?s1" by (simp add: quiet_def)
  have s1: "us_okn x n ?s1" using s by (rule ok_close_handle)
  have cs: "quiet i j t (snd (close_sock a t))" if "linked i j t" "get_sock t = get_sock ?s1" "map_of (ss_handles s) h = Some (USocket a)" for a t
  proof -
    have "get_sock s h = Inr a" using that(3) by (simp add: get_sock_def)
    then have o: "get_sock t i \<noteq> Inr a" "get_sock t j \<noteq> Inr a"
      using get_sock_ok(2)[OF s] h g that(2) by metis+
    have "linked i j (set_sock a ((sock t a)\<lparr>us_path := None, us_state := SClosed\<rparr>) (forget_names (sock t a) t))"
      by (rule linked_set) (use that(1) linkedD(1)[OF that(1), of a] o in \<open>auto simp: apart_def\<close>)
    then show ?thesis using o by (simp add: close_sock_def Let_def quiet_def inbox_set)
  qed
  have lc: "quiet i j ?s1 (snd (handle_listening_closure x a ?s1))" for a
    unfolding handle_listening_closure_def
    using quiet_close_waiting[of i j "forget_names (sock ?s1 a) ?s1" x n] L1 s1 linkedD(1)[OF L1, of a]
    by (auto simp: quiet_def apart_def ok_forget)
  have oc: "quiet i j ?s1 (snd (handle_other_closure x a ?s1))" if "map_of (ss_handles s) h = Some (USocket a)" for a
  proof -
    have "quiet i j ?s1 (snd (close_sock a (snd (us_post x (us_primary_id (sock ?s1 b)) f (set_conn b (d\<lparr>uc_peer_shutdown := True\<rparr>) ?s1)))))"
      if "us_connection (sock ?s1 b) = Some d" for b d f
    proof (rule us_quiet_trans)
      have "quiet i j ?s1 (set_conn b (d\<lparr>uc_peer_shutdown := True\<rparr>) ?s1)" by (rule quiet_conn[OF L1 that]) auto
      then show "quiet i j ?s1 (snd (us_post x (us_primary_id (sock ?s1 b)) f (set_conn b (d\<lparr>uc_peer_shutdown := True\<rparr>) ?s1)))" by simp
      then show "quiet i j (snd (us_post x (us_primary_id (sock ?s1 b)) f (set_conn b (d\<lparr>uc_peer_shutdown := True\<rparr>) ?s1)))
          (snd (close_sock a (snd (us_post x (us_primary_id (sock ?s1 b)) f (set_conn b (d\<lparr>uc_peer_shutdown := True\<rparr>) ?s1)))))"
        by (intro cs \<open>map_of (ss_handles s) h = Some (USocket a)\<close>) (simp_all add: quiet_def post_state)
    qed
    then show ?thesis
      using cs[OF L1 refl that] us_quiet_refl[OF L1] by (auto simp: handle_other_closure_def required_conn split: sum.splits)
  qed
  show ?thesis
    using q1 us_quiet_trans[OF q1 lc] us_quiet_trans[OF q1 oc]
    by (auto simp: us_on_close_def Let_def split: option.splits uhandle.splits)
qed

lemma quiet_root:
  assumes L: "linked i j s" and s: "us_okn x n s"
  shows "quiet i j s (snd (us_root s))"
  by (rule quiet_handles)
    (use L linked_ids[OF L s] in \<open>auto simp: us_root_def Let_def get_sock_def alist_simps sock_def fun_eq_iff\<close>)

lemma quiet_openat:
  assumes L: "linked i j s" and s: "us_okn x n s"
  shows "quiet i j s (snd (us_openat x fd path flags fl ctx s))"
proof -
  have "quiet i j s (insert_sock (ss_next_id s) (usocket_new (ss_next_id s) None Unbound [] f None ctx) s)" for f
    by (rule quiet_insert) (use L linked_ids[OF L s] us_okD(4)[OF s] in \<open>auto simp: apart_def usocket_new_def\<close>)
  then show ?thesis
    using us_quiet_refl[OF L] by (auto simp: us_openat_def handle_unnamed_socket_def Let_def split: option.splits)
qed

section \<open>Requests that move data\<close>

lemma push_data:
  assumes L: "linked i j s" and s: "us_okn x n s" and p: "get_connected_peer s h = Inr (r, b)" and d: "us_connection (sock s b) = Some d"
  shows "linked i j (set_conn b (d\<lparr>uc_packets := uc_packets d @ [p]\<rparr>) s) \<and>
    inbox j (set_conn b (d\<lparr>uc_packets := uc_packets d @ [p]\<rparr>) s) = inbox j s @ (if h = i then packet_rest p else [])"
proof -
  obtain a c where a: "get_sock s h = Inr a" "us_connection (sock s a) = Some c" "uc_peer c = r" "get_sock s r = Inr b" "b \<noteq> a"
    using peer_of[OF p] by blast
  have ids: "us_primary_id (sock s a) = h" "us_primary_id (sock s b) = r"
    using get_sock_ok(2)[OF s a(1)] get_sock_ok(2)[OF s a(4)] by auto
  have "r = j \<longleftrightarrow> h = i"
    using linkedD(1)[OF L, of a] linkedD(3)[OF L, of a] a(1-3) ids(1) by (auto simp: apart_def member_def)
  moreover have "get_sock s j = Inr b \<longleftrightarrow> r = j" using a(4) get_sock_ok(2)[OF s, of j b] ids(2) by auto
  moreover have "inbox j s = pending (uc_packets d)" if "get_sock s j = Inr b" using that d by (simp add: inbox_def)
  ultimately show ?thesis using linked_conn[OF L d] by (simp add: inbox_conn)
qed

lemma post_ok: "\<forall>i f. ux_post x i f = Inr True \<Longrightarrow> us_post x a f s = ok () (s\<lparr>ss_posted := ss_posted s @ [(a, f)]\<rparr>)"
  by (simp add: us_post_def)

lemma write_data:
  assumes L: "linked i j s" and s: "us_okn x n s" and posts: "\<forall>i f. ux_post x i f = Inr True"
  shows "linked i j (snd (us_write x h buf ctx s)) \<and>
    inbox j (snd (us_write x h buf ctx s)) =
      inbox j s @ (if h = i then (case fst (us_write x h buf ctx s) of Inr _ \<Rightarrow> buf | Inl _ \<Rightarrow> []) else [])"
proof (cases "get_connected_peer s h")
  case (Inl f)
  then show ?thesis using L by (cases "h = i") (simp_all add: us_write_def)
next
  case (Inr rb)
  then obtain r b where p: "get_connected_peer s h = Inr (r, b)" by (cases rb) auto
  obtain a c where a: "get_sock s h = Inr a" "us_connection (sock s a) = Some c" "uc_peer c = r" "get_sock s r = Inr b" "b \<noteq> a"
    using peer_of[OF p] by blast
  show ?thesis
  proof (cases "is_listening (sock s b)")
    case True
    have "h \<noteq> i" "h \<noteq> j"
      using True linkedD(3,4)[OF L] a by (auto simp: member_def is_listening_def connected_def)
    then have o: "get_sock s j \<noteq> Inr a" using get_sock_ok(2)[OF s] a(1) by blast
    have "quiet i j s (set_conn a (c\<lparr>uc_packets := ps\<rparr>) s)" for ps by (rule quiet_conn[OF L a(2)]) (use o in auto)
    then show ?thesis
      using True p a \<open>h \<noteq> i\<close> L
      by (auto simp: us_write_def write_inner_def Let_def post_ok[OF posts] require_connection_def quiet_def)
  next
    case False
    show ?thesis
    proof (cases "require_connected_connection x 0 (sock s b)")
      case (Inl e)
      then have "us_write x h buf ctx s = fail e s" using False p a by (simp add: us_write_def write_inner_def Let_def)
      then show ?thesis using L by (cases "h = i") simp_all
    next
      case (Inr d)
      then have d: "us_connection (sock s b) = Some d" by (simp add: required_connected)
      show ?thesis
        using False p a L Inr push_data[OF L s p d]
        by (cases "h = i") (simp_all add: us_write_def write_inner_def Let_def post_ok[OF posts])
    qed
  qed
qed

lemma from_stream_payload:
  assumes "from_stream x stream name cred = Inr p"
  shows "dp_payload p = take (length (dp_payload p)) (drop 8 stream)"
  using assms by (auto simp: from_stream_def Let_def packet_new_def split: sum.splits if_splits)

lemma sendmsg_data:
  assumes L: "linked i j s" and s: "us_okn x n s" and posts: "\<forall>i f. ux_post x i f = Inr True"
  shows "linked i j (snd (handle_sendmsg x h f stream ctx s)) \<and>
    inbox j (snd (handle_sendmsg x h f stream ctx s)) =
      inbox j s @ (if h = i then (case fst (handle_sendmsg x h f stream ctx s) of Inr n \<Rightarrow> take n (drop 8 stream) | Inl _ \<Rightarrow> []) else [])"
proof -
  have "linked i j (snd (us_post x r e (set_conn b (d\<lparr>uc_packets := uc_packets d @ [p]\<rparr>) s))) \<and>
      inbox j (snd (us_post x r e (set_conn b (d\<lparr>uc_packets := uc_packets d @ [p]\<rparr>) s))) =
        inbox j s @ (if h = i then take (length (dp_payload p)) (drop 8 stream) else [])"
    if "get_connected_peer s h = Inr (r, b)" "us_connection (sock s b) = Some d" "from_stream x stream nm cred = Inr p" for r b d nm cred p e
    using push_data[OF L s that(1,2), of p] from_stream_rest[OF that(3)] from_stream_payload[OF that(3)] by simp
  then show ?thesis
    using L by (auto simp: handle_sendmsg_def required_connected post_ok[OF posts] split: sum.splits)
qed

lemma read_data:
  assumes L: "linked i j s" and s: "us_okn x n s"
  shows "linked i j (snd (us_read x h room flags s)) \<and>
    (if h = j then (case fst (us_read x h room flags s) of Inr bs \<Rightarrow> bs | Inl _ \<Rightarrow> []) else []) @ inbox j (snd (us_read x h room flags s)) = inbox j s"
proof (cases "get_sock s h")
  case (Inr a)
  show ?thesis
  proof (cases "require_connected_connection x 0 (sock s a)")
    case (Inl e)
    have "h \<noteq> j" using Inl Inr linkedD(4)[OF L, of a] by (auto simp: member_def connected_def require_connected_connection_def require_connection_def split: option.splits)
    then show ?thesis using Inl Inr L by (simp add: us_read_def Let_def)
  next
    case c: (Inr c)
    then have cc: "us_connection (sock s a) = Some c" "connected (sock s a)" by (auto simp: required_connected connected_def)
    have pk: "packets_ok (uc_packets c)" using conn_of_ok[OF s Inr cc(1)] by (simp add: conn_ok_def)
    obtain r c' where r: "read_inner x room flags c = (r, c')" by (cases "read_inner x room flags c") auto
    have c': "c' = c\<lparr>uc_packets := snd (read_packets room (uc_packets c))\<rparr>"
      and rv: "(case r of Inr bs \<Rightarrow> bs | Inl _ \<Rightarrow> []) = fst (read_packets room (uc_packets c))"
      using r by (auto simp: read_inner_def split: prod.splits if_splits)
    have split: "fst (read_packets room (uc_packets c)) @ pending (uc_packets c') = pending (uc_packets c)"
      using read_packets_bytes[OF pk, of room] c' by simp
    have "linked i j (set_conn a c' s)" by (rule linked_conn[OF L cc(1)]) (simp add: c')
    moreover have "(if h = j then fst (read_packets room (uc_packets c)) else []) @ inbox j (set_conn a c' s) = inbox j s"
    proof (cases "h = j")
      case True
      then show ?thesis using Inr cc(1) split by (simp add: inbox_conn inbox_def[of j s])
    next
      case False
      then have "get_sock s j \<noteq> Inr a" using Inr get_sock_ok(2)[OF s] by blast
      then show ?thesis using False by (simp add: inbox_conn)
    qed
    moreover have "us_read x h room flags s = (case r of Inl e \<Rightarrow> fail e (set_conn a c' s) | Inr bs \<Rightarrow> ok bs (set_conn a c' s))"
      using Inr c cc r by (auto simp: us_read_def Let_def connected_def split: sum.splits)
    ultimately show ?thesis using rv by (cases "h = j"; cases r) simp_all
  qed
next
  case (Inl e)
  then show ?thesis using L by (auto simp: us_read_def)
qed

lemma eof_payload: "write_eof stream = Inr (n, buf) \<Longrightarrow> msg_payload buf = []"
proof -
  assume "write_eof stream = Inr (n, buf)"
  then have "length stream \<ge> 16" "buf = replicate 16 0 @ drop 16 stream"
    by (auto simp: write_eof_def MIN_RECV_MSG_LEN_def write_at_def split: if_splits)
  then have "take 8 buf = replicate 8 0" "take 8 (drop 8 buf) = replicate 8 0" by simp_all
  moreover have "le_nat (replicate 8 0) = 0" by (simp add: numeral_eq_Suc)
  ultimately show ?thesis by (simp add: msg_payload_def)
qed

text \<open>A client's buffer that holds the name, the payload and a control message for descriptors.\<close>

definition recv_fits :: "bytes \<Rightarrow> bool" where
  "recv_fits stream \<longleftrightarrow>
     unat (le_word (take 8 stream) :: u64) + unat (le_word (take 8 (drop 8 stream)) :: u64) + 40 \<le> length stream"

lemma recvmsg_inner_data:
  assumes c: "us_connection k = Some c" "connected k" "packets_ok (uc_packets c)" and o: "set (us_options k) \<subseteq> {ux_SO_PASSCRED x}"
    and fits: "recv_fits stream" and r: "recvmsg_inner x f stream k = (r, k')" "r \<noteq> Inl Panic"
  shows "\<exists>n buf c'. r = Inr (n, buf) \<and> k' = k\<lparr>us_connection := Some c'\<rparr> \<and> uc_peer c' = uc_peer c \<and>
    msg_payload buf @ pending (uc_packets c') = pending (uc_packets c)"
proof -
  let ?st = "write_at 0 (replicate 24 0) stream"
  let ?nm = "le_word (take 8 stream) :: u64" and ?iov = "le_word (take 8 (drop 8 stream)) :: u64"
  have len: "length stream \<ge> 24" using fits by (simp add: recv_fits_def)
  obtain q c' where q: "uc_serialize x ?st ?nm ?iov (us_options k) c = (q, c')" by (cases "uc_serialize x ?st ?nm ?iov (us_options k) c") auto
  have e: "r = q" "k' = k\<lparr>us_connection := Some c'\<rparr>"
    using r(1) len c q by (auto simp: recvmsg_inner_def read_msghdr_info_def us_serialize_def require_connected_connection_def
        require_connection_def connected_def split: ustate.splits)
  have iov: "unat ?iov < 2 ^ 63"
  proof (rule ccontr)
    assume "\<not> ?thesis"
    then have "q = Inl Panic" using q by (simp add: uc_serialize_def)
    then show False using e(1) r(2) by simp
  qed
  have "unat ?nm + unat ?iov + 40 \<le> length ?st" using fits len by (simp add: recv_fits_def)
  moreover have "take 8 ?st = replicate 8 0" using len by (simp add: write_at_def)
  ultimately obtain n buf where "q = Inr (n, buf)" "msg_payload buf = take (unat ?iov) (pending (uc_packets c))"
    using serialize_payload[OF c(3) o _ iov] q by fastforce
  moreover have "uc_peer c' = uc_peer c" "pending (uc_packets c') = drop (unat ?iov) (pending (uc_packets c))"
    using serialize_conn[OF q c(3)] e(1) r(2) by auto
  ultimately show ?thesis using e by (intro exI[of _ n] exI[of _ buf] exI[of _ c']) simp
qed

lemma recvmsg_data:
  assumes L: "linked i j s" and s: "us_okn x n s" and fits: "h = j \<Longrightarrow> recv_fits stream" and np: "fst (handle_recvmsg x h f stream s) \<noteq> Inl Panic"
  shows "linked i j (snd (handle_recvmsg x h f stream s)) \<and>
    (if h = j then (case fst (handle_recvmsg x h f stream s) of Inr (_, buf) \<Rightarrow> msg_payload buf | Inl _ \<Rightarrow> []) else []) @
      inbox j (snd (handle_recvmsg x h f stream s)) = inbox j s"
proof (cases "\<exists>a c. get_sock s h = Inr a \<and> connected (sock s a) \<and> us_connection (sock s a) = Some c \<and> uc_packets c \<noteq> []")
  case False
  then have st: "snd (handle_recvmsg x h f stream s) = s" and
    out: "(case fst (handle_recvmsg x h f stream s) of Inr (_, buf) \<Rightarrow> msg_payload buf | Inl _ \<Rightarrow> []) = []"
    by (auto simp: handle_recvmsg_def Let_def connected_def require_connection_def eof_payload split: sum.splits option.splits)
  show ?thesis using L unfolding st out by simp
next
  case True
  then obtain a c where a: "get_sock s h = Inr a" "connected (sock s a)" "us_connection (sock s a) = Some c" "uc_packets c \<noteq> []" by blast
  obtain r k' where r: "recvmsg_inner x f stream (sock s a) = (r, k')" by (cases "recvmsg_inner x f stream (sock s a)") auto
  have e: "handle_recvmsg x h f stream s = (r, set_sock a k' s)"
    using a r by (auto simp: handle_recvmsg_def Let_def connected_def require_connection_def)
  have pk: "packets_ok (uc_packets c)" using conn_of_ok[OF s a(1,3)] by (simp add: conn_ok_def)
  show ?thesis
  proof (cases "h = j")
    case True
    obtain m buf c' where m: "r = Inr (m, buf)" "k' = (sock s a)\<lparr>us_connection := Some c'\<rparr>" "uc_peer c' = uc_peer c"
      "msg_payload buf @ pending (uc_packets c') = pending (uc_packets c)"
      using recvmsg_inner_data[OF a(3,2) pk sock_options[OF s] fits[OF True] r] np e by auto
    have "linked i j (set_conn a c' s)" by (rule linked_conn[OF L a(3) m(3)])
    then show ?thesis using True e m a by (simp add: set_conn_def inbox_set inbox_def[of j s])
  next
    case False
    have o: "get_sock s j \<noteq> Inr a" using False a(1) get_sock_ok(2)[OF s] by blast
    have "quiet i j s (set_sock a k' s)"
      using recvmsg_sock[OF r a(3) pk]
    proof
      assume "k' = sock s a"
      then show ?thesis by (intro quiet_tune[OF L]) auto
    next
      assume "\<exists>c'. k' = (sock s a)\<lparr>us_connection := Some c'\<rparr> \<and> uc_peer c' = uc_peer c \<and> packets_ok (uc_packets c')"
      then show ?thesis using quiet_conn[OF L a(3)] o by (auto simp: set_conn_def)
    qed
    then show ?thesis using False e by (simp add: quiet_def)
  qed
qed

section \<open>Streams\<close>

text \<open>The bytes that request \<open>q\<close> sends for socket \<open>i\<close>: those of a write or of a message that was accepted.\<close>

definition sent :: "udsx \<Rightarrow> u64 \<Rightarrow> us_request \<Rightarrow> ustream \<Rightarrow> bytes" where
  "sent x i q s =
     (case q of
        UsWrite h buf ctx \<Rightarrow> if h = i then (case fst (us_write x h buf ctx s) of Inr _ \<Rightarrow> buf | Inl _ \<Rightarrow> []) else []
      | UsCall h payload metadata ctx \<Rightarrow>
          if h = i \<and> metadata \<noteq> [] \<and> ux_socket_call x (hd metadata) = Some CSendMsg
          then (case fst (call_inner x h payload metadata ctx s) of Inr (n, _) \<Rightarrow> take n (drop 8 payload) | Inl _ \<Rightarrow> []) else []
      | _ \<Rightarrow> [])"

text \<open>The bytes that request \<open>q\<close> hands over to socket \<open>j\<close>, read from the buffer of the client.\<close>

definition received :: "udsx \<Rightarrow> u64 \<Rightarrow> us_request \<Rightarrow> ustream \<Rightarrow> bytes" where
  "received x j q s =
     (case q of
        UsRead h room flags \<Rightarrow> if h = j then (case fst (us_read x h room flags s) of Inr bs \<Rightarrow> bs | Inl _ \<Rightarrow> []) else []
      | UsCall h payload metadata ctx \<Rightarrow>
          if h = j \<and> metadata \<noteq> [] \<and> ux_socket_call x (hd metadata) = Some CRecvMsg
          then (case fst (call_inner x h payload metadata ctx s) of Inr (_, buf) \<Rightarrow> msg_payload buf | Inl _ \<Rightarrow> []) else []
      | _ \<Rightarrow> [])"

fun sent_all :: "udsx \<Rightarrow> u64 \<Rightarrow> us_request list \<Rightarrow> ustream \<Rightarrow> bytes" where
  "sent_all x i [] s = []"
| "sent_all x i (q # qs) s = sent x i q s @ sent_all x i qs (snd (us_step x q s))"

fun received_all :: "udsx \<Rightarrow> u64 \<Rightarrow> us_request list \<Rightarrow> ustream \<Rightarrow> bytes" where
  "received_all x j [] s = []"
| "received_all x j (q # qs) s = received x j q s @ received_all x j qs (snd (us_step x q s))"

text \<open>
  Requests under which \<open>i\<close> and \<open>j\<close> stay linked: any request of other clients; \<open>i\<close> and \<open>j\<close> are not closed and not
  made the base of a new socket pair, and messages are received by \<open>j\<close> with buffers that have room.
\<close>

definition link_request :: "udsx \<Rightarrow> u64 \<Rightarrow> u64 \<Rightarrow> us_request \<Rightarrow> bool" where
  "link_request x i j q =
     (case q of
        UsClose h \<Rightarrow> h \<noteq> i \<and> h \<noteq> j
      | UsDup h buf _ \<Rightarrow> h \<noteq> i \<and> h \<noteq> j \<or> buf \<noteq> ascii_bytes ''connect''
      | UsCall h payload metadata _ \<Rightarrow>
          \<not> (h = j \<and> metadata \<noteq> [] \<and> ux_socket_call x (hd metadata) = Some CRecvMsg) \<or> recv_fits payload
      | _ \<Rightarrow> True)"

fun us_goes :: "udsx \<Rightarrow> u64 \<Rightarrow> u64 \<Rightarrow> us_request list \<Rightarrow> ustream \<Rightarrow> bool" where
  "us_goes x i j [] s = True"
| "us_goes x i j (q # qs) s \<longleftrightarrow>
     us_room s \<and> link_request x i j q \<and> fst (us_step x q s) \<noteq> Inl Panic \<and> us_goes x i j qs (snd (us_step x q s))"

lemma call_data:
  assumes L: "linked i j s" and s: "us_ok x s" and posts: "\<forall>i f. ux_post x i f = Inr True"
    and q: "link_request x i j (UsCall h payload metadata ctx)" and np: "fst (call_inner x h payload metadata ctx s) \<noteq> Inl Panic"
  shows "linked i j (snd (call_inner x h payload metadata ctx s)) \<and>
    received x j (UsCall h payload metadata ctx) s @ inbox j (snd (call_inner x h payload metadata ctx s)) =
      inbox j s @ sent x i (UsCall h payload metadata ctx) s"
proof (cases metadata)
  case Nil
  then show ?thesis using L by (simp add: sent_def received_def call_inner_def)
next
  case (Cons raw ms)
  show ?thesis
  proof (cases "ux_socket_call x raw")
    case None
    then show ?thesis using L Cons by (simp add: sent_def received_def call_inner_def Let_def)
  next
    case (Some v)
    note e = call_inner_raw[of metadata raw ms x v, OF Cons Some, of h payload ctx s]
    show ?thesis
    proof (cases "v = CSendMsg \<or> v = CRecvMsg")
      case False
      then have "quiet i j s (snd (call_inner x h payload metadata ctx s))"
        using quiet_bind[OF L] quiet_connect[OF L s] quiet_setsockopt[OF L] quiet_unbind[OF L] us_quiet_refl[OF L]
        unfolding e Let_def by (cases v) (auto split: option.splits sum.splits)
      then show ?thesis using False Some Cons by (simp add: quiet_def sent_def received_def)
    next
      case True
      then show ?thesis
      proof
        assume v: "v = CSendMsg"
        let ?f = "(case ms of [] \<Rightarrow> 0 | m # _ \<Rightarrow> ucast m) :: u32"
        have c: "call_inner x h payload metadata ctx s = bind_out (handle_sendmsg x h ?f payload ctx s) (\<lambda>n. ok (n, payload))"
          unfolding e v Let_def by (cases ms) simp_all
        have "sent x i (UsCall h payload metadata ctx) s =
            (if h = i then (case fst (handle_sendmsg x h ?f payload ctx s) of Inr n \<Rightarrow> take n (drop 8 payload) | Inl _ \<Rightarrow> []) else [])"
          using c Some v Cons by (cases "h = i"; cases "handle_sendmsg x h ?f payload ctx s") (auto simp: sent_def split: sum.splits)
        moreover have "received x j (UsCall h payload metadata ctx) s = []" using Some v Cons by (simp add: received_def)
        ultimately show ?thesis using sendmsg_data[OF L s posts, of h ?f payload ctx] unfolding c by simp
      next
        assume v: "v = CRecvMsg"
        let ?f = "(case ms of [] \<Rightarrow> 0 | m # _ \<Rightarrow> ucast m) :: u32"
        have c: "call_inner x h payload metadata ctx s = handle_recvmsg x h ?f payload s"
          unfolding e v Let_def by (cases ms) simp_all
        have fits: "h = j \<Longrightarrow> recv_fits payload" using q Some v Cons by (simp add: link_request_def)
        have "received x j (UsCall h payload metadata ctx) s =
            (if h = j then (case fst (handle_recvmsg x h ?f payload s) of Inr (_, buf) \<Rightarrow> msg_payload buf | Inl _ \<Rightarrow> []) else [])"
          using c Some v Cons by (cases "h = j") (auto simp: received_def)
        moreover have "sent x i (UsCall h payload metadata ctx) s = []" using Some v Cons by (simp add: sent_def)
        ultimately show ?thesis using recvmsg_data[OF L s, of h payload ?f] fits np unfolding c by simp
      qed
    qed
  qed
qed

text \<open>One request.\<close>

lemma step_data:
  assumes L: "linked i j s" and s: "us_ok x s" and r: "us_room s" and posts: "\<forall>i f. ux_post x i f = Inr True"
    and q: "link_request x i j q" and np: "fst (us_step x q s) \<noteq> Inl Panic"
  shows "linked i j (snd (us_step x q s)) \<and> received x j q s @ inbox j (snd (us_step x q s)) = inbox j s @ sent x i q s"
proof (cases q)
  case UsRoot
  then show ?thesis using quiet_root[OF L s] by (simp add: quiet_def sent_def received_def)
next
  case (UsOpenat fd path flags fl ctx)
  then show ?thesis using quiet_openat[OF L s, of fd path flags fl ctx] by (simp add: quiet_def sent_def received_def)
next
  case (UsCall h payload metadata ctx)
  then show ?thesis using call_data[OF L s posts] q np by simp
next
  case (UsDup h buf ctx)
  have "quiet i j s (snd (us_dup x h buf ctx s))"
    using quiet_listen[OF L s r] quiet_socketpair[OF L s, of h] quiet_recvfd[OF L] us_quiet_refl[OF L] q UsDup
    by (auto simp: us_dup_def link_request_def ascii_bytes_def)
  then show ?thesis using UsDup by (simp add: quiet_def sent_def received_def)
next
  case (UsWrite h buf ctx)
  then show ?thesis using write_data[OF L s posts, of h buf ctx] by (simp add: sent_def received_def)
next
  case (UsRead h room flags)
  then show ?thesis using read_data[OF L s, of h room flags] by (simp add: sent_def received_def)
next
  case (UsSendfd h got)
  have "quiet i j s (snd (us_on_sendfd x h got s))"
    using quiet_sendfd_inner[OF L] us_quiet_refl[OF L] by (auto simp: us_on_sendfd_def split: sum.splits)
  then show ?thesis using UsSendfd by (simp add: quiet_def sent_def received_def)
next
  case (UsRecvfd h k moved)
  then show ?thesis using quiet_recvfd_inner[OF L, of x h k moved] by (simp add: quiet_def sent_def received_def)
next
  case (UsFcntl h cmd arg)
  then show ?thesis using quiet_fcntl[OF L, of x h cmd arg] by (simp add: quiet_def sent_def received_def)
next
  case (UsClose h)
  then show ?thesis using quiet_close[OF L s, of h] q by (simp add: quiet_def sent_def received_def link_request_def)
qed

lemma run_data:
  assumes "linked i j s" "us_ok x s" "\<forall>i f. ux_post x i f = Inr True" "us_goes x i j qs s"
  shows "linked i j (us_run x qs s) \<and> received_all x j qs s @ inbox j (us_run x qs s) = inbox j s @ sent_all x i qs s"
  using assms
proof (induction qs arbitrary: s)
  case (Cons q qs)
  let ?t = "snd (us_step x q s)"
  have t: "linked i j ?t" "received x j q s @ inbox j ?t = inbox j s @ sent x i q s"
    using step_data[OF Cons.prems(1,2) _ Cons.prems(3)] Cons.prems(4) by auto
  have "us_ok x ?t" using us_step_ok[OF Cons.prems(2)] Cons.prems(4) by simp
  then have "linked i j (us_run x qs ?t) \<and> received_all x j qs ?t @ inbox j (us_run x qs ?t) = inbox j ?t @ sent_all x i qs ?t"
    using Cons.IH[OF t(1) _ Cons.prems(3)] Cons.prems(4) by simp
  then show ?case using t(2) by simp
qed simp

section \<open>Properties\<close>

text \<open>
  C5. A connection of stream sockets is a byte stream. Let sockets \<open>i\<close> and \<open>j\<close> be linked in a reachable state: each
  is connected to the other, no other socket has one of them as its peer and none waits for one of them. Then over
  every sequence of requests of all clients in which \<open>i\<close> and \<open>j\<close> are not closed and not used as the base of a socket
  pair, and in which the buffers \<open>j\<close> gives for messages have room, they stay linked, and what \<open>j\<close> received by
  \<open>read\<close> and \<open>recvmsg\<close>, followed by what still waits, is what waited before followed by what \<open>i\<close> sent by
  \<open>write\<close> and \<open>sendmsg\<close>.
\<close>

theorem uds_stream_fifo:
  assumes "reach ustream_new (\<lambda>s q. snd (us_step x q s)) (\<lambda>s _. us_room s) s" "\<forall>i f. ux_post x i f = Inr True"
    and "linked i j s" "us_goes x i j qs s"
  shows "linked i j (us_run x qs s) \<and> received_all x j qs s @ inbox j (us_run x qs s) = inbox j s @ sent_all x i qs s"
  by (rule run_data[OF assms(3) usd.reach_inv[OF assms(1)] assms(2,4)])

text \<open>
  C15. Accepting a client links it: when the first client in the queue of a listener is still connecting to it,
  waits nowhere else and is nobody else's peer, \<open>dup\<close> with \<open>listen\<close> returns a new socket that is linked with the
  client, and the data the client wrote before it was accepted waits in the new socket.
\<close>

theorem uds_accept_links:
  assumes "reach ustream_new (\<lambda>s q. snd (us_step x q s)) (\<lambda>s _. us_room s) s" "us_room s" "\<forall>i f. ux_post x i f = Inr True"
    and l: "get_sock s h = Inr l" "us_state (sock s l) = Listening" "us_awaiting (sock s l) = c # cs" "c \<notin> set cs"
    and a: "get_sock s c = Inr a" "us_state (sock s a) = Connecting" "us_connection (sock s a) = Some cc" "uc_peer cc = h"
    and alone: "\<forall>b. b \<noteq> l \<longrightarrow> c \<notin> set (us_awaiting (sock s b))" "\<forall>b k. us_connection (sock s b) = Some k \<longrightarrow> uc_peer k \<noteq> c"
      "\<forall>b. ss_next_id s \<notin> set (us_awaiting (sock s b))"
  shows "\<exists>t. handle_listen x h ctx s = ok (ss_next_id s) t \<and> linked (ss_next_id s) c t \<and>
    inbox (ss_next_id s) t = pending (uc_packets cc) \<and> inbox c t = []"
proof -
  have s: "us_ok x s" by (rule usd.reach_inv[OF assms(1)])
  note lo = get_sock_ok[OF s l(1)] and ao = get_sock_ok[OF s a(1)]
  have al: "a \<noteq> l" using l(2) a(2) by auto
  let ?n = "ss_next_id s"
  let ?s1 = "set_sock l ((sock s l)\<lparr>us_awaiting := cs\<rparr>) s"
  define new where "new = usocket_new ?n (us_path (sock s l)) Established (us_options (sock s l)) (us_flags (sock s l)) (Some (uconn_new c)) ctx"
  define new' where "new' = new\<lparr>us_connection := Some ((uconn_new c)\<lparr>uc_packets := uc_packets cc\<rparr>)\<rparr>"
  define client' where "client' = (sock s a)\<lparr>us_state := Accepted, us_connection := Some (cc\<lparr>uc_peer := ?n, uc_packets := []\<rparr>)\<rparr>"
  define t where "t = (insert_sock ?n new' ((set_sock a client' ?s1)\<lparr>ss_next_id := ?n + 1\<rparr>))
      \<lparr>ss_posted := ss_posted s @ [(c, ux_EVENT_READ x OR ux_EVENT_WRITE x)]\<rparr>"
  have acc: "us_accept (sock ?s1 l) ?n c ctx = Inr new" using l(2) by (simp add: us_accept_def is_listening_def new_def)
  have est: "us_establish (sock ?s1 a) new (us_primary_id (sock ?s1 l)) = (Inr (), client', new')"
    using al a lo(2) by (simp add: us_establish_def Let_def client'_def new'_def new_def usocket_new_def uconn_new_def)
  have posted: "ss_posted (insert_sock ?n new' ((set_sock a client' ?s1)\<lparr>ss_next_id := ?n + 1\<rparr>)) = ss_posted s"
    by (simp add: insert_sock_def set_sock_def)
  have "accept_connection x l c ctx ?s1 = ok (Some ?n) t"
    using a(1) al acc est by (simp add: accept_connection_def Let_def post_ok[OF assms(3)] posted t_def)
  then have r: "handle_listen x h ctx s = ok ?n t" using l by (simp add: handle_listen_def is_listening_def)
  have sk: "sock t b = (if b = ss_alloc s then new' else if b = a then client' else sock ?s1 b)" for b
    by (simp add: t_def sock_insert set_sock_def[of a client' ?s1]) (simp add: sock_def alist_simps set_sock_def)
  have ne: "a \<noteq> ss_alloc s" "l \<noteq> ss_alloc s" "c \<noteq> ?n" using ao lo by auto
  have gt: "get_sock t m = (if m = ?n then Inr (ss_alloc s) else get_sock s m)" for m
    by (simp add: t_def get_sock_def insert_sock_def alist_simps set_sock_def)
  have peers: "uc_peer k \<noteq> ?n" if "us_connection (sock s b) = Some k" for b k
  proof (cases "b < ss_alloc s")
    case True
    then show ?thesis using us_okD(1)[OF s True] that by (auto simp: sock_ok_def conn_ok_def)
  next
    case False
    then show ?thesis using that s by (simp add: us_okn_def sock_def usocket_new_def)
  qed
  have "?n \<notin> set cs" using alone(3) l(3) by (metis list.set_intros(2))
  then have "apart ?n c (sock t b)" for b
    using alone l(3,4) al ne ao(2) peers[of b]
    by (auto simp: apart_def sk new'_def new_def client'_def usocket_new_def uconn_new_def)
  moreover have "member c new'" "member ?n client'"
    by (simp_all add: member_def connected_def new'_def new_def client'_def usocket_new_def uconn_new_def)
  ultimately have "linked ?n c t"
    using ne a(1) by (auto simp: linked_def gt sk)
  moreover have "inbox ?n t = pending (uc_packets cc)" "inbox c t = []"
    using ne a(1) by (simp_all add: inbox_def gt sk new'_def client'_def)
  ultimately show ?thesis using r by blast
qed

section \<open>Examples\<close>

text \<open>A second socket connects to the bound one and writes two bytes before it is accepted.\<close>

definition us_waiting_requests :: "us_request list" where
  "us_waiting_requests =
     [UsOpenat 0 [] 0x2000000 0 ctx_example, UsCall 2 (le_bytes 8 (7 :: u64)) [1] ctx_example, UsWrite 2 [104, 105] ctx_example]"

definition us_parked_packet :: data_packet where
  "us_parked_packet = packet_new [104, 105] (ancillary_new \<lparr>cr_pid = 1, cr_uid = 0, cr_gid = 0\<rparr> (Some [97]))"

definition us_waiting_state :: ustream where
  "us_waiting_state =
     \<lparr>ss_sockets =
        [(0, \<lparr>us_primary_id = 1, us_path = Some [97], us_options = [], us_flags = 0x2000000, us_state = Listening,
          us_awaiting = [2], us_connection = None, us_issued_token = Some 7, us_ucred = (1, 0, 0)\<rparr>),
         (1, \<lparr>us_primary_id = 2, us_path = None, us_options = [], us_flags = 0x2000000, us_state = Connecting,
          us_awaiting = [], us_connection = Some ((uconn_new 1)\<lparr>uc_packets := [us_parked_packet]\<rparr>), us_issued_token = None, us_ucred = (1, 0, 0)\<rparr>)],
      ss_alloc = 2, ss_handles = [(0, USchemeRoot), (1, USocket 0), (2, USocket 1)], ss_next_id = 3, ss_paths = [([97], 0)],
      ss_tokens = [(7, 0)], ss_drawn = 1, ss_posted = [(1, 3), (1, 1)]\<rparr>"

lemmas us_eval = us_openat_def handle_unnamed_socket_def insert_sock_def usocket_new_def call_inner_def udsx_example_def
  ctx_example_def Let_def handle_connect_def uds_read_num_def get_sock_def sock_def set_sock_def us_connect_def connect_unchecked_def
  us_post_def us_write_def get_connected_peer_def require_connection_def write_inner_def is_listening_def set_conn_def uconn_new_def

lemma token_example: "le_word (le_bytes 8 (7 :: u64)) = (7 :: u64)"
  by (rule le_word_bytes) simp

lemma us_waiting_run: "us_run udsx_example us_waiting_requests us_bound_state = us_waiting_state"
  by (simp add: us_waiting_requests_def us_bound_state_def us_eval token_example us_parked_packet_def us_waiting_state_def)

lemma us_waiting_reach: "reach ustream_new (\<lambda>s q. snd (us_step udsx_example q s)) (\<lambda>s _. us_room s) us_waiting_state"
  unfolding us_waiting_run[symmetric]
  by (rule reach_run[OF us_bound_reach])
    (simp add: us_waiting_requests_def us_bound_state_def us_eval token_example us_small_def)

lemma us_waiting_room: "us_room us_waiting_state"
  by (rule us_small_room) (simp add: us_waiting_state_def us_small_def)

lemma us_example_posts: "\<forall>i f. ux_post udsx_example i f = Inr True"
  by (simp add: udsx_example_def)

theorem uds_accept_links_witness:
  "\<exists>t. handle_listen udsx_example 1 ctx_example us_waiting_state = ok 3 t \<and> linked 3 2 t \<and> inbox 3 t = [104, 105] \<and> inbox 2 t = []"
proof -
  have n: "ss_next_id us_waiting_state = 3" by (simp add: us_waiting_state_def)
  have "\<exists>t. handle_listen udsx_example 1 ctx_example us_waiting_state = ok (ss_next_id us_waiting_state) t \<and>
      linked (ss_next_id us_waiting_state) 2 t \<and> inbox (ss_next_id us_waiting_state) t = pending (uc_packets ((uconn_new 1)\<lparr>uc_packets := [us_parked_packet]\<rparr>)) \<and>
      inbox 2 t = []"
    by (rule uds_accept_links[OF us_waiting_reach us_waiting_room us_example_posts, of 1 0 2 "[]" 1])
      (auto simp: sock_def us_waiting_state_def get_sock_def uconn_new_def usocket_new_def split: if_splits)
  then show ?thesis unfolding n by (simp add: us_parked_packet_def)
qed

text \<open>The client is accepted, writes another byte, and the new socket reads with a buffer of ten bytes.\<close>

definition us_linked_state :: ustream where
  "us_linked_state =
     \<lparr>ss_sockets =
        [(0, \<lparr>us_primary_id = 1, us_path = Some [97], us_options = [], us_flags = 0x2000000, us_state = Listening,
          us_awaiting = [], us_connection = None, us_issued_token = Some 7, us_ucred = (1, 0, 0)\<rparr>),
         (1, \<lparr>us_primary_id = 2, us_path = None, us_options = [], us_flags = 0x2000000, us_state = Accepted,
          us_awaiting = [], us_connection = Some (uconn_new 3), us_issued_token = None, us_ucred = (1, 0, 0)\<rparr>),
         (2, \<lparr>us_primary_id = 3, us_path = Some [97], us_options = [], us_flags = 0x2000000, us_state = Established,
          us_awaiting = [], us_connection = Some ((uconn_new 2)\<lparr>uc_packets := [us_parked_packet]\<rparr>), us_issued_token = None, us_ucred = (1, 0, 0)\<rparr>)],
      ss_alloc = 3, ss_handles = [(0, USchemeRoot), (1, USocket 0), (2, USocket 1), (3, USocket 2)], ss_next_id = 4,
      ss_paths = [([97], 0)], ss_tokens = [(7, 0)], ss_drawn = 1, ss_posted = [(1, 3), (1, 1), (2, 3)]\<rparr>"

lemma us_linked_run: "us_run udsx_example [UsDup 1 (ascii_bytes ''listen'') ctx_example] us_waiting_state = us_linked_state"
  by (simp add: us_waiting_state_def us_eval us_dup_def handle_listen_def accept_connection_def us_accept_def us_establish_def
      us_linked_state_def)

lemma us_linked_reach: "reach ustream_new (\<lambda>s q. snd (us_step udsx_example q s)) (\<lambda>s _. us_room s) us_linked_state"
  unfolding us_linked_run[symmetric]
  by (rule reach_run[OF us_waiting_reach]) (simp add: us_waiting_state_def us_small_def)

lemma us_linked: "linked 2 3 us_linked_state" "inbox 3 us_linked_state = [104, 105]"
  by (auto simp: us_linked_state_def linked_def get_sock_def sock_def apart_def member_def connected_def uconn_new_def usocket_new_def
      inbox_def us_parked_packet_def split: if_splits)

theorem uds_stream_fifo_witness:
  "received_all udsx_example 3 [UsWrite 2 [33] ctx_example, UsRead 3 10 0] us_linked_state = [104, 105, 33]"
proof -
  let ?qs = "[UsWrite 2 [33] ctx_example, UsRead 3 10 0]"
  note ev = us_linked_state_def us_eval require_connected_connection_def us_read_def read_inner_def
    us_parked_packet_def packet_new_def ancillary_new_def
  have "us_room us_linked_state" "us_room (snd (us_step udsx_example (UsWrite 2 [33] ctx_example) us_linked_state))"
    by (rule us_small_room, simp add: us_small_def ev)+
  then have "us_goes udsx_example 2 3 ?qs us_linked_state"
    by (simp add: link_request_def) (simp add: ev)
  then have "received_all udsx_example 3 ?qs us_linked_state @ inbox 3 (us_run udsx_example ?qs us_linked_state) =
      inbox 3 us_linked_state @ sent_all udsx_example 2 ?qs us_linked_state"
    using uds_stream_fifo[OF us_linked_reach us_example_posts us_linked(1)] by blast
  moreover have "inbox 3 (us_run udsx_example ?qs us_linked_state) = []" by (simp add: inbox_def ev)
  moreover have "sent_all udsx_example 2 ?qs us_linked_state = [33]" by (simp add: sent_def ev)
  ultimately show ?thesis using us_linked(2) by simp
qed

end
