(* ===== verification/Disk.thy ===== *)
theory Disk
  imports Prelude
begin

text \<open>
  Disks as the block drivers see them (\<open>drivers/storage/driver-block/src/lib.rs\<close>, first part): the trait
  \<open>Disk\<close>, the byte reader over it that is used to read partition tables, and the split of a read into
  block reads.

  The trait is the record \<open>disk_ops\<close>; what a driver promises of it is the locale \<open>disk\<close>: the disk holds
  an array of bytes, and reads and writes of whole blocks inside it are reads and updates of that array.
\<close>

section \<open>Definitions\<close>

text \<open>\<open>dk_read b n\<close> fills a buffer of \<open>n\<close> bytes from block \<open>b\<close> on and returns what it filled.\<close>

record 'd disk_ops =
  dk_block_size :: "'d \<Rightarrow> u32"
  dk_size :: "'d \<Rightarrow> u64"
  dk_read :: "u64 \<Rightarrow> nat \<Rightarrow> 'd \<Rightarrow> (bytes, 'd) outcome"
  dk_write :: "u64 \<Rightarrow> bytes \<Rightarrow> 'd \<Rightarrow> (nat, 'd) outcome"

subsection \<open>Splitting a read\<close>

text \<open>The loop: \<open>left\<close> bytes are still to be read, \<open>acc\<close> holds the bytes read so far.\<close>

function block_read_loop ::
  "nat \<Rightarrow> (u64 \<Rightarrow> 's \<Rightarrow> (bytes, 's) outcome) \<Rightarrow> u64 \<Rightarrow> nat \<Rightarrow> bytes \<Rightarrow> 's \<Rightarrow> (bytes, 's) outcome" where
  "block_read_loop blk_size read_fn curr_offset left acc s =
     (if left = 0 then ok acc s
      else if blk_size = 0 then panic s
      else
        let blk_offset = unat curr_offset mod blk_size;
            to_copy = min left (blk_size - blk_offset)
        in bind_out (read_fn (curr_offset div of_nat blk_size) s)
             (\<lambda>block_bytes s1.
               block_read_loop blk_size read_fn (curr_offset + of_nat to_copy) (left - to_copy)
                 (acc @ take to_copy (drop blk_offset block_bytes)) s1))"
  by pat_completeness auto
termination
  by (relation "measure (\<lambda>(_, _, _, left, _, _). left)") auto

declare block_read_loop.simps [simp del]

text \<open>The block buffer has room for 4096 bytes; a read that would pass the end of the address space is cut off.\<close>

definition block_read ::
  "u64 \<Rightarrow> u32 \<Rightarrow> nat \<Rightarrow> (u64 \<Rightarrow> 's \<Rightarrow> (bytes, 's) outcome) \<Rightarrow> 's \<Rightarrow> (bytes, 's) outcome" where
  "block_read offset blksize n read_fn s =
     (if n = 0 then ok [] s
      else if unat blksize > 4096 then panic s
      else
        let to_copy = min (unat offset + n) (2 ^ 64 - 1) - unat offset
        in block_read_loop (unat blksize) read_fn offset to_copy [] s)"

subsection \<open>The byte reader\<close>

record 'd device =
  dev_disk :: 'd
  dev_offset :: u64

datatype seek_from = SeekStart u64 | SeekCurrent u64 | SeekEnd u64

text \<open>Positions are signed 64-bit numbers; sums wrap.\<close>

definition dev_seek :: "'d disk_ops \<Rightarrow> seek_from \<Rightarrow> 'd device \<Rightarrow> (u64, 'd device) outcome" where
  "dev_seek ops from v =
     (let sz = dk_size ops (dev_disk v) in
      if unat sz \<ge> 2 ^ 63 then fail EIO v
      else
        let new = (case from of
                     SeekStart p \<Rightarrow> min sz p
                   | SeekCurrent p \<Rightarrow> word_of_int (max 0 (min (sint sz) (sint (dev_offset v + p))))
                   | SeekEnd p \<Rightarrow> word_of_int (max 0 (min (sint (sz + p)) (sint sz))))
        in ok new (v\<lparr>dev_offset := new\<rparr>))"

text \<open>The closure \<open>read_block\<close>.\<close>

definition read_block :: "'d disk_ops \<Rightarrow> u32 \<Rightarrow> u64 \<Rightarrow> u64 \<Rightarrow> 'd \<Rightarrow> (bytes, 'd) outcome" where
  "read_block ops blksize size_in_blocks block d =
     (if block \<ge> size_in_blocks then fail EOVERFLOW d
      else
        bind_out (dk_read ops block (unat blksize) d)
          (\<lambda>bs d1. if length bs = unat blksize then ok bs d1 else panic d1))"

definition dev_read :: "'d disk_ops \<Rightarrow> nat \<Rightarrow> 'd device \<Rightarrow> (bytes, 'd device) outcome" where
  "dev_read ops n v =
     (let blksize = dk_block_size ops (dev_disk v) in
      if blksize = 0 then panic v
      else
        let size_in_blocks = dk_size ops (dev_disk v) div ucast blksize in
        case block_read (dev_offset v) blksize n (read_block ops blksize size_in_blocks) (dev_disk v) of
          (Inl f, d) \<Rightarrow> (Inl f, v\<lparr>dev_disk := d\<rparr>)
        | (Inr bs, d) \<Rightarrow> ok bs \<lparr>dev_disk = d, dev_offset = dev_offset v + of_nat (length bs)\<rparr>)"

section \<open>What a driver promises\<close>

definition slice :: "nat \<Rightarrow> nat \<Rightarrow> 'a list \<Rightarrow> 'a list" where
  "slice i n xs = take n (drop i xs)"

definition patch :: "nat \<Rightarrow> 'a list \<Rightarrow> 'a list \<Rightarrow> 'a list" where
  "patch i ys xs = take i xs @ ys @ drop (i + length ys) xs"

lemma length_slice [simp]: "length (slice i n xs) = min n (length xs - i)"
  by (simp add: slice_def)

lemma slice_slice: "i + n \<le> m \<Longrightarrow> slice i n (slice j m xs) = slice (i + j) n xs"
  by (simp add: slice_def take_drop add.commute min_def)

lemma slice_append: "slice i m xs @ slice (i + m) n xs = slice i (m + n) xs"
  by (simp add: slice_def take_add add.commute)

lemma slice_patch_same: "i + length ys \<le> length xs \<Longrightarrow> slice i (length ys) (patch i ys xs) = ys"
  by (simp add: slice_def patch_def)

lemma slice_patch_other:
  "i + length ys \<le> length xs \<Longrightarrow> j + n \<le> i \<or> i + length ys \<le> j \<Longrightarrow> slice j n (patch i ys xs) = slice j n xs"
  by (rule nth_equalityI) (auto simp: slice_def patch_def nth_append)

lemma length_patch [simp]: "i + length ys \<le> length xs \<Longrightarrow> length (patch i ys xs) = length xs"
  by (simp add: patch_def)

lemma patch_nth:
  "i + length ys \<le> length xs \<Longrightarrow> k < length xs \<Longrightarrow> patch i ys xs ! k = (if i \<le> k \<and> k < i + length ys then ys ! (k - i) else xs ! k)"
  by (auto simp: patch_def nth_append min_def)

lemma patch_append:
  assumes "i + length xs + length ys \<le> length zs"
  shows "patch (i + length xs) ys (patch i xs zs) = patch i (xs @ ys) zs"
  using assms by (simp add: patch_def ac_simps)

locale disk =
  fixes ops :: "'d disk_ops" and contents :: "'d \<Rightarrow> bytes" and dinv :: "'d \<Rightarrow> bool"
  assumes block_size: "dinv d \<Longrightarrow> 0 < dk_block_size ops d \<and> dk_block_size ops d \<le> 4096"
    and size_contents: "dinv d \<Longrightarrow> unat (dk_size ops d) = length (contents d)"
    and size_blocks: "dinv d \<Longrightarrow> length (contents d) mod unat (dk_block_size ops d) = 0"
    and read_blocks: "dinv d \<Longrightarrow> n mod unat (dk_block_size ops d) = 0 \<Longrightarrow>
      unat b * unat (dk_block_size ops d) + n \<le> length (contents d) \<Longrightarrow>
      dk_read ops b n d = ok (slice (unat b * unat (dk_block_size ops d)) n (contents d)) d"
    and write_blocks: "dinv d \<Longrightarrow> length bs mod unat (dk_block_size ops d) = 0 \<Longrightarrow>
      unat b * unat (dk_block_size ops d) + length bs \<le> length (contents d) \<Longrightarrow>
      \<exists>d'. dk_write ops b bs d = ok (length bs) d' \<and> dinv d' \<and> dk_block_size ops d' = dk_block_size ops d \<and>
        contents d' = patch (unat b * unat (dk_block_size ops d)) bs (contents d)"
begin

lemma block_bytes: "dinv d \<Longrightarrow> 0 < unat (dk_block_size ops d) \<and> unat (dk_block_size ops d) \<le> 4096"
  using block_size[of d] by (auto simp: word_less_nat_alt word_le_nat_alt)

lemma blocks_div: "dinv d \<Longrightarrow> unat (dk_size ops d div ucast (dk_block_size ops d)) = length (contents d) div unat (dk_block_size ops d)"
  using size_contents[of d] by (simp add: unat_div unat_ucast_u32)

lemma read_block_ok:
  assumes "dinv d" and "unat b < length (contents d) div unat (dk_block_size ops d)"
  shows "read_block ops (dk_block_size ops d) (dk_size ops d div ucast (dk_block_size ops d)) b d =
    ok (slice (unat b * unat (dk_block_size ops d)) (unat (dk_block_size ops d)) (contents d)) d"
proof -
  let ?n = "unat (dk_block_size ops d)"
  have "unat b * ?n + ?n \<le> length (contents d)"
  proof -
    have "Suc (unat b) * ?n \<le> (length (contents d) div ?n) * ?n" using assms(2) by (intro mult_le_mono1) simp
    also have "\<dots> \<le> length (contents d)" by simp
    finally show ?thesis by simp
  qed
  moreover have "length (slice (unat b * ?n) ?n (contents d)) = ?n" using calculation by simp
  ultimately show ?thesis
    using read_blocks[OF assms(1), of ?n b] assms(2) blocks_div[OF assms(1)] by (simp add: read_block_def word_le_nat_alt)
qed

lemma read_block_end:
  assumes "dinv d" and "length (contents d) div unat (dk_block_size ops d) \<le> unat b"
  shows "read_block ops (dk_block_size ops d) (dk_size ops d div ucast (dk_block_size ops d)) b d = fail EOVERFLOW d"
  using assms(2) blocks_div[OF assms(1)] by (simp add: read_block_def word_le_nat_alt)

text \<open>The loop reads the bytes from its offset on, or fails where the disk ends.\<close>

lemma block_read_loop_ok:
  assumes d: "dinv d"
  shows "unat off + left < 2 ^ 64 \<Longrightarrow>
    block_read_loop (unat (dk_block_size ops d))
      (read_block ops (dk_block_size ops d) (dk_size ops d div ucast (dk_block_size ops d))) off left acc d =
    (if left = 0 \<or> unat off + left \<le> length (contents d) then ok (acc @ slice (unat off) left (contents d)) d else fail EOVERFLOW d)"
proof (induction left arbitrary: off acc rule: less_induct)
  case (less left)
  let ?n = "unat (dk_block_size ops d)" and ?c = "contents d" and ?o = "unat off"
  let ?f = "read_block ops (dk_block_size ops d) (dk_size ops d div ucast (dk_block_size ops d))"
  have n: "0 < ?n" "?n \<le> 4096" using block_bytes[OF d] by simp_all
  show ?case
  proof (cases "left = 0")
    case False
    define tc where "tc = min left (?n - ?o mod ?n)"
    have tc: "0 < tc" "tc \<le> left" using n False by (simp_all add: tc_def)
    have b: "unat (off div of_nat ?n) = ?o div ?n" using n by (simp add: unat_div unat_ucast_u32)
    have o2: "unat (off + of_nat tc) = ?o + tc"
      using tc less.prems by (simp add: unat_word_ariths unat_of_nat)
    have step: "block_read_loop ?n ?f off left acc d =
        bind_out (?f (off div of_nat ?n) d)
          (\<lambda>blk. block_read_loop ?n ?f (off + of_nat tc) (left - tc) (acc @ take tc (drop (?o mod ?n) blk)))"
      using False n by (subst block_read_loop.simps) (simp add: Let_def tc_def)
    show ?thesis
    proof (cases "?o < length ?c")
      case True
      have "?n dvd length ?c" using size_blocks[OF d] by (simp add: mod_eq_0_iff_dvd)
      then obtain q where q: "length ?c = q * ?n" by (metis dvd_def mult.commute)
      have lt: "?o div ?n < length ?c div ?n" using True q n less_mult_imp_div_less[of ?o q ?n] by simp
      have in_block: "?o mod ?n + tc \<le> ?n" using mod_less_divisor[OF n(1), of ?o] unfolding tc_def by linarith
      have "(?o div ?n) * ?n + ?n \<le> length ?c"
        using lt mult_le_mono1[of "Suc (?o div ?n)" q ?n] q n by simp
      then have cut: "?o + tc \<le> length ?c" using in_block div_mult_mod_eq[of ?o ?n] by linarith
      have bytes: "take tc (drop (?o mod ?n) (slice (?o div ?n * ?n) ?n ?c)) = slice ?o tc ?c"
        using slice_slice[OF in_block, of "?o div ?n * ?n" ?c] by (simp add: slice_def add.commute)
      have ih: "block_read_loop ?n ?f (off + of_nat tc) (left - tc) acc' d =
        (if left - tc = 0 \<or> ?o + tc + (left - tc) \<le> length ?c then ok (acc' @ slice (?o + tc) (left - tc) ?c) d else fail EOVERFLOW d)" for acc'
        using less.IH[of "left - tc" "off + of_nat tc" acc'] tc less.prems o2 by simp
      show ?thesis
        using step read_block_ok[OF d, of "off div of_nat ?n"] lt b bytes ih tc cut slice_append[of ?o tc ?c "left - tc"] False
        by auto
    next
      case beyond: False
      then have "length ?c div ?n \<le> ?o div ?n" by (simp add: div_le_mono)
      then show ?thesis using step read_block_end[OF d, of "off div of_nat ?n"] b beyond False by simp
    qed
  qed (simp add: block_read_loop.simps slice_def)
qed

text \<open>The byte reader reads the array the disk holds.\<close>

lemma dev_read_slice:
  assumes "dinv (dev_disk v)" and "unat (dev_offset v) + n < 2 ^ 64"
  shows "dev_read ops n v =
    (if n = 0 \<or> unat (dev_offset v) + n \<le> length (contents (dev_disk v))
     then ok (slice (unat (dev_offset v)) n (contents (dev_disk v))) (v\<lparr>dev_offset := dev_offset v + of_nat n\<rparr>)
     else fail EOVERFLOW v)"
proof -
  let ?d = "dev_disk v"
  have n: "dk_block_size ops ?d \<noteq> 0" "unat (dk_block_size ops ?d) \<le> 4096" using block_size[OF assms(1)] block_bytes[OF assms(1)] by auto
  have "min (unat (dev_offset v) + n) (2 ^ 64 - 1) - unat (dev_offset v) = n" using assms(2) by simp
  then show ?thesis
    using block_read_loop_ok[OF assms(1), of "dev_offset v" n "[]"] assms(2) n
    by (cases "n = 0") (simp_all add: dev_read_def block_read_def Let_def slice_def)
qed

end

end
