(* ===== verification/Partitions.thy ===== *)
theory Partitions
  imports Disk
begin

text \<open>
  Partition tables (\<open>drivers/storage/partitionlib/src\<close>): the table in the first sector (MBR), and the choice
  between it and the table the \<open>gpt\<close> crate reads. What that crate finds on a disk is the argument \<open>gpt\<close>.
\<close>

unbundle bit_operations_syntax

section \<open>Definitions\<close>

record entry =
  drive_attrs :: u8
  start_head :: u8
  start_cs :: u16
  sys_id :: u8
  end_head :: u8
  end_cs :: u16
  rel_sector :: u32
  en_len :: u32

record header =
  first_entry :: entry
  second_entry :: entry
  third_entry :: entry
  fourth_entry :: entry
  last_signature :: u16

record partition =
  start_lba :: u64
  part_size :: u64
  part_flags :: "u64 option"
  part_name :: "bytes option"
  part_uuid :: "128 word option"

datatype table_kind = Mbr | Gpt

record partition_table =
  partitions :: "partition list"
  pt_kind :: table_kind

text \<open>Little-endian fields at an offset of the sector.\<close>

definition le16 :: "bytes \<Rightarrow> nat \<Rightarrow> u16" where
  "le16 bs i = ucast (bs ! i) OR push_bit 8 (ucast (bs ! (i + 1)))"

definition le32 :: "bytes \<Rightarrow> nat \<Rightarrow> u32" where
  "le32 bs i =
     ucast (bs ! i) OR push_bit 8 (ucast (bs ! (i + 1))) OR push_bit 16 (ucast (bs ! (i + 2))) OR
     push_bit 24 (ucast (bs ! (i + 3)))"

definition read_entry :: "bytes \<Rightarrow> nat \<Rightarrow> entry" where
  "read_entry bs i =
     \<lparr>drive_attrs = bs ! i, start_head = bs ! (i + 1), start_cs = le16 bs (i + 2), sys_id = bs ! (i + 4),
      end_head = bs ! (i + 5), end_cs = le16 bs (i + 6), rel_sector = le32 bs (i + 8), en_len = le32 bs (i + 12)\<rparr>"

definition parse_header :: "bytes \<Rightarrow> header" where
  "parse_header bs =
     \<lparr>first_entry = read_entry bs 446, second_entry = read_entry bs 462, third_entry = read_entry bs 478,
      fourth_entry = read_entry bs 494, last_signature = le16 bs 510\<rparr>"

text \<open>\<open>read_exact\<close> of 512 bytes: the reader returns all of them or fails.\<close>

definition read_header :: "'d disk_ops \<Rightarrow> 'd device \<Rightarrow> (header option, 'd device) outcome" where
  "read_header ops v =
     bind_out (dev_seek ops (SeekStart 0) v)
       (\<lambda>_ v1. bind_out (dev_read ops 512 v1)
         (\<lambda>bs v2.
           let h = parse_header bs in
           ok (if last_signature h \<noteq> 0xAA55 then None else Some h) v2))"

definition is_valid :: "entry \<Rightarrow> bool" where
  "is_valid e \<longleftrightarrow> (drive_attrs e = 0 \<or> drive_attrs e = 0x80) \<and> en_len e \<noteq> 0"

definition header_partitions :: "header \<Rightarrow> entry list" where
  "header_partitions h = filter is_valid [first_entry h, second_entry h, third_entry h, fourth_entry h]"

definition get_mbr_partitions :: "'d disk_ops \<Rightarrow> 'd device \<Rightarrow> (partition_table option, 'd device) outcome" where
  "get_mbr_partitions ops v =
     bind_out (read_header ops v)
       (\<lambda>h v1.
         ok (map_option
               (\<lambda>h. \<lparr>partitions = map (\<lambda>e. \<lparr>start_lba = ucast (rel_sector e), part_size = ucast (en_len e), part_flags = None,
                                               part_name = None, part_uuid = None\<rparr>) (header_partitions h),
                     pt_kind = Mbr\<rparr>) h) v1)"

text \<open>What the \<open>gpt\<close> crate finds: first and last block, attributes, name and number of each partition.\<close>

type_synonym 'd gpt_reader = "'d device \<Rightarrow> ((u64 \<times> u64 \<times> u64 \<times> bytes \<times> 128 word) list option) \<times> 'd device"

definition get_gpt_partitions :: "'d gpt_reader \<Rightarrow> 'd device \<Rightarrow> partition_table option \<times> 'd device" where
  "get_gpt_partitions gpt v =
     (case gpt v of
        (None, v1) \<Rightarrow> (None, v1)
      | (Some ps, v1) \<Rightarrow>
         (Some \<lparr>partitions = map (\<lambda>(first, last, fl, nm, u).
                    \<lparr>start_lba = first, part_size = last - first + 1, part_flags = Some fl, part_name = Some nm, part_uuid = Some u\<rparr>) ps,
                pt_kind = Gpt\<rparr>, v1))"

definition get_partitions :: "'d gpt_reader \<Rightarrow> 'd disk_ops \<Rightarrow> 'd device \<Rightarrow> (partition_table option, 'd device) outcome" where
  "get_partitions gpt ops v =
     (case get_gpt_partitions gpt v of
        (Some t, v1) \<Rightarrow> ok (Some t) v1
      | (None, v1) \<Rightarrow> get_mbr_partitions ops v1)"

text \<open>\<open>DiskWrapper::pt\<close>: a failed read counts as no table.\<close>

definition disk_pt :: "'d gpt_reader \<Rightarrow> 'd disk_ops \<Rightarrow> 'd \<Rightarrow> (partition_table option, 'd) outcome" where
  "disk_pt gpt ops d =
     (if dk_block_size ops d = 512 \<or> dk_block_size ops d = 4096 then
        (case get_partitions gpt ops \<lparr>dev_disk = d, dev_offset = 0\<rparr> of
           (Inr t, v) \<Rightarrow> ok t (dev_disk v)
         | (Inl (Errno _), v) \<Rightarrow> ok None (dev_disk v)
         | (Inl Panic, v) \<Rightarrow> panic (dev_disk v))
      else ok None d)"

section \<open>The table in the first sector\<close>

context disk
begin

text \<open>On a disk with a whole first sector the table that is found is the one written there.\<close>

lemma mbr_from_contents:
  assumes "dinv d" and "512 \<le> length (contents d)" and "length (contents d) < 2 ^ 63"
  shows "\<exists>v. get_mbr_partitions ops \<lparr>dev_disk = d, dev_offset = o'\<rparr> =
    ok (let h = parse_header (slice 0 512 (contents d)) in
        if last_signature h = 0xAA55
        then Some \<lparr>partitions = map (\<lambda>e. \<lparr>start_lba = ucast (rel_sector e), part_size = ucast (en_len e), part_flags = None,
                                             part_name = None, part_uuid = None\<rparr>) (header_partitions h), pt_kind = Mbr\<rparr>
        else None) v \<and> dev_disk v = d"
proof -
  have sz: "unat (dk_size ops d) < 2 ^ 63" using size_contents[OF assms(1)] assms(3) by simp
  have "min (dk_size ops d) 0 = 0" by (simp add: min_def)
  then have seek: "dev_seek ops (SeekStart 0) \<lparr>dev_disk = d, dev_offset = o'\<rparr> = ok 0 \<lparr>dev_disk = d, dev_offset = 0\<rparr>"
    using sz by (simp add: dev_seek_def Let_def)
  have "dev_read ops 512 \<lparr>dev_disk = d, dev_offset = 0\<rparr> = ok (slice 0 512 (contents d)) \<lparr>dev_disk = d, dev_offset = of_nat 512\<rparr>"
    using dev_read_slice[of "\<lparr>dev_disk = d, dev_offset = 0\<rparr>" 512] assms by simp
  then show ?thesis by (simp add: get_mbr_partitions_def read_header_def seek Let_def)
qed

end

end
