(* ===== verification/Driver_Block.thy ===== *)
theory Driver_Block
  imports Partitions Handle_Map Utf8 Decimal
begin

text \<open>
  The scheme of the block drivers (\<open>drivers/storage/driver-block/src/lib.rs\<close>, second part): disks with their
  partitions, and handles on the list of them, on a disk or on a partition.

  The disks are those of a driver, given by its \<open>disk_ops\<close>. Futures are run to completion, so the
  asynchronous operations are plain functions. Arithmetic wraps as in a release build.
\<close>

unbundle bit_operations_syntax

section \<open>Definitions\<close>

subsection \<open>A disk with its partitions\<close>

record 'd disk_wrapper =
  dw_disk :: 'd
  dw_pt :: "partition_table option"

definition dw_new :: "'d gpt_reader \<Rightarrow> 'd disk_ops \<Rightarrow> 'd \<Rightarrow> fault + 'd disk_wrapper" where
  "dw_new gpt ops d =
     (case disk_pt gpt ops d of
        (Inl f, _) \<Rightarrow> Inl f
      | (Inr t, d1) \<Rightarrow> Inr \<lparr>dw_disk = d1, dw_pt = t\<rparr>)"

definition nth_partition :: "nat \<Rightarrow> 'd disk_wrapper \<Rightarrow> partition option" where
  "nth_partition k w =
     (case dw_pt w of
        None \<Rightarrow> None
      | Some t \<Rightarrow> if k < length (partitions t) then Some (partitions t ! k) else None)"

text \<open>The block of the disk behind a block of a handle.\<close>

definition abs_block :: "nat option \<Rightarrow> u64 \<Rightarrow> 'd disk_wrapper \<Rightarrow> errno + u64" where
  "abs_block part_num block w =
     (case part_num of
        None \<Rightarrow> Inr block
      | Some k \<Rightarrow>
         (case nth_partition k w of
            None \<Rightarrow> Inl EBADF
          | Some part \<Rightarrow> if block \<ge> part_size part then Inl EOVERFLOW else Inr (start_lba part + block)))"

definition with_disk :: "('a, 'd) outcome \<Rightarrow> 'd disk_wrapper \<Rightarrow> ('a, 'd disk_wrapper) outcome" where
  "with_disk r w = (fst r, w\<lparr>dw_disk := snd r\<rparr>)"

definition dw_read :: "'d disk_ops \<Rightarrow> nat option \<Rightarrow> u64 \<Rightarrow> nat \<Rightarrow> 'd disk_wrapper \<Rightarrow> (bytes, 'd disk_wrapper) outcome" where
  "dw_read ops part_num block n w =
     (let bs = unat (dk_block_size ops (dw_disk w)) in
      if bs = 0 then panic w
      else if n mod bs \<noteq> 0 then fail EINVAL w
      else
        case abs_block part_num block w of
          Inl e \<Rightarrow> fail e w
        | Inr b \<Rightarrow> with_disk (dk_read ops b n (dw_disk w)) w)"

definition dw_write :: "'d disk_ops \<Rightarrow> nat option \<Rightarrow> u64 \<Rightarrow> bytes \<Rightarrow> 'd disk_wrapper \<Rightarrow> (nat, 'd disk_wrapper) outcome" where
  "dw_write ops part_num block buf w =
     (let bs = unat (dk_block_size ops (dw_disk w)) in
      if bs = 0 then panic w
      else if length buf mod bs \<noteq> 0 then fail EINVAL w
      else
        case abs_block part_num block w of
          Inl e \<Rightarrow> fail e w
        | Inr b \<Rightarrow> with_disk (dk_write ops b buf (dw_disk w)) w)"

subsection \<open>The scheme\<close>

datatype dhandle = DList bytes | DDisk u32 | DPartition u32 u32 | DSchemeRoot

record 'd disk_scheme =
  ds_name :: bytes
  ds_disks :: "(u32 \<times> 'd disk_wrapper) list"
  ds_handles :: "dhandle handle_map"

record disk_ext =
  dx_O_DIRECTORY :: u64
  dx_O_STAT :: u64
  dx_MODE_DIR :: u16
  dx_MODE_FILE :: u16

definition ds_new :: "bytes \<Rightarrow> (u32 \<times> 'd disk_wrapper) list \<Rightarrow> 'd disk_scheme" where
  "ds_new name disks = \<lparr>ds_name = name, ds_disks = disks, ds_handles = hm_new\<rparr>"

text \<open>Whether an open handle conflicts with opening a disk (\<open>None\<close>) or a partition of it.\<close>

definition conflicts :: "u32 \<Rightarrow> u32 option \<Rightarrow> dhandle \<Rightarrow> bool" where
  "conflicts disk_i part_i_opt h =
     (case h of
        DDisk i \<Rightarrow> disk_i = i
      | DPartition i p \<Rightarrow> disk_i = i \<and> (case part_i_opt of Some part_i \<Rightarrow> part_i = p | None \<Rightarrow> True)
      | _ \<Rightarrow> False)"

definition check_locks :: "u32 \<Rightarrow> u32 option \<Rightarrow> 'd disk_scheme \<Rightarrow> errno option" where
  "check_locks disk_i part_i_opt s =
     (if list_ex (\<lambda>e. conflicts disk_i part_i_opt (snd e)) (hm_handles (ds_handles s)) then Some ENOLCK else None)"

definition ds_root :: "'d disk_scheme \<Rightarrow> (u64, 'd disk_scheme) outcome" where
  "ds_root s = (let (i, hs) = hm_insert DSchemeRoot (ds_handles s) in ok i (s\<lparr>ds_handles := hs\<rparr>))"

definition trim_both :: "bytes \<Rightarrow> bytes" where
  "trim_both bs = rev (dropWhile (\<lambda>b. b = 0x2f) (rev (dropWhile (\<lambda>b. b = 0x2f) bs)))"

text \<open>The names of the disks and of their partitions, one per line.\<close>

definition disk_list :: "(u32 \<times> 'd disk_wrapper) list \<Rightarrow> bytes" where
  "disk_list ds =
     concat (map (\<lambda>(nsid, w).
       show_nat (unat nsid) @ [0x0a] @
       (case dw_pt w of
          None \<Rightarrow> []
        | Some t \<Rightarrow> concat (map (\<lambda>k. show_nat (unat nsid) @ [0x70] @ show_nat k @ [0x0a]) [0..<length (partitions t)]))) ds)"

text \<open>The position of the first \<open>p\<close>, counted in characters.\<close>

definition p_position :: "bytes \<Rightarrow> nat option" where
  "p_position path =
     (if 0x70 \<in> set path
      then Some (length (filter (\<lambda>b. \<not> is_continuation b) (takeWhile (\<lambda>b. b \<noteq> 0x70) path)))
      else None)"

definition parse_u32 :: "bytes \<Rightarrow> u32 option" where
  "parse_u32 bs = map_option of_nat (parse_below (2 ^ 32) bs)"

text \<open>
  The handle a path opens. The position of \<open>p\<close>, a number of characters, is used to cut the text at a number of
  bytes: a cut that is not between two characters panics.
\<close>

definition path_handle :: "disk_ext \<Rightarrow> bytes \<Rightarrow> u64 \<Rightarrow> 'd disk_scheme \<Rightarrow> fault + dhandle" where
  "path_handle x path flags s =
     (if path = [] then
        (if flags AND dx_O_DIRECTORY x = dx_O_DIRECTORY x \<or> flags AND dx_O_STAT x = dx_O_STAT x
         then Inr (DList (disk_list (ds_disks s))) else Inl (Errno EISDIR))
      else
        case p_position path of
          Some p_pos \<Rightarrow>
            if \<not> is_char_boundary path p_pos then Inl Panic
            else if p_pos + 1 \<ge> length path then Inl (Errno ENOENT)
            else if \<not> is_char_boundary path (p_pos + 1) then Inl Panic
            else
              (case (parse_u32 (take p_pos path), parse_u32 (drop (p_pos + 1) path)) of
                 (Some nsid, Some part_num) \<Rightarrow>
                   (case bm_get nsid (ds_disks s) of
                      None \<Rightarrow> Inl (Errno ENOENT)
                    | Some w \<Rightarrow>
                       (case nth_partition (unat part_num) w of
                          None \<Rightarrow> Inl (Errno ENOENT)
                        | Some _ \<Rightarrow>
                           (case check_locks nsid (Some part_num) s of
                              Some e \<Rightarrow> Inl (Errno e)
                            | None \<Rightarrow> Inr (DPartition nsid part_num))))
               | _ \<Rightarrow> Inl (Errno ENOENT))
        | None \<Rightarrow>
            (case parse_u32 path of
               None \<Rightarrow> Inl (Errno ENOENT)
             | Some nsid \<Rightarrow>
                (case bm_get nsid (ds_disks s) of
                   None \<Rightarrow> Inl (Errno ENOENT)
                 | Some _ \<Rightarrow>
                    (case check_locks nsid None s of
                       Some e \<Rightarrow> Inl (Errno e)
                     | None \<Rightarrow> Inr (DDisk nsid)))))"

definition ds_openat :: "disk_ext \<Rightarrow> u64 \<Rightarrow> bytes \<Rightarrow> u64 \<Rightarrow> u32 \<Rightarrow> 'd disk_scheme \<Rightarrow> (u64, 'd disk_scheme) outcome" where
  "ds_openat x dirfd path_str flags ctx_uid s =
     (case hm_get (ds_handles s) dirfd of
        Inl e \<Rightarrow> fail e s
      | Inr h \<Rightarrow>
         if h \<noteq> DSchemeRoot then fail EACCES s
         else if ctx_uid \<noteq> 0 then fail EACCES s
         else
           (case path_handle x (trim_both path_str) flags s of
              Inl f \<Rightarrow> (Inl f, s)
            | Inr h \<Rightarrow> let (i, hs) = hm_insert h (ds_handles s) in ok i (s\<lparr>ds_handles := hs\<rparr>)))"

record disk_stat =
  dst_mode :: u16
  dst_size :: u64
  dst_blocks :: u64
  dst_blksize :: u32

text \<open>The fields an operation does not set keep the values of the caller's \<open>stat\<close>.\<close>

definition ds_fstat :: "disk_ext \<Rightarrow> 'd disk_ops \<Rightarrow> u64 \<Rightarrow> disk_stat \<Rightarrow> 'd disk_scheme \<Rightarrow> fault + disk_stat" where
  "ds_fstat x ops i st s =
     (case hm_get (ds_handles s) i of
        Inl e \<Rightarrow> Inl (Errno e)
      | Inr (DList data) \<Rightarrow> Inr (st\<lparr>dst_mode := dx_MODE_DIR x, dst_size := of_nat (length data)\<rparr>)
      | Inr (DDisk number) \<Rightarrow>
         (case bm_get number (ds_disks s) of
            None \<Rightarrow> Inl (Errno EBADF)
          | Some w \<Rightarrow>
             let bs = dk_block_size ops (dw_disk w) in
             if bs = 0 then Inl Panic
             else Inr \<lparr>dst_mode = dx_MODE_FILE x, dst_size = dk_size ops (dw_disk w),
                       dst_blocks = dk_size ops (dw_disk w) div ucast bs, dst_blksize = bs\<rparr>)
      | Inr (DPartition disk_num part_num) \<Rightarrow>
         (case bm_get disk_num (ds_disks s) of
            None \<Rightarrow> Inl (Errno EBADF)
          | Some w \<Rightarrow>
             (case nth_partition (unat part_num) w of
                None \<Rightarrow> Inl (Errno EBADF)
              | Some part \<Rightarrow>
                 let bs = dk_block_size ops (dw_disk w) in
                 Inr \<lparr>dst_mode = dx_MODE_FILE x, dst_size = part_size part * ucast bs, dst_blocks = part_size part,
                      dst_blksize = bs\<rparr>))
      | Inr DSchemeRoot \<Rightarrow> Inl (Errno EBADF))"

text \<open>The name of a handle below the scheme.\<close>

definition handle_name :: "dhandle \<Rightarrow> bytes option" where
  "handle_name h =
     (case h of
        DList _ \<Rightarrow> Some []
      | DDisk number \<Rightarrow> Some (show_nat (unat number))
      | DPartition disk_num part_num \<Rightarrow> Some (show_nat (unat disk_num) @ [0x70] @ show_nat (unat part_num))
      | DSchemeRoot \<Rightarrow> None)"

definition ds_fpath :: "u64 \<Rightarrow> bytes \<Rightarrow> 'd disk_scheme \<Rightarrow> errno + fpath_writer" where
  "ds_fpath i buf s =
     fpath_with_legacy buf (ds_name s)
       (\<lambda>w. case hm_get (ds_handles s) i of
              Inl e \<Rightarrow> Inl e
            | Inr h \<Rightarrow> (case handle_name h of None \<Rightarrow> Inl EBADF | Some nm \<Rightarrow> Inr (push_str nm w)))"

text \<open>An operation on the disk a handle is on, at the block of an offset.\<close>

definition on_disk ::
  "'d disk_ops \<Rightarrow> u32 \<Rightarrow> u64 \<Rightarrow> (u64 \<Rightarrow> 'd disk_wrapper \<Rightarrow> ('a, 'd disk_wrapper) outcome) \<Rightarrow> 'd disk_scheme
     \<Rightarrow> ('a, 'd disk_scheme) outcome" where
  "on_disk ops number offset f s =
     (case bm_get number (ds_disks s) of
        None \<Rightarrow> fail EBADF s
      | Some w \<Rightarrow>
         let bs = dk_block_size ops (dw_disk w) in
         if bs = 0 then panic s
         else
           let r = f (offset div ucast bs) w
           in (fst r, s\<lparr>ds_disks := bm_insert number (snd r) (ds_disks s)\<rparr>))"

definition ds_read :: "'d disk_ops \<Rightarrow> u64 \<Rightarrow> nat \<Rightarrow> u64 \<Rightarrow> 'd disk_scheme \<Rightarrow> (bytes, 'd disk_scheme) outcome" where
  "ds_read ops i n offset s =
     (case hm_get (ds_handles s) i of
        Inl e \<Rightarrow> fail e s
      | Inr (DList data) \<Rightarrow> ok (take n (drop (unat offset) data)) s
      | Inr (DDisk number) \<Rightarrow> on_disk ops number offset (\<lambda>b. dw_read ops None b n) s
      | Inr (DPartition disk_num part_num) \<Rightarrow> on_disk ops disk_num offset (\<lambda>b. dw_read ops (Some (unat part_num)) b n) s
      | Inr DSchemeRoot \<Rightarrow> fail EBADF s)"

definition ds_write :: "'d disk_ops \<Rightarrow> u64 \<Rightarrow> bytes \<Rightarrow> u64 \<Rightarrow> 'd disk_scheme \<Rightarrow> (nat, 'd disk_scheme) outcome" where
  "ds_write ops i buf offset s =
     (case hm_get (ds_handles s) i of
        Inl e \<Rightarrow> fail e s
      | Inr (DList _) \<Rightarrow> fail EBADF s
      | Inr (DDisk number) \<Rightarrow> on_disk ops number offset (\<lambda>b. dw_write ops None b buf) s
      | Inr (DPartition disk_num part_num) \<Rightarrow> on_disk ops disk_num offset (\<lambda>b. dw_write ops (Some (unat part_num)) b buf) s
      | Inr DSchemeRoot \<Rightarrow> fail EBADF s)"

definition ds_fsize :: "'d disk_ops \<Rightarrow> u64 \<Rightarrow> 'd disk_scheme \<Rightarrow> errno + u64" where
  "ds_fsize ops i s =
     (case hm_get (ds_handles s) i of
        Inl e \<Rightarrow> Inl e
      | Inr (DList data) \<Rightarrow> Inr (of_nat (length data))
      | Inr (DDisk number) \<Rightarrow>
         (case bm_get number (ds_disks s) of None \<Rightarrow> Inl EBADF | Some w \<Rightarrow> Inr (dk_size ops (dw_disk w)))
      | Inr (DPartition disk_num part_num) \<Rightarrow>
         (case bm_get disk_num (ds_disks s) of
            None \<Rightarrow> Inl EBADF
          | Some w \<Rightarrow>
             (case nth_partition (unat part_num) w of
                None \<Rightarrow> Inl EBADF
              | Some part \<Rightarrow> Inr (part_size part * ucast (dk_block_size ops (dw_disk w)))))
      | Inr DSchemeRoot \<Rightarrow> Inl EBADF)"

definition ds_on_close :: "u64 \<Rightarrow> 'd disk_scheme \<Rightarrow> 'd disk_scheme" where
  "ds_on_close i s = s\<lparr>ds_handles := snd (hm_remove i (ds_handles s))\<rparr>"

definition ds_getdents :: "u64 \<Rightarrow> 'd disk_scheme \<Rightarrow> errno + unit" where
  "ds_getdents i s = Inl EOPNOTSUPP"

subsection \<open>The request loop\<close>

datatype 'q dk_kind = DkCall 'q | DkSendFd 'q | DkRecvFd 'q | DkCancellation | DkMapping | DkOnClose u64 | DkOnDetach

text \<open>What the socket returned: a request and the error of writing its response if there is one, the end, or an error.\<close>

datatype 'q dk_next = DkNext "'q dk_kind" "errno option" | DkUnmounted | DkErr errno

text \<open>How \<open>tick\<close> ended; \<open>TickBlocked\<close> is that the socket has not returned yet.\<close>

datatype tick_end = TickOk | TickExit | TickErr errno | TickPanic | TickBlocked

text \<open>
  The dispatcher of a call, \<open>handle_async\<close> of the \<open>redox_scheme\<close> crate over the operations above, is a
  parameter, with \<open>None\<close> for a panic, and so is the response for an error.
\<close>

fun ds_tick ::
  "('q \<Rightarrow> 'd disk_scheme \<Rightarrow> ('r \<times> 'd disk_scheme) option) \<Rightarrow> (errno \<Rightarrow> 'q \<Rightarrow> 'r) \<Rightarrow> 'q dk_next list \<Rightarrow> 'd disk_scheme
     \<Rightarrow> tick_end \<times> 'r list \<times> 'd disk_scheme" where
  "ds_tick call err [] s = (TickBlocked, [], s)"
| "ds_tick call err (n # ns) s =
     (let respond = (\<lambda>r w s1.
        case w of
          Some e \<Rightarrow> (TickErr e, [], s1)
        | None \<Rightarrow> let (f, rs, s2) = ds_tick call err ns s1 in (f, r # rs, s2))
      in
      case n of
        DkUnmounted \<Rightarrow> (TickExit, [], s)
      | DkErr e \<Rightarrow>
          if e = EWOULDBLOCK \<or> e = EAGAIN then (TickOk, [], s)
          else if e = EINTR then ds_tick call err ns s
          else (TickErr e, [], s)
      | DkNext k w \<Rightarrow>
         (case k of
            DkCall q \<Rightarrow> (case call q s of None \<Rightarrow> (TickPanic, [], s) | Some (r, s1) \<Rightarrow> respond r w s1)
          | DkSendFd q \<Rightarrow> respond (err EOPNOTSUPP q) w s
          | DkRecvFd q \<Rightarrow> respond (err EOPNOTSUPP q) w s
          | DkCancellation \<Rightarrow> ds_tick call err ns s
          | DkMapping \<Rightarrow> (TickPanic, [], s)
          | DkOnClose i \<Rightarrow> ds_tick call err ns (ds_on_close i s)
          | DkOnDetach \<Rightarrow> ds_tick call err ns s))"

end
