(* ===== verification/Live_Disk.thy ===== *)
theory Live_Disk
  imports Disk
begin

text \<open>
  The live disk (\<open>drivers/storage/lived/src/main.rs\<close>): a disk image in memory that is never written,
  under an overlay of the blocks that were written. It provides the interface of the theory \<open>Disk\<close>: the
  image and the overlay together are one array of bytes.

  The memory the image is mapped from is the kernel's; the bytes of the mapping are the argument of
  \<open>live_new\<close>. Blocks are pages of 4096 bytes, the page size of the system call interface.
\<close>

section \<open>Definitions\<close>

definition PAGE_SIZE :: nat where
  "PAGE_SIZE = 4096"

record live_disk =
  original :: bytes
  overlay :: "(u64 \<times> bytes) list"

text \<open>The pages that hold \<open>size\<close> bytes from the physical address \<open>phys\<close> on; \<open>None\<close> is the overflow of their sum.\<close>

definition live_range :: "u64 \<Rightarrow> u64 \<Rightarrow> (nat \<times> nat) option" where
  "live_range phys sz =
     (if unat phys + unat sz \<ge> 2 ^ 64 then None
      else
        let start = unat phys div PAGE_SIZE * PAGE_SIZE;
            last = (unat phys + unat sz + (PAGE_SIZE - 1)) div PAGE_SIZE * PAGE_SIZE
        in Some (start, last - start))"

definition live_new :: "bytes \<Rightarrow> live_disk" where
  "live_new mem = \<lparr>original = mem, overlay = []\<rparr>"

definition live_block_size :: "live_disk \<Rightarrow> u32" where
  "live_block_size d = of_nat PAGE_SIZE"

definition live_size :: "live_disk \<Rightarrow> u64" where
  "live_size d = of_nat (length (original d))"

text \<open>Indexing with a range; \<open>None\<close> is the panic of a range that is not inside the slice.\<close>

definition index_range :: "u64 \<Rightarrow> nat \<Rightarrow> bytes \<Rightarrow> bytes option" where
  "index_range offset n bs =
     (let last = offset + of_nat n in
      if offset \<le> last \<and> unat last \<le> length bs then Some (slice (unat offset) n bs) else None)"

text \<open>The loop of \<open>read\<close> over the chunks of a buffer of \<open>n\<close> bytes.\<close>

function read_chunks :: "live_disk \<Rightarrow> u64 \<Rightarrow> u64 \<Rightarrow> nat \<Rightarrow> bytes \<Rightarrow> (bytes, live_disk) outcome" where
  "read_chunks d block offset n acc =
     (if n = 0 then ok acc d
      else
        let len = min n PAGE_SIZE in
        case map_of (overlay d) block of
          Some page \<Rightarrow> read_chunks d (block + 1) (offset + of_nat PAGE_SIZE) (n - len) (acc @ take len page)
        | None \<Rightarrow>
           (case index_range offset len (original d) of
              None \<Rightarrow> panic d
            | Some bs \<Rightarrow> read_chunks d (block + 1) (offset + of_nat PAGE_SIZE) (n - len) (acc @ bs)))"
  by pat_completeness auto
termination
  by (relation "measure (\<lambda>(_, _, _, n, _). n)") (auto simp: PAGE_SIZE_def)

declare read_chunks.simps [simp del]

definition live_read :: "u64 \<Rightarrow> nat \<Rightarrow> live_disk \<Rightarrow> (bytes, live_disk) outcome" where
  "live_read block n d =
     (let offset = block * of_nat PAGE_SIZE in
      if unat (offset + of_nat n) > length (original d) then fail EINVAL d
      else read_chunks d block offset n [])"

text \<open>The loop of \<open>write\<close>: the page is copied from the image when it is not in the overlay yet.\<close>

function write_chunks :: "u64 \<Rightarrow> bytes \<Rightarrow> nat \<Rightarrow> live_disk \<Rightarrow> (nat, live_disk) outcome" where
  "write_chunks block buf n d =
     (if buf = [] then ok n d
      else
        let chunk = take PAGE_SIZE buf in
        case (case map_of (overlay d) block of
                Some page \<Rightarrow> Some page
              | None \<Rightarrow> index_range (block * of_nat PAGE_SIZE) PAGE_SIZE (original d)) of
          None \<Rightarrow> panic d
        | Some page \<Rightarrow>
           write_chunks (block + 1) (drop PAGE_SIZE buf) n
             (d\<lparr>overlay := AList.update block (patch 0 chunk page) (overlay d)\<rparr>))"
  by pat_completeness auto
termination
  by (relation "measure (\<lambda>(_, buf, _, _). length buf)") (auto simp: PAGE_SIZE_def)

declare write_chunks.simps [simp del]

definition live_write :: "u64 \<Rightarrow> bytes \<Rightarrow> live_disk \<Rightarrow> (nat, live_disk) outcome" where
  "live_write block buf d =
     (let offset = block * of_nat PAGE_SIZE in
      if unat (offset + of_nat (length buf)) > length (original d) then fail EINVAL d
      else write_chunks block buf (length buf) d)"

definition live_ops :: "live_disk disk_ops" where
  "live_ops = \<lparr>dk_block_size = live_block_size, dk_size = live_size, dk_read = live_read, dk_write = live_write\<rparr>"

section \<open>The array of bytes\<close>

definition live_byte :: "live_disk \<Rightarrow> nat \<Rightarrow> u8" where
  "live_byte d i =
     (case map_of (overlay d) (of_nat (i div PAGE_SIZE)) of
        Some page \<Rightarrow> page ! (i mod PAGE_SIZE)
      | None \<Rightarrow> original d ! i)"

definition live_contents :: "live_disk \<Rightarrow> bytes" where
  "live_contents d = map (live_byte d) [0..<length (original d)]"

text \<open>The image is whole pages and, as every slice, shorter than \<open>2 ^ 63\<close>; the overlay holds whole pages.\<close>

definition live_inv :: "live_disk \<Rightarrow> bool" where
  "live_inv d \<longleftrightarrow>
     length (original d) mod PAGE_SIZE = 0 \<and> length (original d) < 2 ^ 63 \<and>
     (\<forall>b page. map_of (overlay d) b = Some page \<longrightarrow> length page = PAGE_SIZE)"

lemma length_live_contents [simp]: "length (live_contents d) = length (original d)"
  by (simp add: live_contents_def)

lemma page_slice:
  assumes inv: "live_inv d" and len: "len \<le> PAGE_SIZE" and fits: "unat b * PAGE_SIZE + len \<le> length (original d)"
  shows "slice (unat b * PAGE_SIZE) len (live_contents d) =
    (case map_of (overlay d) b of Some page \<Rightarrow> take len page | None \<Rightarrow> slice (unat b * PAGE_SIZE) len (original d))"
proof (rule nth_equalityI)
  show "length (slice (unat b * PAGE_SIZE) len (live_contents d)) =
      length (case map_of (overlay d) b of Some page \<Rightarrow> take len page | None \<Rightarrow> slice (unat b * PAGE_SIZE) len (original d))"
    using inv len fits by (auto simp: live_inv_def split: option.split)
  fix i assume "i < length (slice (unat b * PAGE_SIZE) len (live_contents d))"
  then have i: "i < len" by simp
  have "(unat b * PAGE_SIZE + i) div PAGE_SIZE = unat b" "(unat b * PAGE_SIZE + i) mod PAGE_SIZE = i"
    using i len by (simp_all add: PAGE_SIZE_def)
  then show "slice (unat b * PAGE_SIZE) len (live_contents d) ! i =
      (case map_of (overlay d) b of Some page \<Rightarrow> take len page | None \<Rightarrow> slice (unat b * PAGE_SIZE) len (original d)) ! i"
    using i fits by (simp add: slice_def live_contents_def live_byte_def split: option.split)
qed

lemma page_offset:
  fixes b :: u64
  assumes "unat b * PAGE_SIZE < 2 ^ 63"
  shows "unat (b * of_nat PAGE_SIZE) = unat b * PAGE_SIZE"
  using assms by (simp add: unat_word_ariths unat_of_nat PAGE_SIZE_def)

lemma index_page:
  assumes "unat off + n < 2 ^ 63" and "unat off + n \<le> length bs"
  shows "index_range off n bs = Some (slice (unat off) n bs)"
proof -
  have u: "unat (off + of_nat n) = unat off + n" using assms(1) by (simp add: unat_word_ariths unat_of_nat)
  show ?thesis using assms(2) by (simp add: index_range_def Let_def u word_le_nat_alt)
qed

lemma next_page:
  fixes b :: u64
  assumes "unat b * PAGE_SIZE < 2 ^ 63"
  shows "unat (b + 1) = Suc (unat b)"
  using assms by (simp add: unat_word_ariths PAGE_SIZE_def)

lemma read_chunks_ok:
  assumes inv: "live_inv d"
  shows "unat b * PAGE_SIZE + n \<le> length (original d) \<Longrightarrow> unat off = unat b * PAGE_SIZE \<Longrightarrow>
    read_chunks d b off n acc = ok (acc @ slice (unat b * PAGE_SIZE) n (live_contents d)) d"
proof (induction n arbitrary: b off acc rule: less_induct)
  case (less n)
  show ?case
  proof (cases "n = 0")
    case True
    then show ?thesis by (simp add: read_chunks.simps slice_def)
  next
    case False
    define len where "len = min n PAGE_SIZE"
    have len: "0 < len" "len \<le> n" "len \<le> PAGE_SIZE" using False by (simp_all add: len_def PAGE_SIZE_def)
    have small: "length (original d) < 2 ^ 63" using inv by (simp add: live_inv_def)
    have b1: "unat (b + 1) = Suc (unat b)" using next_page[of b] less.prems small False by simp
    have len_cases: "n - len = 0 \<or> len = PAGE_SIZE" by (auto simp: len_def)
    have rest: "read_chunks d (b + 1) (off + of_nat PAGE_SIZE) (n - len) acc' = ok (acc' @ slice (unat b * PAGE_SIZE + len) (n - len) (live_contents d)) d" for acc'
      using len_cases
    proof
      assume "n - len = 0"
      then show ?thesis by (simp add: read_chunks.simps slice_def)
    next
      assume full: "len = PAGE_SIZE"
      have fits: "unat (b + 1) * PAGE_SIZE + (n - len) \<le> length (original d)" using less.prems(1) len full b1 by simp
      have "unat (off + of_nat PAGE_SIZE) = unat (b + 1) * PAGE_SIZE"
        using less.prems fits small b1 by (simp add: unat_word_ariths unat_of_nat PAGE_SIZE_def)
      moreover have "unat (b + 1) * PAGE_SIZE = unat b * PAGE_SIZE + len" using b1 full by simp
      ultimately show ?thesis using less.IH[OF _ fits, of "off + of_nat PAGE_SIZE" acc'] len by simp
    qed
    have page: "slice (unat b * PAGE_SIZE) len (live_contents d) =
        (case map_of (overlay d) b of Some page \<Rightarrow> take len page | None \<Rightarrow> slice (unat b * PAGE_SIZE) len (original d))"
      using page_slice[OF inv len(3)] less.prems(1) len(2) by simp
    have "index_range off len (original d) = Some (slice (unat b * PAGE_SIZE) len (original d))"
      using index_page[of off len "original d"] less.prems len small by simp
    then have "read_chunks d b off n acc =
        ok (acc @ slice (unat b * PAGE_SIZE) len (live_contents d) @ slice (unat b * PAGE_SIZE + len) (n - len) (live_contents d)) d"
      using False rest page by (subst read_chunks.simps) (simp add: Let_def len_def[symmetric] split: option.split)
    then show ?thesis using slice_append[of "unat b * PAGE_SIZE" len "live_contents d" "n - len"] len by simp
  qed
qed

lemma whole_page:
  assumes inv: "live_inv d" and "0 < n" and fits: "unat b * PAGE_SIZE + n \<le> length (original d)"
  shows "unat b * PAGE_SIZE + PAGE_SIZE \<le> length (original d)"
proof -
  have "PAGE_SIZE dvd length (original d)" using inv by (simp add: live_inv_def mod_eq_0_iff_dvd)
  then obtain q where q: "length (original d) = q * PAGE_SIZE" by (metis dvd_def mult.commute)
  have "unat b * PAGE_SIZE < q * PAGE_SIZE" using fits assms(2) q by linarith
  then have "unat b < q" by simp
  then show ?thesis using q mult_le_mono1[of "Suc (unat b)" q PAGE_SIZE] by simp
qed

text \<open>Replacing a page changes the bytes of that page and no other.\<close>

lemma live_contents_page:
  assumes inv: "live_inv d" and c: "0 < length chunk" "length chunk \<le> PAGE_SIZE" and fits: "unat b * PAGE_SIZE + length chunk \<le> length (original d)"
    and page: "page = (case map_of (overlay d) b of Some p \<Rightarrow> p | None \<Rightarrow> slice (unat b * PAGE_SIZE) PAGE_SIZE (original d))"
  shows "live_inv (d\<lparr>overlay := AList.update b (patch 0 chunk page) (overlay d)\<rparr>)"
    "live_contents (d\<lparr>overlay := AList.update b (patch 0 chunk page) (overlay d)\<rparr>) = patch (unat b * PAGE_SIZE) chunk (live_contents d)"
proof -
  let ?d = "d\<lparr>overlay := AList.update b (patch 0 chunk page) (overlay d)\<rparr>"
  have whole: "unat b * PAGE_SIZE + PAGE_SIZE \<le> length (original d)" using whole_page[OF inv c(1) fits] .
  have lp: "length page = PAGE_SIZE" using inv page whole by (auto simp: live_inv_def split: option.splits)
  then have lpp: "length (patch 0 chunk page) = PAGE_SIZE" using c by simp
  show "live_inv ?d" using inv lpp by (auto simp: live_inv_def alist_simps)
  show "live_contents ?d = patch (unat b * PAGE_SIZE) chunk (live_contents d)"
  proof (rule nth_equalityI)
    show "length (live_contents ?d) = length (patch (unat b * PAGE_SIZE) chunk (live_contents d))" using fits by simp
    fix i assume "i < length (live_contents ?d)"
    then have i: "i < length (original d)" by simp
    show "live_contents ?d ! i = patch (unat b * PAGE_SIZE) chunk (live_contents d) ! i"
    proof (cases "i div PAGE_SIZE = unat b")
      case True
      then have im: "i = unat b * PAGE_SIZE + i mod PAGE_SIZE" by (metis div_mult_mod_eq)
      have lt: "i mod PAGE_SIZE < PAGE_SIZE" by (simp add: PAGE_SIZE_def)
      have "live_contents ?d ! i = patch 0 chunk page ! (i mod PAGE_SIZE)"
        using i True by (simp add: live_contents_def live_byte_def alist_simps)
      also have "\<dots> = (if i mod PAGE_SIZE < length chunk then chunk ! (i mod PAGE_SIZE) else page ! (i mod PAGE_SIZE))"
        using patch_nth[of 0 chunk page "i mod PAGE_SIZE"] lp c lt by simp
      also have "page ! (i mod PAGE_SIZE) = live_contents d ! i"
        using i True lt im whole by (simp add: page live_contents_def live_byte_def slice_def split: option.split)
      finally have new: "live_contents ?d ! i = (if i mod PAGE_SIZE < length chunk then chunk ! (i mod PAGE_SIZE) else live_contents d ! i)" .
      have "i - unat b * PAGE_SIZE = i mod PAGE_SIZE" "unat b * PAGE_SIZE \<le> i"
        "i < unat b * PAGE_SIZE + length chunk \<longleftrightarrow> i mod PAGE_SIZE < length chunk" using im by linarith+
      then show ?thesis using patch_nth[of "unat b * PAGE_SIZE" chunk "live_contents d" i] fits i new by simp
    next
      case False
      then have "(of_nat (i div PAGE_SIZE) :: u64) \<noteq> b"
      proof -
        have "i < 2 ^ 63" using i inv by (simp add: live_inv_def)
        then have "i < 2 ^ 64" by simp
        then have "i div PAGE_SIZE < 2 ^ 64" by (rule le_less_trans[OF div_le_dividend])
        then have "unat (of_nat (i div PAGE_SIZE) :: u64) = i div PAGE_SIZE" by (simp add: unat_of_nat)
        then show ?thesis using False by auto
      qed
      then have "live_contents ?d ! i = live_contents d ! i"
        using i by (simp add: live_contents_def live_byte_def alist_simps split: option.split)
      moreover have "\<not> (unat b * PAGE_SIZE \<le> i \<and> i < unat b * PAGE_SIZE + length chunk)"
        using False c by (auto simp: div_nat_eqI) (metis div_nat_eqI add.commute mult_Suc order.strict_trans2 add_le_cancel_left mult.commute)
      ultimately show ?thesis using patch_nth[of "unat b * PAGE_SIZE" chunk "live_contents d" i] fits i by auto
    qed
  qed
qed

lemma write_chunks_ok:
  "live_inv d \<Longrightarrow> unat b * PAGE_SIZE + length buf \<le> length (original d) \<Longrightarrow>
   \<exists>d'. write_chunks b buf n d = ok n d' \<and> live_inv d' \<and> original d' = original d \<and>
     live_contents d' = patch (unat b * PAGE_SIZE) buf (live_contents d)"
proof (induction "length buf" arbitrary: b buf d rule: less_induct)
  case less
  note inv = less.prems(1) and fits = less.prems(2)
  show ?case
  proof (cases "buf = []")
    case True
    then show ?thesis using inv fits by (simp add: write_chunks.simps patch_def)
  next
    case False
    define chunk where "chunk = take PAGE_SIZE buf"
    have P: "0 < PAGE_SIZE" by (simp add: PAGE_SIZE_def)
    have c: "0 < length chunk" "length chunk \<le> PAGE_SIZE" "chunk @ drop PAGE_SIZE buf = buf" using False P by (simp_all add: chunk_def)
    have small: "length (original d) < 2 ^ 63" using inv by (simp add: live_inv_def)
    have fc: "unat b * PAGE_SIZE + length chunk \<le> length (original d)" using fits by (simp add: chunk_def)
    define page where "page = (case map_of (overlay d) b of Some p \<Rightarrow> p | None \<Rightarrow> slice (unat b * PAGE_SIZE) PAGE_SIZE (original d))"
    note new = live_contents_page[OF inv c(1,2) fc page_def]
    define d1 where "d1 = d\<lparr>overlay := AList.update b (patch 0 chunk page) (overlay d)\<rparr>"
    have whole: "unat b * PAGE_SIZE + PAGE_SIZE \<le> length (original d)" using whole_page[OF inv c(1) fc] .
    have "unat (b * of_nat PAGE_SIZE) = unat b * PAGE_SIZE" using page_offset[of b] whole small P by simp
    then have "index_range (b * of_nat PAGE_SIZE) PAGE_SIZE (original d) = Some (slice (unat b * PAGE_SIZE) PAGE_SIZE (original d))"
      using index_page[of "b * of_nat PAGE_SIZE" PAGE_SIZE "original d"] whole small by simp
    then have step: "write_chunks b buf n d = write_chunks (b + 1) (drop PAGE_SIZE buf) n d1"
      using False by (subst write_chunks.simps) (simp add: Let_def page_def chunk_def d1_def split: option.split)
    show ?thesis
    proof (cases "length buf \<le> PAGE_SIZE")
      case True
      then have "chunk = buf" "drop PAGE_SIZE buf = []" by (simp_all add: chunk_def)
      then show ?thesis using step new by (simp add: d1_def write_chunks.simps)
    next
      case long: False
      then have lc: "length chunk = PAGE_SIZE" by (simp add: chunk_def)
      have b1: "unat (b + 1) * PAGE_SIZE = unat b * PAGE_SIZE + PAGE_SIZE" using next_page[of b] whole small P by simp
      have "unat (b + 1) * PAGE_SIZE + length (drop PAGE_SIZE buf) \<le> length (original d1)" using b1 fits long by (simp add: d1_def)
      moreover have "length (drop PAGE_SIZE buf) < length buf" using False P by simp
      moreover have "live_inv d1" using new by (simp add: d1_def)
      ultimately obtain d' where "write_chunks (b + 1) (drop PAGE_SIZE buf) n d1 = ok n d'" "live_inv d'" "original d' = original d1"
        "live_contents d' = patch (unat (b + 1) * PAGE_SIZE) (drop PAGE_SIZE buf) (live_contents d1)"
        using less.hyps[of "drop PAGE_SIZE buf" d1 "b + 1"] by blast
      moreover have "live_contents d1 = patch (unat b * PAGE_SIZE) chunk (live_contents d)" using new by (simp add: d1_def)
      moreover have "patch (unat b * PAGE_SIZE + PAGE_SIZE) (drop PAGE_SIZE buf) (patch (unat b * PAGE_SIZE) chunk (live_contents d)) =
          patch (unat b * PAGE_SIZE) buf (live_contents d)"
        using patch_append[of "unat b * PAGE_SIZE" chunk "drop PAGE_SIZE buf" "live_contents d"] c(3) lc fits long by simp
      ultimately show ?thesis using step b1 by (simp add: d1_def)
    qed
  qed
qed

lemma live_block_bytes [simp]: "unat (live_block_size d) = PAGE_SIZE"
  by (simp add: live_block_size_def PAGE_SIZE_def)

lemma live_block_same: "live_block_size d' = live_block_size d"
  by (simp add: live_block_size_def)

interpretation live: disk live_ops live_contents live_inv
proof
  fix d :: live_disk and b :: u64 and n :: nat and bs :: bytes
  assume inv: "live_inv d"
  then have small: "length (original d) < 2 ^ 63" by (simp add: live_inv_def)
  show "0 < dk_block_size live_ops d \<and> dk_block_size live_ops d \<le> 4096" by (simp add: live_ops_def live_block_size_def PAGE_SIZE_def)
  show "unat (dk_size live_ops d) = length (live_contents d)" using small by (simp add: live_ops_def live_size_def unat_of_nat)
  show "length (live_contents d) mod unat (dk_block_size live_ops d) = 0" using inv by (simp add: live_ops_def live_inv_def)
  have in_range: "unat (b * of_nat PAGE_SIZE) = unat b * PAGE_SIZE \<and> unat (b * of_nat PAGE_SIZE + of_nat k) = unat b * PAGE_SIZE + k"
    if "unat b * PAGE_SIZE + k \<le> length (original d)" for k
  proof -
    have "unat (b * of_nat PAGE_SIZE) = unat b * PAGE_SIZE" using page_offset[of b] that small by simp
    then show ?thesis using that small by (simp add: unat_word_ariths unat_of_nat)
  qed
  show "dk_read live_ops b n d = ok (slice (unat b * unat (dk_block_size live_ops d)) n (live_contents d)) d"
    if "unat b * unat (dk_block_size live_ops d) + n \<le> length (live_contents d)"
    using that in_range[of n] read_chunks_ok[OF inv, of b n "b * of_nat PAGE_SIZE" "[]"] by (simp add: live_ops_def live_read_def Let_def)
  show "\<exists>d'. dk_write live_ops b bs d = ok (length bs) d' \<and> live_inv d' \<and> dk_block_size live_ops d' = dk_block_size live_ops d \<and>
      live_contents d' = patch (unat b * unat (dk_block_size live_ops d)) bs (live_contents d)"
    if "unat b * unat (dk_block_size live_ops d) + length bs \<le> length (live_contents d)"
    using that in_range[of "length bs"] write_chunks_ok[OF inv, of b bs "length bs"]
    by (auto simp: live_ops_def live_write_def Let_def intro: live_block_same)
qed

end
