(* ===== verification/Driver_Block_Props.thy ===== *)
theory Driver_Block_Props
  imports Driver_Block Live_Disk
begin

text \<open>
  Properties of the scheme of the block drivers, proved for every disk that keeps the promises of the theory
  \<open>Disk\<close> and used for the live disk: reads and writes through a handle are reads and updates of the bytes of
  the disk, handles that are open at the same time do not overlap, and the name of a handle opens it again.
\<close>

unbundle bit_operations_syntax

section \<open>Reading and writing\<close>

text \<open>The bytes a handle stands for: a disk, where they start and how many there are.\<close>

definition region :: "'d disk_ops \<Rightarrow> dhandle \<Rightarrow> 'd disk_scheme \<Rightarrow> (u32 \<times> nat \<times> nat) option" where
  "region ops h s =
     (case h of
        DDisk n \<Rightarrow> map_option (\<lambda>w. (n, 0, unat (dk_size ops (dw_disk w)))) (bm_get n (ds_disks s))
      | DPartition n k \<Rightarrow>
         (case bm_get n (ds_disks s) of
            None \<Rightarrow> None
          | Some w \<Rightarrow>
             (case nth_partition (unat k) w of
                None \<Rightarrow> None
              | Some p \<Rightarrow>
                 Some (n, unat (start_lba p) * unat (dk_block_size ops (dw_disk w)),
                       unat (part_size p) * unat (dk_block_size ops (dw_disk w)))))
      | _ \<Rightarrow> None)"

text \<open>The offset, rounded down to a block.\<close>

definition block_start :: "nat \<Rightarrow> u64 \<Rightarrow> nat" where
  "block_start bs offset = unat offset div bs * bs"

text \<open>A request of whole blocks that lies inside the bytes of a handle, which lie inside the disk.\<close>

definition inside :: "'d disk_ops \<Rightarrow> u64 \<Rightarrow> nat \<Rightarrow> u64 \<Rightarrow> 'd disk_scheme \<Rightarrow> u32 \<Rightarrow> 'd disk_wrapper \<Rightarrow> nat \<Rightarrow> bool" where
  "inside ops i len offset s n w at \<longleftrightarrow>
     (\<exists>h st ln. hm_lookup (ds_handles s) i = Some h \<and> region ops h s = Some (n, st, ln) \<and> bm_get n (ds_disks s) = Some w \<and>
        0 < len \<and> len mod unat (dk_block_size ops (dw_disk w)) = 0 \<and>
        st + ln \<le> unat (dk_size ops (dw_disk w)) \<and>
        block_start (unat (dk_block_size ops (dw_disk w))) offset + len \<le> ln \<and>
        at = st + block_start (unat (dk_block_size ops (dw_disk w))) offset)"

context disk
begin

text \<open>The block of the disk a request is for.\<close>

lemma inside_block:
  assumes inv: "dinv (dw_disk w)" and ins: "inside ops i len offset s n w at"
  obtains h pn b where "hm_lookup (ds_handles s) i = Some h" "h = DDisk n \<and> pn = None \<or> (\<exists>k. h = DPartition n k \<and> pn = Some (unat k))"
    "bm_get n (ds_disks s) = Some w" "abs_block pn (offset div ucast (dk_block_size ops (dw_disk w))) w = Inr b"
    "unat b * unat (dk_block_size ops (dw_disk w)) = at" "len mod unat (dk_block_size ops (dw_disk w)) = 0"
    "at + len \<le> length (contents (dw_disk w))"
proof -
  let ?bs = "unat (dk_block_size ops (dw_disk w))" and ?b = "offset div ucast (dk_block_size ops (dw_disk w)) :: u64"
  have bs: "0 < ?bs" using block_bytes[OF inv] by simp
  have ub: "unat ?b = unat offset div ?bs" by (simp add: unat_div unat_ucast_u32)
  have sz: "unat (dk_size ops (dw_disk w)) = length (contents (dw_disk w))" using size_contents[OF inv] .
  from ins obtain h st ln where h: "hm_lookup (ds_handles s) i = Some h" "region ops h s = Some (n, st, ln)" "bm_get n (ds_disks s) = Some w"
    "0 < len" "len mod ?bs = 0" "st + ln \<le> length (contents (dw_disk w))" "unat ?b * ?bs + len \<le> ln" "at = st + unat ?b * ?bs"
    unfolding inside_def block_start_def ub[symmetric] sz by (elim exE conjE) rule
  show thesis
  proof (cases h)
    case (DDisk m)
    then have "m = n" "st = 0" using h(2) by (auto simp: region_def split: option.splits)
    then show ?thesis using that[of h None ?b] h DDisk by (simp add: abs_block_def)
  next
    case (DPartition m k)
    then have m: "m = n" using h(2) by (auto simp: region_def split: option.splits)
    with h(2,3) DPartition obtain p where p: "nth_partition (unat k) w = Some p" "st = unat (start_lba p) * ?bs" "ln = unat (part_size p) * ?bs"
      by (auto simp: region_def split: option.splits)
    have "unat ?b * ?bs < unat (part_size p) * ?bs" using h(4,7) p(3) by linarith
    then have lt: "?b < part_size p" by (simp add: word_less_nat_alt)
    have "(unat (start_lba p) + unat ?b) * ?bs \<le> length (contents (dw_disk w))" using h(6,7) p by (simp add: distrib_right)
    then have "(unat (start_lba p) + unat ?b) * 1 \<le> length (contents (dw_disk w))"
      using bs mult_le_mono2[of 1 ?bs "unat (start_lba p) + unat ?b"] by linarith
    then have "unat (start_lba p) + unat ?b < 2 ^ 64" using sz unsigned_less[of "dk_size ops (dw_disk w)", where 'a = nat] by simp
    then have sum: "unat (start_lba p + ?b) = unat (start_lba p) + unat ?b" by (simp add: unat_word_ariths)
    show ?thesis
      using that[of h "Some (unat k)" "start_lba p + ?b"] h DPartition m p lt sum by (simp add: abs_block_def distrib_right)
  qed (use h(2) in \<open>simp_all add: region_def\<close>)
qed

lemma ds_read_slice:
  assumes ok: "bm_ok (ds_disks s)" and inv: "dinv (dw_disk w)" and ins: "inside ops i len offset s n w at"
  shows "ds_read ops i len offset s = ok (slice at len (contents (dw_disk w))) s"
proof -
  obtain h pn b where h: "hm_lookup (ds_handles s) i = Some h" "h = DDisk n \<and> pn = None \<or> (\<exists>k. h = DPartition n k \<and> pn = Some (unat k))"
    "bm_get n (ds_disks s) = Some w" "abs_block pn (offset div ucast (dk_block_size ops (dw_disk w))) w = Inr b"
    "unat b * unat (dk_block_size ops (dw_disk w)) = at" "len mod unat (dk_block_size ops (dw_disk w)) = 0"
    "at + len \<le> length (contents (dw_disk w))"
    using inside_block[OF inv ins] .
  have bs: "dk_block_size ops (dw_disk w) \<noteq> 0" "unat (dk_block_size ops (dw_disk w)) \<noteq> 0" using block_bytes[OF inv] by auto
  have "dk_read ops b len (dw_disk w) = ok (slice at len (contents (dw_disk w))) (dw_disk w)"
    using read_blocks[OF inv h(6), of b] h(5,7) by simp
  then have "on_disk ops n offset (\<lambda>b. dw_read ops pn b len) s = ok (slice at len (contents (dw_disk w))) s"
    using h bs bm_insert_same[OF ok, of n w] by (simp add: on_disk_def dw_read_def with_disk_def bm_get_map[OF ok] Let_def)
  then show ?thesis using h by (auto simp: ds_read_def hm_get_lookup)
qed

lemma ds_write_patch:
  assumes inv: "dinv (dw_disk w)" and ins: "inside ops i (length buf) offset s n w at"
  shows "\<exists>d. ds_write ops i buf offset s = ok (length buf) (s\<lparr>ds_disks := bm_insert n (w\<lparr>dw_disk := d\<rparr>) (ds_disks s)\<rparr>) \<and>
    dinv d \<and> dk_block_size ops d = dk_block_size ops (dw_disk w) \<and> contents d = patch at buf (contents (dw_disk w))"
proof -
  obtain h pn b where h: "hm_lookup (ds_handles s) i = Some h" "h = DDisk n \<and> pn = None \<or> (\<exists>k. h = DPartition n k \<and> pn = Some (unat k))"
    "bm_get n (ds_disks s) = Some w" "abs_block pn (offset div ucast (dk_block_size ops (dw_disk w))) w = Inr b"
    "unat b * unat (dk_block_size ops (dw_disk w)) = at" "length buf mod unat (dk_block_size ops (dw_disk w)) = 0"
    "at + length buf \<le> length (contents (dw_disk w))"
    using inside_block[OF inv ins] .
  have bs: "dk_block_size ops (dw_disk w) \<noteq> 0" "unat (dk_block_size ops (dw_disk w)) \<noteq> 0" using block_bytes[OF inv] by auto
  obtain d where d: "dk_write ops b buf (dw_disk w) = ok (length buf) d" "dinv d" "dk_block_size ops d = dk_block_size ops (dw_disk w)"
    "contents d = patch at buf (contents (dw_disk w))"
    using write_blocks[OF inv h(6), of b] h(5,7) by auto
  have "on_disk ops n offset (\<lambda>b. dw_write ops pn b buf) s = ok (length buf) (s\<lparr>ds_disks := bm_insert n (w\<lparr>dw_disk := d\<rparr>) (ds_disks s)\<rparr>)"
    using h bs d by (simp add: on_disk_def dw_write_def with_disk_def Let_def)
  then have "ds_write ops i buf offset s = ok (length buf) (s\<lparr>ds_disks := bm_insert n (w\<lparr>dw_disk := d\<rparr>) (ds_disks s)\<rparr>)"
    using h by (auto simp: ds_write_def hm_get_lookup)
  then show ?thesis using d by blast
qed

end

section \<open>Handles that are open at the same time\<close>

datatype dreq = DqRoot | DqOpen u64 bytes u64 u32 | DqRead u64 nat u64 | DqWrite u64 bytes u64 | DqClose u64

definition ds_step :: "disk_ext \<Rightarrow> 'd disk_ops \<Rightarrow> 'd disk_scheme \<Rightarrow> dreq \<Rightarrow> 'd disk_scheme" where
  "ds_step x ops s r =
     (case r of
        DqRoot \<Rightarrow> snd (ds_root s)
      | DqOpen dirfd path flags uid \<Rightarrow> snd (ds_openat x dirfd path flags uid s)
      | DqRead i n offset \<Rightarrow> snd (ds_read ops i n offset s)
      | DqWrite i buf offset \<Rightarrow> snd (ds_write ops i buf offset s)
      | DqClose i \<Rightarrow> ds_on_close i s)"

abbreviation ds_env :: "'d disk_scheme \<Rightarrow> dreq \<Rightarrow> bool" where
  "ds_env s r \<equiv> hm_room (ds_handles s)"

text \<open>Two handles on common bytes: the same disk, a disk and a partition of it, or the same partition.\<close>

definition overlap :: "dhandle \<Rightarrow> dhandle \<Rightarrow> bool" where
  "overlap h h' =
     (case h of DDisk n \<Rightarrow> conflicts n None h' | DPartition n k \<Rightarrow> conflicts n (Some k) h' | _ \<Rightarrow> False)"

text \<open>What a handle is on exists.\<close>

definition backed :: "'d disk_scheme \<Rightarrow> dhandle \<Rightarrow> bool" where
  "backed s h =
     (case h of
        DDisk n \<Rightarrow> bm_get n (ds_disks s) \<noteq> None
      | DPartition n k \<Rightarrow> (case bm_get n (ds_disks s) of None \<Rightarrow> False | Some w \<Rightarrow> nth_partition (unat k) w \<noteq> None)
      | _ \<Rightarrow> True)"

definition exclusive :: "dhandle handle_map \<Rightarrow> bool" where
  "exclusive t \<longleftrightarrow> (\<forall>i j h h'. i \<noteq> j \<and> hm_lookup t i = Some h \<and> hm_lookup t j = Some h' \<longrightarrow> \<not> overlap h h')"

definition ds_inv :: "(u32 \<times> 'd disk_wrapper) list \<Rightarrow> 'd disk_scheme \<Rightarrow> bool" where
  "ds_inv disks s \<longleftrightarrow>
     hm_ok (ds_handles s) \<and> bm_ok (ds_disks s) \<and>
     (\<forall>n. map_option dw_pt (bm_get n (ds_disks s)) = map_option dw_pt (bm_get n disks)) \<and>
     exclusive (ds_handles s) \<and> (\<forall>i h. hm_lookup (ds_handles s) i = Some h \<longrightarrow> backed s h)"

lemma ds_invD:
  assumes "ds_inv disks s"
  shows "hm_ok (ds_handles s)" "bm_ok (ds_disks s)" "map_option dw_pt (bm_get n (ds_disks s)) = map_option dw_pt (bm_get n disks)"
    "exclusive (ds_handles s)" "hm_lookup (ds_handles s) i = Some h \<Longrightarrow> backed s h"
  using assms by (simp_all add: ds_inv_def)

lemma overlap_sym: "overlap h h' = overlap h' h"
  by (auto simp: overlap_def conflicts_def split: dhandle.splits)

lemma overlap_list [simp]: "\<not> overlap h (DList l)" "\<not> overlap h DSchemeRoot" "\<not> overlap (DList l) h" "\<not> overlap DSchemeRoot h"
  by (auto simp: overlap_def conflicts_def split: dhandle.splits)

lemma hm_in_lookup: "hm_ok t \<Longrightarrow> e \<in> set (hm_handles t) \<longleftrightarrow> hm_lookup t (fst e) = Some (snd e)"
  by (cases e) (simp add: hm_ok_def hm_lookup_def bm_get_map map_of_eq_Some_iff bm_ok_def strict_sorted_iff)

lemma check_locks_lookup:
  assumes "hm_ok (ds_handles s)"
  shows "check_locks n p s = None \<longleftrightarrow> (\<forall>i h. hm_lookup (ds_handles s) i = Some h \<longrightarrow> \<not> conflicts n p h)"
  using hm_in_lookup[OF assms] by (auto simp: check_locks_def list_ex_iff) (metis snd_conv)+

lemma backed_shape:
  assumes "\<And>n. map_option dw_pt (bm_get n (ds_disks t)) = map_option dw_pt (bm_get n (ds_disks s))"
  shows "backed t h = backed s h"
proof (cases h)
  case (DDisk n)
  then show ?thesis using arg_cong[where f = "\<lambda>e. e = None", OF assms[of n]] by (simp add: backed_def)
next
  case (DPartition n k)
  then show ?thesis
    using assms[of n] by (cases "bm_get n (ds_disks t)"; cases "bm_get n (ds_disks s)") (auto simp: backed_def nth_partition_def)
qed (simp_all add: backed_def)

lemma backed_handles [simp]: "backed (s\<lparr>ds_handles := t\<rparr>) h = backed s h"
  by (rule backed_shape) simp

lemma path_handle_new:
  assumes "hm_ok (ds_handles s)" and "path_handle x path flags s = Inr h"
  shows "backed s h" "hm_lookup (ds_handles s) i = Some h' \<Longrightarrow> \<not> overlap h h'"
  using assms by (auto simp: path_handle_def backed_def overlap_def check_locks_lookup split: if_splits option.splits)

lemma ds_inv_insert:
  assumes inv: "ds_inv disks s" and room: "hm_room (ds_handles s)" and h: "backed s h"
    "\<And>i h'. hm_lookup (ds_handles s) i = Some h' \<Longrightarrow> \<not> overlap h h'"
  shows "ds_inv disks (s\<lparr>ds_handles := snd (hm_insert h (ds_handles s))\<rparr>)"
proof -
  note hs = ht.ins_fresh[OF ds_invD(1)[OF inv], of h] ht.ins_get[OF ds_invD(1)[OF inv], of h] ht.ins_ok[OF ds_invD(1)[OF inv] room, of h]
  have "exclusive (snd (hm_insert h (ds_handles s)))"
    using ds_invD(4)[OF inv] h(2) overlap_sym unfolding exclusive_def hs(2) by (metis fun_upd_apply option.inject)
  then show ?thesis using inv hs h(1) by (auto simp: ds_inv_def)
qed

lemma ds_inv_remove: "ds_inv disks s \<Longrightarrow> ds_inv disks (ds_on_close i s)"
  using ht.rem_get[of "ds_handles s" i] ht.rem_ok[of "ds_handles s" i]
  by (auto simp: ds_inv_def ds_on_close_def exclusive_def)

lemma dw_keeps_table: "dw_pt (snd (dw_read ops pn b n w)) = dw_pt w" "dw_pt (snd (dw_write ops pn b buf w)) = dw_pt w"
  by (simp_all add: dw_read_def dw_write_def with_disk_def Let_def split: sum.split)

lemma on_disk_inv:
  assumes inv: "ds_inv disks s" and f: "\<And>b w. dw_pt (snd (f b w)) = dw_pt w"
  shows "ds_inv disks (snd (on_disk ops n offset f s))"
proof (cases "bm_get n (ds_disks s)")
  case (Some w)
  let ?r = "f (offset div ucast (dk_block_size ops (dw_disk w))) w"
  let ?t = "s\<lparr>ds_disks := bm_insert n (snd ?r) (ds_disks s)\<rparr>"
  have ok: "bm_ok (ds_disks s)" using ds_invD(2)[OF inv] .
  have shape: "map_option dw_pt (bm_get m (ds_disks ?t)) = map_option dw_pt (bm_get m (ds_disks s))" for m
    using ok Some f by (simp add: bm_simps)
  have "ds_inv disks ?t" using inv shape backed_shape[of ?t s, OF shape] ok by (simp add: ds_inv_def bm_simps)
  then show ?thesis using Some inv by (simp add: on_disk_def Let_def)
qed (simp add: on_disk_def inv)

lemma ds_step_inv:
  assumes inv: "ds_inv disks s" and room: "hm_room (ds_handles s)"
  shows "ds_inv disks (ds_step x ops s r)"
proof (cases r)
  case DqRoot
  then show ?thesis using ds_inv_insert[OF inv room, of DSchemeRoot] by (simp add: ds_step_def ds_root_def backed_def split_beta)
next
  case (DqOpen dirfd path flags uid)
  have "ds_inv disks (s\<lparr>ds_handles := snd (hm_insert h (ds_handles s))\<rparr>)" if "path_handle x (trim_both path) flags s = Inr h" for h
    using ds_inv_insert[OF inv room path_handle_new(1)[OF ds_invD(1)[OF inv] that]] path_handle_new(2)[OF ds_invD(1)[OF inv] that] by blast
  then show ?thesis using DqOpen inv by (simp add: ds_step_def ds_openat_def split_beta split: sum.split)
next
  case (DqRead i n offset)
  then show ?thesis using inv by (simp add: ds_step_def ds_read_def on_disk_inv dw_keeps_table split: sum.split dhandle.split)
next
  case (DqWrite i buf offset)
  then show ?thesis using inv by (simp add: ds_step_def ds_write_def on_disk_inv dw_keeps_table split: sum.split dhandle.split)
qed (simp add: ds_step_def ds_inv_remove[OF inv])

lemma ds_new_inv: "bm_ok disks \<Longrightarrow> ds_inv disks (ds_new name disks)"
  by (simp add: ds_inv_def ds_new_def exclusive_def hm_new_simps)

text \<open>The map of the disks is sorted from the start.\<close>

definition ds_good :: "(u32 \<times> 'd disk_wrapper) list \<Rightarrow> 'd disk_scheme \<Rightarrow> bool" where
  "ds_good disks s \<longleftrightarrow> (bm_ok disks \<longrightarrow> ds_inv disks s)"

interpretation dsd: daemon_invariant "ds_new name disks" "ds_step x ops" ds_env "ds_good disks" for name disks x ops
  by unfold_locales (simp_all add: ds_good_def ds_new_inv ds_step_inv)

lemma ds_reach_inv: "bm_ok disks \<Longrightarrow> reach (ds_new name disks) (ds_step x ops) ds_env s \<Longrightarrow> ds_inv disks s"
  using dsd.reach_inv[of name disks x ops s] by (simp add: ds_good_def)

section \<open>Names of handles\<close>

lemma show_nat_no:
  assumes "b \<in> set (show_nat n)"
  shows "b \<noteq> 0x70 \<and> b \<noteq> 0x2f \<and> \<not> is_continuation b"
proof -
  have "is_digit b" using assms show_nat_digits(1)[of n] by (simp add: list_all_iff)
  then show ?thesis by (auto simp: is_digit_def is_continuation_def in_range_def word_le_nat_alt)
qed

lemma show_nat_ends: "hd (show_nat n) \<noteq> 0x2f" "last (show_nat n) \<noteq> 0x2f"
  using show_nat_no show_nat_digits(2) by (metis hd_in_set, metis last_in_set)

lemma parse_u32_show: "parse_u32 (show_nat (unat n)) = Some n"
  using parse_show[of "unat n" "2 ^ 32"] unsigned_less[of n, where 'a = nat] by (simp add: parse_u32_def)

lemma dropWhile_head: "bs \<noteq> [] \<Longrightarrow> \<not> P (hd bs) \<Longrightarrow> dropWhile P bs = bs"
  by (cases bs) auto

lemma trim_both_id: "bs \<noteq> [] \<Longrightarrow> hd bs \<noteq> 0x2f \<Longrightarrow> last bs \<noteq> 0x2f \<Longrightarrow> trim_both bs = bs"
  by (simp add: trim_both_def dropWhile_head hd_rev)

lemma trim_name: "handle_name h = Some nm \<Longrightarrow> nm \<noteq> [] \<Longrightarrow> trim_both nm = nm"
  by (auto simp: handle_name_def show_nat_ends show_nat_digits(2) intro!: trim_both_id split: dhandle.splits)

lemma p_position_show: "p_position (show_nat n) = None"
  using show_nat_no by (auto simp: p_position_def)

lemma p_position_part: "p_position (show_nat n @ 0x70 # r) = Some (length (show_nat n))"
proof -
  have "takeWhile (\<lambda>b. b \<noteq> 0x70) (show_nat n @ 0x70 # r) = show_nat n"
    using show_nat_no by (subst takeWhile_append2) auto
  moreover have "filter (\<lambda>b. \<not> is_continuation b) (show_nat n) = show_nat n"
    using show_nat_no by (simp add: filter_id_conv)
  ultimately show ?thesis by (simp add: p_position_def)
qed

lemma path_handle_name:
  assumes "backed s h" and "handle_name h = Some nm" and "nm \<noteq> []"
  shows "path_handle x nm flags s =
    (if \<exists>e\<in>set (hm_handles (ds_handles s)). overlap h (snd e) then Inl (Errno ENOLCK) else Inr h)"
proof (cases h)
  case (DDisk n)
  then have "nm = show_nat (unat n)" using assms by (simp add: handle_name_def)
  then show ?thesis
    using assms DDisk by (auto simp: path_handle_def p_position_show parse_u32_show backed_def overlap_def check_locks_def Bex_set)
next
  case (DPartition n k)
  then have nm: "nm = show_nat (unat n) @ 0x70 # show_nat (unat k)" using assms by (simp add: handle_name_def)
  have "is_char_boundary nm (length (show_nat (unat n)))" "is_char_boundary nm (length (show_nat (unat n)) + 1)"
    using show_nat_digits(2)[of "unat k"] show_nat_no[of "hd (show_nat (unat k))" "unat k"]
    by (auto simp: is_char_boundary_def nm nth_append is_continuation_def in_range_def hd_conv_nth)
  moreover have "length (show_nat (unat n)) + 1 < length nm" using show_nat_digits(2)[of "unat k"] by (simp add: nm)
  ultimately show ?thesis
    using assms DPartition nm
    by (auto simp: path_handle_def p_position_part parse_u32_show backed_def overlap_def check_locks_def Bex_set split: option.splits)
qed (use assms in \<open>simp_all add: handle_name_def\<close>)

text \<open>
  C22. The name of an open disk or partition is its own and opens it again. In every state a block driver
  can reach, for every handle on a disk or a partition, root is refused a second handle by the name that
  \<open>fpath\<close> gives to the first, for as long as the first is open; once it is closed the same name opens the
  same disk or partition. So what a handle is on exists for as long as it is open, and the two ways of
  writing names, \<open>0\<close> and \<open>0p1\<close>, are read back as they were written.
\<close>

theorem block_name_reopens:
  assumes "bm_ok disks" and "reach (ds_new name disks) (ds_step x ops) ds_env s"
    and "hm_lookup (ds_handles s) i = Some h" and "handle_name h = Some nm" and "nm \<noteq> []"
    and "hm_lookup (ds_handles s) r = Some DSchemeRoot"
  shows "ds_openat x r nm flags 0 s = fail ENOLCK s \<and>
         (\<exists>j t. ds_openat x r nm flags 0 (ds_on_close i s) = ok j t \<and> hm_lookup (ds_handles t) j = Some h)"
proof -
  have inv: "ds_inv disks s" using ds_reach_inv[OF assms(1,2)] .
  have inv': "ds_inv disks (ds_on_close i s)" using ds_inv_remove[OF inv] .
  have b: "backed s h" "backed (ds_on_close i s) h" using ds_invD(5)[OF inv assms(3)] by (simp_all add: ds_on_close_def)
  have t: "hm_ok (ds_handles s)" "hm_ok (ds_handles (ds_on_close i s))" using inv inv' by (simp_all add: ds_invD(1))
  have rem: "hm_lookup (ds_handles (ds_on_close i s)) = (hm_lookup (ds_handles s))(i := None)"
    using ht.rem_get[OF t(1)] by (simp add: ds_on_close_def)
  have self: "overlap h h" using assms(4,5) by (auto simp: handle_name_def overlap_def conflicts_def split: dhandle.splits)
  have "\<exists>e\<in>set (hm_handles (ds_handles s)). overlap h (snd e)"
    using self assms(3) by (auto simp: hm_in_lookup[OF t(1)] intro!: bexI[of _ "(i, h)"])
  then have 1: "path_handle x nm flags s = Inl (Errno ENOLCK)" using path_handle_name[OF b(1) assms(4,5)] by simp
  have "\<not> overlap h (snd e)" if "e \<in> set (hm_handles (ds_handles (ds_on_close i s)))" for e
    using that ds_invD(4)[OF inv] assms(3) unfolding hm_in_lookup[OF t(2)] rem exclusive_def by (metis fun_upd_apply option.distinct(1))
  then have 2: "path_handle x nm flags (ds_on_close i s) = Inr h" using path_handle_name[OF b(2) assms(4,5)] by simp
  have "i \<noteq> r" using assms(3-6) by (auto simp: handle_name_def)
  then show ?thesis
    using assms(6) 1 2 trim_name[OF assms(4,5)] ht.ins_get[OF t(2), of h]
    by (simp add: ds_openat_def hm_get_lookup rem split_beta)
qed

section \<open>Reads and writes together\<close>

lemma region_shape:
  assumes "\<And>n. map_option dw_pt (bm_get n (ds_disks t)) = map_option dw_pt (bm_get n (ds_disks s))"
    and "\<And>n. map_option (dk_block_size ops \<circ> dw_disk) (bm_get n (ds_disks t)) = map_option (dk_block_size ops \<circ> dw_disk) (bm_get n (ds_disks s))"
    and "\<And>n. map_option (dk_size ops \<circ> dw_disk) (bm_get n (ds_disks t)) = map_option (dk_size ops \<circ> dw_disk) (bm_get n (ds_disks s))"
  shows "region ops h t = region ops h s"
proof (cases h)
  case (DDisk n)
  then show ?thesis using assms(3)[of n] by (cases "bm_get n (ds_disks t)"; cases "bm_get n (ds_disks s)") (auto simp: region_def)
next
  case (DPartition n k)
  then show ?thesis
    using assms(1)[of n] assms(2)[of n]
    by (cases "bm_get n (ds_disks t)"; cases "bm_get n (ds_disks s)") (auto simp: region_def nth_partition_def split: option.split)
qed (simp_all add: region_def)

lemma inside_write:
  assumes ok: "bm_ok (ds_disks s)" and n: "bm_get n (ds_disks s) = Some w"
    and d: "dk_block_size ops d = dk_block_size ops (dw_disk w)" "dk_size ops d = dk_size ops (dw_disk w)"
    and ins: "inside ops j m offset s n' w' at"
  shows "inside ops j m offset (s\<lparr>ds_disks := bm_insert n (w\<lparr>dw_disk := d\<rparr>) (ds_disks s)\<rparr>) n'
    (if n' = n then w\<lparr>dw_disk := d\<rparr> else w') at"
proof -
  let ?t = "s\<lparr>ds_disks := bm_insert n (w\<lparr>dw_disk := d\<rparr>) (ds_disks s)\<rparr>"
  have get: "bm_get k (ds_disks ?t) = (if k = n then Some (w\<lparr>dw_disk := d\<rparr>) else bm_get k (ds_disks s))" for k
    using ok by (simp add: bm_simps)
  have "region ops h ?t = region ops h s" for h
    by (rule region_shape) (use n d in \<open>simp_all only: get split: if_split, simp_all\<close>)
  moreover have "w' = w" if "n' = n" using ins n that by (auto simp: inside_def)
  ultimately show ?thesis using ins d get[of n'] by (cases "n' = n") (auto simp: inside_def)
qed

text \<open>The partitions of a disk do not overlap.\<close>

definition parts_disjoint :: "'d disk_wrapper \<Rightarrow> bool" where
  "parts_disjoint w =
     (case dw_pt w of
        None \<Rightarrow> True
      | Some t \<Rightarrow>
         sorted_wrt (\<lambda>p q. unat (start_lba p) + unat (part_size p) \<le> unat (start_lba q) \<or>
                          unat (start_lba q) + unat (part_size q) \<le> unat (start_lba p)) (partitions t))"

lemma parts_disjointD:
  assumes "parts_disjoint w" and "nth_partition k w = Some p" and "nth_partition l w = Some q" and "k \<noteq> l"
  shows "unat (start_lba p) + unat (part_size p) \<le> unat (start_lba q) \<or> unat (start_lba q) + unat (part_size q) \<le> unat (start_lba p)"
  using assms sorted_wrt_nth_less[of _ "partitions (the (dw_pt w))"]
  by (cases k l rule: linorder_cases) (fastforce simp: parts_disjoint_def nth_partition_def split: option.splits if_splits)+

lemma region_disk: "region ops h s = Some (n, st, ln) \<Longrightarrow> h = DDisk n \<or> (\<exists>k. h = DPartition n k)"
  by (auto simp: region_def split: dhandle.splits option.splits)

lemma region_partition:
  assumes "region ops (DPartition n k) s = Some (n, st, ln)" and "bm_get n (ds_disks s) = Some w"
  obtains p where "nth_partition (unat k) w = Some p" "st = unat (start_lba p) * unat (dk_block_size ops (dw_disk w))"
    "ln = unat (part_size p) * unat (dk_block_size ops (dw_disk w))"
  using assms by (cases "nth_partition (unat k) w") (simp_all add: region_def)

lemma inside_apart:
  assumes ex: "exclusive (ds_handles s)" and "i \<noteq> j" and pd: "parts_disjoint w"
    and ins: "inside ops i a oa s n w at" and ins': "inside ops j b ob s n w' at'"
  shows "at + a \<le> at' \<or> at' + b \<le> at"
proof -
  have w: "w' = w" using ins ins' by (auto simp: inside_def)
  let ?bs = "unat (dk_block_size ops (dw_disk w))"
  obtain h st ln where h: "hm_lookup (ds_handles s) i = Some h" "region ops h s = Some (n, st, ln)" "st \<le> at" "at + a \<le> st + ln"
    using ins by (auto simp: inside_def)
  obtain h' st' ln' where h': "hm_lookup (ds_handles s) j = Some h'" "region ops h' s = Some (n, st', ln')" "st' \<le> at'" "at' + b \<le> st' + ln'"
    using ins' by (auto simp: inside_def)
  have "\<not> overlap h h'" using ex \<open>i \<noteq> j\<close> h(1) h'(1) by (auto simp: exclusive_def)
  with region_disk[OF h(2)] region_disk[OF h'(2)] obtain k l where kl: "h = DPartition n k" "h' = DPartition n l" "k \<noteq> l"
    by (auto simp: overlap_def conflicts_def)
  have n: "bm_get n (ds_disks s) = Some w" using ins by (auto simp: inside_def)
  obtain p where p: "nth_partition (unat k) w = Some p" "st = unat (start_lba p) * ?bs" "ln = unat (part_size p) * ?bs"
    using region_partition[OF h(2)[unfolded kl] n] .
  obtain q where q: "nth_partition (unat l) w = Some q" "st' = unat (start_lba q) * ?bs" "ln' = unat (part_size q) * ?bs"
    using region_partition[OF h'(2)[unfolded kl] n] .
  have "unat k \<noteq> unat l" using kl(3) by (simp add: word_unat_eq_iff)
  from parts_disjointD[OF pd p(1) q(1) this] have "st + ln \<le> st' \<or> st' + ln' \<le> st"
    by (auto simp: p q simp flip: distrib_right intro: mult_le_mono1)
  then show ?thesis using h(3,4) h'(3,4) by linarith
qed

context disk
begin

lemma write_read_back:
  assumes inv: "ds_inv disks s" and w: "dinv (dw_disk w)" and ins: "inside ops i (length buf) offset s n w at"
    and w': "dinv (dw_disk w')" and ins': "inside ops j m offset' s n' w' at'" and pd: "parts_disjoint w"
  shows "\<exists>t. ds_write ops i buf offset s = ok (length buf) t \<and> ds_read ops i (length buf) offset t = ok buf t \<and>
    (i = j \<or> fst (ds_read ops j m offset' t) = fst (ds_read ops j m offset' s))"
proof -
  have ok: "bm_ok (ds_disks s)" using ds_invD(2)[OF inv] .
  obtain d where d: "ds_write ops i buf offset s = ok (length buf) (s\<lparr>ds_disks := bm_insert n (w\<lparr>dw_disk := d\<rparr>) (ds_disks s)\<rparr>)" (is "_ = ok _ ?t")
    "dinv d" "dk_block_size ops d = dk_block_size ops (dw_disk w)" "contents d = patch at buf (contents (dw_disk w))"
    using ds_write_patch[OF w ins] by blast
  have n: "bm_get n (ds_disks s) = Some w" using ins by (auto simp: inside_def)
  have fits: "at + length buf \<le> length (contents (dw_disk w))" using inside_block[OF w ins] by metis
  then have len: "length (contents d) = length (contents (dw_disk w))" by (simp add: d(4) length_patch)
  have sz: "dk_size ops d = dk_size ops (dw_disk w)" using size_contents[OF d(2)] size_contents[OF w] len by (simp add: word_unat_eq_iff)
  have ok': "bm_ok (ds_disks ?t)" using ok by (simp add: bm_simps)
  have "inside ops i (length buf) offset ?t n (w\<lparr>dw_disk := d\<rparr>) at" using inside_write[OF ok n d(3) sz ins] by simp
  from ds_read_slice[OF ok' _ this] have 1: "ds_read ops i (length buf) offset ?t = ok buf ?t"
    using d(2,4) fits by (simp add: slice_patch_same)
  have "fst (ds_read ops j m offset' ?t) = fst (ds_read ops j m offset' s)" if ij: "i \<noteq> j"
  proof (cases "n' = n")
    case True
    have "w' = w" using ins' n True by (auto simp: inside_def)
    have "at' + m \<le> length (contents (dw_disk w))" using inside_block[OF w' ins'] \<open>w' = w\<close> by metis
    moreover have "at + length buf \<le> at' \<or> at' + m \<le> at"
      using inside_apart[OF ds_invD(4)[OF inv] ij pd ins ins'[unfolded True]] .
    ultimately have "slice at' m (contents d) = slice at' m (contents (dw_disk w))" using fits by (auto simp: d(4) slice_patch_other)
    then show ?thesis
      using ds_read_slice[OF ok w' ins'] ds_read_slice[OF ok' _ inside_write[OF ok n d(3) sz ins']] d(2) True \<open>w' = w\<close> by simp
  next
    case False
    then show ?thesis using ds_read_slice[OF ok w' ins'] ds_read_slice[OF ok' _ inside_write[OF ok n d(3) sz ins']] w' by simp
  qed
  then show ?thesis using d(1) 1 by blast
qed

end

text \<open>
  C21. Writes of a block driver reach what was meant and nothing else, for the live disk. Take any state
  the driver can reach, a disk whose partitions do not overlap, and two requests of whole blocks that lie inside the
  disks or partitions of their handles, the offsets being rounded down to a block. A write through the
  first handle returns the number of bytes given, reading them back returns them, and when the second
  handle is another one, it reads what it read before the write, be it on the same disk or on another.
\<close>

theorem block_write_isolated:
  assumes "bm_ok disks" and "reach (ds_new name disks) (ds_step x live_ops) ds_env s"
    and "inside live_ops i (length buf) offset s n w at" and "live_inv (dw_disk w)" and "parts_disjoint w"
    and "inside live_ops j m offset' s n' w' at'" and "live_inv (dw_disk w')"
  shows "\<exists>t. ds_write live_ops i buf offset s = ok (length buf) t \<and>
             ds_read live_ops i (length buf) offset t = ok buf t \<and>
             (i = j \<or> fst (ds_read live_ops j m offset' t) = fst (ds_read live_ops j m offset' s))"
  using live.write_read_back[OF ds_reach_inv[OF assms(1,2)] assms(4,3,7,6,5)] .

subsection \<open>A disk with two partitions\<close>

definition bx_ext :: disk_ext where
  "bx_ext = \<lparr>dx_O_DIRECTORY = 0x10000000, dx_O_STAT = 0x20000000, dx_MODE_DIR = 0x4000, dx_MODE_FILE = 0x8000\<rparr>"

definition bx_part :: "u64 \<Rightarrow> partition" where
  "bx_part b = \<lparr>start_lba = b, part_size = 1, part_flags = None, part_name = None, part_uuid = None\<rparr>"

definition bx_disk :: "'d \<Rightarrow> 'd disk_wrapper" where
  "bx_disk d = \<lparr>dw_disk = d, dw_pt = Some \<lparr>partitions = [bx_part 1, bx_part 2], pt_kind = Mbr\<rparr>\<rparr>"

text \<open>The state with a handle on the root and one on each partition.\<close>

definition bx_state :: "'d \<Rightarrow> 'd disk_scheme" where
  "bx_state d = \<lparr>ds_name = [0x64], ds_disks = [(0, bx_disk d)],
     ds_handles = \<lparr>hm_handles = [(1, DSchemeRoot), (2, DPartition 0 0), (3, DPartition 0 1)], hm_next = 4\<rparr>\<rparr>"

lemmas bx_lookup = bm_get_def lin_cmp_def hm_lookup_def

lemma open_step:
  assumes "hm_lookup (ds_handles s) r = Some DSchemeRoot" and "path_handle x (trim_both path) flags s = Inr h"
  shows "ds_step x ops s (DqOpen r path flags 0) = s\<lparr>ds_handles := snd (hm_insert h (ds_handles s))\<rparr>"
  using assms by (simp add: ds_step_def ds_openat_def hm_get_lookup split_beta)

lemma bx_open:
  fixes d :: 'd and ops :: "'d disk_ops"
  defines "s1 \<equiv> ds_step bx_ext ops (ds_new [0x64] [(0, bx_disk d)]) DqRoot"
  defines "s2 \<equiv> ds_step bx_ext ops s1 (DqOpen 1 [0x30, 0x70, 0x30] 0 0)"
  shows "ds_step bx_ext ops s2 (DqOpen 1 [0x30, 0x70, 0x31] 0 0) = bx_state d" "hm_room (ds_handles s1)" "hm_room (ds_handles s2)"
proof -
  have path: "path_handle bx_ext [0x30, 0x70, 48 + of_nat k] 0 (s :: 'd disk_scheme) = Inr (DPartition 0 (of_nat k))"
    if "k < 2" "bm_get 0 (ds_disks s) = Some (bx_disk d)" "check_locks 0 (Some (of_nat k)) s = None" for k s
  proof -
    have "show_nat k = [48 + of_nat k]" "show_nat 0 = [48]" using that(1) by (simp_all add: show_nat.simps)
    moreover have k: "unat (of_nat k :: u32) = k" using that(1) by (simp add: unat_of_nat)
    ultimately have "handle_name (DPartition 0 (of_nat k)) = Some [0x30, 0x70, 48 + of_nat k]" by (simp add: handle_name_def)
    then show ?thesis
      using that path_handle_name[of s "DPartition 0 (of_nat k)" _ bx_ext 0] k
      by (auto simp: backed_def bx_disk_def nth_partition_def check_locks_def overlap_def Bex_set split: if_splits)
  qed
  have s1: "s1 = \<lparr>ds_name = [0x64], ds_disks = [(0, bx_disk d)], ds_handles = \<lparr>hm_handles = [(1, DSchemeRoot)], hm_next = 2\<rparr>\<rparr>"
    by (simp add: s1_def ds_step_def ds_root_def ds_new_def hm_new_def hm_insert_def bm_insert_def bx_lookup)
  have "path_handle bx_ext [0x30, 0x70, 0x30] 0 s1 = Inr (DPartition 0 0)"
    using path[of 0 s1] by (simp add: s1 bx_lookup check_locks_def conflicts_def)
  then have s2: "s2 = \<lparr>ds_name = [0x64], ds_disks = [(0, bx_disk d)],
      ds_handles = \<lparr>hm_handles = [(1, DSchemeRoot), (2, DPartition 0 0)], hm_next = 3\<rparr>\<rparr>"
    unfolding s2_def by (subst open_step) (simp_all add: s1 trim_both_def hm_insert_def bm_insert_def bx_lookup)
  have "path_handle bx_ext [0x30, 0x70, 0x31] 0 s2 = Inr (DPartition 0 1)"
    using path[of 1 s2] by (simp add: s2 bx_lookup check_locks_def conflicts_def)
  then show "ds_step bx_ext ops s2 (DqOpen 1 [0x30, 0x70, 0x31] 0 0) = bx_state d"
    by (subst open_step) (simp_all add: s2 trim_both_def hm_insert_def bm_insert_def bx_lookup bx_state_def)
  show "hm_room (ds_handles s1)" "hm_room (ds_handles s2)" by (simp_all add: s1 s2 hm_room_def)
qed

lemma bx_reach: "reach (ds_new [0x64] [(0, bx_disk d)]) (ds_step bx_ext ops) ds_env (bx_state d)"
proof -
  let ?s1 = "ds_step bx_ext ops (ds_new [0x64] [(0, bx_disk d)]) DqRoot"
  have "reach (ds_new [0x64] [(0, bx_disk d)]) (ds_step bx_ext ops) ds_env ?s1"
    by (rule reach_step[OF reach_init]) (simp add: ds_new_def hm_new_def hm_room_def)
  then have "reach (ds_new [0x64] [(0, bx_disk d)]) (ds_step bx_ext ops) ds_env (ds_step bx_ext ops ?s1 (DqOpen 1 [0x30, 0x70, 0x30] 0 0))"
    by (rule reach_step) (rule bx_open(2))
  then have "reach (ds_new [0x64] [(0, bx_disk d)]) (ds_step bx_ext ops) ds_env
      (ds_step bx_ext ops (ds_step bx_ext ops ?s1 (DqOpen 1 [0x30, 0x70, 0x30] 0 0)) (DqOpen 1 [0x30, 0x70, 0x31] 0 0))"
    by (rule reach_step) (rule bx_open(3))
  then show ?thesis unfolding bx_open(1) .
qed

lemma bx_ok: "bm_ok [(0, bx_disk d)]" "parts_disjoint (bx_disk d)"
  by (simp_all add: bm_ok_def parts_disjoint_def bx_disk_def bx_part_def)

text \<open>A live disk of three blocks.\<close>

definition bx_live :: live_disk where
  "bx_live = live_new (replicate 12288 0)"

lemma bx_live_inv: "live_inv bx_live"
  by (simp add: live_inv_def bx_live_def live_new_def PAGE_SIZE_def)

lemma bx_inside:
  assumes "i < 2" and "m = 4096"
  shows "inside live_ops (2 + of_nat i) m 5 (bx_state bx_live) 0 (bx_disk bx_live) (4096 + i * 4096)"
proof -
  have "i = 0 \<or> i = 1" using assms(1) by auto
  then show ?thesis
    by (elim disjE) (simp_all add: inside_def bx_state_def bx_disk_def bx_part_def bx_lookup region_def nth_partition_def
      block_start_def assms(2) live_ops_def live_block_size_def live_size_def PAGE_SIZE_def bx_live_def live_new_def)
qed

theorem block_write_isolated_witness:
  "\<exists>t. ds_write live_ops 2 (replicate 4096 7) 5 (bx_state bx_live) = ok 4096 t \<and>
       ds_read live_ops 2 4096 5 t = ok (replicate 4096 7) t \<and>
       fst (ds_read live_ops 3 4096 5 t) = fst (ds_read live_ops 3 4096 5 (bx_state bx_live))"
proof -
  have "live_inv (dw_disk (bx_disk bx_live))" by (simp add: bx_disk_def bx_live_inv)
  then show ?thesis
    using block_write_isolated[OF bx_ok(1) bx_reach, of 2 "replicate 4096 7" 5 bx_live 0 "bx_disk bx_live" 4096 3 4096 5 0 "bx_disk bx_live" 8192]
      bx_ok(2)[of bx_live] bx_inside[of 0 4096] bx_inside[of 1 4096] by simp
qed

theorem block_name_reopens_witness:
  "ds_openat bx_ext 1 [0x30, 0x70, 0x31] 0 0 (bx_state ()) = fail ENOLCK (bx_state ()) \<and>
   (\<exists>j t. ds_openat bx_ext 1 [0x30, 0x70, 0x31] 0 0 (ds_on_close 3 (bx_state ())) = ok j t \<and>
          hm_lookup (ds_handles t) j = Some (DPartition 0 1))"
  by (rule block_name_reopens[OF bx_ok(1) bx_reach])
    (simp_all add: bx_state_def bx_lookup handle_name_def show_nat.simps)

section \<open>Requests that leave their partition\<close>


text \<open>
  The check of the live disk adds the length to the offset with wrap-around: a read of two blocks at the
  last block number that can be asked for passes it and then panics on the range.
\<close>

lemma live_read_wraps: "fst (live_read (2 ^ 52 - 1) 8192 bx_live) = Inl Panic"
  by (simp add: live_read_def Let_def PAGE_SIZE_def bx_live_def live_new_def read_chunks.simps[of _ _ _ "8192"] index_range_def)

text \<open>The cut of a path at a number of characters panics when a character of several bytes comes before the \<open>p\<close>.\<close>

lemma openat_path_panics: "fst (ds_openat bx_ext 1 [0xc3, 0xa9, 0x70, 0x30] 0 0 (bx_state ())) = Inl Panic"
  by (simp add: ds_openat_def hm_get_lookup bx_state_def bx_lookup trim_both_def path_handle_def p_position_def
    is_char_boundary_def is_continuation_def in_range_def)

end
