(* ===== verification/Pty.thy ===== *)
theory Pty
  imports Handle_Map Decimal Bytes
begin

text \<open>
  The pseudo terminal daemon (\<open>ptyd/src\<close>): the line discipline of a terminal (\<open>pty.rs\<close>), the resources
  that read, write and configure it (\<open>controlterm.rs\<close>, \<open>subterm.rs\<close>, \<open>pgrp.rs\<close>, \<open>ptlock.rs\<close>,
  \<open>ptname.rs\<close>, \<open>termios.rs\<close>, \<open>winsize.rs\<close>), the scheme (\<open>scheme.rs\<close>) and the events and timeouts of its
  loop (\<open>main.rs\<close>).

  A terminal is shared: the control terminal owns it (\<open>Rc\<close>), every other resource refers to it (\<open>Weak\<close>).
  So terminals live in a store, and a terminal leaves the store with the handle of its control terminal.
  The layout of \<open>Termios\<close> and the values of its flags belong to the \<open>redox_termios\<close> crate; a terminal
  keeps the bytes of its \<open>Termios\<close> and the crate's view of them is a parameter (\<open>termios_ext\<close>).
  Signals sent to the foreground group are collected in the order they are sent.
\<close>

unbundle bit_operations_syntax

section \<open>The line discipline\<close>

datatype cc_index =
    VEOF | VEOL | VEOL2 | VERASE | VWERASE | VKILL | VREPRINT | VINTR | VQUIT | VSUSP | VSTART | VSTOP
  | VLNEXT | VDISCARD | VMIN | VTIME

record termios_ext =
  tx_default :: bytes
  tx_iflag :: "bytes \<Rightarrow> u32"
  tx_oflag :: "bytes \<Rightarrow> u32"
  tx_lflag :: "bytes \<Rightarrow> u32"
  tx_cc :: "bytes \<Rightarrow> cc_index \<Rightarrow> u8"
  INLCR :: u32
  IGNCR :: u32
  ICRNL :: u32
  ECHO :: u32
  ECHOE :: u32
  ECHONL :: u32
  ICANON :: u32
  ISIG :: u32
  IEXTEN :: u32
  IXON :: u32
  OPOST :: u32
  ONLCR :: u32
  tx_winsize :: bytes

datatype tty_signal = SIGINT | SIGQUIT | SIGTSTP

record pty =
  pt_id :: u64
  pt_pgrp :: u64
  pt_locked :: bool
  pt_termios :: bytes
  pt_winsize :: bytes
  cooked :: bytes
  miso :: "bytes list"
  mosi :: "bytes list"
  timeout_count :: u64
  timeout_character :: "u64 option"
  pt_kills :: "(u64 \<times> tty_signal) list"

definition pty_new :: "termios_ext \<Rightarrow> u64 \<Rightarrow> pty" where
  "pty_new x i =
     \<lparr>pt_id = i, pt_pgrp = 0, pt_locked = True, pt_termios = tx_default x, pt_winsize = tx_winsize x, cooked = [],
      miso = [], mosi = [], timeout_count = 0, timeout_character = None, pt_kills = []\<rparr>"

definition pty_path :: "bytes \<Rightarrow> pty \<Rightarrow> errno + fpath_writer" where
  "pty_path buf p = fpath_with buf (ascii_bytes ''pty'') (\<lambda>w. Inr (push_str (show_nat (unat (pt_id p))) w))"

definition flag :: "u32 \<Rightarrow> u32 \<Rightarrow> bool" where
  "flag w m \<longleftrightarrow> w AND m = m"

definition is_cc :: "termios_ext \<Rightarrow> pty \<Rightarrow> u8 \<Rightarrow> cc_index \<Rightarrow> bool" where
  "is_cc x p b i \<longleftrightarrow> b \<noteq> 0 \<and> b = tx_cc x (pt_termios p) i"

definition is_vdisable :: "termios_ext \<Rightarrow> pty \<Rightarrow> cc_index \<Rightarrow> bool" where
  "is_vdisable x p i \<longleftrightarrow> tx_cc x (pt_termios p) i = 0"

abbreviation lflag :: "termios_ext \<Rightarrow> pty \<Rightarrow> (termios_ext \<Rightarrow> u32) \<Rightarrow> bool" where
  "lflag x p f \<equiv> flag (tx_lflag x (pt_termios p)) (f x)"

definition post_process :: "termios_ext \<Rightarrow> pty \<Rightarrow> bytes \<Rightarrow> bytes" where
  "post_process x p buf =
     concat (map (\<lambda>b. if flag (tx_oflag x (pt_termios p)) (OPOST x) \<and> flag (tx_oflag x (pt_termios p)) (ONLCR x) \<and> b = 0x0a
                     then [0x0d, b] else [b]) buf)"

definition pty_output :: "termios_ext \<Rightarrow> bytes \<Rightarrow> pty \<Rightarrow> pty" where
  "pty_output x buf p = p\<lparr>miso := miso p @ [0 # post_process x p buf]\<rparr>"

text \<open>The pending bytes become a packet for the reader.\<close>

definition deliver :: "pty \<Rightarrow> pty" where
  "deliver p = p\<lparr>mosi := mosi p @ [cooked p], cooked := []\<rparr>"

definition translate :: "termios_ext \<Rightarrow> pty \<Rightarrow> u8 \<Rightarrow> u8" where
  "translate x p b =
     (if b = 0x0a then (if flag (tx_iflag x (pt_termios p)) (INLCR x) then 0x0d else b)
      else if b = 0x0d then
        (if flag (tx_iflag x (pt_termios p)) (IGNCR x) then 0
         else if flag (tx_iflag x (pt_termios p)) (ICRNL x) then 0x0a else b)
      else b)"

text \<open>The end of a line: the byte is echoed, added and the line delivered.\<close>

definition end_line :: "termios_ext \<Rightarrow> bool \<Rightarrow> u8 \<Rightarrow> pty \<Rightarrow> pty" where
  "end_line x echo b p =
     (let p1 = (if echo then pty_output x [b] p else p) in deliver (p1\<lparr>cooked := cooked p1 @ [b]\<rparr>))"

text \<open>A test of the loop body: a byte that was used becomes 0.\<close>

definition use_char :: "(u8 \<Rightarrow> pty \<Rightarrow> bool) \<Rightarrow> (u8 \<Rightarrow> pty \<Rightarrow> pty) \<Rightarrow> u8 \<times> pty \<Rightarrow> u8 \<times> pty" where
  "use_char c f bp = (case bp of (b, p) \<Rightarrow> if c b p then (0, f b p) else (b, p))"

definition erase :: "termios_ext \<Rightarrow> pty \<Rightarrow> pty" where
  "erase x p =
     (if cooked p = [] then p
      else let p1 = p\<lparr>cooked := butlast (cooked p)\<rparr> in if lflag x p ECHOE then pty_output x [8, 0x20, 8] p1 else p1)"

definition canon :: "termios_ext \<Rightarrow> u8 \<times> pty \<Rightarrow> u8 \<times> pty" where
  "canon x bp =
     (let bp = use_char (\<lambda>b p. b = 0x0a) (\<lambda>b p. end_line x (lflag x p ECHO \<or> lflag x p ECHONL) b p) bp;
          bp = use_char (\<lambda>b p. is_cc x p b VEOF) (\<lambda>b p. deliver p) bp;
          bp = use_char (\<lambda>b p. is_cc x p b VEOL) (\<lambda>b p. end_line x (lflag x p ECHO) b p) bp;
          bp = use_char (\<lambda>b p. is_cc x p b VEOL2) (\<lambda>b p. end_line x (lflag x p ECHO) b p) bp;
          bp = use_char (\<lambda>b p. is_cc x p b VERASE \<and> \<not> is_vdisable x p VERASE) (\<lambda>b p. erase x p) bp;
          bp = use_char (\<lambda>b p. is_cc x p b VWERASE \<and> lflag x p IEXTEN) (\<lambda>b p. p) bp;
          bp = use_char (\<lambda>b p. is_cc x p b VKILL) (\<lambda>b p. p) bp
      in use_char (\<lambda>b p. is_cc x p b VREPRINT \<and> lflag x p IEXTEN) (\<lambda>b p. p) bp)"

definition kill_pgrp :: "tty_signal \<Rightarrow> pty \<Rightarrow> pty" where
  "kill_pgrp sig p = (if pt_pgrp p \<noteq> 0 then p\<lparr>pt_kills := pt_kills p @ [(- pt_pgrp p, sig)]\<rparr> else p)"

definition sig_char :: "termios_ext \<Rightarrow> cc_index \<Rightarrow> tty_signal \<Rightarrow> u8 \<times> pty \<Rightarrow> u8 \<times> pty" where
  "sig_char x i sig = use_char (\<lambda>b p. is_cc x p b i \<and> \<not> is_vdisable x p i) (\<lambda>b p. kill_pgrp sig p)"

definition drop_char :: "termios_ext \<Rightarrow> cc_index \<Rightarrow> u8 \<times> pty \<Rightarrow> u8 \<times> pty" where
  "drop_char x i = use_char (\<lambda>b p. is_cc x p b i) (\<lambda>b p. p)"

text \<open>The body of the loop of \<open>input\<close>.\<close>

definition input_byte :: "termios_ext \<Rightarrow> u8 \<Rightarrow> pty \<Rightarrow> pty" where
  "input_byte x byte p =
     (let bp = (translate x p byte, p);
          bp = (if lflag x p ICANON then canon x bp else bp);
          bp = (if lflag x p ISIG then sig_char x VSUSP SIGTSTP (sig_char x VQUIT SIGQUIT (sig_char x VINTR SIGINT bp)) else bp);
          bp = (if lflag x p IXON then drop_char x VSTOP (drop_char x VSTART bp) else bp);
          bp = (if lflag x p IEXTEN then drop_char x VDISCARD (drop_char x VLNEXT bp) else bp)
      in case bp of (b, q) \<Rightarrow>
           if b = 0 then q
           else let q1 = (if lflag x p ECHO then pty_output x [b] q else q)
                in q1\<lparr>timeout_character := Some (timeout_count q1), cooked := cooked q1 @ [b]\<rparr>)"

definition pty_update :: "termios_ext \<Rightarrow> pty \<Rightarrow> pty" where
  "pty_update x p =
     (let vmin = unat (tx_cc x (pt_termios p) VMIN); vtime = (ucast (tx_cc x (pt_termios p) VTIME) :: u64) in
      if lflag x p ICANON then p
      else if vtime = 0 then
        (if vmin = 0 then (if mosi p = [] then deliver p else p)
         else if length (cooked p) \<ge> vmin then deliver p else p)
      else if vmin = 0 then
        (if cooked p \<noteq> [] then deliver p
         else
           case timeout_character p of
             Some t \<Rightarrow>
               if timeout_count p \<ge> t + vtime
               then (let p1 = p\<lparr>timeout_character := None\<rparr> in if mosi p1 = [] then deliver p1 else p1)
               else p
           | None \<Rightarrow> p\<lparr>timeout_character := Some (timeout_count p)\<rparr>)
      else
        (if length (cooked p) \<ge> vmin then deliver p
         else if cooked p \<noteq> [] then
           (case timeout_character p of
              Some t \<Rightarrow> if timeout_count p \<ge> t + vtime then deliver (p\<lparr>timeout_character := None\<rparr>) else p
            | None \<Rightarrow> p)
         else p))"

definition pty_input :: "termios_ext \<Rightarrow> bytes \<Rightarrow> pty \<Rightarrow> pty" where
  "pty_input x buf p = pty_update x (fold (input_byte x) buf p)"

definition pty_timeout :: "termios_ext \<Rightarrow> u64 \<Rightarrow> pty \<Rightarrow> pty" where
  "pty_timeout x count p = (if timeout_count p \<noteq> count then pty_update x (p\<lparr>timeout_count := count\<rparr>) else p)"

section \<open>Resources\<close>

record pty_ext =
  px_termios :: termios_ext
  px_F_GETFL :: u64
  px_F_SETFL :: u64
  px_O_ACCMODE :: u64
  px_O_NONBLOCK :: u64
  px_EVENT_READ :: u64
  px_EVENT_WRITE :: u64
  px_MODE_CHR :: u16

datatype resource_kind =
    PtyControlTerm | PtySubTerm | PtyPgrp | PtyTermios | PtyWinsize | PtyLock | PtsName

text \<open>Every resource has a reference to a terminal and flags; the two terminal resources remember what they notified.\<close>

record resource =
  rs_kind :: resource_kind
  rs_pty :: nat
  rs_flags :: u64
  notified_read :: bool
  notified_write :: bool

definition res_new :: "resource_kind \<Rightarrow> nat \<Rightarrow> u64 \<Rightarrow> resource" where
  "res_new k a flags = \<lparr>rs_kind = k, rs_pty = a, rs_flags = flags, notified_read = False, notified_write = False\<rparr>"

text \<open>
  An operation of a resource gets the terminal its reference leads to, \<open>None\<close> when the terminal is gone,
  and returns both. A control terminal owns its terminal; the branch where it is gone cannot be reached.
\<close>

type_synonym 'a res_result = "('a, resource \<times> pty option) outcome"

definition res_path :: "bytes \<Rightarrow> resource \<Rightarrow> pty option \<Rightarrow> errno + fpath_writer" where
  "res_path buf r po =
     (case rs_kind r of
        PtyControlTerm \<Rightarrow> fpath_with buf (ascii_bytes ''pty'') (\<lambda>w. Inr (push_str (ascii_bytes ''ptmx'') w))
      | _ \<Rightarrow> (case po of Some p \<Rightarrow> pty_path buf p | None \<Rightarrow> Inl EPIPE))"

text \<open>\<open>weak\<close> is the number of other references to the terminal.\<close>

definition control_read :: "pty_ext \<Rightarrow> nat \<Rightarrow> nat \<Rightarrow> resource \<Rightarrow> pty \<Rightarrow> (bytes, resource \<times> pty) outcome" where
  "control_read x weak n r p =
     (let r1 = r\<lparr>notified_read := False\<rparr> in
      case miso p of
        packet # rest \<Rightarrow>
          (let i = min n (length packet);
               q = (if i < length packet then p\<lparr>miso := (packet ! 0 # drop i packet) # rest\<rparr> else p\<lparr>miso := rest\<rparr>)
           in ok (take i packet) (r1, q))
      | [] \<Rightarrow> if rs_flags r AND px_O_NONBLOCK x = px_O_NONBLOCK x \<or> weak = 0 then fail EAGAIN (r1, p) else fail EWOULDBLOCK (r1, p))"

definition control_write :: "pty_ext \<Rightarrow> bytes \<Rightarrow> pty \<Rightarrow> (nat, pty) outcome" where
  "control_write x buf p =
     (if length (mosi p) \<ge> 64 then fail EWOULDBLOCK p else ok (length buf) (pty_input (px_termios x) buf p))"

definition sub_read :: "pty_ext \<Rightarrow> nat \<Rightarrow> resource \<Rightarrow> pty \<Rightarrow> (bytes, resource \<times> pty) outcome" where
  "sub_read x n r p =
     (let r1 = r\<lparr>notified_read := False\<rparr>; p1 = pty_update (px_termios x) p in
      case mosi p1 of
        packet # rest \<Rightarrow>
          (let i = min n (length packet);
               q = (if i < length packet then p1\<lparr>mosi := drop i packet # rest\<rparr> else p1\<lparr>mosi := rest\<rparr>)
           in ok (take i packet) (r1, q))
      | [] \<Rightarrow> if rs_flags r AND px_O_NONBLOCK x = px_O_NONBLOCK x then fail EAGAIN (r1, p1) else fail EWOULDBLOCK (r1, p1))"

definition sub_write :: "pty_ext \<Rightarrow> bytes \<Rightarrow> pty \<Rightarrow> (nat, pty) outcome" where
  "sub_write x buf p =
     (if length (miso p) \<ge> 64 then fail EWOULDBLOCK p else ok (length buf) (pty_output (px_termios x) buf p))"

text \<open>Four bytes of a buffer, as a number.\<close>

definition read_word :: "nat \<Rightarrow> u32 \<Rightarrow> errno + bytes" where
  "read_word n w = (if n \<ge> 4 then Inr (le_bytes 4 w) else Inl EBADF)"

definition write_word :: "bytes \<Rightarrow> errno + u32" where
  "write_word buf = (if length buf \<ge> 4 then Inr (le_word (take 4 buf)) else Inl EBADF)"

definition overwrite :: "bytes \<Rightarrow> bytes \<Rightarrow> bytes" where
  "overwrite buf old = take (length old) buf @ drop (length buf) old"

definition pgrp_read :: "nat \<Rightarrow> pty option \<Rightarrow> errno + bytes" where
  "pgrp_read n po = (case po of Some p \<Rightarrow> read_word n (ucast (pt_pgrp p)) | None \<Rightarrow> Inr [])"

definition lock_read :: "nat \<Rightarrow> pty option \<Rightarrow> errno + bytes" where
  "lock_read n po = (case po of Some p \<Rightarrow> read_word n (if pt_locked p then 1 else 0) | None \<Rightarrow> Inr [])"

definition ptsname_read :: "nat \<Rightarrow> pty option \<Rightarrow> errno + bytes" where
  "ptsname_read n po =
     (case po of
        Some p \<Rightarrow> if pt_locked p then Inl EIO else read_word n (ucast (pt_id p))
      | None \<Rightarrow> Inl EPIPE)"

definition termios_read :: "nat \<Rightarrow> pty option \<Rightarrow> errno + bytes" where
  "termios_read n po = (case po of Some p \<Rightarrow> Inr (take n (pt_termios p)) | None \<Rightarrow> Inr [])"

definition winsize_read :: "nat \<Rightarrow> pty option \<Rightarrow> errno + bytes" where
  "winsize_read n po = (case po of Some p \<Rightarrow> Inr (take n (pt_winsize p)) | None \<Rightarrow> Inr [])"

definition pgrp_write :: "bytes \<Rightarrow> pty option \<Rightarrow> (nat, pty option) outcome" where
  "pgrp_write buf po =
     (case po of
        Some p \<Rightarrow> (case write_word buf of Inl e \<Rightarrow> fail e po | Inr w \<Rightarrow> ok 4 (Some (p\<lparr>pt_pgrp := ucast w\<rparr>)))
      | None \<Rightarrow> fail EPIPE po)"

definition lock_write :: "bytes \<Rightarrow> pty option \<Rightarrow> (nat, pty option) outcome" where
  "lock_write buf po =
     (case po of
        Some p \<Rightarrow> (case write_word buf of Inl e \<Rightarrow> fail e po | Inr w \<Rightarrow> ok 4 (Some (p\<lparr>pt_locked := w \<noteq> 0\<rparr>)))
      | None \<Rightarrow> ok 0 po)"

definition termios_write :: "bytes \<Rightarrow> pty option \<Rightarrow> (nat, pty option) outcome" where
  "termios_write buf po =
     (case po of
        Some p \<Rightarrow> ok (min (length buf) (length (pt_termios p))) (Some (p\<lparr>pt_termios := overwrite buf (pt_termios p)\<rparr>))
      | None \<Rightarrow> fail EPIPE po)"

definition winsize_write :: "bytes \<Rightarrow> pty option \<Rightarrow> (nat, pty option) outcome" where
  "winsize_write buf po =
     (case po of
        Some p \<Rightarrow> ok (min (length buf) (length (pt_winsize p))) (Some (p\<lparr>pt_winsize := overwrite buf (pt_winsize p)\<rparr>))
      | None \<Rightarrow> fail EPIPE po)"

text \<open>The methods of the resources, chosen by the kind of the resource.\<close>

definition res_read :: "pty_ext \<Rightarrow> nat \<Rightarrow> nat \<Rightarrow> resource \<Rightarrow> pty option \<Rightarrow> bytes res_result" where
  "res_read x weak n r po =
     (let keep = (\<lambda>v. (case v of Inl e \<Rightarrow> fail e (r, po) | Inr bs \<Rightarrow> ok bs (r, po))) in
      case (rs_kind r, po) of
        (PtyControlTerm, Some p) \<Rightarrow> (case control_read x weak n r p of (v, (r1, q)) \<Rightarrow> (v, (r1, Some q)))
      | (PtyControlTerm, None) \<Rightarrow> panic (r, po)
      | (PtySubTerm, Some p) \<Rightarrow> (case sub_read x n r p of (v, (r1, q)) \<Rightarrow> (v, (r1, Some q)))
      | (PtySubTerm, None) \<Rightarrow> ok [] (r\<lparr>notified_read := False\<rparr>, None)
      | (PtyPgrp, _) \<Rightarrow> keep (pgrp_read n po)
      | (PtyTermios, _) \<Rightarrow> keep (termios_read n po)
      | (PtyWinsize, _) \<Rightarrow> keep (winsize_read n po)
      | (PtyLock, _) \<Rightarrow> keep (lock_read n po)
      | (PtsName, _) \<Rightarrow> keep (ptsname_read n po))"

definition res_write :: "pty_ext \<Rightarrow> bytes \<Rightarrow> resource \<Rightarrow> pty option \<Rightarrow> nat res_result" where
  "res_write x buf r po =
     (case (rs_kind r, po) of
        (PtyControlTerm, Some p) \<Rightarrow> (case control_write x buf p of (v, q) \<Rightarrow> (v, (r, Some q)))
      | (PtyControlTerm, None) \<Rightarrow> panic (r, po)
      | (PtySubTerm, Some p) \<Rightarrow> (case sub_write x buf p of (v, q) \<Rightarrow> (v, (r, Some q)))
      | (PtySubTerm, None) \<Rightarrow> fail EPIPE (r, po)
      | (PtyPgrp, _) \<Rightarrow> (case pgrp_write buf po of (v, q) \<Rightarrow> (v, (r, q)))
      | (PtyTermios, _) \<Rightarrow> (case termios_write buf po of (v, q) \<Rightarrow> (v, (r, q)))
      | (PtyWinsize, _) \<Rightarrow> (case winsize_write buf po of (v, q) \<Rightarrow> (v, (r, q)))
      | (PtyLock, _) \<Rightarrow> (case lock_write buf po of (v, q) \<Rightarrow> (v, (r, q)))
      | (PtsName, _) \<Rightarrow> fail EBADF (r, po))"

definition res_sync :: "resource \<Rightarrow> pty option \<Rightarrow> unit res_result" where
  "res_sync r po =
     (case (rs_kind r, po) of
        (PtySubTerm, Some p) \<Rightarrow> ok () (r, Some (p\<lparr>miso := miso p @ [[1]]\<rparr>))
      | (PtySubTerm, None) \<Rightarrow> fail EPIPE (r, po)
      | _ \<Rightarrow> ok () (r, po))"

definition res_fcntl :: "pty_ext \<Rightarrow> u64 \<Rightarrow> u64 \<Rightarrow> resource \<Rightarrow> pty option \<Rightarrow> u64 res_result" where
  "res_fcntl x cmd arg r po =
     (if cmd = px_F_GETFL x then ok (rs_flags r) (r, po)
      else if cmd = px_F_SETFL x
        then ok 0 (r\<lparr>rs_flags := (rs_flags r AND px_O_ACCMODE x) OR (arg AND NOT (px_O_ACCMODE x))\<rparr>, po)
      else fail EINVAL (r, po))"

text \<open>What a terminal resource has to notify: there is data, and, once, that it can be written.\<close>

definition term_events :: "pty_ext \<Rightarrow> resource \<Rightarrow> bool option \<Rightarrow> u64 \<times> resource" where
  "term_events x r readable =
     (let (ev, r1) = (case readable of
            Some True \<Rightarrow> if \<not> notified_read r then (px_EVENT_READ x, r\<lparr>notified_read := True\<rparr>) else (0, r)
          | Some False \<Rightarrow> (0, r\<lparr>notified_read := False\<rparr>)
          | None \<Rightarrow> (0, r))
      in if \<not> notified_write r1 then (ev OR px_EVENT_WRITE x, r1\<lparr>notified_write := True\<rparr>) else (ev, r1))"

definition res_events :: "pty_ext \<Rightarrow> resource \<Rightarrow> pty option \<Rightarrow> u64 \<times> resource" where
  "res_events x r po =
     (case rs_kind r of
        PtyControlTerm \<Rightarrow> term_events x r (map_option (\<lambda>p. miso p \<noteq> []) po)
      | PtySubTerm \<Rightarrow> term_events x r (map_option (\<lambda>p. mosi p \<noteq> []) po)
      | _ \<Rightarrow> (0, r))"

definition res_fevent :: "pty_ext \<Rightarrow> resource \<Rightarrow> pty option \<Rightarrow> u64 res_result" where
  "res_fevent x r po =
     (if rs_kind r = PtyControlTerm \<or> rs_kind r = PtySubTerm
      then (case res_events x (r\<lparr>notified_read := False, notified_write := False\<rparr>) po of (ev, r1) \<Rightarrow> ok ev (r1, po))
      else fail EBADF (r, po))"

text \<open>Only a control terminal passes time to its terminal.\<close>

definition res_timeout :: "pty_ext \<Rightarrow> u64 \<Rightarrow> resource \<Rightarrow> pty option \<Rightarrow> pty option" where
  "res_timeout x count r po =
     (if rs_kind r = PtyControlTerm then map_option (pty_timeout (px_termios x) count) po else po)"

section \<open>The scheme\<close>

datatype phandle = PRes resource | PSchemeRoot

text \<open>The store of the terminals has an address for every terminal that was made.\<close>

record pty_daemon =
  pnext_id :: u64
  phandles :: "(u64 \<times> phandle) list"
  pheap :: "(nat \<times> pty) list"
  pheap_next :: nat

definition pty_daemon_new :: pty_daemon where
  "pty_daemon_new = \<lparr>pnext_id = 0, phandles = [], pheap = [], pheap_next = 0\<rparr>"

definition get_resource_mut :: "u64 \<Rightarrow> pty_daemon \<Rightarrow> errno + resource" where
  "get_resource_mut i s =
     (case bm_get i (phandles s) of
        None \<Rightarrow> Inl EBADF
      | Some (PRes r) \<Rightarrow> Inr r
      | Some PSchemeRoot \<Rightarrow> Inl EBADF)"

text \<open>A control terminal that is dropped takes its terminal with it.\<close>

definition drop_phandle :: "phandle option \<Rightarrow> pty_daemon \<Rightarrow> pty_daemon" where
  "drop_phandle ho s =
     (case ho of
        Some (PRes r) \<Rightarrow> if rs_kind r = PtyControlTerm then s\<lparr>pheap := AList.delete (rs_pty r) (pheap s)\<rparr> else s
      | _ \<Rightarrow> s)"

definition insert_phandle :: "u64 \<Rightarrow> phandle \<Rightarrow> pty_daemon \<Rightarrow> pty_daemon" where
  "insert_phandle i h s =
     (let s1 = drop_phandle (bm_get i (phandles s)) s in s1\<lparr>phandles := bm_insert i h (phandles s1)\<rparr>)"

definition pty_root :: "pty_daemon \<Rightarrow> (u64, pty_daemon) outcome" where
  "pty_root s = ok (pnext_id s) (insert_phandle (pnext_id s) PSchemeRoot (s\<lparr>pnext_id := pnext_id s + 1\<rparr>))"

definition trim_slashes :: "bytes \<Rightarrow> bytes" where
  "trim_slashes bs = rev (dropWhile (\<lambda>b. b = 0x2f) (rev (dropWhile (\<lambda>b. b = 0x2f) bs)))"

definition pty_openat :: "pty_ext \<Rightarrow> u64 \<Rightarrow> bytes \<Rightarrow> u64 \<Rightarrow> u32 \<Rightarrow> pty_daemon \<Rightarrow> (u64, pty_daemon) outcome" where
  "pty_openat x dirfd path_str flags fcntl_flags s =
     (case bm_get dirfd (phandles s) of
        None \<Rightarrow> fail EBADF s
      | Some (PRes _) \<Rightarrow> fail EACCES s
      | Some PSchemeRoot \<Rightarrow>
         (let path = trim_slashes path_str;
              i = pnext_id s;
              s1 = s\<lparr>pnext_id := i + 1\<rparr>
          in
          if path = [] then fail ENOENT s1
          else if path = ascii_bytes ''ptmx'' then
            (let a = pheap_next s1;
                 s2 = s1\<lparr>pheap := AList.update a (pty_new (px_termios x) i) (pheap s1), pheap_next := Suc a\<rparr>
             in ok i (insert_phandle i (PRes (res_new PtyControlTerm a flags)) s2))
          else
            (case parse_below (2 ^ 64) path of
               None \<Rightarrow> fail EINVAL s1
             | Some k \<Rightarrow>
                (case bm_get (of_nat k) (phandles s1) of
                   Some (PRes r) \<Rightarrow> ok i (insert_phandle i (PRes (res_new PtySubTerm (rs_pty r) (flags OR ucast fcntl_flags))) s1)
                 | _ \<Rightarrow> fail ENOENT s1))))"

definition dup_kind :: "bytes \<Rightarrow> resource_kind option" where
  "dup_kind buf =
     (if buf = ascii_bytes ''pgrp'' then Some PtyPgrp
      else if buf = ascii_bytes ''termios'' then Some PtyTermios
      else if buf = ascii_bytes ''winsize'' then Some PtyWinsize
      else if buf = ascii_bytes ''ptlock'' then Some PtyLock
      else if buf = ascii_bytes ''ptsname'' then Some PtsName
      else None)"

definition pty_dup :: "u64 \<Rightarrow> bytes \<Rightarrow> pty_daemon \<Rightarrow> (u64, pty_daemon) outcome" where
  "pty_dup old_id buf s =
     (case get_resource_mut old_id s of
        Inl e \<Rightarrow> fail e s
      | Inr r \<Rightarrow>
         (case dup_kind buf of
            None \<Rightarrow> fail EINVAL s
          | Some k \<Rightarrow>
             ok (pnext_id s)
               (insert_phandle (pnext_id s) (PRes (res_new k (rs_pty r) (rs_flags r))) (s\<lparr>pnext_id := pnext_id s + 1\<rparr>))))"

text \<open>An operation of a resource with its terminal, both put back.\<close>

definition on_resource :: "u64 \<Rightarrow> (resource \<Rightarrow> pty option \<Rightarrow> 'a res_result) \<Rightarrow> pty_daemon \<Rightarrow> ('a, pty_daemon) outcome" where
  "on_resource i f s =
     (case get_resource_mut i s of
        Inl e \<Rightarrow> fail e s
      | Inr r \<Rightarrow>
         (case f r (map_of (pheap s) (rs_pty r)) of
            (v, (r1, po)) \<Rightarrow>
              (v, s\<lparr>phandles := bm_insert i (PRes r1) (phandles s),
                   pheap := (case po of None \<Rightarrow> pheap s | Some p \<Rightarrow> AList.update (rs_pty r) p (pheap s))\<rparr>)))"

definition weak_count :: "nat \<Rightarrow> pty_daemon \<Rightarrow> nat" where
  "weak_count a s =
     length (filter (\<lambda>e. case snd e of PRes r \<Rightarrow> rs_pty r = a \<and> rs_kind r \<noteq> PtyControlTerm | PSchemeRoot \<Rightarrow> False) (phandles s))"

definition pty_read :: "pty_ext \<Rightarrow> u64 \<Rightarrow> nat \<Rightarrow> pty_daemon \<Rightarrow> (bytes, pty_daemon) outcome" where
  "pty_read x i n s = on_resource i (\<lambda>r. res_read x (weak_count (rs_pty r) s) n r) s"

definition pty_write :: "pty_ext \<Rightarrow> u64 \<Rightarrow> bytes \<Rightarrow> pty_daemon \<Rightarrow> (nat, pty_daemon) outcome" where
  "pty_write x i buf = on_resource i (res_write x buf)"

definition pty_fcntl :: "pty_ext \<Rightarrow> u64 \<Rightarrow> u64 \<Rightarrow> u64 \<Rightarrow> pty_daemon \<Rightarrow> (u64, pty_daemon) outcome" where
  "pty_fcntl x i cmd arg = on_resource i (res_fcntl x cmd arg)"

definition pty_fevent :: "pty_ext \<Rightarrow> u64 \<Rightarrow> pty_daemon \<Rightarrow> (u64, pty_daemon) outcome" where
  "pty_fevent x i = on_resource i (res_fevent x)"

definition pty_fsync :: "u64 \<Rightarrow> pty_daemon \<Rightarrow> (unit, pty_daemon) outcome" where
  "pty_fsync i = on_resource i res_sync"

definition pty_fpath :: "u64 \<Rightarrow> bytes \<Rightarrow> pty_daemon \<Rightarrow> errno + fpath_writer" where
  "pty_fpath i buf s =
     (case get_resource_mut i s of Inl e \<Rightarrow> Inl e | Inr r \<Rightarrow> res_path buf r (map_of (pheap s) (rs_pty r)))"

text \<open>The mode of the \<open>Stat\<close>; its other fields are zero.\<close>

definition pty_fstat :: "pty_ext \<Rightarrow> u64 \<Rightarrow> pty_daemon \<Rightarrow> errno + u16" where
  "pty_fstat x i s = (case get_resource_mut i s of Inl e \<Rightarrow> Inl e | Inr _ \<Rightarrow> Inr (px_MODE_CHR x OR 0x1b6))"

definition pty_on_close :: "u64 \<Rightarrow> pty_daemon \<Rightarrow> pty_daemon" where
  "pty_on_close i s =
     (let s1 = drop_phandle (bm_get i (phandles s)) s in s1\<lparr>phandles := bm_remove i (phandles s1)\<rparr>)"

section \<open>Events and time\<close>

text \<open>The loop over the handles: what is posted for which handle, in order.\<close>

definition issue_event :: "pty_ext \<Rightarrow> (nat \<times> pty) list \<Rightarrow> u64 \<times> phandle \<Rightarrow> (u64 \<times> u64) list \<times> u64 \<times> phandle" where
  "issue_event x heap e =
     (case e of
        (i, PRes r) \<Rightarrow>
          (case res_events x r (map_of heap (rs_pty r)) of
             (ev, r1) \<Rightarrow> (if ev \<noteq> 0 then [(i, ev)] else [], i, PRes r1))
      | (i, PSchemeRoot) \<Rightarrow> ([], i, PSchemeRoot))"

definition issue_events :: "pty_ext \<Rightarrow> pty_daemon \<Rightarrow> (u64 \<times> u64) list \<times> pty_daemon" where
  "issue_events x s =
     (let rs = map (issue_event x (pheap s)) (phandles s)
      in (concat (map fst rs), s\<lparr>phandles := map snd rs\<rparr>))"

text \<open>Time passes for every control terminal.\<close>

definition pass_time :: "pty_ext \<Rightarrow> u64 \<Rightarrow> pty_daemon \<Rightarrow> pty_daemon" where
  "pass_time x count s =
     s\<lparr>pheap := fold (\<lambda>e heap. case snd e of
          PRes r \<Rightarrow> (case res_timeout x count r (map_of heap (rs_pty r)) of None \<Rightarrow> heap | Some p \<Rightarrow> AList.update (rs_pty r) p heap)
        | PSchemeRoot \<Rightarrow> heap) (phandles s) (pheap s)\<rparr>"

end
