(* ===== verification/Pty_Props.thy ===== *)
theory Pty_Props
  imports Pty
begin

text \<open>
  Properties of pseudo terminals: the line discipline is a small line editor in canonical mode and a byte
  stream in raw mode, the control terminal reads what was written and echoed, and the store of terminals is well typed
  in every state the daemon can reach.
\<close>

unbundle bit_operations_syntax

section \<open>The configuration of a terminal\<close>

named_theorems tty_keeps \<open>what the steps of the line discipline do not change\<close>

lemma output_keeps [tty_keeps]:
  "pt_termios (pty_output x bs p) = pt_termios p" "cooked (pty_output x bs p) = cooked p" "mosi (pty_output x bs p) = mosi p"
  "pt_kills (pty_output x bs p) = pt_kills p" "pt_pgrp (pty_output x bs p) = pt_pgrp p" "timeout_count (pty_output x bs p) = timeout_count p"
  by (simp_all add: pty_output_def)

lemma deliver_keeps [tty_keeps]:
  "pt_termios (deliver p) = pt_termios p" "miso (deliver p) = miso p" "pt_kills (deliver p) = pt_kills p" "pt_pgrp (deliver p) = pt_pgrp p"
  by (simp_all add: deliver_def)

lemma kill_keeps [tty_keeps]:
  "pt_termios (kill_pgrp g p) = pt_termios p" "miso (kill_pgrp g p) = miso p" "mosi (kill_pgrp g p) = mosi p" "cooked (kill_pgrp g p) = cooked p"
  "pt_pgrp (kill_pgrp g p) = pt_pgrp p"
  by (simp_all add: kill_pgrp_def)

lemma end_line_keeps [tty_keeps]:
  "pt_termios (end_line x e b p) = pt_termios p" "pt_kills (end_line x e b p) = pt_kills p" "pt_pgrp (end_line x e b p) = pt_pgrp p"
  "cooked (end_line x e b p) = []" "mosi (end_line x e b p) = mosi p @ [cooked p @ [b]]"
  by (simp_all add: end_line_def deliver_def pty_output_def Let_def)

lemma is_cc_termios: "pt_termios q = pt_termios p \<Longrightarrow> is_cc x q = is_cc x p"
  by (simp add: is_cc_def fun_eq_iff)

lemma is_cc_0 [simp]: "\<not> is_cc x p 0 i"
  by (simp add: is_cc_def)

lemma update_canonical: "lflag x p ICANON \<Longrightarrow> pty_update x p = p"
  by (simp add: pty_update_def Let_def)

lemma update_termios [tty_keeps]: "pt_termios (pty_update x p) = pt_termios p" "miso (pty_update x p) = miso p"
  by (auto simp: pty_update_def Let_def deliver_def split: option.split)

lemma update_pgrp: "pt_pgrp (pty_update x p) = pt_pgrp p"
  by (auto simp: pty_update_def Let_def deliver_def split: option.split)

section \<open>Canonical mode\<close>

text \<open>
  The specification: what a byte means, by the first of the tests that applies, and a line editor over the
  meanings.
\<close>

datatype key = KPlain u8 | KNewline | KEof | KEol u8 | KErase | KSignal tty_signal | KDrop

definition classify :: "termios_ext \<Rightarrow> pty \<Rightarrow> u8 \<Rightarrow> key" where
  "classify x p byte =
     (let b = translate x p byte; is = is_cc x p b; ext = lflag x p IEXTEN; sig = lflag x p ISIG; flow = lflag x p IXON in
      if b = 0 then KDrop
      else if b = 0x0a then KNewline
      else if is VEOF then KEof
      else if is VEOL \<or> is VEOL2 then KEol b
      else if is VERASE then KErase
      else if is VWERASE \<and> ext \<or> is VKILL \<or> is VREPRINT \<and> ext then KDrop
      else if sig \<and> is VINTR then KSignal SIGINT
      else if sig \<and> is VQUIT then KSignal SIGQUIT
      else if sig \<and> is VSUSP then KSignal SIGTSTP
      else if flow \<and> (is VSTART \<or> is VSTOP) then KDrop
      else if ext \<and> (is VLNEXT \<or> is VDISCARD) then KDrop
      else KPlain b)"

record editor =
  ed_line :: bytes
  ed_lines :: "bytes list"
  ed_echo :: "bytes list"
  ed_signals :: "(u64 \<times> tty_signal) list"

definition edit :: "termios_ext \<Rightarrow> pty \<Rightarrow> key \<Rightarrow> editor \<Rightarrow> editor" where
  "edit x p k e =
     (let shown = (\<lambda>c bs. if c then ed_echo e @ [0 # post_process x p bs] else ed_echo e); echo = lflag x p ECHO in
      case k of
        KPlain b \<Rightarrow> e\<lparr>ed_line := ed_line e @ [b], ed_echo := shown echo [b]\<rparr>
      | KNewline \<Rightarrow>
          e\<lparr>ed_line := [], ed_lines := ed_lines e @ [ed_line e @ [0x0a]], ed_echo := shown (echo \<or> lflag x p ECHONL) [0x0a]\<rparr>
      | KEol b \<Rightarrow> e\<lparr>ed_line := [], ed_lines := ed_lines e @ [ed_line e @ [b]], ed_echo := shown echo [b]\<rparr>
      | KEof \<Rightarrow> e\<lparr>ed_line := [], ed_lines := ed_lines e @ [ed_line e]\<rparr>
      | KErase \<Rightarrow>
          if ed_line e = [] then e else e\<lparr>ed_line := butlast (ed_line e), ed_echo := shown (lflag x p ECHOE) [8, 0x20, 8]\<rparr>
      | KSignal g \<Rightarrow> if pt_pgrp p = 0 then e else e\<lparr>ed_signals := ed_signals e @ [(- pt_pgrp p, g)]\<rparr>
      | KDrop \<Rightarrow> e)"

definition as_editor :: "pty \<Rightarrow> editor" where
  "as_editor p = \<lparr>ed_line = cooked p, ed_lines = mosi p, ed_echo = miso p, ed_signals = pt_kills p\<rparr>"

definition same_config :: "pty \<Rightarrow> pty \<Rightarrow> bool" where
  "same_config p q \<longleftrightarrow> pt_termios q = pt_termios p \<and> pt_pgrp q = pt_pgrp p"

lemma post_process_termios: "pt_termios q = pt_termios p \<Longrightarrow> post_process x q = post_process x p"
  by (simp add: post_process_def fun_eq_iff)

lemma use_char_simps:
  "use_char c f (b, p) = (if c b p then (0, f b p) else (b, p))"
  by (simp add: use_char_def)

lemma is_cc_enabled: "is_cc x p b i \<Longrightarrow> \<not> is_vdisable x p i"
  by (auto simp: is_cc_def is_vdisable_def)

lemma used_up:
  "canon x (0, p) = (0, p)" "sig_char x i g (0, p) = (0, p)" "drop_char x i (0, p) = (0, p)"
  by (simp_all add: canon_def sig_char_def drop_char_def use_char_simps)

lemma input_byte_used:
  assumes "lflag x p ICANON" and "canon x (translate x p b, p) = (0, q)"
  shows "input_byte x b p = q"
  using assms by (simp add: input_byte_def used_up Let_def)

text \<open>A byte that canonical mode has no use for.\<close>

definition passes_canon :: "termios_ext \<Rightarrow> pty \<Rightarrow> u8 \<Rightarrow> bool" where
  "passes_canon x p b \<longleftrightarrow> b \<noteq> 0 \<and> b \<noteq> 0x0a \<and> \<not> is_cc x p b VEOF \<and> \<not> is_cc x p b VEOL \<and> \<not> is_cc x p b VEOL2 \<and> \<not> is_cc x p b VERASE \<and>
     \<not> (is_cc x p b VWERASE \<and> lflag x p IEXTEN) \<and> \<not> is_cc x p b VKILL \<and> \<not> (is_cc x p b VREPRINT \<and> lflag x p IEXTEN)"

lemma canon_passes: "passes_canon x p b \<Longrightarrow> canon x (b, p) = (b, p)"
  by (simp add: passes_canon_def canon_def use_char_simps)

lemma canon_uses:
  "canon x (0x0a, p) = (0, end_line x (lflag x p ECHO \<or> lflag x p ECHONL) 0x0a p)"
  "b \<noteq> 0x0a \<Longrightarrow> is_cc x p b VEOF \<Longrightarrow> canon x (b, p) = (0, deliver p)"
  "b \<noteq> 0x0a \<Longrightarrow> \<not> is_cc x p b VEOF \<Longrightarrow> is_cc x p b VEOL \<or> is_cc x p b VEOL2 \<Longrightarrow> canon x (b, p) = (0, end_line x (lflag x p ECHO) b p)"
  "b \<noteq> 0x0a \<Longrightarrow> \<not> is_cc x p b VEOF \<Longrightarrow> \<not> is_cc x p b VEOL \<Longrightarrow> \<not> is_cc x p b VEOL2 \<Longrightarrow> is_cc x p b VERASE \<Longrightarrow> canon x (b, p) = (0, erase x p)"
  "b \<noteq> 0x0a \<Longrightarrow> \<not> is_cc x p b VEOF \<Longrightarrow> \<not> is_cc x p b VEOL \<Longrightarrow> \<not> is_cc x p b VEOL2 \<Longrightarrow> \<not> is_cc x p b VERASE \<Longrightarrow>
     is_cc x p b VWERASE \<and> lflag x p IEXTEN \<or> is_cc x p b VKILL \<or> is_cc x p b VREPRINT \<and> lflag x p IEXTEN \<Longrightarrow> canon x (b, p) = (0, p)"
  by (auto simp: canon_def use_char_simps is_cc_enabled)

lemmas editor_steps = as_editor_def edit_def Let_def end_line_def deliver_def pty_output_def erase_def kill_pgrp_def

lemma sig_char_simps:
  "is_cc x p b i \<Longrightarrow> sig_char x i g (b, p) = (0, kill_pgrp g p)" "\<not> is_cc x p b i \<Longrightarrow> sig_char x i g (b, p) = (b, p)"
  by (simp_all add: sig_char_def use_char_simps is_cc_enabled)

lemma drop_char_simps:
  "is_cc x p b i \<Longrightarrow> drop_char x i (b, p) = (0, p)" "\<not> is_cc x p b i \<Longrightarrow> drop_char x i (b, p) = (b, p)"
  by (simp_all add: drop_char_def use_char_simps)

lemma input_byte_passes:
  assumes "lflag x p ICANON" and b: "b = translate x p byte" and "passes_canon x p b"
  shows "as_editor (input_byte x byte p) = edit x p (classify x p byte) (as_editor p)"
proof -
  define g where "g = (if lflag x p ISIG then sig_char x VSUSP SIGTSTP (sig_char x VQUIT SIGQUIT (sig_char x VINTR SIGINT (b, p))) else (b, p))"
  define h where "h = (if lflag x p IXON then drop_char x VSTOP (drop_char x VSTART g) else g)"
  define k where "k = (if lflag x p IEXTEN then drop_char x VDISCARD (drop_char x VLNEXT h) else h)"
  have i: "input_byte x byte p = (case k of (b, q) \<Rightarrow> if b = 0 then q
      else let q1 = (if lflag x p ECHO then pty_output x [b] q else q)
           in q1\<lparr>timeout_character := Some (timeout_count q1), cooked := cooked q1 @ [b]\<rparr>)"
    using assms canon_passes[OF assms(3)] by (simp add: input_byte_def Let_def g_def h_def k_def)
  have pass: "b \<noteq> 0" "b \<noteq> 0x0a" "\<not> is_cc x p b VEOF" "\<not> (is_cc x p b VEOL \<or> is_cc x p b VEOL2)" "\<not> is_cc x p b VERASE"
    "\<not> (is_cc x p b VWERASE \<and> lflag x p IEXTEN \<or> is_cc x p b VKILL \<or> is_cc x p b VREPRINT \<and> lflag x p IEXTEN)"
    using assms(3) by (auto simp: passes_canon_def)
  have c: "classify x p byte =
      (if lflag x p ISIG \<and> is_cc x p b VINTR then KSignal SIGINT
       else if lflag x p ISIG \<and> is_cc x p b VQUIT then KSignal SIGQUIT
       else if lflag x p ISIG \<and> is_cc x p b VSUSP then KSignal SIGTSTP
       else if lflag x p IXON \<and> (is_cc x p b VSTART \<or> is_cc x p b VSTOP) then KDrop
       else if lflag x p IEXTEN \<and> (is_cc x p b VLNEXT \<or> is_cc x p b VDISCARD) then KDrop
       else KPlain b)"
    by (simp only: classify_def Let_def b[symmetric] pass if_False)
  consider (sig) gs where "g = (0, kill_pgrp gs p)" "classify x p byte = KSignal gs"
    | (rest) "g = (b, p)" "\<not> (lflag x p ISIG \<and> (is_cc x p b VINTR \<or> is_cc x p b VQUIT \<or> is_cc x p b VSUSP))"
    unfolding g_def c by (cases "lflag x p ISIG"; cases "is_cc x p b VINTR"; cases "is_cc x p b VQUIT"; cases "is_cc x p b VSUSP")
      (simp_all add: sig_char_simps used_up)
  then show ?thesis
  proof cases
    case sig
    then have "k = (0, kill_pgrp gs p)" by (simp add: k_def h_def used_up)
    then show ?thesis unfolding i sig by (simp add: editor_steps)
  next
    case rest
    show ?thesis
    proof (cases "lflag x p IXON \<and> (is_cc x p b VSTART \<or> is_cc x p b VSTOP) \<or> lflag x p IEXTEN \<and> (is_cc x p b VLNEXT \<or> is_cc x p b VDISCARD)")
      case True
      then have "k = (0, p)" by (auto simp: k_def h_def rest used_up drop_char_def use_char_simps)
      moreover have "classify x p byte = KDrop" using True rest(2) unfolding c by auto
      ultimately show ?thesis unfolding i by (simp add: editor_steps)
    next
      case False
      then have k: "k = (b, p)" by (auto simp: k_def h_def rest drop_char_def use_char_simps)
      moreover have "classify x p byte = KPlain b" using False rest(2) unfolding c by auto
      moreover have "b \<noteq> 0" using assms(3) by (simp add: passes_canon_def)
      ultimately show ?thesis unfolding i by (simp add: editor_steps)
    qed
  qed
qed

lemma input_byte_edits:
  assumes can: "lflag x p ICANON"
  shows "as_editor (input_byte x byte p) = edit x p (classify x p byte) (as_editor p)"
proof -
  define b where "b = translate x p byte"
  note used = input_byte_used[OF can, of byte, folded b_def]
  note cl = classify_def[of x p byte, unfolded Let_def, folded b_def]
  consider "b = 0" | "b = 0x0a" | "b \<noteq> 0x0a" "is_cc x p b VEOF"
    | "b \<noteq> 0x0a" "\<not> is_cc x p b VEOF" "is_cc x p b VEOL \<or> is_cc x p b VEOL2"
    | "b \<noteq> 0x0a" "\<not> is_cc x p b VEOF" "\<not> is_cc x p b VEOL" "\<not> is_cc x p b VEOL2" "is_cc x p b VERASE"
    | "b \<noteq> 0x0a" "\<not> is_cc x p b VEOF" "\<not> is_cc x p b VEOL" "\<not> is_cc x p b VEOL2" "\<not> is_cc x p b VERASE"
      "is_cc x p b VWERASE \<and> lflag x p IEXTEN \<or> is_cc x p b VKILL \<or> is_cc x p b VREPRINT \<and> lflag x p IEXTEN"
    | "passes_canon x p b"
    unfolding passes_canon_def by blast
  then show ?thesis
  proof cases
    case 1
    then have "input_byte x byte p = p" using used by (simp add: used_up)
    then show ?thesis using 1 by (simp add: cl editor_steps)
  next
    case 2
    then show ?thesis using used canon_uses(1)[of x p] by (simp add: cl editor_steps)
  next
    case 3
    moreover from 3 have "b \<noteq> 0" by auto
    ultimately show ?thesis using used canon_uses(2)[OF 3] by (simp add: cl editor_steps)
  next
    case 4
    moreover from 4 have "b \<noteq> 0" by auto
    ultimately show ?thesis using used canon_uses(3)[OF 4] by (auto simp: cl editor_steps)
  next
    case 5
    moreover from 5 have "b \<noteq> 0" by auto
    ultimately show ?thesis using used canon_uses(4)[OF 5] by (simp add: cl editor_steps post_process_def)
  next
    case 6
    moreover from 6 have "b \<noteq> 0" by auto
    ultimately show ?thesis using used canon_uses(5)[OF 6] by (simp add: cl editor_steps)
  next
    case 7
    then show ?thesis using input_byte_passes[OF can b_def] by simp
  qed
qed

lemma use_char_config:
  "(\<And>b p. same_config p (f b p)) \<Longrightarrow> same_config (snd bp) (snd (use_char c f bp))"
  by (simp add: use_char_def same_config_def split: prod.split)

lemma same_config_trans: "same_config p q \<Longrightarrow> same_config q r \<Longrightarrow> same_config p r"
  by (simp add: same_config_def)

lemma same_config_steps:
  "same_config p p" "same_config p (deliver p)" "same_config p (end_line x e b p)" "same_config p (erase x p)" "same_config p (kill_pgrp g p)"
  by (simp_all add: same_config_def tty_keeps erase_def Let_def)

lemma canon_config: "same_config (snd bp) (snd (canon x bp))"
  unfolding canon_def Let_def by (intro same_config_trans[OF _ use_char_config] same_config_steps)

lemma input_byte_config: "same_config p (input_byte x b p)"
proof -
  let ?b = "(translate x p b, p)"
  define c where "c = (if lflag x p ICANON then canon x ?b else ?b)"
  define g where "g = (if lflag x p ISIG then sig_char x VSUSP SIGTSTP (sig_char x VQUIT SIGQUIT (sig_char x VINTR SIGINT c)) else c)"
  define h where "h = (if lflag x p IXON then drop_char x VSTOP (drop_char x VSTART g) else g)"
  define k where "k = (if lflag x p IEXTEN then drop_char x VDISCARD (drop_char x VLNEXT h) else h)"
  have "same_config p (snd c)" using canon_config[of ?b x] by (simp add: c_def same_config_steps)
  moreover have "same_config (snd c) (snd g)" unfolding g_def sig_char_def
    by (auto intro!: same_config_trans[OF _ use_char_config] same_config_steps)
  moreover have "same_config (snd g) (snd h)" unfolding h_def drop_char_def
    by (auto intro!: same_config_trans[OF _ use_char_config] same_config_steps)
  moreover have "same_config (snd h) (snd k)" unfolding k_def drop_char_def
    by (auto intro!: same_config_trans[OF _ use_char_config] same_config_steps)
  ultimately have "same_config p (snd k)" by (blast intro: same_config_trans)
  moreover have i: "input_byte x b p = (case k of (b, q) \<Rightarrow> if b = 0 then q
      else let q1 = (if lflag x p ECHO then pty_output x [b] q else q)
           in q1\<lparr>timeout_character := Some (timeout_count q1), cooked := cooked q1 @ [b]\<rparr>)"
    unfolding input_byte_def k_def h_def g_def c_def Let_def by (rule refl)
  have "same_config (snd k) (input_byte x b p)"
    by (cases k) (simp add: i Let_def same_config_def tty_keeps)
  ultimately show ?thesis by (rule same_config_trans)
qed

lemma config_determines:
  assumes "same_config p q"
  shows "lflag x q f = lflag x p f" "edit x q k = edit x p k" "classify x q b = classify x p b"
proof -
  have e: "pt_termios q = pt_termios p" "pt_pgrp q = pt_pgrp p" using assms by (simp_all add: same_config_def)
  show "lflag x q f = lflag x p f" unfolding e ..
  show "edit x q k = edit x p k" unfolding edit_def[abs_def] e post_process_termios[OF e(1)] ..
  show "classify x q b = classify x p b" unfolding classify_def translate_def e is_cc_termios[OF e(1)] ..
qed

text \<open>
  C19. In canonical mode a terminal is a line editor. Whatever is written to the control terminal, the lines
  handed to the reader, the line being typed, the packets echoed to the screen and the signals sent are those
  of an editor that looks at one byte at a time: the first of the tests that applies to the byte gives its
  meaning (end of line, end of file, erase, a signal, nothing, or itself), erasing removes the last byte of the
  line if there is one, an end of line hands over the line with the byte, an end of file hands it over without,
  and a byte that was used for one thing is used for nothing else.
\<close>

theorem pty_canonical_editor:
  assumes "lflag x p ICANON"
  shows "as_editor (pty_input x buf p) = fold (\<lambda>b. edit x p (classify x p b)) buf (as_editor p)"
proof -
  have "as_editor (fold (input_byte x) buf q) = fold (\<lambda>b. edit x p (classify x p b)) buf (as_editor q) \<and> same_config p (fold (input_byte x) buf q)"
    if "same_config p q" for q
    using that
  proof (induction buf arbitrary: q)
    case (Cons b buf)
    have "same_config p (input_byte x b q)" using same_config_trans[OF Cons.prems input_byte_config] .
    moreover have "as_editor (input_byte x b q) = edit x p (classify x p b) (as_editor q)"
      using input_byte_edits[of x q b] assms config_determines[OF Cons.prems] by simp
    ultimately show ?case using Cons.IH by simp
  qed simp
  from this[OF same_config_steps(1)] show ?thesis
    using assms config_determines(1)[of p "fold (input_byte x) buf p" x ICANON] by (simp add: pty_input_def update_canonical)
qed

section \<open>Raw mode\<close>

text \<open>No byte has a meaning of its own.\<close>

definition raw :: "termios_ext \<Rightarrow> pty \<Rightarrow> bool" where
  "raw x p \<longleftrightarrow> \<not> lflag x p ICANON \<and> \<not> lflag x p ISIG \<and> \<not> lflag x p IXON \<and> \<not> lflag x p IEXTEN \<and>
     (\<forall>b. translate x p b = b)"

text \<open>What the reader has not read yet.\<close>

definition pending :: "pty \<Rightarrow> bytes" where
  "pending p = concat (mosi p) @ cooked p"

lemma pending_deliver [simp]: "pending (deliver p) = pending p"
  by (simp add: pending_def deliver_def)

lemma pending_fields [simp]: "pending (p\<lparr>timeout_character := t\<rparr>) = pending p" "pending (p\<lparr>timeout_count := c\<rparr>) = pending p"
  "pending (p\<lparr>miso := m\<rparr>) = pending p"
  by (simp_all add: pending_def)

lemma pending_update [simp]: "pending (pty_update x p) = pending p"
  by (simp add: pty_update_def Let_def split: option.split)

lemma pending_timeout [simp]: "pending (pty_timeout x c p) = pending p"
  by (simp add: pty_timeout_def)

lemma pending_output [simp]: "pending (pty_output x bs p) = pending p"
  by (simp add: pending_def tty_keeps)

lemma raw_config: "same_config p q \<Longrightarrow> raw x q = raw x p"
  by (simp add: raw_def config_determines(1)) (simp add: same_config_def translate_def)

lemma input_byte_raw:
  assumes "raw x p"
  shows "pending (input_byte x b p) = pending p @ (if b = 0 then [] else [b])"
  using assms by (simp add: raw_def input_byte_def Let_def) (simp add: pending_def tty_keeps)

lemma input_raw: "raw x p \<Longrightarrow> pending (pty_input x buf p) = pending p @ filter (\<lambda>b. b \<noteq> 0) buf"
proof -
  have "pending (fold (input_byte x) buf p) = pending p @ filter (\<lambda>b. b \<noteq> 0) buf" if "raw x p"
    using that
  proof (induction buf arbitrary: p)
    case (Cons b buf)
    then show ?case using raw_config[OF input_byte_config] by (simp add: input_byte_raw)
  qed simp
  then show "raw x p \<Longrightarrow> ?thesis" by (simp add: pty_input_def)
qed

text \<open>The two sides of a terminal: writes to the control terminal, reads and writes of the other side, and time.\<close>

datatype tty_op = TWrite bytes | TRead nat | TOutput bytes | TTime u64 | TControlRead nat

text \<open>The terminal after an operation, the bytes it accepted and the bytes it returned to the reader.\<close>

definition tty_step :: "pty_ext \<Rightarrow> resource \<Rightarrow> resource \<Rightarrow> tty_op \<Rightarrow> pty \<Rightarrow> pty \<times> bytes \<times> bytes" where
  "tty_step x rc rs op p =
     (case op of
        TWrite buf \<Rightarrow> (case control_write x buf p of (v, q) \<Rightarrow> (q, (case v of Inr _ \<Rightarrow> buf | Inl _ \<Rightarrow> []), []))
      | TRead n \<Rightarrow> (case sub_read x n rs p of (v, (_, q)) \<Rightarrow> (q, [], (case v of Inr bs \<Rightarrow> bs | Inl _ \<Rightarrow> [])))
      | TOutput buf \<Rightarrow> (snd (sub_write x buf p), [], [])
      | TTime c \<Rightarrow> (pty_timeout (px_termios x) c p, [], [])
      | TControlRead n \<Rightarrow> (snd (snd (control_read x 1 n rc p)), [], []))"

fun tty_run :: "pty_ext \<Rightarrow> resource \<Rightarrow> resource \<Rightarrow> tty_op list \<Rightarrow> pty \<Rightarrow> pty \<times> bytes \<times> bytes" where
  "tty_run x rc rs [] p = (p, [], [])"
| "tty_run x rc rs (op # ops) p =
     (let (q, w, r) = tty_step x rc rs op p; (q', w', r') = tty_run x rc rs ops q in (q', w @ w', r @ r'))"

lemma input_config: "same_config p (pty_input x buf p)"
proof -
  have "same_config p (fold (input_byte x) buf q)" if "same_config p q" for q
    using that
  proof (induction buf arbitrary: q)
    case (Cons b buf)
    then show ?case using same_config_trans[OF Cons.prems input_byte_config] by simp
  qed simp
  from this[OF same_config_steps(1)] show ?thesis by (simp add: pty_input_def same_config_def tty_keeps update_pgrp)
qed

lemma sub_read_pending:
  assumes "sub_read x n r p = (v, (r', q))"
  shows "(case v of Inr bs \<Rightarrow> bs | Inl _ \<Rightarrow> []) @ pending q = pending p"
proof -
  define p1 where "p1 = pty_update (px_termios x) p"
  have "(case v of Inr bs \<Rightarrow> bs | Inl _ \<Rightarrow> []) @ pending q = pending p1"
    using assms unfolding sub_read_def Let_def p1_def[symmetric] by (auto simp: pending_def split: list.splits if_splits)
  then show ?thesis by (simp add: p1_def)
qed

lemma tty_step_stream:
  assumes "raw (px_termios x) p" and "tty_step x rc rs op p = (q, w, r)"
  shows "r @ pending q = pending p @ filter (\<lambda>b. b \<noteq> 0) w" "raw (px_termios x) q"
proof -
  show "r @ pending q = pending p @ filter (\<lambda>b. b \<noteq> 0) w"
  proof (cases op)
    case (TRead n)
    then show ?thesis using assms(2) sub_read_pending[of x n rs p] by (auto simp: tty_step_def split: prod.splits)
  qed (use assms in \<open>auto simp: tty_step_def control_write_def sub_write_def control_read_def Let_def input_raw split: list.splits if_splits\<close>)
  have "same_config p q" using assms(2) input_config[of p "px_termios x"]
    by (cases op) (auto simp: tty_step_def control_write_def sub_read_def sub_write_def control_read_def Let_def same_config_def pty_timeout_def
        tty_keeps update_pgrp split: list.splits if_splits)
  then show "raw (px_termios x) q" using assms(1) by (simp add: raw_config)
qed

text \<open>
  C20. In raw mode a terminal is a byte stream. Over any interleaving of writes to the control terminal, reads and
  writes on the other side, passing time and reads of the control terminal, and for every setting of the
  minimal length and the timeout of a read, the bytes the reader was given, followed by those that wait, are the bytes
  that waited at the start followed by the bytes that were accepted, in order and once each, except that
  zero bytes are dropped.
\<close>

theorem pty_raw_stream:
  assumes "raw (px_termios x) p" and "tty_run x rc rs ops p = (q, written, reading)"
  shows "reading @ pending q = pending p @ filter (\<lambda>b. b \<noteq> 0) written"
  using assms
proof (induction ops arbitrary: p written reading)
  case (Cons op ops)
  obtain q1 w r where s: "tty_step x rc rs op p = (q1, w, r)" by (cases "tty_step x rc rs op p")
  obtain w' r' where t: "tty_run x rc rs ops q1 = (q, w', r')" "written = w @ w'" "reading = r @ r'"
    using Cons.prems(2) s by (auto split: prod.splits)
  have "r' @ pending q = pending q1 @ filter (\<lambda>b. b \<noteq> 0) w'" using Cons.IH[OF tty_step_stream(2)[OF Cons.prems(1) s] t(1)] .
  then show ?case using tty_step_stream(1)[OF Cons.prems(1) s] by (metis append_assoc filter_append t(2,3))
qed simp

section \<open>The control terminal\<close>

text \<open>Every packet has a first byte that says what it is; the others are what is shown.\<close>

definition packets_ok :: "pty \<Rightarrow> bool" where
  "packets_ok p \<longleftrightarrow> [] \<notin> set (miso p)"

definition shown :: "pty \<Rightarrow> bytes" where
  "shown p = concat (map tl (miso p))"

text \<open>
  The control terminal reads what the other side wrote, when its buffer is large enough. With room for
  two bytes or more, a read returns the first byte of a packet and some of what it shows, and what is still to be shown
  follows; a write on the other side adds what was written with the line ends translated. With room for
  one byte the same byte is returned forever once the packet shows something, and a read with no room at all puts a byte
  in front of what is shown that nobody wrote.
\<close>

theorem pty_control_stream:
  assumes "packets_ok p" and "miso p = packet # rest" and "length packet \<ge> 2"
  shows "(\<forall>n bs r' q. n \<ge> 2 \<and> control_read x weak n r p = ok bs (r', q) \<longrightarrow>
            packets_ok q \<and> hd bs = hd packet \<and> tl bs \<noteq> [] \<and> shown p = tl bs @ shown q) \<and>
         (\<forall>buf k q. sub_write x buf p = ok k q \<longrightarrow>
            packets_ok q \<and> k = length buf \<and> shown q = shown p @ post_process (px_termios x) p buf) \<and>
         (\<exists>r'. control_read x weak 1 r p = ok [hd packet] (r', p)) \<and>
         (\<exists>r' q. control_read x weak 0 r p = ok [] (r', q) \<and> shown q = hd packet # shown p)"
proof -
  obtain b c ps where packet: "packet = b # c # ps" using assms(3) by (metis Suc_le_length_iff numeral_2_eq_2)
  have 1: "packets_ok q \<and> hd bs = hd packet \<and> tl bs \<noteq> [] \<and> shown p = tl bs @ shown q"
    if "n \<ge> 2" "control_read x weak n r p = ok bs (r', q)" for n bs r' q
  proof -
    define m where "m = n - 2"
    have "n = Suc (Suc m)" using that(1) by (simp add: m_def)
    then have "bs = b # c # take m ps" "miso q = (if m < length ps then (b # drop m ps) # rest else rest)"
      using that(2) assms(2) packet by (auto simp: control_read_def Let_def min_def split: if_splits)
    moreover have "[] \<notin> set rest" using assms(1,2) by (simp add: packets_ok_def)
    ultimately show ?thesis using assms(2) packet by (simp add: packets_ok_def shown_def)
  qed
  have 2: "packets_ok q \<and> k = length buf \<and> shown q = shown p @ post_process (px_termios x) p buf" if "sub_write x buf p = ok k q" for buf k q
    using that assms(1) by (auto simp: sub_write_def pty_output_def packets_ok_def shown_def split: if_splits)
  have 3: "\<exists>r'. control_read x weak 1 r p = ok [hd packet] (r', p)"
    using assms(2) packet by (simp add: control_read_def Let_def)
  have 4: "\<exists>r' q. control_read x weak 0 r p = ok [] (r', q) \<and> shown q = hd packet # shown p"
    using assms(2) packet by (simp add: control_read_def Let_def shown_def)
  show ?thesis using 1 2 3 4 by (intro conjI allI impI) blast+
qed

section \<open>The store of terminals\<close>

text \<open>
  Typing of the store: the handle of a control terminal refers to a terminal in the store, no other control
  terminal refers to it, every terminal in the store has such a handle, and all references are below the
  next address.
\<close>

definition is_control :: "phandle \<Rightarrow> nat \<Rightarrow> bool" where
  "is_control h a \<longleftrightarrow> (\<exists>r. h = PRes r \<and> rs_kind r = PtyControlTerm \<and> rs_pty r = a)"

definition pty_ok :: "pty_daemon \<Rightarrow> bool" where
  "pty_ok s \<longleftrightarrow>
     bm_ok (phandles s) \<and>
     (\<forall>i r. map_of (phandles s) i = Some (PRes r) \<longrightarrow> rs_pty r < pheap_next s) \<and>
     (\<forall>i h a. map_of (phandles s) i = Some h \<and> is_control h a \<longrightarrow> map_of (pheap s) a \<noteq> None) \<and>
     (\<forall>i j h h' a. map_of (phandles s) i = Some h \<and> is_control h a \<and> map_of (phandles s) j = Some h' \<and> is_control h' a \<longrightarrow> i = j) \<and>
     (\<forall>a. map_of (pheap s) a \<noteq> None \<longrightarrow> a < pheap_next s \<and> (\<exists>i h. map_of (phandles s) i = Some h \<and> is_control h a))"

datatype pty_req =
    PqRoot | PqOpen u64 bytes u64 u32 | PqDup u64 bytes | PqRead u64 nat | PqWrite u64 bytes | PqFcntl u64 u64 u64
  | PqFevent u64 | PqFsync u64 | PqClose u64 | PqEvents | PqTime u64

definition pty_step :: "pty_ext \<Rightarrow> pty_daemon \<Rightarrow> pty_req \<Rightarrow> pty_daemon" where
  "pty_step x s q =
     (case q of
        PqRoot \<Rightarrow> snd (pty_root s)
      | PqOpen d p f g \<Rightarrow> snd (pty_openat x d p f g s)
      | PqDup i b \<Rightarrow> snd (pty_dup i b s)
      | PqRead i n \<Rightarrow> snd (pty_read x i n s)
      | PqWrite i b \<Rightarrow> snd (pty_write x i b s)
      | PqFcntl i c a \<Rightarrow> snd (pty_fcntl x i c a s)
      | PqFevent i \<Rightarrow> snd (pty_fevent x i s)
      | PqFsync i \<Rightarrow> snd (pty_fsync i s)
      | PqClose i \<Rightarrow> pty_on_close i s
      | PqEvents \<Rightarrow> snd (issue_events x s)
      | PqTime c \<Rightarrow> pass_time x c s)"

lemma pty_okD:
  assumes "pty_ok s"
  shows "bm_ok (phandles s)" "map_of (phandles s) i = Some (PRes r) \<Longrightarrow> rs_pty r < pheap_next s"
    "map_of (phandles s) i = Some h \<Longrightarrow> is_control h a \<Longrightarrow> map_of (pheap s) a \<noteq> None"
    "map_of (phandles s) i = Some h \<Longrightarrow> is_control h a \<Longrightarrow> map_of (phandles s) j = Some h' \<Longrightarrow> is_control h' a \<Longrightarrow> i = j"
    "map_of (pheap s) a \<noteq> None \<Longrightarrow> a < pheap_next s \<and> (\<exists>i h. map_of (phandles s) i = Some h \<and> is_control h a)"
  using assms unfolding pty_ok_def by blast+

text \<open>Handles that keep their kind and their reference, over a store with the same addresses.\<close>

lemma pty_ok_same:
  assumes s: "pty_ok s" and b: "bm_ok (phandles t)" and n: "pheap_next t = pheap_next s"
    and h: "\<And>i. rel_option (\<lambda>h h'. (\<forall>a. is_control h' a = is_control h a) \<and> (\<forall>r'. h' = PRes r' \<longrightarrow> (\<exists>r. h = PRes r \<and> rs_pty r = rs_pty r')))
      (map_of (phandles s) i) (map_of (phandles t) i)"
    and heap: "\<And>a. map_of (pheap t) a = None \<longleftrightarrow> map_of (pheap s) a = None"
  shows "pty_ok t"
  unfolding pty_ok_def
proof (intro conjI allI impI)
  have ctl: "\<exists>h. map_of (phandles s) i = Some h \<and> is_control h a" if "map_of (phandles t) i = Some h'" "is_control h' a" for i h' a
    using h[of i] that by (auto simp: option_rel_Some2)
  show "bm_ok (phandles t)" by (rule b)
  show "rs_pty r < pheap_next t" if r: "map_of (phandles t) i = Some (PRes r)" for i r
    using h[of i] r pty_okD(2)[OF s, of i] n by (fastforce simp: option_rel_Some2)
  show "map_of (pheap t) a \<noteq> None" if "map_of (phandles t) i = Some h' \<and> is_control h' a" for i h' a
    using ctl[of i h' a] that pty_okD(3)[OF s] heap by blast
  show "i = j" if "map_of (phandles t) i = Some h1 \<and> is_control h1 a \<and> map_of (phandles t) j = Some h2 \<and> is_control h2 a" for i j h1 h2 a
    using ctl[of i h1 a] ctl[of j h2 a] that pty_okD(4)[OF s] by blast
  show "a < pheap_next t" if "map_of (pheap t) a \<noteq> None" for a using that heap pty_okD(5)[OF s] n by auto
  show "\<exists>i h. map_of (phandles t) i = Some h \<and> is_control h a" if a: "map_of (pheap t) a \<noteq> None" for a
  proof -
    obtain i h where i: "map_of (phandles s) i = Some h" "is_control h a" using pty_okD(5)[OF s, of a] a heap[of a] by auto
    then show ?thesis using h[of i] by (auto simp: option_rel_Some1)
  qed
qed

lemma on_resource_ok:
  assumes s: "pty_ok s" and f: "\<And>r po v r1 po1. f r po = (v, (r1, po1)) \<Longrightarrow> rs_kind r1 = rs_kind r \<and> rs_pty r1 = rs_pty r \<and> (po1 = None \<longleftrightarrow> po = None)"
  shows "pty_ok (snd (on_resource i f s))"
proof (cases "get_resource_mut i s")
  case (Inl e)
  then show ?thesis using s by (simp add: on_resource_def)
next
  case (Inr r)
  then have i: "map_of (phandles s) i = Some (PRes r)"
    using pty_okD(1)[OF s] by (auto simp: get_resource_mut_def bm_simps split: option.splits phandle.splits)
  obtain v r1 po where fr: "f r (map_of (pheap s) (rs_pty r)) = (v, (r1, po))" by (metis surj_pair)
  note k = f[OF fr]
  have "pty_ok (s\<lparr>phandles := bm_insert i (PRes r1) (phandles s),
      pheap := (case po of None \<Rightarrow> pheap s | Some p \<Rightarrow> AList.update (rs_pty r) p (pheap s))\<rparr>)" (is "pty_ok ?t")
  proof (rule pty_ok_same[OF s])
    show "bm_ok (phandles ?t)" using pty_okD(1)[OF s] by (simp add: bm_simps)
    show "map_of (pheap ?t) a = None \<longleftrightarrow> map_of (pheap s) a = None" for a
      using k by (cases po) (auto simp: alist_simps)
    show "rel_option (\<lambda>h h'. (\<forall>a. is_control h' a = is_control h a) \<and> (\<forall>r'. h' = PRes r' \<longrightarrow> (\<exists>r. h = PRes r \<and> rs_pty r = rs_pty r')))
        (map_of (phandles s) j) (map_of (phandles ?t) j)" for j
      using k i pty_okD(1)[OF s] by (cases "j = i"; cases "map_of (phandles s) j") (auto simp: bm_simps is_control_def)
  qed simp
  then show ?thesis using Inr fr by (simp add: on_resource_def)
qed

lemma pty_on_close_ok:
  assumes s: "pty_ok s"
  shows "pty_ok (pty_on_close i s)" "map_of (phandles (pty_on_close i s)) = (map_of (phandles s))(i := None)"
    "pheap_next (pty_on_close i s) = pheap_next s" "bm_ok (phandles (pty_on_close i s))"
proof -
  note b = pty_okD(1)[OF s]
  show h: "map_of (phandles (pty_on_close i s)) = (map_of (phandles s))(i := None)"
    using b by (auto simp: pty_on_close_def drop_phandle_def Let_def bm_simps split: option.split phandle.split)
  show n: "pheap_next (pty_on_close i s) = pheap_next s"
    by (simp add: pty_on_close_def drop_phandle_def Let_def split: option.split phandle.split)
  show b': "bm_ok (phandles (pty_on_close i s))"
    using b by (simp add: pty_on_close_def drop_phandle_def Let_def split: option.split phandle.split)
  have heap: "map_of (pheap (pty_on_close i s)) a = (if \<exists>h. map_of (phandles s) i = Some h \<and> is_control h a then None else map_of (pheap s) a)" for a
    using b by (auto simp: pty_on_close_def drop_phandle_def Let_def is_control_def bm_simps alist_simps split: option.split phandle.split)
  show "pty_ok (pty_on_close i s)"
    unfolding pty_ok_def h n
  proof (intro conjI allI impI)
    fix a
    assume "map_of (pheap (pty_on_close i s)) a \<noteq> None"
    then have a: "\<not> (\<exists>h. map_of (phandles s) i = Some h \<and> is_control h a)" "map_of (pheap s) a \<noteq> None" by (auto simp: heap split: if_splits)
    then show "a < pheap_next s" using pty_okD(5)[OF s] by blast
    obtain j h where "map_of (phandles s) j = Some h" "is_control h a" using pty_okD(5)[OF s a(2)] by blast
    then show "\<exists>j h. ((map_of (phandles s))(i := None)) j = Some h \<and> is_control h a" using a(1) by (intro exI[of _ j] exI[of _ h]) auto
  next
    fix j h a
    assume j: "((map_of (phandles s))(i := None)) j = Some h \<and> is_control h a"
    then have "j \<noteq> i" "map_of (phandles s) j = Some h" by (auto split: if_splits)
    then show "map_of (pheap (pty_on_close i s)) a \<noteq> None" using j pty_okD(3)[OF s] pty_okD(4)[OF s] by (auto simp: heap)
  qed (use b' pty_okD(2,4)[OF s] in \<open>auto split: if_splits\<close>)
qed

text \<open>A new handle at a free number; a new control terminal brings its terminal along.\<close>

lemma pty_ok_add:
  assumes u: "pty_ok u" "map_of (phandles u) i = None" and t: "bm_ok (phandles t)" "map_of (phandles t) = (map_of (phandles u))(i \<mapsto> h)"
    and h: "(\<forall>a. \<not> is_control h a) \<and> (\<forall>r. h = PRes r \<longrightarrow> rs_pty r < pheap_next u) \<and> map_of (pheap t) = map_of (pheap u) \<and> pheap_next t = pheap_next u \<or>
      is_control h (pheap_next u) \<and> map_of (pheap t) = (map_of (pheap u))(pheap_next u \<mapsto> p) \<and> pheap_next t = Suc (pheap_next u)"
  shows "pty_ok t"
proof -
  note d = pty_okD[OF u(1)]
  have old: "a < pheap_next u" if "map_of (phandles u) j = Some g" "is_control g a" for j g a
    using d(3)[OF that] d(5) by blast
  from h show ?thesis
  proof (elim disjE conjE)
    assume h: "\<forall>a. \<not> is_control h a" "\<forall>r. h = PRes r \<longrightarrow> rs_pty r < pheap_next u" "map_of (pheap t) = map_of (pheap u)" "pheap_next t = pheap_next u"
    show ?thesis unfolding pty_ok_def t(2) h(3,4)
    proof (intro conjI allI impI)
      fix a assume a: "map_of (pheap u) a \<noteq> None"
      obtain j g where "map_of (phandles u) j = Some g" "is_control g a" using d(5)[OF a] by blast
      then show "\<exists>j h'. ((map_of (phandles u))(i \<mapsto> h)) j = Some h' \<and> is_control h' a" using u(2) by (intro exI[of _ j] exI[of _ g]) auto
    qed (use t(1) d h(1,2) in \<open>auto split: if_splits\<close>)
  next
    assume h: "is_control h (pheap_next u)" "map_of (pheap t) = (map_of (pheap u))(pheap_next u \<mapsto> p)" "pheap_next t = Suc (pheap_next u)"
    have c: "a = pheap_next u" if "is_control h a" for a using h(1) that by (auto simp: is_control_def)
    show ?thesis unfolding pty_ok_def t(2) h(2,3)
    proof (intro conjI allI impI)
      fix j r assume "((map_of (phandles u))(i \<mapsto> h)) j = Some (PRes r)"
      then show "rs_pty r < Suc (pheap_next u)" using d(2)[of j r] h(1) by (auto simp: is_control_def split: if_splits)
    next
      fix a assume a: "((map_of (pheap u))(pheap_next u \<mapsto> p)) a \<noteq> None"
      then show "a < Suc (pheap_next u)" using d(5)[of a] by (auto split: if_splits)
      show "\<exists>j h'. ((map_of (phandles u))(i \<mapsto> h)) j = Some h' \<and> is_control h' a"
      proof (cases "a = pheap_next u")
        case True
        then show ?thesis using h(1) by (intro exI[of _ i]) auto
      next
        case False
        then obtain j g where "map_of (phandles u) j = Some g" "is_control g a" using a d(5)[of a] by auto
        then show ?thesis using u(2) by (intro exI[of _ j] exI[of _ g]) auto
      qed
    next
      fix j g a assume "((map_of (phandles u))(i \<mapsto> h)) j = Some g \<and> is_control g a"
      then show "((map_of (pheap u))(pheap_next u \<mapsto> p)) a \<noteq> None" using d(3)[of j g a] c by (auto split: if_splits)
    next
      fix j k g g' a
      assume "((map_of (phandles u))(i \<mapsto> h)) j = Some g \<and> is_control g a \<and> ((map_of (phandles u))(i \<mapsto> h)) k = Some g' \<and> is_control g' a"
      then show "j = k" using d(4)[of j g a k g'] c old[of j g a] old[of k g' a] by (auto split: if_splits)
    qed (rule t(1))
  qed
qed

lemma insert_phandle_close:
  assumes "pty_ok s"
  shows "bm_ok (phandles (insert_phandle i h s))" "map_of (phandles (insert_phandle i h s)) = (map_of (phandles (pty_on_close i s)))(i \<mapsto> h)"
    "pheap (insert_phandle i h s) = pheap (pty_on_close i s)" "pheap_next (insert_phandle i h s) = pheap_next s"
  using pty_okD(1)[OF assms] unfolding insert_phandle_def pty_on_close_def Let_def drop_phandle_def
  by (auto simp: bm_simps split: option.split phandle.split)

lemma insert_phandle_ok:
  assumes s: "pty_ok s" and h: "\<forall>a. \<not> is_control h a" "\<forall>r. h = PRes r \<longrightarrow> rs_pty r < pheap_next s"
  shows "pty_ok (insert_phandle i h s)"
proof (rule pty_ok_add[OF pty_on_close_ok(1)[OF s, of i], of i])
  show "map_of (phandles (pty_on_close i s)) i = None" using pty_on_close_ok(2)[OF s] by simp
qed (use insert_phandle_close[OF s] pty_on_close_ok(3)[OF s] h in auto)

lemma pty_ok_next [simp]: "pty_ok (s\<lparr>pnext_id := k\<rparr>) = pty_ok s"
  by (simp add: pty_ok_def)

lemma drop_phandle_heap:
  "map_of (pheap (drop_phandle ho s)) a = (if \<exists>h. ho = Some h \<and> is_control h a then None else map_of (pheap s) a)"
  by (auto simp: drop_phandle_def is_control_def alist_simps split: option.split phandle.split)

lemma open_control_ok:
  assumes s: "pty_ok s" and c: "is_control h (pheap_next s)"
  shows "pty_ok (insert_phandle i h (s\<lparr>pheap := AList.update (pheap_next s) p (pheap s), pheap_next := Suc (pheap_next s)\<rparr>))" (is "pty_ok ?t")
proof (rule pty_ok_add[OF pty_on_close_ok(1)[OF s, of i], of i])
  let ?s = "s\<lparr>pheap := AList.update (pheap_next s) p (pheap s), pheap_next := Suc (pheap_next s)\<rparr>"
  note b = pty_okD(1)[OF s]
  have free: "map_of (phandles s) i = Some g \<Longrightarrow> \<not> is_control g (pheap_next s)" for g
    using pty_okD(3)[OF s, of i g "pheap_next s"] pty_okD(5)[OF s, of "pheap_next s"] by auto
  show "map_of (phandles (pty_on_close i s)) i = None" using pty_on_close_ok(2)[OF s] by simp
  have hs: "phandles (drop_phandle ho ?s) = phandles s" "phandles (drop_phandle ho s) = phandles s" "pheap_next (drop_phandle ho ?s) = Suc (pheap_next s)" for ho
    by (simp_all add: drop_phandle_def split: option.split phandle.split)
  show "bm_ok (phandles ?t)" using b by (simp add: insert_phandle_def Let_def hs)
  show "map_of (phandles ?t) = (map_of (phandles (pty_on_close i s)))(i \<mapsto> h)"
    using b by (simp add: insert_phandle_def pty_on_close_def Let_def hs bm_simps)
  have "map_of (pheap ?t) a = ((map_of (pheap (pty_on_close i s)))(pheap_next s \<mapsto> p)) a" for a
    using b free by (cases "a = pheap_next s") (auto simp: insert_phandle_def pty_on_close_def Let_def drop_phandle_heap bm_simps alist_simps)
  then have "map_of (pheap ?t) = (map_of (pheap (pty_on_close i s)))(pheap_next s \<mapsto> p)" by (rule ext)
  moreover have "pheap_next ?t = Suc (pheap_next s)" by (simp add: insert_phandle_def Let_def hs)
  ultimately show "(\<forall>a. \<not> is_control h a) \<and> (\<forall>r. h = PRes r \<longrightarrow> rs_pty r < pheap_next (pty_on_close i s)) \<and>
      map_of (pheap ?t) = map_of (pheap (pty_on_close i s)) \<and> pheap_next ?t = pheap_next (pty_on_close i s) \<or>
      is_control h (pheap_next (pty_on_close i s)) \<and>
      map_of (pheap ?t) = (map_of (pheap (pty_on_close i s)))(pheap_next (pty_on_close i s) \<mapsto> p) \<and> pheap_next ?t = Suc (pheap_next (pty_on_close i s))"
    using c pty_on_close_ok(3)[OF s] by simp
qed

lemma pty_openat_ok:
  assumes "pty_ok s"
  shows "pty_ok (snd (pty_openat x d path f g s))"
proof -
  let ?s = "s\<lparr>pnext_id := pnext_id s + 1\<rparr>"
  have s: "pty_ok ?s" using assms by simp
  have "pty_ok (insert_phandle i (PRes (res_new PtySubTerm (rs_pty r) w)) ?s)" if "bm_get k (phandles ?s) = Some (PRes r)" for i k r w
    using insert_phandle_ok[OF s, of "PRes (res_new PtySubTerm (rs_pty r) w)" i] pty_okD(2)[OF s, of k r] that pty_okD(1)[OF s]
    by (simp add: is_control_def res_new_def bm_simps)
  moreover have "pty_ok (insert_phandle i (PRes (res_new PtyControlTerm (pheap_next ?s) w))
      (?s\<lparr>pheap := AList.update (pheap_next ?s) p (pheap ?s), pheap_next := Suc (pheap_next ?s)\<rparr>))" for i w p
    using open_control_ok[OF s, of "PRes (res_new PtyControlTerm (pheap_next ?s) w)"] by (simp add: is_control_def res_new_def)
  ultimately show ?thesis
    using assms by (auto simp: pty_openat_def Let_def split: option.split phandle.split)
qed

lemma map_snd_events: "map_of (map (\<lambda>e. snd (issue_event x heap e)) hs) i =
    map_option (\<lambda>h. snd (snd (issue_event x heap (i, h)))) (map_of hs i)"
  by (induction hs) (auto simp: issue_event_def split: phandle.split prod.split)

lemma issue_event_keeps: "fst (snd (issue_event x heap e)) = fst e"
  by (auto simp: issue_event_def split: prod.split phandle.split)

lemma res_events_keeps: "res_events x r po = (ev, r1) \<Longrightarrow> rs_kind r1 = rs_kind r \<and> rs_pty r1 = rs_pty r"
  by (auto simp: res_events_def term_events_def Let_def split: resource_kind.splits option.splits bool.splits if_splits prod.splits)

lemma issue_events_ok:
  assumes s: "pty_ok s"
  shows "pty_ok (snd (issue_events x s))"
proof (rule pty_ok_same[OF s])
  have "map fst (map (snd \<circ> issue_event x (pheap s)) (phandles s)) = map fst (phandles s)" by (simp add: issue_event_keeps)
  then have "bm_ok (map (snd \<circ> issue_event x (pheap s)) (phandles s))" using pty_okD(1)[OF s] unfolding bm_ok_def by (simp only:)
  then show "bm_ok (phandles (snd (issue_events x s)))" by (simp add: issue_events_def Let_def)
  fix i
  have "is_control h' a = is_control h a \<and> (\<forall>r'. h' = PRes r' \<longrightarrow> (\<exists>r. h = PRes r \<and> rs_pty r = rs_pty r'))"
    if "snd (snd (issue_event x (pheap s) (i, h))) = h'" for h h' a
    using that res_events_keeps by (cases h) (auto simp: issue_event_def is_control_def split: prod.splits)
  then show "rel_option (\<lambda>h h'. (\<forall>a. is_control h' a = is_control h a) \<and> (\<forall>r'. h' = PRes r' \<longrightarrow> (\<exists>r. h = PRes r \<and> rs_pty r = rs_pty r')))
      (map_of (phandles s) i) (map_of (phandles (snd (issue_events x s))) i)"
    by (simp add: issue_events_def Let_def comp_def map_snd_events) (cases "map_of (phandles s) i"; simp)
qed (simp_all add: issue_events_def Let_def)

lemma pass_time_heap: "map_of (pheap (pass_time x c s)) a = None \<longleftrightarrow> map_of (pheap s) a = None"
proof -
  let ?f = "\<lambda>e heap. case snd e of
          PRes r \<Rightarrow> (case res_timeout x c r (map_of heap (rs_pty r)) of None \<Rightarrow> heap | Some p \<Rightarrow> AList.update (rs_pty r) p heap)
        | PSchemeRoot \<Rightarrow> heap"
  have one: "map_of (?f e heap) a = None \<longleftrightarrow> map_of heap a = None" for e :: "u64 \<times> phandle" and heap
    by (auto simp: res_timeout_def alist_simps split: phandle.split option.split)
  have "map_of (fold ?f hs heap) a = None \<longleftrightarrow> map_of heap a = None" for hs :: "(u64 \<times> phandle) list" and heap
    by (induction hs arbitrary: heap) (simp_all add: one)
  then show ?thesis by (simp add: pass_time_def)
qed

lemma pass_time_ok:
  assumes "pty_ok s"
  shows "pty_ok (pass_time x c s)"
proof (rule pty_ok_same[OF assms])
  show "rel_option (\<lambda>h h'. (\<forall>a. is_control h' a = is_control h a) \<and> (\<forall>r'. h' = PRes r' \<longrightarrow> (\<exists>r. h = PRes r \<and> rs_pty r = rs_pty r')))
      (map_of (phandles s) i) (map_of (phandles (pass_time x c s)) i)" for i
    by (cases "map_of (phandles s) i") (simp_all add: pass_time_def)
qed (use pty_okD(1)[OF assms] pass_time_heap in \<open>simp_all add: pass_time_def\<close>)

lemmas resource_methods = pgrp_read_def lock_read_def ptsname_read_def termios_read_def winsize_read_def read_word_def
  pgrp_write_def lock_write_def termios_write_def winsize_write_def write_word_def

lemma res_keeps:
  "res_read x weak n r po = (v, (r1, po1)) \<Longrightarrow> rs_kind r1 = rs_kind r \<and> rs_pty r1 = rs_pty r \<and> (po1 = None \<longleftrightarrow> po = None)"
  "res_write x b r po = (k, (r1, po1)) \<Longrightarrow> rs_kind r1 = rs_kind r \<and> rs_pty r1 = rs_pty r \<and> (po1 = None \<longleftrightarrow> po = None)"
  "res_fcntl x c a r po = (w, (r1, po1)) \<Longrightarrow> rs_kind r1 = rs_kind r \<and> rs_pty r1 = rs_pty r \<and> (po1 = None \<longleftrightarrow> po = None)"
  "res_fevent x r po = (e, (r1, po1)) \<Longrightarrow> rs_kind r1 = rs_kind r \<and> rs_pty r1 = rs_pty r \<and> (po1 = None \<longleftrightarrow> po = None)"
  "res_sync r po = (y, (r1, po1)) \<Longrightarrow> rs_kind r1 = rs_kind r \<and> rs_pty r1 = rs_pty r \<and> (po1 = None \<longleftrightarrow> po = None)"
proof -
  show "res_read x weak n r po = (v, (r1, po1)) \<Longrightarrow> rs_kind r1 = rs_kind r \<and> rs_pty r1 = rs_pty r \<and> (po1 = None \<longleftrightarrow> po = None)"
    by (cases "rs_kind r"; cases po)
      (auto simp: res_read_def control_read_def sub_read_def Let_def resource_methods split: sum.splits list.splits if_splits)
  show "res_write x b r po = (k, (r1, po1)) \<Longrightarrow> rs_kind r1 = rs_kind r \<and> rs_pty r1 = rs_pty r \<and> (po1 = None \<longleftrightarrow> po = None)"
    by (cases "rs_kind r"; cases po) (auto simp: res_write_def control_write_def sub_write_def resource_methods split: sum.splits if_splits)
  show "res_fcntl x c a r po = (w, (r1, po1)) \<Longrightarrow> rs_kind r1 = rs_kind r \<and> rs_pty r1 = rs_pty r \<and> (po1 = None \<longleftrightarrow> po = None)"
    by (auto simp: res_fcntl_def split: if_splits)
  show "res_fevent x r po = (e, (r1, po1)) \<Longrightarrow> rs_kind r1 = rs_kind r \<and> rs_pty r1 = rs_pty r \<and> (po1 = None \<longleftrightarrow> po = None)"
    by (auto simp: res_fevent_def dest!: res_events_keeps split: if_splits prod.splits)
  show "res_sync r po = (y, (r1, po1)) \<Longrightarrow> rs_kind r1 = rs_kind r \<and> rs_pty r1 = rs_pty r \<and> (po1 = None \<longleftrightarrow> po = None)"
    by (cases "rs_kind r"; cases po) (auto simp: res_sync_def)
qed

lemma pty_step_ok:
  assumes s: "pty_ok s"
  shows "pty_ok (pty_step x s q)"
proof (cases q)
  case PqRoot
  then show ?thesis using s by (simp add: pty_step_def pty_root_def insert_phandle_ok is_control_def)
next
  case (PqDup i b)
  have "pty_ok (insert_phandle j (PRes (res_new k (rs_pty r) w)) (s\<lparr>pnext_id := n\<rparr>))" if "get_resource_mut i s = Inr r" "dup_kind b = Some k" for j k r w n
  proof (rule insert_phandle_ok)
    have "k \<noteq> PtyControlTerm" using that(2) by (auto simp: dup_kind_def split: if_splits)
    then show "\<forall>a. \<not> is_control (PRes (res_new k (rs_pty r) w)) a" by (simp add: is_control_def res_new_def)
    show "\<forall>r'. PRes (res_new k (rs_pty r) w) = PRes r' \<longrightarrow> rs_pty r' < pheap_next (s\<lparr>pnext_id := n\<rparr>)"
      using that(1) pty_okD(1,2)[OF s] by (auto simp: res_new_def get_resource_mut_def bm_simps split: option.splits phandle.splits)
  qed (simp add: s)
  then show ?thesis using PqDup s by (simp add: pty_step_def pty_dup_def split: sum.split option.split)
qed (use s in \<open>simp_all add: pty_step_def pty_openat_ok pty_on_close_ok(1) issue_events_ok pass_time_ok
    pty_read_def pty_write_def pty_fcntl_def pty_fevent_def pty_fsync_def on_resource_ok[OF s res_keeps(1)] on_resource_ok[OF s res_keeps(2)]
    on_resource_ok[OF s res_keeps(3)] on_resource_ok[OF s res_keeps(4)] on_resource_ok[OF s res_keeps(5)]\<close>)

lemma pty_new_ok: "pty_ok pty_daemon_new"
  by (simp add: pty_ok_def pty_daemon_new_def bm_ok_def)

abbreviation pty_env :: "pty_daemon \<Rightarrow> pty_req \<Rightarrow> bool" where
  "pty_env s q \<equiv> True"

interpretation ptyd: daemon_invariant pty_daemon_new "pty_step x" pty_env pty_ok for x
  by unfold_locales (simp_all add: pty_new_ok pty_step_ok)


text \<open>
  Closing the control terminal hangs up. In every state the daemon can reach, once the control
  terminal is closed, every read on the other side returns the end of the file at once, whatever was waiting
  there, every write fails with \<open>EPIPE\<close>, and the path of the terminal is gone; terminals of other control
  terminals are not touched.
\<close>

theorem pty_hangup:
  assumes "reach pty_daemon_new (pty_step x) pty_env s"
    and "map_of (phandles s) i = Some (PRes r)" and "rs_kind r = PtyControlTerm"
    and "map_of (phandles s) j = Some (PRes r')" and "rs_kind r' = PtySubTerm" and "rs_pty r' = rs_pty r"
  shows "fst (pty_read x j n (pty_on_close i s)) = Inr [] \<and>
         fst (pty_write x j buf (pty_on_close i s)) = Inl (Errno EPIPE) \<and>
         pty_fpath j path (pty_on_close i s) = Inl EPIPE \<and>
         (\<forall>a. a \<noteq> rs_pty r \<longrightarrow> map_of (pheap (pty_on_close i s)) a = map_of (pheap s) a)"
proof -
  have s: "pty_ok s" using ptyd.reach_inv[OF assms(1)] .
  have ij: "i \<noteq> j" using assms(2-5) by auto
  note b = pty_okD(1)[OF s] pty_on_close_ok(4)[OF s, of i]
  have heap: "map_of (pheap (pty_on_close i s)) a = (if a = rs_pty r then None else map_of (pheap s) a)" for a
    using assms(2,3) b(1) by (simp add: pty_on_close_def Let_def drop_phandle_heap is_control_def bm_simps)
  have "get_resource_mut j (pty_on_close i s) = Inr r'"
    using pty_on_close_ok(2)[OF s, of i] b ij assms(4) by (simp add: get_resource_mut_def bm_simps)
  then show ?thesis
    using assms(5,6) heap by (simp add: pty_read_def pty_write_def pty_fpath_def on_resource_def res_read_def res_write_def res_path_def)
qed

section \<open>An example\<close>

text \<open>Terminals whose settings are two bytes: the local flags, and the erase character.\<close>

definition tx0 :: termios_ext where
  "tx0 = \<lparr>tx_default = [3, 0x7f], tx_iflag = (\<lambda>_. 0), tx_oflag = (\<lambda>_. 0), tx_lflag = (\<lambda>t. ucast (hd t)),
     tx_cc = (\<lambda>t i. if i = VERASE then t ! 1 else 0),
     INLCR = 1, IGNCR = 2, ICRNL = 4, ECHO = 1, ECHOE = 8, ECHONL = 16, ICANON = 2, ISIG = 4, IEXTEN = 32, IXON = 64, OPOST = 1, ONLCR = 2,
     tx_winsize = [24, 80]\<rparr>"

definition px0 :: pty_ext where
  "px0 = \<lparr>px_termios = tx0, px_F_GETFL = 3, px_F_SETFL = 4, px_O_ACCMODE = 0x30000, px_O_NONBLOCK = 0x40000, px_EVENT_READ = 1,
     px_EVENT_WRITE = 2, px_MODE_CHR = 0x2000\<rparr>"

definition res0 :: resource where
  "res0 = res_new PtySubTerm 0 0"

theorem pty_canonical_editor_witness:
  "lflag tx0 (pty_new tx0 0) ICANON \<and>
   as_editor (pty_input tx0 [0x61, 0x62, 0x7f, 0x0a, 0x63] (pty_new tx0 0)) =
     \<lparr>ed_line = [0x63], ed_lines = [[0x61, 0x0a]], ed_echo = [[0, 0x61], [0, 0x62], [0, 0x0a], [0, 0x63]], ed_signals = []\<rparr>"
proof -
  have c: "lflag tx0 (pty_new tx0 0) ICANON" by code_simp
  have "fold (\<lambda>b. edit tx0 (pty_new tx0 0) (classify tx0 (pty_new tx0 0) b)) [0x61, 0x62, 0x7f, 0x0a, 0x63] (as_editor (pty_new tx0 0)) =
      \<lparr>ed_line = [0x63], ed_lines = [[0x61, 0x0a]], ed_echo = [[0, 0x61], [0, 0x62], [0, 0x0a], [0, 0x63]], ed_signals = []\<rparr>"
    by code_simp
  then show ?thesis using c pty_canonical_editor[OF c, of "[0x61, 0x62, 0x7f, 0x0a, 0x63]"] by simp
qed

lemma raw0: "raw tx0 ((pty_new tx0 0)\<lparr>pt_termios := [0, 0]\<rparr>)"
  by (simp add: raw_def tx0_def flag_def pty_new_def translate_def)

theorem pty_raw_stream_witness:
  "\<exists>q. tty_run px0 res0 res0 [TWrite [1, 0, 2], TRead 1, TTime 5, TWrite [3], TRead 8, TRead 8] ((pty_new tx0 0)\<lparr>pt_termios := [0, 0]\<rparr>) =
     (q, [1, 0, 2, 3], [1, 2, 3]) \<and> [1, 2, 3] @ pending q = filter (\<lambda>b. b \<noteq> 0) [1, 0, 2, 3]"
proof -
  let ?p = "(pty_new tx0 0)\<lparr>pt_termios := [0, 0]\<rparr>"
  have r: "raw (px_termios px0) ?p" using raw0 by (simp add: px0_def)
  let ?r = "tty_run px0 res0 res0 [TWrite [1, 0, 2], TRead 1, TTime 5, TWrite [3], TRead 8, TRead 8] ?p"
  have "snd ?r = ([1, 0, 2, 3], [1, 2, 3])" by code_simp
  then have q: "?r = (fst ?r, [1, 0, 2, 3], [1, 2, 3])" by (metis prod.collapse)
  have "pending ?p = []" by (simp add: pending_def pty_new_def)
  then show ?thesis using q pty_raw_stream[OF r q] by (metis append_Nil)
qed

theorem pty_control_stream_witness:
  "\<exists>r'. control_read px0 1 1 res0 ((pty_new tx0 0)\<lparr>miso := [[0, 0x61]]\<rparr>) = ok [0] (r', (pty_new tx0 0)\<lparr>miso := [[0, 0x61]]\<rparr>)"
proof -
  let ?p = "(pty_new tx0 0)\<lparr>miso := [[0, 0x61]]\<rparr>"
  have "packets_ok ?p" "miso ?p = [0, 0x61] # []" by (simp_all add: packets_ok_def)
  from pty_control_stream[OF this, of px0 1 res0] show ?thesis by simp
qed

text \<open>A control terminal and the other side of its terminal.\<close>

definition ps0 :: pty_daemon where
  "ps0 = pty_step px0 (pty_step px0 (pty_step px0 pty_daemon_new PqRoot) (PqOpen 0 (ascii_bytes ''ptmx'') 0 0)) (PqOpen 0 [0x31] 0 0)"

lemma ps0_reach: "reach pty_daemon_new (pty_step px0) pty_env ps0"
  unfolding ps0_def by (intro reach_step reach_init TrueI)

lemma ps0_two: "pty_step px0 (pty_step px0 pty_daemon_new PqRoot) (PqOpen 0 (ascii_bytes ''ptmx'') 0 0) =
  \<lparr>pnext_id = 2, phandles = [(0, PSchemeRoot), (1, PRes (res_new PtyControlTerm 0 0))], pheap = [(0, pty_new tx0 1)], pheap_next = 1\<rparr>"
  by code_simp

lemma ps0_handles:
  "map_of (phandles ps0) 1 = Some (PRes (res_new PtyControlTerm 0 0))" "map_of (phandles ps0) 2 = Some (PRes (res_new PtySubTerm 0 0))"
proof -
  have "parse_below (2 ^ 64) [0x31] = Some 1" by (simp add: parse_below_def is_digit_def digits_val_def digit_val_def)
  then have "phandles ps0 = [(0, PSchemeRoot), (1, PRes (res_new PtyControlTerm 0 0)), (2, PRes (res_new PtySubTerm 0 0))]"
    unfolding ps0_def ps0_two
    by (simp add: pty_step_def pty_openat_def trim_slashes_def ascii_bytes_def insert_phandle_def drop_phandle_def bm_get_def bm_insert_def
      lin_cmp_def res_new_def)
  then show "map_of (phandles ps0) 1 = Some (PRes (res_new PtyControlTerm 0 0))" "map_of (phandles ps0) 2 = Some (PRes (res_new PtySubTerm 0 0))"
    by simp_all
qed


theorem pty_hangup_witness:
  "fst (pty_read px0 2 8 (pty_on_close 1 ps0)) = Inr [] \<and> fst (pty_write px0 2 [0x61] (pty_on_close 1 ps0)) = Inl (Errno EPIPE)"
  using pty_hangup[OF ps0_reach ps0_handles(1) _ ps0_handles(2), of 8 "[0x61]"] by (simp add: res_new_def)

end
