(* ===== verification/Pty_Loop.thy ===== *)
theory Pty_Loop
  imports Pty_Props Readiness
begin

text \<open>
  The event loop of the pseudo terminal daemon (\<open>ptyd/src/main.rs\<close>): requests through the loop of
  \<open>Readiness\<close>, and the passing of time every tenth of a second, which can end a read.
\<close>

section \<open>Definitions\<close>

datatype pty_op =
    OpPOpenat u64 bytes u64 u32 | OpPDup u64 bytes | OpPRead u64 nat | OpPWrite u64 bytes | OpPFcntl u64 u64 u64 | OpPFevent u64
  | OpPFsync u64 | OpPFpath u64 bytes | OpPFstat u64

datatype pty_val = PvId u64 | PvBytes bytes | PvLen nat | PvWord u64 | PvUnit | PvPath fpath_writer | PvMode u16

definition pty_respond ::
  "((errno + pty_val) \<Rightarrow> pty_val scheme_response) \<Rightarrow> ('a \<Rightarrow> pty_val) \<Rightarrow> ('a, pty_daemon) outcome
     \<Rightarrow> (pty_val scheme_response \<times> pty_daemon) option" where
  "pty_respond k v r =
     (case r of
        (Inl Panic, s) \<Rightarrow> None
      | (Inl (Errno e), s) \<Rightarrow> Some (k (Inl e), s)
      | (Inr a, s) \<Rightarrow> Some (k (Inr (v a)), s))"

definition pty_call :: "pty_ext \<Rightarrow> pty_op \<Rightarrow> pty_daemon \<Rightarrow> (pty_val scheme_response \<times> pty_daemon) option" where
  "pty_call x op s =
     (case op of
        OpPOpenat d p f g \<Rightarrow> pty_respond Opened PvId (pty_openat x d p f g s)
      | OpPDup i b \<Rightarrow> pty_respond Opened PvId (pty_dup i b s)
      | OpPRead i n \<Rightarrow> pty_respond Regular PvBytes (pty_read x i n s)
      | OpPWrite i b \<Rightarrow> pty_respond Regular PvLen (pty_write x i b s)
      | OpPFcntl i c a \<Rightarrow> pty_respond Regular PvWord (pty_fcntl x i c a s)
      | OpPFevent i \<Rightarrow> pty_respond Regular PvWord (pty_fevent x i s)
      | OpPFsync i \<Rightarrow> pty_respond Regular (\<lambda>_. PvUnit) (pty_fsync i s)
      | OpPFpath i b \<Rightarrow> pty_respond Regular PvPath (case pty_fpath i b s of Inl e \<Rightarrow> fail e s | Inr w \<Rightarrow> ok w s)
      | OpPFstat i \<Rightarrow> pty_respond Regular PvMode (case pty_fstat x i s of Inl e \<Rightarrow> fail e s | Inr w \<Rightarrow> ok w s))"

text \<open>The operations the scheme does not implement itself are those of the scheme interface, \<open>base\<close>.\<close>

definition pty_ops ::
  "pty_ext \<Rightarrow> ('c, pty_op, pty_val, pty_daemon) scheme_ops \<Rightarrow> ('c, pty_op, pty_val, pty_daemon) scheme_ops" where
  "pty_ops x base =
     base\<lparr>so_call := (\<lambda>_ op s. map_option (\<lambda>(r, s1). ((r, op), s1)) (pty_call x op s)), so_on_close := (\<lambda>i s. Some (pty_on_close i s))\<rparr>"

text \<open>The socket: requests are processed, waiting requests tried again and the responses written. An error panics.\<close>

definition scan_requests ::
  "pty_ext \<Rightarrow> ('c, pty_op, pty_val, pty_daemon) scheme_ops \<Rightarrow> errno + ('c, pty_op) rb_request list \<Rightarrow> errno + pty_val rb_response list
     \<Rightarrow> ('c, pty_op, pty_val) readiness_based \<times> pty_daemon \<Rightarrow> (('c, pty_op, pty_val) readiness_based \<times> pty_daemon) option" where
  "scan_requests x base got wrote bs =
     (case serve (pty_ops x base) got bs of
        (Inr _, (b, s)) \<Rightarrow> (case write_responses wrote b of (Inr _, b1) \<Rightarrow> Some (b1, s) | _ \<Rightarrow> None)
      | _ \<Rightarrow> None)"

text \<open>Time: the counter is increased, every terminal told, and waiting requests tried again.\<close>

definition time_event ::
  "pty_ext \<Rightarrow> ('c, pty_op, pty_val, pty_daemon) scheme_ops \<Rightarrow> u64
     \<Rightarrow> ('c, pty_op, pty_val) readiness_based \<times> pty_daemon \<Rightarrow> (u64 \<times> ('c, pty_op, pty_val) readiness_based \<times> pty_daemon) option" where
  "time_event x base tc bs =
     (let c = tc + 1 in
      case poll_all_requests (pty_ops x base) (fst bs, pass_time x c (snd bs)) of
        (Inr _, bs1) \<Rightarrow> Some (c, bs1)
      | _ \<Rightarrow> None)"

section \<open>A read that times out\<close>

lemma poll_request_queues: "\<exists>new. responses_to_write (fst (snd (poll_request x i bs))) = responses_to_write (fst bs) @ new"
  by (auto simp: poll_request_def poll_request_inner_def push_response_def Let_def split: option.split sum.split prod.split)

lemma poll_ready_queues:
  assumes "poll_ready_requests x is (b, s) = (r, (b1, s1))"
  shows "\<exists>new. responses_to_write b1 = responses_to_write b @ new"
  using assms
proof (induction "is" arbitrary: b s)
  case (Cons i "is")
  obtain v b' s' where p: "poll_request x i (b, s) = (v, (b', s'))" by (metis surj_pair)
  obtain new where new: "responses_to_write b' = responses_to_write b @ new" using poll_request_queues[of x i "(b, s)"] p by auto
  show ?case
  proof (cases v)
    case (Inl f)
    then show ?thesis using Cons.prems p new by simp
  next
    case (Inr u)
    then show ?thesis using Cons.prems Cons.IH[of b' s'] p new by auto
  qed
qed simp

text \<open>
  The passing of time writes no response: whatever it makes ready is only queued, behind everything that was
  queued before, until the socket has a request again.
\<close>

lemma time_event_only_queues:
  assumes "time_event x base c (b, s) = Some (c1, (b1, s1))"
  shows "\<exists>new. responses_to_write b1 = responses_to_write b @ new"
proof -
  obtain r b' s' where p: "poll_all_requests (pty_ops x base) (b, pass_time x (c + 1) s) = (r, (b', s'))" by (metis surj_pair)
  then have "b' = b1" using assms by (cases r) (simp_all add: time_event_def Let_def)
  then show ?thesis
    using p poll_ready_queues[of "pty_ops x base" "map fst (rb_states b)" "b\<lparr>ready_queue := []\<rparr>" "pass_time x (c + 1) s" r b1 s']
    by (simp add: poll_all_requests_def)
qed

end
