(* ===== verification/Spec2Isabelle.thy ===== *)
theory Spec2Isabelle
  imports Procmgr_Props Namespace_Props Shm Ramfs_Files Chan_Loop Uds_Stream_Props Driver_Block_Props Pty_Loop
begin

text \<open>
  Verification of the user-space base of the Redox operating system: the daemons and drivers under \<open>src/\<close>.

  \<^bold>\<open>The program.\<close> The kernel is small and the services are user programs. A daemon owns a \<^emph>\<open>scheme\<close>: the kernel
  forwards the calls programs make on its descriptors as requests, and the daemon answers them. The first
  process (\<open>bootstrap\<close>) starts the namespace manager, through which programs reach schemes by name, and the
  process manager, which holds all processes, groups, sessions, credentials, signals and exit statuses. The ipc
  daemon (\<open>ipcd\<close>) serves channels, shared memory and Unix domain sockets; \<open>ramfs\<close> serves files in memory; \<open>ptyd\<close>
  serves pseudo terminals; block drivers serve disks and partitions through the library \<open>driver-block\<close>. All of
  them share the handle tables and request loops of \<open>scheme-utils\<close>. Daemons do not call each other's code: they
  interact through requests, which is why each is modelled as a transition system over its own requests, with
  the answers of the kernel and of other daemons as parameters.

  \<^bold>\<open>Conventions.\<close> A function that returns \<open>Result\<close> and mutates its receiver is a function into
  \<open>(fault + 'a) \<times> 's\<close>; what a call did before it failed stays visible in the state. A panic is the fault \<open>Panic\<close>.
  Machine integers are words where they can wrap. Objects shared through \<open>Rc\<close> live in a store and a cell borrowed
  twice is a panic. A daemon is an initial state, a step function and a condition on the requests of its environment
  (\<open>reach\<close>); the locale \<open>daemon_invariant\<close> lifts what one request preserves to every reachable state. Code
  outside \<open>src/\<close> (the kernel, and the crates \<open>syscall\<close>, \<open>libredox\<close>, \<open>redox_scheme\<close>, \<open>redox_termios\<close>, \<open>redox_path\<close>,
  \<open>gpt\<close>, \<open>libc\<close>) is a record of parameters: \<open>ext\<close>, \<open>nsx\<close>, \<open>rx\<close>, \<open>shm_ext\<close>, \<open>chan_ext\<close>, \<open>udsx\<close>, \<open>termios_ext\<close>, \<open>disk_ops\<close>.

  \<^bold>\<open>Shared theories.\<close>
  \<^item> \<open>Prelude\<close>: outcomes, errors, association lists, reachability. \<open>BTree_Map\<close>: the maps of the standard library
    over a comparison function, with the locale \<open>btree_order\<close> for comparisons that are orders on some keys only.
    \<open>Utf8\<close>, \<open>Decimal\<close>, \<open>Bytes\<close>: text, numbers and words as bytes.
  \<^item> \<open>Handle_Map\<close>: \<open>HandleMap\<close> and \<open>FpathWriter\<close> of \<open>scheme-utils/src/lib.rs\<close>. The locale \<open>handle_table\<close> is what
    the daemons use of it.
  \<^item> \<open>Readiness\<close>: \<open>ReadinessBased\<close> and \<open>Blocking\<close> of \<open>scheme-utils\<close> over any scheme: no request is lost or
    answered twice, and a round fails only with the scheme.

  \<^bold>\<open>Process manager\<close> (\<open>bootstrap/src/procmgr.rs\<close>).
  \<^item> \<open>Procmgr_State\<close>: processes, threads, groups, handles and pending requests. \<open>Waitpid_Map\<close>: the map of status
    changes with the comparison of \<open>WaitpidKey\<close>. \<open>Procmgr_Inv\<close>: the invariant \<open>pm_inv\<close> and its frame rules.
  \<^item> \<open>Procmgr_Ids\<close>: \<open>fork\<close>, \<open>new_thread\<close>, groups, sessions, credentials. \<open>Procmgr_Signal\<close>: \<open>on_send_sig\<close>,
    \<open>on_kill\<close>, queued signals. \<open>Procmgr_Wait\<close>: \<open>on_waitpid\<close>, \<open>reap\<close>, exit and the work on woken requests.
    \<open>Procmgr_Scheme\<close>: opening, duplicating and calling handles, thread death, a turn of the event loop.
  \<^item> \<open>Procmgr_Signal_Props\<close>, \<open>Procmgr_Run\<close>, \<open>Procmgr_Props\<close> (instances in \<open>Procmgr_Example\<close>): the invariant of every
    reachable state, the life cycle of a process, truth of the statuses a wait reports, exit, fork, credentials,
    signals, stop and continue, orphaned groups, real-time queues, and that the loop over woken requests ends.
    Two theorems state where the code loses a status or a waiting request.

  \<^bold>\<open>Namespace manager\<close> (\<open>bootstrap/src/initnsmgr.rs\<close>). \<open>Namespace\<close>: namespaces, handles with permissions, all
  requests and the loop. \<open>Namespace_Props\<close>: the relation \<open>ns_effect\<close> lists what a request can do; from it follow
  that no request gives out more than its handle has and that a binding changes only through registration of a
  free name and removal with the permission; and what a forked namespace holds.

  \<^bold>\<open>The ipc daemon\<close> (\<open>ipcd/src\<close>).
  \<^item> \<open>Shm\<close> (\<open>shm.rs\<close>): objects count their handles, and what is written is read.
  \<^item> \<open>Chan\<close>, \<open>Chan_Props\<close>, \<open>Chan_Loop\<close> (\<open>chan.rs\<close>): connections are mutual, a connection is a byte stream over
    any interleaving of requests, and a waiting reader is answered in the round in which its peer writes.
  \<^item> \<open>Uds_Msg\<close> (\<open>uds/mod.rs\<close>), \<open>Uds_Stream\<close> (\<open>uds/stream.rs\<close>): messages with their ancillary data, and stream
    sockets with all calls. \<open>Uds_Inv\<close>: the invariant, and the only requests that can end the daemon.
    \<open>Uds_Stream_Props\<close>: linked sockets are byte streams over any interleaving of requests of all clients, and
    accepting a client links it.

  \<^bold>\<open>In-memory files\<close> (\<open>ramfs/src/filesystem.rs\<close>, \<open>ramfs/src/scheme.rs\<close>). \<open>Ramfs\<close>: inodes, path resolution, permissions
  and all requests. \<open>Ramfs_Props\<close> and \<open>Ramfs_Files\<close> (instance in \<open>Ramfs_Example\<close>): the tree is sound in every
  reachable state, resolution is a walk of the tree, and the round trips of creating, naming, writing and opening.

  \<^bold>\<open>Block devices\<close>. \<open>Disk\<close>, \<open>Driver_Block\<close> (\<open>drivers/storage/driver-block/src/lib.rs\<close>), \<open>Partitions\<close>
  (\<open>drivers/storage/partitionlib/src\<close>), \<open>Live_Disk\<close> (\<open>drivers/storage/lived/src/main.rs\<close>). The locale \<open>disk\<close> is what a
  driver promises, interpreted by the live disk. \<open>Driver_Block_Props\<close>: writes are read back and stay inside what
  the handle is open on for requests that lie inside it, names lead back to what they name, and what a longer
  request overwrites.

  \<^bold>\<open>Pseudo terminals\<close> (\<open>ptyd/src\<close>). \<open>Pty\<close>: the line discipline, the resources and the scheme. \<open>Pty_Props\<close>: canonical
  mode is a line editor, raw mode is a byte stream, and references between terminals are well typed in every
  reachable state. \<open>Pty_Loop\<close>: the event loop with its timeouts.

  \<^bold>\<open>Loops and bounds.\<close>
  \<^item> Loops over data are recursive functions with termination proofs (\<open>block_read_loop\<close>, \<open>read_chunks\<close>,
    \<open>write_chunks\<close>, \<open>resolve_loop\<close>, \<open>fork_loop\<close>, \<open>read_cmsgs\<close>).
  \<^item> \<open>on_send_sig\<close> calls itself to send SIGCHLD to the parent of a stopped process. Its depth is bounded by
    \<open>sig_fuel\<close>, two, and \<open>on_send_sig_fuel\<close> shows that more makes no difference.
  \<^item> \<open>run_awoken\<close> has fuel, and \<open>run_awoken_terminates\<close> shows that some amount of it always gives a result.
  \<^item> The search for a free handle (\<open>hm_probe\<close>) tries at most one number more than there are handles, which finds
    a free one because the table is smaller than the range of its numbers.
  \<^item> \<open>parent_chain\<close>, the walk to the root in \<open>fpath\<close>, is a partial function; \<open>fpath_resolves\<close> shows that it ends
    for every open handle.
  \<^item> The environments of \<open>reach\<close> (\<open>us_room\<close>, \<open>ramfs_env\<close>, \<open>shm_env\<close>, \<open>pty_env\<close>, \<open>ds_env\<close>) exclude states in which a
    64-bit counter or table of handles is exhausted, and answers the kernel is documented not to give.

  \<^bold>\<open>Not modelled.\<close>
  \<^item> Drivers of devices (\<open>drivers/usb\<close>, \<open>drivers/net\<close>, \<open>drivers/graphics\<close>, \<open>drivers/audio\<close>, \<open>drivers/input\<close>, the
    storage controllers, \<open>acpid\<close>, \<open>pcid\<close>, \<open>virtio-core\<close>, \<open>vboxd\<close>, \<open>rtcd\<close>, \<open>drivers/common\<close>): almost every line reads or
    writes registers, ports or rings in memory shared with a device. What the device does in between decides
    what the code means, and it is not in the repository.
  \<^item> The executor of the drivers (\<open>drivers/executor\<close>): wakers and pinned futures of the Rust runtime. The users of it
    in \<open>driver-block\<close> are modelled with futures that run to completion.
  \<^item> Start of the system (\<open>bootstrap/src/exec.rs\<close>, \<open>main.rs\<close>, \<open>start.rs\<close>), \<open>daemon\<close>, \<open>config\<close>, \<open>dhcpd\<close>: sequences of
    system calls, and files and sockets read once. The service manager \<open>init\<close> reads unit files with the \<open>toml\<close> and
    \<open>serde\<close> crates and starts processes.
  \<^item> The network stack (\<open>netstack\<close>): a front end of the \<open>smoltcp\<close> crate, which holds the sockets, interfaces and packets
    its scheme works on.
  \<^item> The random number daemon (\<open>randd\<close>) is a front end of the cipher of a crate. The audio mixer
    (\<open>audiod\<close>) hands buffers between threads under a lock of the runtime. \<open>logd\<close> copies text to files and \<open>inputd\<close>
    copies events between displays and the drivers of keyboards; both start threads.
  \<^item> The initial file system (\<open>bootstrap/src/initfs.rs\<close>, \<open>initfs\<close>) reads typed structures in place from a memory image
    whose layout its tools share through the \<open>plain\<close> crate.
  \<^item> Datagram sockets (\<open>ipcd/src/uds/dgram.rs\<close>) and the null and zero devices (\<open>zerod\<close>): see below.
\<close>

end
